(* ===== verification/Prelude.thy ===== *)
theory Prelude
  imports Main "HOL-Library.Word"
begin

text \<open>
  What every component of the development shares: bytes and byte strings, C string
  access, signed 64-bit values, and the generic lemmas on lists and words that the
  component proofs use.
\<close>

unbundle bit_operations_syntax

section \<open>Bytes and C strings\<close>

type_synonym byte = "8 word"

text \<open>\<open>chr CHR ''x''\<close> is the C character constant, \<open>bytes ''abc''\<close> the C string without its
  terminating NUL.\<close>

abbreviation chr :: "char \<Rightarrow> byte" where "chr c \<equiv> of_char c"

abbreviation bytes :: "string \<Rightarrow> byte list" where "bytes s \<equiv> map of_char s"

abbreviation CR :: byte where "CR \<equiv> 13"
abbreviation LF :: byte where "LF \<equiv> 10"
abbreviation TAB :: byte where "TAB \<equiv> 9"
abbreviation SP :: byte where "SP \<equiv> 32"

text \<open>Reading index \<open>i\<close> of a NUL-terminated string: the terminator is readable, anything
  past it is out of bounds (\<open>None\<close>).\<close>

definition cstr_at :: "byte list \<Rightarrow> nat \<Rightarrow> byte option" where
  "cstr_at s i = (if i < length s then Some (s ! i) else if i = length s then Some 0 else None)"

text \<open>The bytes of \<open>xs\<close> in the half-open range \<open>[i, j)\<close>: what a callback is given when it is
  called with a start pointer and a length.\<close>

definition segment :: "nat \<Rightarrow> nat \<Rightarrow> 'a list \<Rightarrow> 'a list" where
  "segment i j xs = take (j - i) (drop i xs)"

lemma segment_empty [simp]: "segment i i xs = []"
  by (simp add: segment_def)

lemma length_segment [simp]: "j \<le> length xs \<Longrightarrow> length (segment i j xs) = j - i"
  by (simp add: segment_def)

lemma segment_append_segment:
  assumes "i \<le> j" "j \<le> k"
  shows "segment i j xs @ segment j k xs = segment i k xs"
proof -
  obtain a where a: "j = i + a" using assms(1) le_Suc_ex by blast
  obtain b where b: "k = j + b" using assms(2) le_Suc_ex by blast
  show ?thesis by (simp add: a b segment_def take_add add.commute)
qed

lemma segment_appendL: "j \<le> length xs \<Longrightarrow> segment i j (xs @ ys) = segment i j xs"
  by (simp add: segment_def)

lemma segment_appendR:
  "segment (length xs + i) (length xs + j) (xs @ ys) = segment i j ys"
  by (simp add: segment_def)

lemma segment_append_cross:
  assumes "i \<le> length xs"
  shows "segment i (length xs + j) (xs @ ys) = segment i (length xs) xs @ segment 0 j ys"
  using assms by (simp add: segment_def)

lemma segment_Suc:
  "i \<le> j \<Longrightarrow> j < length xs \<Longrightarrow> segment i (Suc j) xs = segment i j xs @ [xs ! j]"
proof -
  assume ij: "i \<le> j" and j: "j < length xs"
  have "segment i (Suc j) xs = segment i j xs @ segment j (Suc j) xs"
    using ij by (simp add: segment_append_segment)
  moreover have "segment j (Suc j) xs = [xs ! j]"
    using j by (simp add: segment_def Cons_nth_drop_Suc [symmetric])
  ultimately show ?thesis by simp
qed

lemma drop_more: "drop n xs = ys @ zs \<Longrightarrow> drop (n + length ys) xs = zs"
  by (metis add.commute append_eq_conv_conj drop_drop)

section \<open>Words\<close>

lemma unat_of_nat_small: "n < 2 ^ LENGTH('a) \<Longrightarrow> unat (of_nat n :: 'a::len word) = n"
  by (simp add: unsigned_of_nat take_bit_nat_eq_self)

lemma unat_lt_power: "unat (w :: 'a::len word) < 2 ^ LENGTH('a)"
  by (rule unsigned_less)

section \<open>Numerals\<close>

text \<open>Numbers as the C library prints them: \<^verbatim>\<open>%x\<close> and \<^verbatim>\<open>%u\<close>.\<close>

definition hex_digit :: "nat \<Rightarrow> byte" where
  "hex_digit k = of_nat (if k < 10 then 48 + k else 87 + k)"

fun hex :: "nat \<Rightarrow> byte list" where
  "hex n = (if n < 16 then [hex_digit n] else hex (n div 16) @ [hex_digit (n mod 16)])"

declare hex.simps [simp del]

fun dec :: "nat \<Rightarrow> byte list" where
  "dec n = (if n < 10 then [of_nat (48 + n)] else dec (n div 10) @ [of_nat (48 + n mod 10)])"

declare dec.simps [simp del]

lemma hex_digits: "set (hex n) \<subseteq> hex_digit ` {..<16}"
  by (induction n rule: hex.induct) (subst hex.simps, auto)

lemma hex_nonempty: "hex n \<noteq> []"
  by (subst hex.simps) simp

lemma hex_length: "0 < k \<Longrightarrow> n < 16 ^ k \<Longrightarrow> length (hex n) \<le> k"
proof (induction n arbitrary: k rule: hex.induct)
  case (1 n)
  show ?case
  proof (cases "n < 16")
    case True
    with 1 show ?thesis by (subst hex.simps) simp
  next
    case False
    with "1.prems" have "k - 1 > 0" by (cases k; cases "k - 1") auto
    moreover have "n div 16 < 16 ^ (k - 1)"
      using "1.prems" by (simp add: less_mult_imp_div_less power_eq_if)
    ultimately have "length (hex (n div 16)) \<le> k - 1" by (rule "1.IH" [OF False])
    with False "1.prems"(1) show ?thesis by (subst hex.simps) simp
  qed
qed

section \<open>Lemma collections\<close>

named_theorems handler_defs \<open>the definitions of the handlers of a state machine\<close>
named_theorems ctl_wp \<open>weakest-precondition rules for the control combinators\<close>

end
