(* ===== verification/Zlib_Register.thy ===== *)
theory Zlib_Register
  imports Zlib_Tables
begin

text \<open>
  The shift register of CRC-32, \<^verbatim>\<open>make_crc_table\<close> of \<^verbatim>\<open>deps/zlib/crc32.c\<close>, and that the tables of
  \<^verbatim>\<open>crc32.h\<close> are the ones it makes.
\<close>

section \<open>Making the tables\<close>

definition crc_terms :: "nat list" where
  "crc_terms = [0, 1, 2, 4, 5, 7, 8, 10, 11, 12, 16, 22, 23, 26]"

definition crc_poly :: u4 where
  "crc_poly = fold (\<lambda>t c. c OR push_bit (31 - t) 1) crc_terms 0"

definition crc_bit :: "u4 \<Rightarrow> u4" where
  "crc_bit c = (if c AND 1 \<noteq> 0 then crc_poly XOR drop_bit 1 c else drop_bit 1 c)"

definition REV :: "u4 \<Rightarrow> u4" where
  "REV w = drop_bit 24 w + (drop_bit 8 w AND 0xff00) + push_bit 8 (w AND 0xff00) + push_bit 24 (w AND 0xff)"

definition first_table :: "u4 list" where
  "first_table = map (\<lambda>n. (crc_bit ^^ 8) (of_nat n)) [0..<256]"

definition next_table :: "u4 list \<Rightarrow> u4 list" where
  "next_table t = map (\<lambda>c. first_table ! unat (c AND 0xff) XOR drop_bit 8 c) t"

definition make_crc_table :: "u4 list list" where
  "make_crc_table =
     (let t = map (\<lambda>k. (next_table ^^ k) first_table) [0..<4]
      in t @ map (map REV) t)"

section \<open>The register is linear\<close>

definition linear :: "(u4 \<Rightarrow> u4) \<Rightarrow> bool" where
  "linear f \<longleftrightarrow> (\<forall>x y. f (x XOR y) = f x XOR f y)"

lemma linearD: "linear f \<Longrightarrow> f (x XOR y) = f x XOR f y"
  by (simp add: linear_def)

lemma linear_0: "linear f \<Longrightarrow> f 0 = 0"
  using linearD [of f 0 0] by simp

lemma linear_comp: "linear f \<Longrightarrow> linear g \<Longrightarrow> linear (\<lambda>x. f (g x))"
  by (simp add: linear_def)

lemma linear_funpow: "linear f \<Longrightarrow> linear (f ^^ n)"
  by (induction n) (simp_all add: linear_def)

lemma crc_bit_alt: "crc_bit c = (if bit c 0 then crc_poly else 0) XOR drop_bit 1 c"
  by (simp add: crc_bit_def and_one_eq bit_0 odd_iff_mod_2_eq_one)

lemma drop_bit_xor: "drop_bit n (x XOR y) = drop_bit n x XOR drop_bit n y" for x y :: "'a::len word"
  by (auto intro!: bit_word_eqI simp: bit_simps)

lemma crc_bit_linear: "linear crc_bit"
  by (auto simp: linear_def crc_bit_alt bit_xor_iff drop_bit_xor ac_simps)

lemma crc_bits_linear: "linear (crc_bit ^^ n)"
  by (rule linear_funpow [OF crc_bit_linear])

lemmas crc_xor = linearD [OF crc_bits_linear]

text \<open>Low bits that are zero are shifted out without a trace.\<close>

lemma crc_bits_shift: "(\<And>i. i < n \<Longrightarrow> \<not> bit c i) \<Longrightarrow> (crc_bit ^^ n) c = drop_bit n c"
proof (induction n)
  case (Suc n)
  then have "(crc_bit ^^ Suc n) c = crc_bit (drop_bit n c)" by simp
  also have "\<dots> = drop_bit (Suc n) c" using Suc.prems [of n] by (simp add: crc_bit_alt bit_drop_bit_eq)
  finally show ?case .
qed simp

lemma byte_bit: "bit b n \<Longrightarrow> n < 8" for b :: byte
  using bit_imp_le_length [of b n] by simp

lemma u4_bit: "bit c n \<Longrightarrow> n < 32" for c :: u4
  using bit_imp_le_length [of c n] by simp

lemma u4_bit_8: "bit c (8 + n) \<Longrightarrow> n < 24" for c :: u4
  using u4_bit [of c "8 + n"] by simp

lemma byte_mask: "(0xff :: u4) = mask 8"
  by (simp add: mask_eq_exp_minus_1)

lemma crc_bits_8: "(crc_bit ^^ 8) x = (crc_bit ^^ 8) (x AND 0xff) XOR drop_bit 8 x"
proof -
  have "x = (x AND 0xff) XOR (x AND NOT 0xff)"
    by (auto intro!: bit_word_eqI simp: bit_simps)
  then have "(crc_bit ^^ 8) x = (crc_bit ^^ 8) (x AND 0xff) XOR (crc_bit ^^ 8) (x AND NOT 0xff)"
    by (metis crc_xor)
  moreover have "(crc_bit ^^ 8) (x AND NOT 0xff) = drop_bit 8 (x AND NOT 0xff)"
    by (rule crc_bits_shift) (simp add: byte_mask bit_simps)
  moreover have "drop_bit 8 (x AND NOT 0xff) = drop_bit 8 x"
    by (auto intro!: bit_word_eqI simp: byte_mask bit_simps dest: u4_bit_8)
  ultimately show ?thesis by simp
qed

section \<open>The entries\<close>

lemma first_table: "unat i < 256 \<Longrightarrow> first_table ! unat i = (crc_bit ^^ 8) i"
  by (simp add: first_table_def)

lemma low_byte: "unat (x AND 0xff :: u4) < 256"
proof -
  have "x AND 0xff = take_bit 8 x" by (simp add: byte_mask take_bit_eq_mask)
  then show ?thesis using take_bit_nat_less_exp [of 8 "unat x"] by (simp add: unsigned_take_bit_eq)
qed

lemma next_table: "next_table (map ((crc_bit ^^ n)) is) = map (crc_bit ^^ (n + 8)) is"
proof -
  have "first_table ! unat (x AND 0xff) XOR drop_bit 8 x = (crc_bit ^^ 8) x" for x
    using crc_bits_8 [of x] first_table [OF low_byte] by simp
  then show ?thesis by (simp add: next_table_def funpow_add add.commute [of n])
qed

lemma tables: "(next_table ^^ k) first_table = map (\<lambda>n. (crc_bit ^^ (8 * Suc k)) (of_nat n)) [0..<256]"
proof (induction k)
  case 0
  show ?case by (simp add: first_table_def)
next
  case (Suc k)
  have "next_table (map (crc_bit ^^ (8 * Suc k)) (map of_nat [0..<256])) =
      map (crc_bit ^^ (8 * Suc k + 8)) (map of_nat [0..<256])" by (rule next_table)
  with Suc show ?case by (simp add: comp_def add.commute del: upt_Suc)
qed

section \<open>The bytes of a word\<close>

definition byte_of :: "nat \<Rightarrow> u4 \<Rightarrow> u4" where
  "byte_of k c = drop_bit (8 * k) c AND 0xff"

lemma byte_of_small: "unat (byte_of k c) < 256"
  unfolding byte_of_def by (rule low_byte)

lemma top_byte: "drop_bit 24 c = byte_of 3 c"
proof (rule bit_word_eqI)
  fix n
  have "n < 8" if "bit c (24 + n)" using u4_bit [OF that] by simp
  then show "bit (drop_bit 24 c) n = bit (byte_of 3 c) n"
    by (auto simp: byte_of_def byte_mask bit_simps)
qed

lemma word_bytes_xor:
  "c = byte_of 0 c XOR push_bit 8 (byte_of 1 c) XOR push_bit 16 (byte_of 2 c) XOR push_bit 24 (byte_of 3 c)"
proof (rule bit_word_eqI)
  fix n assume "n < LENGTH(32)"
  then consider "n < 8" | "8 \<le> n" "n < 16" | "16 \<le> n" "n < 24" | "24 \<le> n" "n < 32" by fastforce
  then show "bit c n = bit (byte_of 0 c XOR push_bit 8 (byte_of 1 c) XOR push_bit 16 (byte_of 2 c) XOR
      push_bit 24 (byte_of 3 c)) n"
    by cases (auto simp: byte_of_def byte_mask bit_simps)
qed

lemma byte_of_ge [simp]: "8 \<le> n \<Longrightarrow> \<not> bit (byte_of k w) n"
  by (simp add: byte_of_def byte_mask bit_simps)

lemma byte_eqI:
  "(\<And>n. n < 8 \<Longrightarrow> bit x n = bit y n) \<Longrightarrow> (\<And>n. 8 \<le> n \<Longrightarrow> \<not> bit x n \<and> \<not> bit y n) \<Longrightarrow> x = y" for x y :: u4
  by (intro bit_word_eqI) (metis not_le)

lemma bit_byte_of: "bit (byte_of k c) n \<longleftrightarrow> n < 8 \<and> bit c (8 * k + n)"
  by (auto simp: byte_of_def byte_mask bit_simps)

lemma byte_of_xor: "byte_of k (c XOR d) = byte_of k c XOR byte_of k d"
  by (auto intro!: bit_word_eqI simp: byte_of_def bit_simps)

lemma REV_bytes:
  "REV w = byte_of 3 w OR push_bit 8 (byte_of 2 w) OR push_bit 16 (byte_of 1 w) OR push_bit 24 (byte_of 0 w)"
proof -
  have high: "(0xff00 :: u4) = push_bit 8 (mask 8)" by (simp add: mask_eq_exp_minus_1 push_bit_eq_mult)
  have "drop_bit 8 w AND 0xff00 = push_bit 8 (byte_of 2 w)"
    "push_bit 8 (w AND 0xff00) = push_bit 16 (byte_of 1 w)"
    "push_bit 24 (w AND 0xff) = push_bit 24 (byte_of 0 w)"
    unfolding high byte_of_def byte_mask by (auto intro!: bit_word_eqI simp: bit_simps)
  then have "REV w = byte_of 3 w + push_bit 8 (byte_of 2 w) + push_bit 16 (byte_of 1 w) + push_bit 24 (byte_of 0 w)"
    by (simp add: REV_def top_byte)
  moreover have "byte_of 3 w + push_bit 8 (byte_of 2 w) = byte_of 3 w OR push_bit 8 (byte_of 2 w)"
    by (rule disjunctive_add) (auto simp: bit_simps not_le intro: ccontr)
  moreover have "(byte_of 3 w OR push_bit 8 (byte_of 2 w)) + push_bit 16 (byte_of 1 w) =
      (byte_of 3 w OR push_bit 8 (byte_of 2 w)) OR push_bit 16 (byte_of 1 w)"
    by (rule disjunctive_add) (auto simp: bit_simps)
  moreover have "(byte_of 3 w OR push_bit 8 (byte_of 2 w) OR push_bit 16 (byte_of 1 w)) + push_bit 24 (byte_of 0 w) =
      (byte_of 3 w OR push_bit 8 (byte_of 2 w) OR push_bit 16 (byte_of 1 w)) OR push_bit 24 (byte_of 0 w)"
    by (rule disjunctive_add) (auto simp: bit_simps)
  ultimately show ?thesis by (simp add: or.assoc)
qed

lemma byte_of_REV:
  "byte_of 0 (REV w) = byte_of 3 w" "byte_of 1 (REV w) = byte_of 2 w"
  "byte_of 2 (REV w) = byte_of 1 w" "byte_of 3 (REV w) = byte_of 0 w"
  by (rule byte_eqI; simp add: bit_byte_of REV_bytes bit_simps)+

lemma bytes_eqI:
  assumes "byte_of 0 c = byte_of 0 d" "byte_of 1 c = byte_of 1 d" "byte_of 2 c = byte_of 2 d"
    "byte_of 3 c = byte_of 3 d"
  shows "c = d"
  using word_bytes_xor [of c] word_bytes_xor [of d] assms by simp

lemma REV_REV [simp]: "REV (REV w) = w"
  by (rule bytes_eqI) (simp_all only: byte_of_REV)

lemma REV_xor: "REV (c XOR d) = REV c XOR REV d"
  by (rule bytes_eqI) (simp_all only: byte_of_REV byte_of_xor)

lemma REV_not: "REV (NOT c) = NOT (REV c)"
proof -
  have "REV (- 1) = - 1" by code_simp
  moreover have "NOT x = x XOR - 1" for x :: u4 by simp
  ultimately show ?thesis using REV_xor [of c "- 1"] by simp
qed

lemma byte_of_shift:
  "byte_of 0 (drop_bit 8 c) = byte_of 1 c" "byte_of 1 (drop_bit 8 c) = byte_of 2 c"
  "byte_of 2 (drop_bit 8 c) = byte_of 3 c" "byte_of 3 (drop_bit 8 c) = 0"
  "byte_of 0 (push_bit 8 c) = 0" "byte_of 1 (push_bit 8 c) = byte_of 0 c"
  "byte_of 2 (push_bit 8 c) = byte_of 1 c" "byte_of 3 (push_bit 8 c) = byte_of 2 c"
  by (rule byte_eqI; auto simp: bit_byte_of bit_simps dest: u4_bit)+

lemma REV_drop: "REV (drop_bit 8 c) = push_bit 8 (REV c)"
  by (rule bytes_eqI) (simp_all only: byte_of_REV byte_of_shift)

lemma REV_linear: "linear REV"
  by (simp add: linear_def REV_xor)

section \<open>The tables of the header\<close>

text \<open>A table of a linear function is made from its entries at the powers of two.\<close>

definition spanned :: "u4 list \<Rightarrow> u4 list" where
  "spanned bases = fold (\<lambda>b t. t @ map ((XOR) b) t) bases [0]"

lemma upt_double: "[0..<2 ^ Suc k] = [0..<2 ^ k] @ map ((+) (2 ^ k)) [0..<2 ^ k]"
proof -
  have "[0..<2 ^ Suc k] = [0..<2 ^ k] @ [2 ^ k..<2 ^ k + 2 ^ k]"
    by (simp add: upt_add_eq_append [of 0 "2 ^ k" "2 ^ k", simplified] mult_2)
  also have "[2 ^ k..<2 ^ k + 2 ^ k] = map ((+) (2 ^ k)) [0..<2 ^ k :: nat]"
    by (rule nth_equalityI) simp_all
  finally show ?thesis .
qed

lemma top_and_low: "i < 2 ^ k \<Longrightarrow> (of_nat (2 ^ k + i) :: u4) = 2 ^ k XOR of_nat i"
proof -
  assume "i < 2 ^ k"
  then have low: "take_bit k (of_nat i :: u4) = of_nat i"
    by (simp add: take_bit_of_nat take_bit_nat_eq_self)
  have off: "\<not> bit (of_nat i :: u4) k"
    by (subst low [symmetric]) (simp add: bit_simps)
  have "(of_nat (2 ^ k + i) :: u4) = 2 ^ k + of_nat i" by simp
  also have "\<dots> = 2 ^ k OR of_nat i" by (rule disjunctive_add) (use off in \<open>auto simp: bit_simps\<close>)
  also have "\<dots> = 2 ^ k XOR of_nat i" using off by (auto intro!: bit_word_eqI simp: bit_simps)
  finally show ?thesis .
qed

lemma spanned_snoc: "spanned (bs @ [b]) = spanned bs @ map ((XOR) b) (spanned bs)"
  by (simp add: spanned_def)

lemma spanned_table:
  assumes "linear f"
  shows "map (\<lambda>n. f (of_nat n)) [0..<2 ^ k] = spanned (map (\<lambda>i. f (2 ^ i)) [0..<k])"
proof (induction k)
  case 0
  then show ?case using assms by (simp add: spanned_def linear_0)
next
  case (Suc k)
  have "map (\<lambda>n. f (of_nat n)) (map ((+) (2 ^ k)) [0..<2 ^ k]) =
      map ((XOR) (f (2 ^ k))) (map (\<lambda>n. f (of_nat n)) [0..<2 ^ k])"
    unfolding map_map comp_def
    by (rule map_cong [OF refl]) (simp add: top_and_low linearD [OF assms] del: of_nat_add)
  moreover have "map (\<lambda>i. f (2 ^ i)) [0..<Suc k] = map (\<lambda>i. f (2 ^ i)) [0..<k] @ [f (2 ^ k)]" by simp
  ultimately show ?case using Suc.IH unfolding upt_double map_append by (simp only: spanned_snoc)
qed


lemma crc_poly_value: "crc_poly = 0xedb88320"
  by (simp add: crc_poly_def crc_terms_def)

lemma crc_bit_value: "crc_bit c = (if odd c then 0xedb88320 XOR drop_bit 1 c else drop_bit 1 c)"
  by (simp add: crc_bit_def crc_poly_value and_one_eq odd_iff_mod_2_eq_one)

definition crc_bases :: "nat \<Rightarrow> u4 list" where
  "crc_bases k = map (\<lambda>i. (crc_bit ^^ (8 * Suc k)) (2 ^ i)) [0..<8]"

lemma table_spanned: "(next_table ^^ k) first_table = spanned (crc_bases k)"
  using spanned_table [OF crc_bits_linear, of "8 * Suc k" 8] unfolding tables crc_bases_def by simp

text \<open>One register run of 32 steps gives the entries at the powers of two of all the tables.\<close>

definition crc_run :: "u4 list" where
  "crc_run = rev (fold (\<lambda>_ cs. crc_bit (hd cs) # cs) [0..<32] [1])"

lemma crc_run: "crc_run = map (\<lambda>j. (crc_bit ^^ j) 1) [0..<33]"
proof -
  have "fold (\<lambda>_ cs. crc_bit (hd cs) # cs) [0..<n] [1] = rev (map (\<lambda>j. (crc_bit ^^ j) 1) [0..<Suc n])" for n
    by (induction n) simp_all
  from this [of 32] show ?thesis by (simp add: crc_run_def del: upt_Suc)
qed

lemma crc_bits_power: "i \<le> n \<Longrightarrow> i < 32 \<Longrightarrow> (crc_bit ^^ n) (2 ^ i) = (crc_bit ^^ (n - i)) 1"
proof -
  assume "i \<le> n" "i < 32"
  have "(crc_bit ^^ i) (2 ^ i) = drop_bit i (2 ^ i)" by (rule crc_bits_shift) (auto simp: bit_simps)
  also have "drop_bit i (2 ^ i) = (1 :: u4)" using \<open>i < 32\<close>
    by (auto intro!: bit_word_eqI simp: bit_simps)
  finally show ?thesis using \<open>i \<le> n\<close> funpow_add [of "n - i" i crc_bit] by simp
qed

lemma crc_bases: "k < 4 \<Longrightarrow> crc_bases k = rev (take 8 (drop (8 * k + 1) crc_run))"
proof (rule nth_equalityI)
  assume "k < 4"
  then show "length (crc_bases k) = length (rev (take 8 (drop (8 * k + 1) crc_run)))"
    by (simp add: crc_bases_def crc_run)
  fix i assume "i < length (crc_bases k)"
  then have "i < 8" by (simp add: crc_bases_def)
  with \<open>k < 4\<close> have "[0..<33] ! (8 + 8 * k - i) = 8 + 8 * k - i" by (subst nth_upt) auto
  moreover have "8 + 8 * k - i = Suc (8 * k + 7 - i)" using \<open>i < 8\<close> by simp
  ultimately show "crc_bases k ! i = rev (take 8 (drop (8 * k + 1) crc_run)) ! i"
    using \<open>k < 4\<close> \<open>i < 8\<close>
    by (simp add: crc_bases_def crc_run rev_nth crc_bits_power del: upt_Suc funpow.simps)
qed

lemma crc_run_value:
  "crc_run =
    [1, 0xedb88320, 0x76dc4190, 0x3b6e20c8, 0x1db71064, 0xedb8832, 0x76dc419, 0xee0e612c,
     0x77073096, 0x3b83984b, 0xf0794f05, 0x958424a2, 0x4ac21251, 0xc8d98a08, 0x646cc504, 0x32366282,
     0x191b3141, 0xe1351b80, 0x709a8dc0, 0x384d46e0, 0x1c26a370, 0xe1351b8, 0x709a8dc, 0x384d46e,
     0x1c26a37, 0xed59b63b, 0x9b14583d, 0xa032af3e, 0x5019579f, 0xc5b428ef, 0x8f629757, 0xaa09c88b,
     0xb8bc6765]"
  by (simp add: crc_run_def upt_rec crc_bit_value del: upt_Suc)

lemmas spanning = crc_bases crc_run_value spanned_def

lemma crc_table_0: "spanned (crc_bases 0) = crc_table_0"
  by (simp add: spanning crc_table_0_def)

lemma crc_table_1: "spanned (crc_bases 1) = crc_table_1"
  by (simp add: spanning crc_table_1_def)

lemma crc_table_2: "spanned (crc_bases 2) = crc_table_2"
  by (simp add: spanning crc_table_2_def)

lemma crc_table_3: "spanned (crc_bases 3) = crc_table_3"
  by (simp add: spanning crc_table_3_def)

text \<open>The tables for big-endian machines are the byte-swapped ones.\<close>

lemma map_REV: "map REV (spanned bs) = spanned (map REV bs)"
proof (induction bs rule: rev_induct)
  case Nil
  show ?case by (simp add: spanned_def REV_def)
next
  case (snoc b bs)
  have "map (\<lambda>c. REV b XOR REV c) (spanned bs) = map ((XOR) (REV b)) (map REV (spanned bs))" by simp
  with snoc show ?case by (simp add: spanned_snoc REV_xor comp_def)
qed

lemma crc_table_4: "map REV crc_table_0 = crc_table_4"
  unfolding crc_table_0 [symmetric] map_REV by (simp add: spanning REV_def crc_table_4_def)

lemma crc_table_5: "map REV crc_table_1 = crc_table_5"
  unfolding crc_table_1 [symmetric] map_REV by (simp add: spanning REV_def crc_table_5_def)

lemma crc_table_6: "map REV crc_table_2 = crc_table_6"
  unfolding crc_table_2 [symmetric] map_REV by (simp add: spanning REV_def crc_table_6_def)

lemma crc_table_7: "map REV crc_table_3 = crc_table_7"
  unfolding crc_table_3 [symmetric] map_REV by (simp add: spanning REV_def crc_table_7_def)

lemmas table_values = crc_table_0 crc_table_1 crc_table_2 crc_table_3 crc_table_4 crc_table_5 crc_table_6 crc_table_7

lemma crc_tables_eq: "crc_tables = make_crc_table"
proof -
  have "[0..<4] = [0, 1, 2, 3 :: nat]" by (simp add: upt_rec)
  then show ?thesis
    unfolding make_crc_table_def table_spanned Let_def
    by (simp only: list.map append.simps table_values table_values [unfolded One_nat_def] crc_tables_def)
qed

text \<open>
  C19: The eight tables of \<^verbatim>\<open>crc32.h\<close>, 2048 literals, are exactly the tables that
  \<^verbatim>\<open>make_crc_table\<close> computes from the terms of the polynomial, so a build with
  \<^verbatim>\<open>DYNAMIC_CRC_TABLE\<close> and one without compute the same checksums.
\<close>

theorem crc_tables_made: "crc_tables = make_crc_table"
  by (rule crc_tables_eq)

end
