(* ===== verification/Zlib_Crc.thy ===== *)
theory Zlib_Crc
  imports Zlib_Register "HOL-Library.Monad_Syntax"
begin

text \<open>
  The checksum CRC-32 of zlib, \<^verbatim>\<open>deps/zlib/crc32.c\<close>, with \<^verbatim>\<open>BYFOUR\<close> defined: the tables, the
  computation four bytes at a time on machines of either byte order, and the combination of the
  checksums of two pieces.  \<^verbatim>\<open>u4\<close> has 32 bits, \<^verbatim>\<open>unsigned long\<close> 64.  The matrices of the combination
  are arrays of 32 elements; reading further is \<open>None\<close>.
\<close>

type_synonym ulong = "64 word"

definition crc_table :: "nat \<Rightarrow> u4 \<Rightarrow> u4" where
  "crc_table k i = crc_tables ! k ! unat i"

section \<open>Four bytes at a time\<close>

definition DO_LIT1 :: "byte \<Rightarrow> u4 \<Rightarrow> u4" where
  "DO_LIT1 b c = crc_table 0 ((c XOR ucast b) AND 0xff) XOR drop_bit 8 c"

text \<open>The word at an aligned address, as a machine of either byte order reads it.\<close>

definition word_le :: "byte list \<Rightarrow> u4" where
  "word_le bs = ucast (bs ! 0) OR push_bit 8 (ucast (bs ! 1)) OR push_bit 16 (ucast (bs ! 2)) OR
     push_bit 24 (ucast (bs ! 3))"

definition word_be :: "byte list \<Rightarrow> u4" where
  "word_be bs = ucast (bs ! 3) OR push_bit 8 (ucast (bs ! 2)) OR push_bit 16 (ucast (bs ! 1)) OR
     push_bit 24 (ucast (bs ! 0))"

definition DOLIT4 :: "byte list \<Rightarrow> u4 \<Rightarrow> u4" where
  "DOLIT4 bs c =
     (let c = c XOR word_le bs
      in crc_table 3 (c AND 0xff) XOR crc_table 2 (drop_bit 8 c AND 0xff) XOR
         crc_table 1 (drop_bit 16 c AND 0xff) XOR crc_table 0 (drop_bit 24 c))"

definition DO_BIG1 :: "byte \<Rightarrow> u4 \<Rightarrow> u4" where
  "DO_BIG1 b c = crc_table 4 (drop_bit 24 c XOR ucast b) XOR push_bit 8 c"

definition DOBIG4 :: "byte list \<Rightarrow> u4 \<Rightarrow> u4" where
  "DOBIG4 bs c =
     (let c = c XOR word_be bs
      in crc_table 4 (c AND 0xff) XOR crc_table 5 (drop_bit 8 c AND 0xff) XOR
         crc_table 6 (drop_bit 16 c AND 0xff) XOR crc_table 7 (drop_bit 24 c))"

text \<open>The loops of both versions: \<open>one\<close> and \<open>four\<close> are the steps.  Each gives the bytes that are
  left and the register.\<close>

fun to_aligned :: "(byte \<Rightarrow> u4 \<Rightarrow> u4) \<Rightarrow> nat \<Rightarrow> byte list \<Rightarrow> u4 \<Rightarrow> byte list \<times> u4" where
  "to_aligned one addr [] c = ([], c)"
| "to_aligned one addr (b # bs) c =
     (if addr mod 4 \<noteq> 0 then to_aligned one (addr + 1) bs (one b c) else (b # bs, c))"

primrec unrolled :: "nat \<Rightarrow> (byte list \<Rightarrow> u4 \<Rightarrow> u4) \<Rightarrow> byte list \<Rightarrow> u4 \<Rightarrow> u4" where
  "unrolled 0 four bs c = c"
| "unrolled (Suc n) four bs c = unrolled n four (drop 4 bs) (four (take 4 bs) c)"

function while_32 :: "(byte list \<Rightarrow> u4 \<Rightarrow> u4) \<Rightarrow> byte list \<Rightarrow> u4 \<Rightarrow> byte list \<times> u4" where
  "while_32 four bs c =
     (if length bs \<ge> 32 then while_32 four (drop 32 bs) (unrolled 8 four bs c) else (bs, c))"
  by auto
termination
  by (relation "measure (\<lambda>(four, bs, c). length bs)") auto

declare while_32.simps [simp del]

function while_4 :: "(byte list \<Rightarrow> u4 \<Rightarrow> u4) \<Rightarrow> byte list \<Rightarrow> u4 \<Rightarrow> byte list \<times> u4" where
  "while_4 four bs c =
     (if length bs \<ge> 4 then while_4 four (drop 4 bs) (four (take 4 bs) c) else (bs, c))"
  by auto
termination
  by (relation "measure (\<lambda>(four, bs, c). length bs)") auto

declare while_4.simps [simp del]

definition all_bytes ::
  "(byte \<Rightarrow> u4 \<Rightarrow> u4) \<Rightarrow> (byte list \<Rightarrow> u4 \<Rightarrow> u4) \<Rightarrow> nat \<Rightarrow> byte list \<Rightarrow> u4 \<Rightarrow> u4" where
  "all_bytes one four addr bs c =
     (let (bs, c) = to_aligned one addr bs c;
          (bs, c) = while_32 four bs c;
          (bs, c) = while_4 four bs c
      in fold one bs c)"

definition crc32_little :: "ulong \<Rightarrow> nat \<Rightarrow> byte list \<Rightarrow> ulong" where
  "crc32_little crc addr bs = ucast (NOT (all_bytes DO_LIT1 DOLIT4 addr bs (NOT (ucast crc))))"

definition crc32_big :: "ulong \<Rightarrow> nat \<Rightarrow> byte list \<Rightarrow> ulong" where
  "crc32_big crc addr bs = ucast (REV (NOT (all_bytes DO_BIG1 DOBIG4 addr bs (NOT (REV (ucast crc))))))"

text \<open>The buffer at address \<open>addr\<close>, or \<open>None\<close> for the null pointer.\<close>

definition crc32 :: "bool \<Rightarrow> ulong \<Rightarrow> nat \<Rightarrow> byte list option \<Rightarrow> ulong" where
  "crc32 little crc addr buf =
     (case buf of None \<Rightarrow> 0
      | Some bs \<Rightarrow> if little then crc32_little crc addr bs else crc32_big crc addr bs)"

section \<open>Combination\<close>

definition GF2_DIM :: nat where "GF2_DIM = 32"

fun gf2_sum :: "ulong list \<Rightarrow> ulong \<Rightarrow> ulong \<Rightarrow> ulong option" where
  "gf2_sum mat vec acc =
     (if vec = 0 then Some acc
      else case mat of
             [] \<Rightarrow> None
           | m # mat \<Rightarrow> gf2_sum mat (drop_bit 1 vec) (if vec AND 1 \<noteq> 0 then acc XOR m else acc))"

declare gf2_sum.simps [simp del]

definition gf2_matrix_times :: "ulong list \<Rightarrow> ulong \<Rightarrow> ulong option" where
  "gf2_matrix_times mat vec = gf2_sum mat vec 0"

definition gf2_matrix_square :: "ulong list \<Rightarrow> ulong list option" where
  "gf2_matrix_square mat = those (map (gf2_matrix_times mat) mat)"

definition one_zero_bit :: "ulong list" where
  "one_zero_bit = 0xedb88320 # map (\<lambda>n. push_bit n 1) [0..<GF2_DIM - 1]"

definition apply_zeros :: "int \<Rightarrow> ulong list \<Rightarrow> ulong \<Rightarrow> ulong option" where
  "apply_zeros len2 mat crc1 = (if len2 AND 1 \<noteq> 0 then gf2_matrix_times mat crc1 else Some crc1)"

text \<open>The length is signed: the loop does not end when it is negative.\<close>

partial_function (option) combine_loop :: "ulong list \<Rightarrow> ulong \<Rightarrow> int \<Rightarrow> ulong option" where
  "combine_loop odds crc1 len2 = do {
     evens \<leftarrow> gf2_matrix_square odds;
     crc1 \<leftarrow> apply_zeros len2 evens crc1;
     if drop_bit 1 len2 = 0 then Some crc1
     else do {
       odds \<leftarrow> gf2_matrix_square evens;
       crc1 \<leftarrow> apply_zeros (drop_bit 1 len2) odds crc1;
       if drop_bit 2 len2 \<noteq> 0 then combine_loop odds crc1 (drop_bit 2 len2) else Some crc1
     }
   }"

declare combine_loop.simps [code]

definition crc32_combine :: "ulong \<Rightarrow> ulong \<Rightarrow> int \<Rightarrow> ulong option" where
  "crc32_combine crc1 crc2 len2 =
     (if len2 = 0 then Some crc1
      else do {
        evens \<leftarrow> gf2_matrix_square one_zero_bit;
        odds \<leftarrow> gf2_matrix_square evens;
        crc1 \<leftarrow> combine_loop odds crc1 len2;
        Some (crc1 XOR crc2)
      })"

end
