(* ===== verification/Zlib_Crc_Spec.thy ===== *)
theory Zlib_Crc_Spec
  imports Zlib_Crc
begin

text \<open>
  The checksum as a shift register, one bit at a time, and that every way in which \<^verbatim>\<open>crc32.c\<close>
  computes it gives the same; the register is linear over exclusive-or, which is what the
  combination of checksums rests on.
\<close>

section \<open>The shift register\<close>

definition crc_byte :: "byte \<Rightarrow> u4 \<Rightarrow> u4" where
  "crc_byte b c = (crc_bit ^^ 8) (c XOR ucast b)"

text \<open>The checksum of a piece: the register starts and ends inverted.\<close>

definition crc_of :: "u4 \<Rightarrow> byte list \<Rightarrow> u4" where
  "crc_of crc bs = NOT (fold crc_byte bs (NOT crc))"

section \<open>Looking up a byte\<close>

lemma crc_table:
  assumes "unat i < 256"
  shows "crc_table 0 i = (crc_bit ^^ 8) i" "crc_table 1 i = (crc_bit ^^ 16) i"
    "crc_table 2 i = (crc_bit ^^ 24) i" "crc_table 3 i = (crc_bit ^^ 32) i"
    "crc_table 4 i = REV ((crc_bit ^^ 8) i)" "crc_table 5 i = REV ((crc_bit ^^ 16) i)"
    "crc_table 6 i = REV ((crc_bit ^^ 24) i)" "crc_table 7 i = REV ((crc_bit ^^ 32) i)"
  using assms
  by (simp_all add: crc_table_def crc_tables_eq make_crc_table_def tables nth_append Let_def del: funpow.simps)

section \<open>Bytes of a word\<close>

lemma drop_byte: "drop_bit 8 (ucast b :: u4) = 0" for b :: byte
  by (auto intro!: bit_word_eqI simp: bit_simps dest: byte_bit)

lemma and_byte: "(ucast b :: u4) AND 0xff = ucast b" for b :: byte
  by (auto intro!: bit_word_eqI simp: byte_mask bit_simps dest: byte_bit)

lemma DO_LIT1: "DO_LIT1 = crc_byte"
proof (intro ext)
  show "DO_LIT1 b c = crc_byte b c" for b c
    using crc_bits_8 [of "c XOR ucast b"]
    by (simp add: DO_LIT1_def crc_byte_def crc_table low_byte drop_bit_xor drop_byte)
qed

lemma crc_push:
  assumes "unat x < 256" "k \<le> 24"
  shows "(crc_bit ^^ (n + k)) (push_bit k x) = (crc_bit ^^ n) x"
proof -
  have x: "\<not> bit x i" if "8 \<le> i" for i
  proof -
    have "take_bit 8 (unat x) = unat x" using assms(1) by (simp add: take_bit_nat_eq_self_iff)
    then have "\<not> bit (unat x) i" using that by (metis bit_take_bit_iff not_le)
    then show ?thesis by (auto simp: bit_unsigned_iff dest: bit_imp_possible_bit)
  qed
  have x_low: "n < 8" if "bit x n" for n using x [of n] that by linarith
  have "(crc_bit ^^ k) (push_bit k x) = drop_bit k (push_bit k x)"
    by (rule crc_bits_shift) (simp add: bit_push_bit_iff)
  also have "\<dots> = x"
    using assms(2) by (intro bit_word_eqI) (auto simp: bit_simps dest: x_low)
  finally show ?thesis by (simp add: funpow_add)
qed

lemma crc_32:
  "(crc_bit ^^ 32) c = (crc_bit ^^ 32) (byte_of 0 c) XOR (crc_bit ^^ 24) (byte_of 1 c) XOR
     (crc_bit ^^ 16) (byte_of 2 c) XOR (crc_bit ^^ 8) (byte_of 3 c)"
proof -
  note push = crc_push [OF byte_of_small, of 8] crc_push [OF byte_of_small, of 16]
    crc_push [OF byte_of_small, of 24]
  have "(crc_bit ^^ 32) c = (crc_bit ^^ 32) (byte_of 0 c) XOR (crc_bit ^^ (24 + 8)) (push_bit 8 (byte_of 1 c)) XOR
      (crc_bit ^^ (16 + 16)) (push_bit 16 (byte_of 2 c)) XOR (crc_bit ^^ (8 + 24)) (push_bit 24 (byte_of 3 c))"
    by (subst word_bytes_xor [of c]) (simp only: crc_xor arith_simps)
  then show ?thesis by (simp only: push)
qed

lemma byte_ge [simp]: "8 \<le> n \<Longrightarrow> \<not> bit b n" for b :: byte
  using byte_bit [of b n] by linarith

lemma bytes_of_le:
  "byte_of 0 (word_le bs) = ucast (bs ! 0)" "byte_of 1 (word_le bs) = ucast (bs ! 1)"
  "byte_of 2 (word_le bs) = ucast (bs ! 2)" "byte_of 3 (word_le bs) = ucast (bs ! 3)"
  by (rule byte_eqI; simp add: bit_byte_of word_le_def bit_simps)+

lemma low_bytes:
  "c AND 0xff = byte_of 0 c" "byte_of 0 (drop_bit 8 c) = byte_of 1 c" "byte_of 0 (drop_bit 16 c) = byte_of 2 c"
  by (simp_all add: byte_of_def)

lemma DOLIT4_crc: "DOLIT4 bs c = (crc_bit ^^ 32) (c XOR word_le bs)"
  unfolding crc_32 [of "c XOR word_le bs"] DOLIT4_def Let_def
  by (simp only: low_bytes top_byte crc_table byte_of_small)

text \<open>Four single steps do the same.\<close>

lemma four_bytes:
  assumes "length bs = 4"
  shows "fold crc_byte bs c = (crc_bit ^^ 32) (c XOR word_le bs)"
proof -
  obtain a0 a1 a2 a3 where bs: "bs = [a0, a1, a2, a3]"
    using assms by (auto simp: length_Suc_conv eval_nat_numeral)
  have "word_le bs = ucast a0 XOR push_bit 8 (ucast a1) XOR push_bit 16 (ucast a2) XOR push_bit 24 (ucast a3)"
    using word_bytes_xor [of "word_le bs"] bytes_of_le [of bs] by (simp add: bs)
  then have "(crc_bit ^^ 32) (c XOR word_le bs) = (crc_bit ^^ 32) c XOR (crc_bit ^^ 32) (ucast a0) XOR
      (crc_bit ^^ 24) (ucast a1) XOR (crc_bit ^^ 16) (ucast a2) XOR (crc_bit ^^ 8) (ucast a3)"
    using crc_32 [of "word_le bs"] bytes_of_le [of bs] by (simp add: crc_xor bs ac_simps del: funpow.simps)
  moreover have "fold crc_byte bs c = (crc_bit ^^ (8 + 8 + 8 + 8)) c XOR (crc_bit ^^ (8 + 8 + 8 + 8)) (ucast a0) XOR
      (crc_bit ^^ (8 + 8 + 8)) (ucast a1) XOR (crc_bit ^^ (8 + 8)) (ucast a2) XOR (crc_bit ^^ 8) (ucast a3)"
    by (simp only: bs fold.simps crc_byte_def crc_xor funpow_add comp_def id_apply ac_simps)
  ultimately show ?thesis by (simp del: funpow.simps)
qed

section \<open>Either byte order\<close>

text \<open>Both versions are a sequence of single steps.\<close>

locale word_steps =
  fixes one :: "byte \<Rightarrow> u4 \<Rightarrow> u4" and four :: "byte list \<Rightarrow> u4 \<Rightarrow> u4"
  assumes four: "length bs = 4 \<Longrightarrow> four bs c = fold one bs c"
begin

lemma aligned: "to_aligned one addr bs c = (rest, d) \<Longrightarrow> fold one rest d = fold one bs c"
  by (induction one addr bs c rule: to_aligned.induct) (auto split: if_splits)

lemma unrolled_fold: "4 * n \<le> length bs \<Longrightarrow> unrolled n four bs c = fold one (take (4 * n) bs) c"
proof (induction n arbitrary: bs c)
  case (Suc n)
  have "fold one (take (4 * Suc n) bs) c = fold one (take (4 * n) (drop 4 bs)) (fold one (take 4 bs) c)"
    using take_add [of 4 "4 * n" bs] by simp
  with Suc four [of "take 4 bs" c] show ?case by simp
qed simp

lemma fold_take_drop: "fold one (drop n bs) (fold one (take n bs) c) = fold one bs c"
  by (metis append_take_drop_id comp_apply fold_append)

lemma while_32_fold: "while_32 four bs c = (rest, d) \<Longrightarrow> fold one rest d = fold one bs c"
proof (induction "length bs" arbitrary: bs c rule: less_induct)
  case less
  show ?case
  proof (cases "length bs \<ge> 32")
    case True
    with less.prems have "while_32 four (drop 32 bs) (unrolled 8 four bs c) = (rest, d)"
      by (subst (asm) while_32.simps) simp
    with less.hyps [of "drop 32 bs"] True have "fold one rest d = fold one (drop 32 bs) (unrolled 8 four bs c)"
      by simp
    with unrolled_fold [of 8 bs c] True show ?thesis by (simp add: fold_take_drop)
  next
    case False
    with less.prems show ?thesis by (subst (asm) while_32.simps) simp
  qed
qed

lemma while_4_fold: "while_4 four bs c = (rest, d) \<Longrightarrow> fold one rest d = fold one bs c"
proof (induction "length bs" arbitrary: bs c rule: less_induct)
  case less
  show ?case
  proof (cases "length bs \<ge> 4")
    case True
    with less.prems have "while_4 four (drop 4 bs) (four (take 4 bs) c) = (rest, d)"
      by (subst (asm) while_4.simps) simp
    with less.hyps [of "drop 4 bs"] True four [of "take 4 bs" c] show ?thesis by (simp add: fold_take_drop)
  next
    case False
    with less.prems show ?thesis by (subst (asm) while_4.simps) simp
  qed
qed

lemma all_bytes_fold: "all_bytes one four addr bs c = fold one bs c"
proof -
  obtain r1 c1 where 1: "to_aligned one addr bs c = (r1, c1)" by fastforce
  obtain r2 c2 where 2: "while_32 four r1 c1 = (r2, c2)" by fastforce
  obtain r3 c3 where 3: "while_4 four r2 c2 = (r3, c3)" by fastforce
  show ?thesis
    using aligned [OF 1] while_32_fold [OF 2] while_4_fold [OF 3] by (simp add: all_bytes_def 1 2 3)
qed

end

interpretation lit: word_steps DO_LIT1 DOLIT4
proof
  show "DOLIT4 bs c = fold DO_LIT1 bs c" if "length bs = 4" for bs c
    using four_bytes [OF that] by (simp add: DOLIT4_crc DO_LIT1)
qed

text \<open>On a machine with the other byte order the register is kept reversed.\<close>

lemma bytes_of_be:
  "byte_of 0 (word_be bs) = ucast (bs ! 3)" "byte_of 1 (word_be bs) = ucast (bs ! 2)"
  "byte_of 2 (word_be bs) = ucast (bs ! 1)" "byte_of 3 (word_be bs) = ucast (bs ! 0)"
  by (rule byte_eqI; simp add: bit_byte_of word_be_def bit_simps)+

lemma word_be: "word_be bs = REV (word_le bs)"
  by (rule bytes_eqI) (simp_all only: byte_of_REV bytes_of_be bytes_of_le)

lemma DO_BIG1_REV: "DO_BIG1 b (REV c) = REV (crc_byte b c)"
proof -
  have byte0: "byte_of 0 (ucast b) = ucast b" by (simp add: byte_of_def and_byte)
  have "crc_byte b c = (crc_bit ^^ 8) (byte_of 0 (c XOR ucast b)) XOR drop_bit 8 c"
    using crc_bits_8 [of "c XOR ucast b"]
    by (simp only: crc_byte_def drop_bit_xor drop_byte xor.right_neutral low_bytes)
  then show ?thesis
    using crc_table(5) [OF byte_of_small [of 0 "c XOR ucast b"]]
    by (simp add: DO_BIG1_def top_byte byte_of_REV REV_xor REV_drop byte_of_xor byte0)
qed

lemma DOBIG4_REV: "DOBIG4 bs (REV c) = REV (DOLIT4 bs c)"
proof -
  have "DOBIG4 bs (REV c) = crc_table 4 (byte_of 3 (c XOR word_le bs)) XOR crc_table 5 (byte_of 2 (c XOR word_le bs)) XOR
      crc_table 6 (byte_of 1 (c XOR word_le bs)) XOR crc_table 7 (byte_of 0 (c XOR word_le bs))"
    unfolding DOBIG4_def Let_def word_be REV_xor [symmetric]
    by (simp only: low_bytes top_byte byte_of_REV)
  also have "\<dots> = REV ((crc_bit ^^ 32) (c XOR word_le bs))"
    unfolding crc_32 [of "c XOR word_le bs"] REV_xor
    by (simp only: crc_table byte_of_small ac_simps)
  finally show ?thesis by (simp add: DOLIT4_crc)
qed

lemma fold_BIG1: "fold DO_BIG1 bs (REV c) = REV (fold crc_byte bs c)"
  by (induction bs arbitrary: c) (simp_all add: DO_BIG1_REV)

interpretation big: word_steps DO_BIG1 DOBIG4
proof
  show "DOBIG4 bs c = fold DO_BIG1 bs c" if "length bs = 4" for bs c
    using DOBIG4_REV [of bs "REV c"] fold_BIG1 [of bs "REV c"] four_bytes [OF that, of "REV c"]
    by (simp add: DOLIT4_crc)
qed

lemma crc32_of:
  "crc32 little crc addr (Some bs) = ucast (crc_of (ucast crc) bs)"
proof (cases little)
  case True
  then show ?thesis
    by (simp add: crc32_def crc32_little_def lit.all_bytes_fold [unfolded DO_LIT1] DO_LIT1 crc_of_def)
next
  case False
  have "all_bytes DO_BIG1 DOBIG4 addr bs (NOT (REV (ucast crc))) = REV (fold crc_byte bs (NOT (ucast crc)))"
    unfolding big.all_bytes_fold REV_not [symmetric] by (rule fold_BIG1)
  with False show ?thesis by (simp add: crc32_def crc32_big_def crc_of_def REV_not)
qed

end
