(* ===== verification/Zlib_Combine.thy ===== *)
theory Zlib_Combine
  imports Zlib_Crc_Spec
begin

text \<open>
  The combination of checksums: the matrices of \<^verbatim>\<open>crc32_combine\<close> are powers of the step of the
  shift register, and the loop over the bits of the length multiplies the right ones.
\<close>

section \<open>Zero bytes\<close>

lemma fold_crc_xor: "fold crc_byte bs (x XOR y) = fold crc_byte bs x XOR (crc_bit ^^ (8 * length bs)) y"
proof (induction bs arbitrary: x y)
  case (Cons b bs)
  have "crc_byte b (x XOR y) = crc_byte b x XOR (crc_bit ^^ 8) y"
    by (simp only: crc_byte_def crc_xor ac_simps)
  then have "fold crc_byte (b # bs) (x XOR y) =
      fold crc_byte (b # bs) x XOR (crc_bit ^^ (8 * length bs + 8)) y"
    by (simp add: Cons funpow_add del: funpow.simps)
  then show ?case by (simp only: length_Cons mult_Suc_right add.commute)
qed simp

lemma crc_of_append: "crc_of c (xs @ ys) = (crc_bit ^^ (8 * length ys)) (crc_of c xs) XOR crc_of 0 ys"
proof -
  have not: "NOT x = - 1 XOR x" for x :: u4 by simp
  have "crc_of c (xs @ ys) = NOT (fold crc_byte ys (- 1 XOR crc_of c xs))"
    by (simp add: crc_of_def)
  also have "\<dots> = - 1 XOR fold crc_byte ys (- 1) XOR (crc_bit ^^ (8 * length ys)) (crc_of c xs)"
    unfolding fold_crc_xor not by (simp only: ac_simps)
  also have "\<dots> = (crc_bit ^^ (8 * length ys)) (crc_of c xs) XOR crc_of 0 ys"
    by (simp add: crc_of_def ac_simps)
  finally show ?thesis .
qed

section \<open>Matrices\<close>

definition represents :: "ulong list \<Rightarrow> (u4 \<Rightarrow> u4) \<Rightarrow> bool" where
  "represents m f \<longleftrightarrow> linear f \<and> m = map (\<lambda>i. ucast (f (push_bit i 1))) [0..<32]"

lemma ucast_xor: "(ucast (x XOR y) :: ulong) = ucast x XOR ucast y" for x y :: u4
  by (auto intro!: bit_word_eqI simp: bit_simps)

lemma take_bit_Suc_xor: "take_bit (Suc k) v = take_bit k v XOR (if bit v k then push_bit k 1 else 0)" for v :: u4
  by (auto intro!: bit_word_eqI simp: bit_simps less_Suc_eq dest: bit_imp_le_length)

lemma gf2_sum_correct:
  assumes "represents m f" "k \<le> 32"
  shows "gf2_sum (drop k m) (drop_bit k (ucast v)) (ucast (f (take_bit k v))) = Some (ucast (f v))"
  using assms(2)
proof (induction "32 - k" arbitrary: k)
  case 0
  then have k: "k = 32" by simp
  have "drop_bit 32 (ucast v :: ulong) = 0"
    by (auto intro!: bit_word_eqI simp: bit_simps dest: u4_bit)
  moreover have "take_bit 32 v = v" by (auto intro!: bit_word_eqI simp: bit_simps)
  ultimately show ?case by (simp add: k gf2_sum.simps)
next
  case (Suc n)
  show ?case
  proof (cases "drop_bit k (ucast v :: ulong) = 0")
    case True
    have "take_bit k v = v"
    proof (rule bit_word_eqI)
      fix i assume "i < LENGTH(32)"
      have "\<not> bit v i" if "k \<le> i"
      proof -
        have "\<not> bit (drop_bit k (ucast v :: ulong)) (i - k)" by (simp add: True)
        with that \<open>i < LENGTH(32)\<close> show ?thesis by (simp add: bit_simps)
      qed
      then show "bit (take_bit k v) i = bit v i" by (cases "k \<le> i") (auto simp: bit_simps)
    qed
    with True show ?thesis by (simp add: gf2_sum.simps)
  next
    case False
    have k: "k < 32" "n = 32 - Suc k" using Suc.hyps(2) by simp_all
    have m: "length m = 32" "m ! k = ucast (f (push_bit k 1))" "linear f"
      using assms(1) k by (simp_all add: represents_def)
    have "drop k m = m ! k # drop (Suc k) m"
      by (rule Cons_nth_drop_Suc [symmetric]) (use m k in simp)
    moreover have "drop_bit k (ucast v :: ulong) AND 1 \<noteq> 0 \<longleftrightarrow> bit v k"
      using k by (simp add: and_one_eq odd_iff_mod_2_eq_one [symmetric] bit_0 [symmetric] bit_simps)
    moreover have "ucast (f (take_bit (Suc k) v)) =
        (if bit v k then ucast (f (take_bit k v)) XOR m ! k else ucast (f (take_bit k v)))"
      using m by (simp add: take_bit_Suc_xor linearD ucast_xor linear_0)
    ultimately show ?thesis
      using False Suc.hyps(1) [OF k(2)] k(1)
      by (subst gf2_sum.simps) (simp split: if_splits)
  qed
qed

lemma times_correct: "represents m f \<Longrightarrow> gf2_matrix_times m (ucast v) = Some (ucast (f v))"
  using gf2_sum_correct [of m f 0 v] by (simp add: gf2_matrix_times_def represents_def linear_0)

lemma those_map_Some: "(\<And>x. x \<in> set xs \<Longrightarrow> f x = Some (g x)) \<Longrightarrow> those (map f xs) = Some (map g xs)"
  by (induction xs) simp_all

lemma square_correct:
  assumes "represents m f"
  shows "\<exists>m'. gf2_matrix_square m = Some m' \<and> represents m' (\<lambda>x. f (f x))"
proof -
  have f: "linear f" "m = map (\<lambda>i. ucast (f (push_bit i 1))) [0..<32]"
    using assms by (simp_all add: represents_def)
  have "gf2_matrix_square m = those (map (\<lambda>i. gf2_matrix_times m (ucast (f (push_bit i 1)))) [0..<32])"
    by (simp add: gf2_matrix_square_def f(2) comp_def del: upt_Suc)
  also have "\<dots> = Some (map (\<lambda>i. ucast (f (f (push_bit i 1)))) [0..<32])"
    by (rule those_map_Some) (rule times_correct [OF assms])
  finally show ?thesis using linear_comp [OF f(1) f(1)] by (simp add: represents_def del: upt_Suc)
qed

lemma one_zero_bit: "represents one_zero_bit crc_bit"
proof -
  have first: "ucast (crc_bit 1) = (0xedb88320 :: ulong)" by code_simp
  have "crc_bit (push_bit (Suc i) 1) = push_bit i 1" if "Suc i < 32" for i
    using that by (auto intro!: bit_word_eqI simp: crc_bit_alt bit_simps)
  moreover have "ucast (push_bit i 1 :: u4) = (push_bit i 1 :: ulong)" if "i < 32" for i
    using that by (auto intro!: bit_word_eqI simp: bit_simps)
  moreover have "[0..<32] = 0 # map Suc [0..<31]" by (simp add: upt_conv_Cons map_Suc_upt)
  ultimately show ?thesis
    using first by (simp add: represents_def crc_bit_linear one_zero_bit_def GF2_DIM_def comp_def del: upt_Suc)
qed

section \<open>The loop\<close>

lemma funpow_twice: "represents m (\<lambda>x. (f ^^ n) ((f ^^ n) x)) \<Longrightarrow> represents m (f ^^ (2 * n))"
proof -
  have "(\<lambda>x. (f ^^ n) ((f ^^ n) x)) = f ^^ (2 * n)" by (simp add: fun_eq_iff mult_2 funpow_add)
  then show "represents m (\<lambda>x. (f ^^ n) ((f ^^ n) x)) \<Longrightarrow> ?thesis" by simp
qed

lemma square_power:
  assumes "represents m (crc_bit ^^ n)"
  obtains m' where "gf2_matrix_square m = Some m'" "represents m' (crc_bit ^^ (2 * n))"
  using square_correct [OF assms] funpow_twice by blast

lemma apply_zeros_correct:
  assumes "represents m (crc_bit ^^ n)" "0 \<le> len2"
  shows "apply_zeros len2 m (ucast v) = Some (ucast ((crc_bit ^^ (n * (nat len2 mod 2))) v))"
proof -
  obtain k where k: "len2 = int k" using assms(2) nonneg_int_cases by blast
  have "int k AND 1 \<noteq> 0 \<longleftrightarrow> odd k" by (simp add: and_one_eq odd_iff_mod_2_eq_one [symmetric])
  then show ?thesis
    using times_correct [OF assms(1), of v]
    by (cases "odd k") (simp_all add: apply_zeros_def k odd_iff_mod_2_eq_one)
qed

lemma three_powers: "(f ^^ a) ((f ^^ b) ((f ^^ c) v)) = (f ^^ (c + (b + a))) v"
proof -
  have "c + (b + a) = a + (b + c)" by simp
  then show ?thesis by (simp only: funpow_add comp_apply)
qed

lemma split_digit: "x = r + 2 * d \<Longrightarrow> 2 * n * (2 * x) = 2 * (2 * n) * r + 2 * (2 * (2 * n)) * d" for x :: nat
  by (simp add: algebra_simps)

lemma combine_loop_correct:
  "\<lbrakk>represents odds (crc_bit ^^ n); 0 < k\<rbrakk> \<Longrightarrow>
     combine_loop odds (ucast v) (int k) = Some (ucast ((crc_bit ^^ (2 * n * k)) v))"
proof (induction k arbitrary: odds n v rule: less_induct)
  case (less k)
  obtain evens where e: "gf2_matrix_square odds = Some evens" "represents evens (crc_bit ^^ (2 * n))"
    using less.prems(1) by (rule square_power)
  obtain odds' where o: "gf2_matrix_square evens = Some odds'" "represents odds' (crc_bit ^^ (2 * (2 * n)))"
    using e(2) by (rule square_power)
  let ?v1 = "(crc_bit ^^ (2 * n * (k mod 2))) v"
  let ?v2 = "(crc_bit ^^ (2 * (2 * n) * (k div 2 mod 2))) ?v1"
  have shift: "drop_bit 1 (int k) = int (k div 2)" "drop_bit 2 (int k) = int (k div 2 div 2)"
    by (simp_all add: drop_bit_eq_div zdiv_int div_mult2_eq [symmetric])
  have a1: "apply_zeros (int k) evens (ucast v) = Some (ucast ?v1)"
    using apply_zeros_correct [OF e(2), of "int k" v] by simp
  have a2: "apply_zeros (int (k div 2)) odds' (ucast ?v1) = Some (ucast ?v2)"
    using apply_zeros_correct [OF o(2), of "int (k div 2)" ?v1] by simp
  have split: "2 * n * k = 2 * n * (k mod 2) + 2 * n * (2 * (k div 2))"
    by (simp only: distrib_left [symmetric] mod_mult_div_eq)
  show ?case
  proof (cases "k div 2 = 0")
    case True
    then have "k mod 2 = k" by simp
    with True e(1) a1 show ?thesis by (subst combine_loop.simps) (simp add: shift [unfolded One_nat_def])
  next
    case False
    have split2: "2 * n * (2 * (k div 2)) = 2 * (2 * n) * (k div 2 mod 2) + 2 * (2 * (2 * n)) * (k div 2 div 2)"
      by (rule split_digit) simp
    have "combine_loop odds (ucast v) (int k) =
        (if k div 2 div 2 \<noteq> 0 then combine_loop odds' (ucast ?v2) (int (k div 2 div 2)) else Some (ucast ?v2))"
      using False e(1) o(1) a1 a2 by (subst combine_loop.simps) (simp add: shift [unfolded One_nat_def])
    also have "\<dots> = Some (ucast ((crc_bit ^^ (2 * (2 * (2 * n)) * (k div 2 div 2))) ?v2))"
      using less.IH [of "k div 2 div 2" odds' "2 * (2 * n)" ?v2] o(2) less.prems(2) by (auto simp: mult.assoc)
    also have "(crc_bit ^^ (2 * (2 * (2 * n)) * (k div 2 div 2))) ?v2 = (crc_bit ^^ (2 * n * k)) v"
      using split split2 by (simp only: three_powers)
    finally show ?thesis .
  qed
qed

lemma combine_correct:
  "crc32_combine (ucast c) (ucast d) (int k) =
     Some (if k = 0 then ucast c else ucast ((crc_bit ^^ (8 * k)) c XOR d))"
proof (cases "k = 0")
  case False
  have "represents one_zero_bit (crc_bit ^^ 1)" using one_zero_bit by simp
  then obtain evens where e: "gf2_matrix_square one_zero_bit = Some evens" "represents evens (crc_bit ^^ (2 * 1))"
    by (rule square_power)
  from e(2) obtain odds where o: "gf2_matrix_square evens = Some odds" "represents odds (crc_bit ^^ (2 * (2 * 1)))"
    by (rule square_power)
  have "combine_loop odds (ucast c) (int k) = Some (ucast ((crc_bit ^^ (8 * k)) c))"
    using combine_loop_correct [OF o(2), of k c] False by simp
  with False e(1) o(1) show ?thesis by (simp add: crc32_combine_def ucast_xor)
qed (simp add: crc32_combine_def)

lemma combine_loop_returns:
  assumes "combine_loop odds crc1 len2 = Some r"
  shows "0 \<le> len2"
proof (rule combine_loop.raw_induct [OF _ assms, of "\<lambda>odds crc1 len2 r. 0 \<le> len2"])
  fix loop :: "ulong list \<Rightarrow> ulong \<Rightarrow> int \<Rightarrow> ulong option" and odds crc1 len2 r
  assume IH: "\<And>odds crc1 len2 r. loop odds crc1 len2 = Some r \<Longrightarrow> 0 \<le> len2"
    and step: "gf2_matrix_square odds \<bind> (\<lambda>evens. apply_zeros len2 evens crc1 \<bind> (\<lambda>crc1.
      if drop_bit 1 len2 = 0 then Some crc1
      else gf2_matrix_square evens \<bind> (\<lambda>odds. apply_zeros (drop_bit 1 len2) odds crc1 \<bind> (\<lambda>crc1.
        if drop_bit 2 len2 \<noteq> 0 then loop odds crc1 (drop_bit 2 len2) else Some crc1)))) = Some r"
  show "0 \<le> len2"
  proof (rule ccontr)
    assume "\<not> 0 \<le> len2"
    then have neg: "drop_bit 1 len2 \<noteq> 0" "drop_bit 2 len2 \<noteq> 0" "\<not> 0 \<le> drop_bit 2 len2"
      by (metis drop_bit_nonnegative_int_iff order_refl)+
    define c where "c = drop_bit 2 len2"
    show False
      using step neg unfolding c_def [symmetric] by (auto simp: Option.bind_eq_Some_conv dest: IH)
  qed
qed

section \<open>Properties\<close>

text \<open>
  C17: the checksum is that of the shift register, fed bit by bit, whichever byte order the
  machine has, wherever the data starts, and however many bytes are taken at a time.
\<close>

theorem crc32_is_crc: "crc32 little crc addr (Some bs) = ucast (crc_of (ucast crc) bs)"
  by (rule crc32_of)

text \<open>
  C18: the checksum of data is combined from those of its two parts, for parts of any length.
\<close>

theorem crc32_combine_correct:
  "crc32_combine (crc32 l1 0 a1 (Some xs)) (crc32 l2 0 a2 (Some ys)) (int (length ys)) =
     Some (crc32 l3 0 a3 (Some (xs @ ys)))"
  by (auto simp: crc32_of combine_correct crc_of_append crc_of_def [of 0 "[]"])

text \<open>
  C20: the loop of \<^verbatim>\<open>crc32_combine\<close> ends exactly when the length is not negative, on checksums
  of 32 bits.
\<close>

theorem crc32_combine_ends:
  "(\<exists>r. crc32_combine (ucast c) (ucast (d :: u4)) len2 = Some r) \<longleftrightarrow> 0 \<le> len2" for c :: u4
proof
  assume "\<exists>r. crc32_combine (ucast c) (ucast d) len2 = Some r"
  then show "0 \<le> len2"
    by (auto simp: crc32_combine_def Option.bind_eq_Some_conv dest: combine_loop_returns split: if_splits)
next
  assume "0 \<le> len2"
  then obtain k where "len2 = int k" using nonneg_int_cases by blast
  then show "\<exists>r. crc32_combine (ucast c) (ucast d) len2 = Some r" by (simp add: combine_correct)
qed

end
