(* ===== verification/Zlib_Adler.thy ===== *)
theory Zlib_Adler
  imports Prelude
begin

text \<open>
  The checksum Adler-32 of zlib, \<^verbatim>\<open>deps/zlib/adler32.c\<close>.  \<^verbatim>\<open>unsigned long\<close> is a word of any width
  from 32 bits on, so that one theorem covers the platforms; \<open>by_div\<close> tells whether the code is built
  without \<^verbatim>\<open>NO_DIVIDE\<close>.  \<^verbatim>\<open>Z_NULL\<close> is \<open>None\<close>, a read outside the buffer has no result.
\<close>

section \<open>Sums\<close>

definition BASE :: "'w::len word" where "BASE = 65521"
definition NMAX :: nat where "NMAX = 5552"

fun DO1 :: "byte list \<Rightarrow> nat \<Rightarrow> 'w::len word \<times> 'w word \<Rightarrow> 'w word \<times> 'w word" where
  "DO1 buf i (adler, sum2) = (let adler = adler + ucast (buf ! i) in (adler, sum2 + adler))"

definition DO2 :: "byte list \<Rightarrow> nat \<Rightarrow> 'w::len word \<times> 'w word \<Rightarrow> 'w word \<times> 'w word" where
  "DO2 buf i s = DO1 buf (i + 1) (DO1 buf i s)"

definition DO4 :: "byte list \<Rightarrow> nat \<Rightarrow> 'w::len word \<times> 'w word \<Rightarrow> 'w word \<times> 'w word" where
  "DO4 buf i s = DO2 buf (i + 2) (DO2 buf i s)"

definition DO8 :: "byte list \<Rightarrow> nat \<Rightarrow> 'w::len word \<times> 'w word \<Rightarrow> 'w word \<times> 'w word" where
  "DO8 buf i s = DO4 buf (i + 4) (DO4 buf i s)"

definition DO16 :: "byte list \<Rightarrow> 'w::len word \<times> 'w word \<Rightarrow> 'w word \<times> 'w word" where
  "DO16 buf s = DO8 buf 8 (DO8 buf 0 s)"

text \<open>The remainder, by division or by taking off multiples of \<^verbatim>\<open>BASE\<close>.\<close>

primrec take_off :: "nat \<Rightarrow> 'w::len word \<Rightarrow> 'w word" where
  "take_off 0 a = (if a \<ge> BASE then a - BASE else a)"
| "take_off (Suc k) a = take_off k (if a \<ge> push_bit (Suc k) BASE then a - push_bit (Suc k) BASE else a)"

definition MOD :: "bool \<Rightarrow> 'w::len word \<Rightarrow> 'w word" where
  "MOD by_div a = (if by_div then a mod BASE else take_off 16 a)"

definition MOD4 :: "bool \<Rightarrow> 'w::len word \<Rightarrow> 'w word" where
  "MOD4 by_div a = (if by_div then a mod BASE else take_off 4 a)"

section \<open>The checksum\<close>

primrec do_while_16 :: "nat \<Rightarrow> byte list \<Rightarrow> 'w::len word \<times> 'w word \<Rightarrow> 'w word \<times> 'w word" where
  "do_while_16 0 buf s = s"
| "do_while_16 (Suc n) buf s = do_while_16 n (drop 16 buf) (DO16 buf s)"

function while_nmax :: "bool \<Rightarrow> byte list \<Rightarrow> 'w::len word \<times> 'w word \<Rightarrow> byte list \<times> 'w word \<times> 'w word" where
  "while_nmax by_div buf s =
     (if length buf \<ge> NMAX
      then let (adler, sum2) = do_while_16 (NMAX div 16) buf s
           in while_nmax by_div (drop NMAX buf) (MOD by_div adler, MOD by_div sum2)
      else (buf, s))"
  by pat_completeness auto
termination by (relation "measure (\<lambda>(d, buf, s). length buf)") (auto simp: NMAX_def)

function while_16 :: "byte list \<Rightarrow> 'w::len word \<times> 'w word \<Rightarrow> byte list \<times> 'w word \<times> 'w word" where
  "while_16 buf s = (if length buf \<ge> 16 then while_16 (drop 16 buf) (DO16 buf s) else (buf, s))"
  by pat_completeness auto
termination by (relation "measure (\<lambda>(buf, s). length buf)") auto

declare while_nmax.simps [simp del] while_16.simps [simp del]

primrec while_len :: "byte list \<Rightarrow> 'w::len word \<times> 'w word \<Rightarrow> 'w word \<times> 'w word" where
  "while_len [] s = s"
| "while_len (b # buf) s = while_len buf (DO1 (b # buf) 0 s)"

definition recombine :: "'w::len word \<Rightarrow> 'w word \<Rightarrow> 'w word" where
  "recombine adler sum2 = adler OR push_bit 16 sum2"

definition adler32 :: "bool \<Rightarrow> 'w::len word \<Rightarrow> byte list option \<Rightarrow> nat \<Rightarrow> 'w word option" where
  "adler32 by_div adler buf len =
     (let sum2 = drop_bit 16 adler AND 0xffff;
          adler = adler AND 0xffff
      in case buf of
           None \<Rightarrow> if len = 1 then None else Some 1
         | Some bs \<Rightarrow>
             if len > length bs then None
             else if len = 1 then
               let adler = adler + ucast (bs ! 0);
                   adler = (if adler \<ge> BASE then adler - BASE else adler);
                   sum2 = sum2 + adler;
                   sum2 = (if sum2 \<ge> BASE then sum2 - BASE else sum2)
               in Some (recombine adler sum2)
             else if len < 16 then
               let (adler, sum2) = while_len (take len bs) (adler, sum2);
                   adler = (if adler \<ge> BASE then adler - BASE else adler)
               in Some (recombine adler (MOD4 by_div sum2))
             else
               let (buf, s) = while_nmax by_div (take len bs) (adler, sum2);
                   (adler, sum2) =
                     (if buf \<noteq> [] then
                        let (buf, s) = while_16 buf s; (adler, sum2) = while_len buf s
                        in (MOD by_div adler, MOD by_div sum2)
                      else s)
               in Some (recombine adler sum2))"

definition above :: "'w::len word \<Rightarrow> 'w word \<Rightarrow> 'w word" where
  "above n s = (if s > n then s - n else s)"

definition adler32_combine :: "bool \<Rightarrow> 'w::len word \<Rightarrow> 'w word \<Rightarrow> 'w word \<Rightarrow> 'w word" where
  "adler32_combine by_div adler1 adler2 len2 =
     (let rem = len2 mod BASE;
          sum1 = adler1 AND 0xffff;
          sum2 = MOD by_div (rem * sum1);
          sum1 = sum1 + ((adler2 AND 0xffff) + BASE - 1);
          sum2 = sum2 + ((drop_bit 16 adler1 AND 0xffff) + (drop_bit 16 adler2 AND 0xffff) + BASE - rem);
          sum1 = above BASE (above BASE sum1);
          sum2 = above BASE (above (push_bit 1 BASE) sum2)
      in recombine sum1 sum2)"

section \<open>The sums as numbers\<close>

text \<open>The specification: two sums modulo the prime.\<close>

definition adler_step :: "byte \<Rightarrow> nat \<times> nat \<Rightarrow> nat \<times> nat" where
  "adler_step b s = ((fst s + unat b) mod 65521, (snd s + fst s + unat b) mod 65521)"

definition adler_sums :: "byte list \<Rightarrow> nat \<times> nat \<Rightarrow> nat \<times> nat" where
  "adler_sums bs = fold adler_step bs"

text \<open>A checksum of two sums.\<close>

definition checksum :: "nat \<times> nat \<Rightarrow> 'w::len word" where
  "checksum s = of_nat (fst s + 65536 * snd s)"


text \<open>The sums without the remainders, as the loops have them.\<close>

definition raw_step :: "byte \<Rightarrow> nat \<times> nat \<Rightarrow> nat \<times> nat" where
  "raw_step b s = (fst s + unat b, snd s + fst s + unat b)"

definition raw_sums :: "byte list \<Rightarrow> nat \<times> nat \<Rightarrow> nat \<times> nat" where
  "raw_sums bs = fold raw_step bs"

definition reduced :: "nat \<times> nat \<Rightarrow> nat \<times> nat" where
  "reduced s = (fst s mod 65521, snd s mod 65521)"

definition words :: "nat \<times> nat \<Rightarrow> 'w::len word \<times> 'w word" where
  "words s = (of_nat (fst s), of_nat (snd s))"

lemma adler_sums_simps [simp]:
  "adler_sums [] s = s" "adler_sums (b # bs) s = adler_sums bs (adler_step b s)"
  "adler_sums (bs @ cs) s = adler_sums cs (adler_sums bs s)"
  by (simp_all add: adler_sums_def)

lemma raw_sums_simps [simp]:
  "raw_sums [] s = s" "raw_sums (b # bs) s = raw_sums bs (raw_step b s)"
  by (simp_all add: raw_sums_def)

lemma adler_step_reduced: "adler_step b (reduced s) = reduced (raw_step b s)"
proof -
  have "(snd s mod 65521 + fst s mod 65521 + unat b) mod 65521 = (snd s + fst s + unat b) mod 65521"
    by (intro mod_add_cong refl) simp_all
  then show ?thesis by (simp add: adler_step_def reduced_def raw_step_def mod_add_left_eq)
qed

lemma raw_sums_reduced: "adler_sums bs (reduced s) = reduced (raw_sums bs s)"
  by (induction bs arbitrary: s) (simp_all add: adler_step_reduced)

lemma raw_sums_bound:
  assumes "fst s < 65521" "snd s < 65521" "length bs \<le> NMAX"
  shows "fst (raw_sums bs s) < 2 ^ 32 \<and> snd (raw_sums bs s) < 2 ^ 32"
proof -
  let ?n = "length bs"
  have "fst (raw_sums bs s) \<le> fst s + 255 * ?n \<and>
      2 * snd (raw_sums bs s) \<le> 2 * snd s + ?n * (2 * fst s + 255 * (?n + 1))" for s
  proof (induction bs arbitrary: s)
    case (Cons b bs)
    have "unat b < 2 ^ LENGTH(8)" by (rule unsigned_less)
    then have "unat b \<le> 255" by simp
    then have "(2 * length bs + 2) * unat b \<le> (2 * length bs + 2) * 255" by (rule mult_le_mono2)
    with Cons.IH [of "raw_step b s"] \<open>unat b \<le> 255\<close> show ?case
      by (auto simp: raw_step_def algebra_simps)
  qed simp
  note this [of s]
  moreover have "?n * (2 * fst s + 255 * (?n + 1)) \<le> 5552 * (2 * 65520 + 255 * (5552 + 1))"
    using assms by (intro mult_le_mono add_le_mono) (auto simp: NMAX_def)
  ultimately show ?thesis using assms by (fastforce simp: NMAX_def)
qed

lemma DO1_words: "DO1 buf i (words s) = words (raw_step (buf ! i) s)"
  by (simp add: words_def raw_step_def Let_def)

lemma while_len_words: "while_len bs (words s) = words (raw_sums bs s)"
  by (induction bs arbitrary: s) (simp_all add: DO1_words del: DO1.simps)


text \<open>The unrolled loops go through the bytes one by one.\<close>

lemma DO1_hd: "DO1 (b # bs) 0 s = DO1 [b] 0 s" by (cases s) simp

lemma while_len_append: "while_len (bs @ cs) s = while_len cs (while_len bs s)"
  by (induction bs arbitrary: s) (simp, metis DO1_hd append_Cons while_len.simps(2))

lemma DO16_while_len:
  assumes "16 \<le> length buf"
  shows "DO16 buf s = while_len (take 16 buf) s"
proof -
  have "take 16 buf = map ((!) buf) [0..<16]" using assms by (intro nth_equalityI) simp_all
  moreover have "DO1 (buf ! i # bs) 0 s = DO1 buf i s" for i bs and s :: "'a word \<times> 'a word"
    by (cases s) simp
  ultimately show ?thesis
    by (simp add: DO16_def DO8_def DO4_def DO2_def upt_rec numeral_eq_Suc del: DO1.simps)
qed

lemma do_while_16_words:
  "16 * n \<le> length buf \<Longrightarrow> do_while_16 n buf s = while_len (take (16 * n) buf) s"
proof (induction n arbitrary: buf s)
  case (Suc n)
  have "take (16 * Suc n) buf = take 16 buf @ take (16 * n) (drop 16 buf)"
    using take_add [of 16 "16 * n" buf] by simp
  with Suc show ?case by (simp add: DO16_while_len while_len_append)
qed simp

lemma while_16_words: "case while_16 buf s of (rest, s') \<Rightarrow> while_len rest s' = while_len buf s"
proof (induction buf s rule: while_16.induct)
  case (1 buf s)
  show ?case
  proof (cases "16 \<le> length buf")
    case True
    have "while_len (drop 16 buf) (DO16 buf s) = while_len buf s"
      using while_len_append [of "take 16 buf" "drop 16 buf" s] True by (simp add: DO16_while_len)
    with 1 [OF True] True show ?thesis by (subst while_16.simps) simp
  next
    case False
    then show ?thesis by (subst while_16.simps) simp
  qed
qed

text \<open>Remainders.\<close>

lemma of_nat_le_small:
  assumes "m < 2 ^ 32" "n < 2 ^ 32" "32 \<le> LENGTH('w)"
  shows "(of_nat m :: 'w::len word) \<le> of_nat n \<longleftrightarrow> m \<le> n" "(of_nat m :: 'w word) < of_nat n \<longleftrightarrow> m < n"
    "unat (of_nat m :: 'w word) = m"
proof -
  have "(2::nat) ^ 32 \<le> 2 ^ LENGTH('w)" using assms(3) by (rule power_increasing) simp
  with assms have "unat (of_nat m :: 'w word) = m" "unat (of_nat n :: 'w word) = n"
    by (simp_all add: unsigned_of_nat take_bit_nat_eq_self)
  then show "(of_nat m :: 'w::len word) \<le> of_nat n \<longleftrightarrow> m \<le> n" "(of_nat m :: 'w word) < of_nat n \<longleftrightarrow> m < n"
    "unat (of_nat m :: 'w word) = m"
    by (simp_all add: word_le_nat_alt word_less_nat_alt)
qed

lemma BASE_nat: "(BASE :: 'w::len word) = of_nat 65521" by (simp add: BASE_def)

lemma push_BASE: "push_bit k (BASE :: 'w::len word) = of_nat (65521 * 2 ^ k)"
  by (simp add: BASE_def push_bit_eq_mult)

lemma take_one_off:
  assumes "m < 2 ^ 32" "n < 2 ^ 32" "32 \<le> LENGTH('w)"
  shows "(if (of_nat m :: 'w::len word) \<ge> of_nat n then of_nat m - of_nat n else of_nat m :: 'w word) =
    of_nat (if n \<le> m then m - n else m)"
  using assms by (simp add: of_nat_le_small of_nat_diff)

lemma take_off_nat:
  assumes "32 \<le> LENGTH('w)" "k \<le> 16" "m < 65521 * 2 ^ Suc k" "m < 2 ^ 32"
  shows "take_off k (of_nat m :: 'w::len word) = of_nat (m mod 65521)"
  using assms
proof (induction k arbitrary: m)
  case 0
  have "(65521::nat) < 2 ^ 32" by simp
  from take_one_off [OF 0(4) this 0(1)]
  have "take_off 0 (of_nat m :: 'w word) = of_nat (if 65521 \<le> m then m - 65521 else m)"
    by (simp only: take_off.simps BASE_nat)
  moreover have "(if 65521 \<le> m then m - 65521 else m) = m mod 65521" using 0(3) by (auto simp: le_mod_geq)
  ultimately show ?case by simp
next
  case (Suc k)
  let ?b = "65521 * 2 ^ Suc k :: nat"
  have "(2::nat) ^ Suc k \<le> 2 ^ 16" using Suc.prems(2) by (intro power_increasing) simp_all
  then have "?b < 2 ^ 32" by simp
  from take_one_off [OF Suc.prems(4) this Suc.prems(1)]
  have "take_off (Suc k) (of_nat m :: 'w word) = take_off k (of_nat (if ?b \<le> m then m - ?b else m))"
    by (simp only: take_off.simps push_BASE)
  also have "\<dots> = of_nat ((if ?b \<le> m then m - ?b else m) mod 65521)"
    using Suc.prems by (intro Suc.IH) auto
  also have "(if ?b \<le> m then m - ?b else m) mod 65521 = m mod 65521"
    using mod_mult_self2 [of "m - ?b" 65521 "2 ^ Suc k"] by auto
  finally show ?case .
qed

lemma MOD_nat:
  assumes "32 \<le> LENGTH('w)" "m < 2 ^ 32"
  shows "MOD by_div (of_nat m :: 'w::len word) = of_nat (m mod 65521)"
    and "m < 2000000 \<Longrightarrow> MOD4 by_div (of_nat m :: 'w::len word) = of_nat (m mod 65521)"
proof -
  have "unat (of_nat m :: 'w word) = m" "unat (BASE :: 'w word) = 65521"
    using of_nat_le_small(3) [OF assms(2) _ assms(1), of 0] of_nat_le_small(3) [of 65521 0, OF _ _ assms(1)]
    by (simp_all add: BASE_nat)
  then have d: "(of_nat m :: 'w word) mod BASE = of_nat (m mod 65521)" by (simp add: word_arith_nat_mod)
  from d take_off_nat [OF assms(1), of 16 m] assms(2)
  show "MOD by_div (of_nat m :: 'w::len word) = of_nat (m mod 65521)" by (simp add: MOD_def)
  from d take_off_nat [OF assms(1), of 4 m] assms(2)
  show "m < 2000000 \<Longrightarrow> MOD4 by_div (of_nat m :: 'w::len word) = of_nat (m mod 65521)" by (simp add: MOD4_def)
qed


section \<open>Properties of the checksum\<close>

lemma reduced_small [simp]: "fst s < 65521 \<Longrightarrow> snd s < 65521 \<Longrightarrow> reduced s = s"
  by (simp add: reduced_def)

lemma adler_sums_small: "fst s < 65521 \<Longrightarrow> snd s < 65521 \<Longrightarrow> fst (adler_sums bs s) < 65521 \<and> snd (adler_sums bs s) < 65521"
  by (induction bs arbitrary: s) (simp_all add: adler_step_def)

text \<open>A block of at most \<^verbatim>\<open>NMAX\<close> bytes: the sums fit, and a single remainder at the end is enough.\<close>

lemma block_words:
  assumes "32 \<le> LENGTH('w)" "fst s < 65521" "snd s < 65521" "length bs \<le> NMAX"
    and "while_len bs (words s :: 'w::len word \<times> 'w word) = (adler, sum2)"
  shows "(MOD by_div adler, MOD by_div sum2) = words (adler_sums bs s)"
proof -
  have "(adler, sum2) = words (raw_sums bs s)" using assms(5) by (simp add: while_len_words)
  moreover have "adler_sums bs s = reduced (raw_sums bs s)" using raw_sums_reduced [of bs s] assms(2,3) by simp
  ultimately show ?thesis
    using raw_sums_bound [OF assms(2-4)] assms(1) by (simp add: words_def reduced_def MOD_nat)
qed

lemma while_nmax_words:
  assumes "32 \<le> LENGTH('w)" "fst s < 65521" "snd s < 65521"
  shows "\<exists>rest s'. while_nmax by_div bs (words s :: 'w::len word \<times> 'w word) = (rest, words s') \<and>
    length rest < NMAX \<and> fst s' < 65521 \<and> snd s' < 65521 \<and> adler_sums rest s' = adler_sums bs s"
  using assms(2,3)
proof (induction "length bs" arbitrary: bs s rule: less_induct)
  case less
  show ?case
  proof (cases "NMAX \<le> length bs")
    case True
    obtain adler sum2 where w: "while_len (take NMAX bs) (words s :: 'w word \<times> 'w word) = (adler, sum2)"
      by fastforce
    have "16 * (NMAX div 16) = NMAX" by (simp add: NMAX_def)
    with do_while_16_words [of "NMAX div 16" bs "words s :: 'w word \<times> 'w word"] True w
    have "do_while_16 (NMAX div 16) bs (words s) = (adler, sum2)" by simp
    with block_words [OF assms(1) less.prems _ w, of by_div] True
    have "while_nmax by_div bs (words s :: 'w word \<times> 'w word) =
        while_nmax by_div (drop NMAX bs) (words (adler_sums (take NMAX bs) s))"
      by (subst while_nmax.simps) simp
    moreover have "adler_sums (drop NMAX bs) (adler_sums (take NMAX bs) s) = adler_sums bs s"
      using adler_sums_simps(3) [of "take NMAX bs" "drop NMAX bs" s] by simp
    moreover have "length (drop NMAX bs) < length bs" using True by (auto simp: NMAX_def)
    note less.hyps [OF this, of "adler_sums (take NMAX bs) s"]
    ultimately show ?thesis using less.prems adler_sums_small [of s "take NMAX bs"] by simp
  next
    case False
    with less.prems show ?thesis
      by (intro exI [of _ bs] exI [of _ s]) (simp add: while_nmax.simps [of by_div bs])
  qed
qed

lemma low_bits:
  assumes "m < 65536"
  shows "bit (of_nat m :: 'w::len word) i \<Longrightarrow> i < 16"
proof -
  have "take_bit 16 m = m" using assms by (simp add: take_bit_nat_eq_self)
  then have "(of_nat m :: 'w word) = take_bit 16 (of_nat m)" by (metis take_bit_of_nat)
  then show "bit (of_nat m :: 'w word) i \<Longrightarrow> i < 16" by (metis bit_take_bit_iff)
qed

lemma checksum_recombine:
  assumes "fst s < 65536"
  shows "recombine (of_nat (fst s) :: 'w::len word) (of_nat (snd s)) = checksum s"
proof -
  have "(of_nat (fst s) :: 'w word) AND push_bit 16 (of_nat (snd s)) = 0"
    by (intro bit_word_eqI) (auto simp: bit_and_iff bit_push_bit_iff dest: low_bits [OF assms])
  then have "recombine (of_nat (fst s) :: 'w word) (of_nat (snd s)) = of_nat (fst s) + push_bit 16 (of_nat (snd s))"
    unfolding recombine_def by (intro disjunctive_add_eq_or [symmetric]) simp
  then show ?thesis by (simp add: checksum_def push_bit_eq_mult mult.commute)
qed

lemma checksum_parts:
  assumes "32 \<le> LENGTH('w)" "fst s < 65536" "snd s < 65536"
  shows "(checksum s :: 'w::len word) AND 0xffff = of_nat (fst s)"
    and "drop_bit 16 (checksum s :: 'w word) AND 0xffff = of_nat (snd s)"
proof -
  have m: "(0xffff :: 'w word) = mask 16" by (simp add: mask_eq_exp_minus_1)
  have "take_bit 16 (fst s + 65536 * snd s) = fst s" using assms(2) by (simp add: take_bit_eq_mod)
  then show "(checksum s :: 'w word) AND 0xffff = of_nat (fst s)"
    unfolding m take_bit_eq_mask [symmetric] checksum_def take_bit_of_nat by simp
  have c: "fst s + 65536 * snd s < 2 ^ 32" using assms by simp
  have "unat (drop_bit 16 (checksum s :: 'w word)) = snd s"
    unfolding unat_drop_bit_eq checksum_def of_nat_le_small(3) [OF c c assms(1)]
    using assms by (simp add: drop_bit_eq_div)
  moreover have "drop_bit 16 (checksum s :: 'w word) = of_nat (unat (drop_bit 16 (checksum s :: 'w word)))" by simp
  ultimately have "drop_bit 16 (checksum s :: 'w word) = of_nat (snd s)" by metis
  moreover have "take_bit 16 (snd s) = snd s" using assms(3) by (simp add: take_bit_nat_eq_self)
  ultimately show "drop_bit 16 (checksum s :: 'w word) AND 0xffff = of_nat (snd s)"
    unfolding m take_bit_eq_mask [symmetric] by (simp add: take_bit_of_nat)
qed


lemma short_sums:
  assumes "fst s < 65521" "snd s < 65521" "length bs < 16"
  shows "fst (raw_sums bs s) < 131042" "snd (raw_sums bs s) < 2000000"
proof -
  have "fst (raw_sums bs s) \<le> fst s + 255 * length bs \<and>
      snd (raw_sums bs s) \<le> snd s + length bs * (fst s + 255 * length bs)" for s
  proof (induction bs arbitrary: s)
    case (Cons b bs)
    have "unat b < 2 ^ LENGTH(8)" by (rule unsigned_less)
    then have "unat b \<le> 255" by simp
    let ?n = "length bs"
    have "snd (raw_sums bs (raw_step b s)) \<le> snd s + fst s + unat b + ?n * (fst s + unat b + 255 * ?n)"
      using Cons.IH [of "raw_step b s"] by (simp add: raw_step_def)
    also have "\<dots> \<le> snd s + fst s + 255 + ?n * (fst s + 255 + 255 * ?n)"
      using \<open>unat b \<le> 255\<close> by (intro add_le_mono mult_le_mono order_refl)
    also have "\<dots> \<le> snd s + Suc ?n * (fst s + 255 * Suc ?n)" by (simp add: algebra_simps)
    finally show ?case using Cons.IH [of "raw_step b s"] \<open>unat b \<le> 255\<close> by (auto simp: raw_step_def)
  qed simp
  note this [of s]
  moreover have "length bs * (fst s + 255 * length bs) \<le> 15 * (65520 + 255 * 15)"
    using assms by (intro mult_le_mono add_le_mono) auto
  ultimately show "fst (raw_sums bs s) < 131042" "snd (raw_sums bs s) < 2000000" using assms by auto
qed

lemma one_off_BASE:
  assumes "32 \<le> LENGTH('w)" "m < 131042"
  shows "(if (of_nat m :: 'w::len word) \<ge> BASE then of_nat m - BASE else of_nat m) = (of_nat (m mod 65521) :: 'w word)"
  using take_off_nat [OF assms(1), of 0 m] assms(2) by simp

lemma adler32_sums:
  assumes "32 \<le> LENGTH('w)" "a < 65521" "b < 65521" "len \<le> length bs"
  shows "adler32 by_div (checksum (a, b) :: 'w::len word) (Some bs) len =
    Some (checksum (adler_sums (take len bs) (a, b)))"
proof -
  let ?s = "(a, b)" and ?r = "adler_sums (take len bs) (a, b)"
  have parts: "(checksum ?s :: 'w word) AND 0xffff = of_nat a" "drop_bit 16 (checksum ?s :: 'w word) AND 0xffff = of_nat b"
    using checksum_parts [OF assms(1), of ?s] assms(2,3) by simp_all
  have r: "fst ?r < 65521" "snd ?r < 65521" using adler_sums_small [of ?s "take len bs"] assms(2,3) by simp_all
  have result: "recombine (of_nat (fst ?r) :: 'w word) (of_nat (snd ?r)) = checksum ?r"
    using r by (intro checksum_recombine) simp
  have red: "?r = reduced (raw_sums (take len bs) ?s)"
    using raw_sums_reduced [of "take len bs" ?s] assms(2,3) by simp
  consider "len = 1" | "len \<noteq> 1" "len < 16" | "16 \<le> len" by linarith
  then show ?thesis
  proof cases
    case 1
    then obtain c cs where bs: "bs = c # cs" using assms(4) by (cases bs) auto
    have "unat c < 2 ^ LENGTH(8)" by (rule unsigned_less)
    then have c: "unat c < 256" by simp
    let ?a = "(a + unat c) mod 65521"
    have one: "(if BASE \<le> (of_nat a + ucast c :: 'w word) then of_nat a + ucast c - BASE else of_nat a + ucast c) = (of_nat ?a :: 'w word)"
    proof -
      have e: "(of_nat a + ucast c :: 'w word) = of_nat (a + unat c)" by simp
      show ?thesis unfolding e by (rule one_off_BASE [OF assms(1)]) (use assms(2) c in simp)
    qed
    have two: "(if BASE \<le> (of_nat b + of_nat ?a :: 'w word) then of_nat b + of_nat ?a - BASE else of_nat b + of_nat ?a) =
        (of_nat ((b + ?a) mod 65521) :: 'w word)"
      unfolding of_nat_add [symmetric] by (rule one_off_BASE [OF assms(1)]) (use assms(3) in simp)
    have "?r = (?a, (b + ?a) mod 65521)"
      using 1 by (simp add: bs adler_step_def mod_add_right_eq add.assoc)
    with result have "recombine (of_nat ?a :: 'w word) (of_nat ((b + ?a) mod 65521)) = checksum ?r" by simp
    then have "adler32 by_div (checksum ?s :: 'w word) (Some bs) 1 = Some (checksum ?r)"
      by (simp only: adler32_def parts bs Let_def option.case list.size nth_Cons_0 one two) simp
    with 1 show ?thesis by simp
  next
    case 2
    have "length (take len bs) < 16" using 2(2) by simp
    note short = short_sums [of ?s "take len bs", simplified fst_conv snd_conv, OF assms(2,3) this]
    have "while_len (take len bs) (of_nat a, of_nat b :: 'w word) = words (raw_sums (take len bs) ?s)"
      using while_len_words [of "take len bs" ?s] by (simp add: words_def)
    with 2 result one_off_BASE [OF assms(1) short(1)] MOD_nat(2) [OF assms(1) _ short(2), of by_div] short(2) assms(4)
    show ?thesis by (simp add: adler32_def parts words_def red reduced_def)
  next
    case 3
    have s: "(of_nat a, of_nat b) = (words ?s :: 'w word \<times> 'w word)" by (simp add: words_def)
    from while_nmax_words [OF assms(1), of ?s by_div "take len bs"] assms(2,3) obtain rest s' where w:
      "while_nmax by_div (take len bs) (words ?s :: 'w word \<times> 'w word) = (rest, words s')" "length rest < NMAX"
      "fst s' < 65521" "snd s' < 65521" "adler_sums rest s' = ?r" by auto
    obtain rest' t where t: "while_16 rest (words s' :: 'w word \<times> 'w word) = (rest', t)" by (rule prod.exhaust)
    obtain adler sum2 where u: "while_len rest' t = (adler, sum2)" by fastforce
    with while_16_words [of rest "words s' :: 'w word \<times> 'w word"] t
    have "while_len rest (words s') = (adler, sum2)" by simp
    from block_words [OF assms(1) w(3,4) _ this, of by_div] w(2,5)
    have "(MOD by_div adler, MOD by_div sum2) = words ?r" by simp
    then have m: "MOD by_div adler = (of_nat (fst ?r) :: 'w word)" "MOD by_div sum2 = (of_nat (snd ?r) :: 'w word)"
      by (simp_all add: words_def)
    have "adler32 by_div (checksum ?s :: 'w word) (Some bs) len =
      (let (buf, s) = while_nmax by_div (take len bs) (words ?s);
           (adler, sum2) =
             (if buf \<noteq> [] then
                let (buf, s) = while_16 buf s; (adler, sum2) = while_len buf s
                in (MOD by_div adler, MOD by_div sum2)
              else s)
       in Some (recombine adler sum2))"
      using 3 assms(4) by (simp add: adler32_def parts s [symmetric])
    also have "\<dots> = Some (recombine (of_nat (fst ?r)) (of_nat (snd ?r)))"
    proof (cases "rest = []")
      case True
      with w(5) have "s' = ?r" by simp
      with True show ?thesis by (simp add: w(1) words_def [of ?r])
    next
      case False
      then show ?thesis by (simp add: w(1) t u m)
    qed
    finally show ?thesis by (simp add: result)
  qed
qed


section \<open>Combining checksums\<close>

definition sum_of :: "byte list \<Rightarrow> nat" where "sum_of bs = sum_list (map unat bs)"

fun weighted :: "byte list \<Rightarrow> nat" where
  "weighted [] = 0"
| "weighted (b # bs) = (length bs + 1) * unat b + weighted bs"

lemma raw_sums_eq:
  "raw_sums bs s = (fst s + sum_of bs, snd s + length bs * fst s + weighted bs)"
  by (induction bs arbitrary: s) (simp_all add: raw_step_def sum_of_def algebra_simps)

text \<open>What the last comparisons make of a sum: the remainder, but 65521 instead of 0.\<close>

definition off_by_base :: "nat \<Rightarrow> nat" where
  "off_by_base n = (if n mod 65521 = 0 then 65521 else n mod 65521)"

lemma above_nat:
  assumes "32 \<le> LENGTH('w)" "m < 2 ^ 32" "k \<le> 1"
  shows "above (push_bit k BASE) (of_nat m :: 'w::len word) = of_nat (if m > 65521 * 2 ^ k then m - 65521 * 2 ^ k else m)"
proof -
  have "65521 * 2 ^ k < (2 :: nat) ^ 32" using power_increasing [OF assms(3), of "2 :: nat"] by simp
  from of_nat_le_small(2) [OF this assms(2,1)] show ?thesis unfolding push_BASE above_def by (auto simp: of_nat_diff)
qed

lemma off_by_base_less: "65521 < m \<Longrightarrow> off_by_base (m - 65521) = off_by_base m"
  "65521 * 2 < m \<Longrightarrow> off_by_base (m - 65521 * 2) = off_by_base m"
  "0 < m \<Longrightarrow> m \<le> 65521 \<Longrightarrow> off_by_base m = m"
  using mod_add_self2 [of "m - 65521" 65521] mod_mult_self2 [of "m - 65521 * 2" 65521 2]
  by (auto simp: off_by_base_def le_less)

lemma above_above:
  assumes "32 \<le> LENGTH('w)" "0 < m"
  shows "m \<le> 3 * 65521 \<Longrightarrow> above BASE (above BASE (of_nat m :: 'w::len word)) = of_nat (off_by_base m)"
    and "m \<le> 4 * 65521 \<Longrightarrow> above BASE (above (push_bit 1 BASE) (of_nat m :: 'w::len word)) = of_nat (off_by_base m)"
proof -
  have one: "above BASE (of_nat m :: 'w word) = of_nat (if m > 65521 then m - 65521 else m)" if "m < 2 ^ 32" for m
    using above_nat [OF assms(1) that, of 0] by (simp only: push_bit_0_id id_apply power_0 mult_1_right le0)
  have two: "above (push_bit 1 BASE) (of_nat m :: 'w word) = of_nat (if m > 65521 * 2 then m - 65521 * 2 else m)" if "m < 2 ^ 32" for m
    using above_nat [OF assms(1) that, of 1] by (simp only: power_one_right order_refl)
  have off: "(if m > 65521 then m - 65521 else m) = off_by_base m" if "m \<le> 2 * 65521" "0 < m" for m
    using that by (auto simp: off_by_base_less(1) [symmetric] off_by_base_less(3))
  show "m \<le> 3 * 65521 \<Longrightarrow> above BASE (above BASE (of_nat m :: 'w::len word)) = of_nat (off_by_base m)"
    using assms(2) one off off_by_base_less(1) [of m] by (cases "65521 < m") (simp_all add: one off off_by_base_less(3) del: of_nat_diff)
  assume m: "m \<le> 4 * 65521"
  let ?m = "if m > 65521 * 2 then m - 65521 * 2 else m"
  have "above BASE (above (push_bit 1 BASE) (of_nat m :: 'w word)) = above BASE (of_nat ?m)"
    using m by (subst two) simp_all
  also have "\<dots> = of_nat (off_by_base ?m)"
  proof -
    obtain n where n: "n = ?m" by blast
    then have "n \<le> 2 * 65521" "0 < n" using assms(2) m by (auto split: if_splits)
    with one [of n] off [of n] show ?thesis unfolding n [symmetric] by (simp del: of_nat_diff)
  qed
  also have "off_by_base ?m = off_by_base m" using off_by_base_less(2) [of m] by simp
  finally show "above BASE (above (push_bit 1 BASE) (of_nat m :: 'w::len word)) = of_nat (off_by_base m)" .
qed

lemma combined:
  assumes "32 \<le> LENGTH('w)" "a < 65521" "b < 65521" "length bs < 2 ^ LENGTH('w)"
  shows "adler32_combine by_div (checksum (a, b)) (checksum (adler_sums bs (1, 0))) (of_nat (length bs) :: 'w::len word) =
    checksum (map_prod off_by_base off_by_base (adler_sums bs (a, b)))"
proof -
  let ?n = "length bs" and ?two = "adler_sums bs (1, 0)" and ?B = "65521 :: nat"
  let ?rem = "?n mod ?B"
  have two: "?two = ((1 + sum_of bs) mod ?B, (?n + weighted bs) mod ?B)"
    using raw_sums_reduced [of bs "(1, 0)"] by (simp add: raw_sums_eq reduced_def)
  have all: "adler_sums bs (a, b) = ((a + sum_of bs) mod ?B, (b + ?n * a + weighted bs) mod ?B)"
    using raw_sums_reduced [of bs "(a, b)"] assms(2,3) by (simp add: raw_sums_eq reduced_def)
  have small: "fst ?two < ?B" "snd ?two < ?B" "?rem < ?B" unfolding two by simp_all
  have parts: "(checksum (a, b) :: 'w word) AND 0xffff = of_nat a" "drop_bit 16 (checksum (a, b) :: 'w word) AND 0xffff = of_nat b"
    "(checksum ?two :: 'w word) AND 0xffff = of_nat (fst ?two)" "drop_bit 16 (checksum ?two :: 'w word) AND 0xffff = of_nat (snd ?two)"
    using checksum_parts [OF assms(1), of "(a, b)"] checksum_parts [OF assms(1), of ?two] assms(2,3) small by simp_all
  have "unat (of_nat ?n :: 'w word) = ?n" "unat (BASE :: 'w word) = ?B"
    using assms(4) of_nat_le_small(3) [of ?B 0, OF _ _ assms(1)]
    by (simp_all add: BASE_nat unsigned_of_nat take_bit_nat_eq_self)
  then have rem: "(of_nat ?n :: 'w word) mod BASE = of_nat ?rem" by (simp add: word_arith_nat_mod)
  have "?rem * a \<le> 65520 * 65520" using assms(2) small(3) by (intro mult_le_mono) auto
  then have prod: "MOD by_div (of_nat ?rem * of_nat a :: 'w word) = of_nat ((?rem * a) mod ?B)"
    using MOD_nat(1) [OF assms(1), of "?rem * a" by_div] by simp
  let ?m1 = "a + fst ?two + 65520" and ?m2 = "(?rem * a) mod ?B + (b + snd ?two + ?B - ?rem)"
  have s1: "of_nat a + (of_nat (fst ?two) + BASE - 1) = (of_nat ?m1 :: 'w word)"
    by (simp add: BASE_def)
  have s2: "of_nat ((?rem * a) mod ?B) + (of_nat b + of_nat (snd ?two) + BASE - of_nat ?rem) = (of_nat ?m2 :: 'w word)"
    using small(3) by (simp add: BASE_def of_nat_diff)
  have m1: "?m1 mod ?B = fst (adler_sums bs (a, b))"
  proof -
    have "?m1 mod ?B = (a + 65520 + (1 + sum_of bs)) mod ?B"
      using mod_add_right_eq [of "a + 65520" "1 + sum_of bs" ?B] unfolding two fst_conv by (simp only: ac_simps)
    also have "a + 65520 + (1 + sum_of bs) = a + sum_of bs + ?B" by simp
    also have "(a + sum_of bs + ?B) mod ?B = (a + sum_of bs) mod ?B" by (rule mod_add_self2)
    finally show ?thesis by (simp only: all fst_conv)
  qed
  have m2: "?m2 mod ?B = snd (adler_sums bs (a, b))"
  proof -
    let ?w = "int (weighted bs)"
    have e: "int ?m2 = (int ?n mod 65521 * int a) mod 65521 + (int b + (int ?n + ?w) mod 65521 + 65521 - int ?n mod 65521)"
      using small(3) unfolding two snd_conv by (simp add: of_nat_diff zmod_int)
    have "int ?m2 mod 65521 = (int ?n * int a + (int b + (int ?n + ?w) + 65521 - int ?n)) mod 65521"
      unfolding e by (intro mod_diff_cong mod_add_cong mod_mult_cong refl mod_mod_trivial trans [OF mod_mod_trivial])
    also have "int ?n * int a + (int b + (int ?n + ?w) + 65521 - int ?n) = int (b + ?n * a + weighted bs) + 65521" by simp
    finally have "int (?m2 mod ?B) = int ((b + ?n * a + weighted bs) mod ?B)" by (simp add: zmod_int)
    then show ?thesis unfolding all snd_conv by (simp only: of_nat_eq_iff)
  qed
  have "adler32_combine by_div (checksum (a, b)) (checksum ?two) (of_nat ?n :: 'w word) =
      recombine (of_nat (off_by_base ?m1)) (of_nat (off_by_base ?m2))"
    using above_above(1) [OF assms(1), of ?m1] above_above(2) [OF assms(1), of ?m2] assms(2,3) small
    unfolding adler32_combine_def parts rem prod Let_def s1 s2 by (simp del: of_nat_add of_nat_diff)
  moreover have "off_by_base ?m1 = off_by_base (fst (adler_sums bs (a, b)))"
    "off_by_base ?m2 = off_by_base (snd (adler_sums bs (a, b)))"
    by (simp_all add: off_by_base_def m1 [symmetric] m2 [symmetric])
  moreover have "off_by_base k < 65536" for k
    using mod_less_divisor [of ?B k] by (simp add: off_by_base_def del: mod_less_divisor) 
  ultimately show ?thesis
    using checksum_recombine [of "map_prod off_by_base off_by_base (adler_sums bs (a, b))", where 'w = 'w] by simp
qed


lemma checksum_inject:
  assumes "32 \<le> LENGTH('w)" "fst s < 65536" "snd s < 65536" "fst t < 65536" "snd t < 65536"
  shows "(checksum s :: 'w::len word) = checksum t \<longleftrightarrow> s = t"
proof
  assume e: "(checksum s :: 'w word) = checksum t"
  have "(of_nat (fst s) :: 'w word) = of_nat (fst t)" "(of_nat (snd s) :: 'w word) = of_nat (snd t)"
    using checksum_parts [OF assms(1-3)] checksum_parts [OF assms(1,4,5)] by (simp_all add: e)
  moreover have "fst s < 2 ^ 32" "snd s < 2 ^ 32" "fst t < 2 ^ 32" "snd t < 2 ^ 32" using assms by simp_all
  ultimately show "s = t"
    using of_nat_le_small(3) [OF _ _ assms(1)] by (metis prod_eqI)
qed simp

section \<open>Properties\<close>

text \<open>
  C21: \<^verbatim>\<open>adler32\<close> computes the two sums modulo 65521, for any number of bytes, on machines with
  numbers of 32 bits or more, with and without division: no sum overflows before its remainder is
  taken.
\<close>

theorem adler32_correct:
  assumes "32 \<le> LENGTH('w)" "a < 65521" "b < 65521" "len \<le> length bs"
  shows "adler32 by_div (checksum (a, b) :: 'w::len word) (Some bs) len =
    Some (checksum (adler_sums (take len bs) (a, b)))"
  by (rule adler32_sums [OF assms])

lemma adler32_correct_witness:
  "adler32 False (checksum (1, 0) :: 64 word) (Some [97, 98, 99]) 3 = Some 0x024d0127"
proof -
  have "adler32 False (checksum (1, 0) :: 64 word) (Some [97, 98, 99]) 3 =
      Some (checksum (adler_sums (take 3 [97, 98, 99]) (1, 0)))"
    by (rule adler32_correct) simp_all
  also have "adler_sums (take 3 [97, 98, 99]) (1, 0) = (295, 589)"
    by (simp add: adler_step_def)
  finally show ?thesis by (simp add: checksum_def)
qed

text \<open>
  C22: \<^verbatim>\<open>adler32_combine\<close> gives the checksum of a concatenation from the checksums of its two parts
  and the length of the second, except where one of the sums is 0: its comparisons leave 65521 there,
  which is no checksum at all.
\<close>

theorem adler32_combine_correct:
  assumes "32 \<le> LENGTH('w)" "a < 65521" "b < 65521" "length bs < 2 ^ LENGTH('w)"
  shows "\<exists>v2. adler32 by_div (1 :: 'w::len word) (Some bs) (length bs) = Some v2 \<and>
    (let v = adler32_combine by_div (checksum (a, b)) v2 (of_nat (length bs)); (x, y) = adler_sums bs (a, b)
     in v = checksum (if x = 0 then 65521 else x, if y = 0 then 65521 else y) \<and>
        (adler32 by_div (checksum (a, b)) (Some bs) (length bs) = Some v \<longleftrightarrow> x \<noteq> 0 \<and> y \<noteq> 0))"
proof -
  obtain x y where xy: "adler_sums bs (a, b) = (x, y)" by fastforce
  with adler_sums_small [of "(a, b)" bs] assms(2,3) have small: "x < 65521" "y < 65521" by simp_all
  then have off: "map_prod off_by_base off_by_base (x, y) = (if x = 0 then 65521 else x, if y = 0 then 65521 else y)"
    by (simp add: off_by_base_def)
  have one: "(1 :: 'w word) = checksum (1, 0)" by (simp add: checksum_def)
  have "adler32 by_div (1 :: 'w word) (Some bs) (length bs) = Some (checksum (adler_sums bs (1, 0)))"
    using adler32_sums [OF assms(1), of 1 0 "length bs" bs by_div] unfolding one by simp
  moreover have "adler32 by_div (checksum (a, b) :: 'w word) (Some bs) (length bs) = Some (checksum (x, y))"
    using adler32_sums [OF assms(1-3), of "length bs" bs by_div] xy by simp
  moreover have "(checksum (x, y) :: 'w word) = checksum (map_prod off_by_base off_by_base (x, y)) \<longleftrightarrow> x \<noteq> 0 \<and> y \<noteq> 0"
    unfolding off using small by (subst checksum_inject [OF assms(1)]) auto
  ultimately show ?thesis
    using combined [OF assms, of by_div] unfolding xy Let_def prod.case off [symmetric] by auto
qed

lemma adler32_combine_correct_witness:
  "\<exists>v2. adler32 True (1 :: 32 word) (Some [0, 0]) (length [0, 0 :: byte]) = Some v2 \<and>
     adler32_combine True (checksum (0, 7)) v2 (of_nat (length [0, 0 :: byte])) = (checksum (65521, 7) :: 32 word) \<and>
     adler32 True (checksum (0, 7)) (Some [0, 0]) (length [0, 0 :: byte]) \<noteq>
       Some (adler32_combine True (checksum (0, 7)) v2 (of_nat (length [0, 0 :: byte])))"
proof -
  have s: "adler_sums [0, 0] (0, 7) = (0, 7)" by (simp add: adler_step_def)
  have "length [0, 0 :: byte] < 2 ^ LENGTH(32)" by simp
  from adler32_combine_correct [OF _ _ _ this, of 0 7 True, unfolded s Let_def prod.case]
  obtain v2 where "adler32 True (1 :: 32 word) (Some [0, 0]) (length [0, 0 :: byte]) = Some v2"
    "adler32_combine True (checksum (0, 7)) v2 (of_nat (length [0, 0 :: byte])) =
      (checksum (if 0 = (0 :: nat) then 65521 else 0, if 7 = (0 :: nat) then 65521 else 7) :: 32 word)"
    "adler32 True (checksum (0, 7)) (Some [0, 0]) (length [0, 0 :: byte]) =
       Some (adler32_combine True (checksum (0, 7)) v2 (of_nat (length [0, 0 :: byte]))) \<longleftrightarrow>
       0 \<noteq> (0 :: nat) \<and> 7 \<noteq> (0 :: nat)" by fastforce
  then show ?thesis by (intro exI [of _ v2] conjI) simp_all
qed

end
