(* ===== verification/Ares_Base.thy ===== *)
theory Ares_Base
  imports Prelude "HOL-Library.Monad_Syntax"
begin

text \<open>
  What the parts of the resolver c-ares (\<^verbatim>\<open>deps/uv/src/ares\<close>) share: status codes, the
  message buffer and its macros (\<^verbatim>\<open>ares_dns.h\<close>, \<^verbatim>\<open>nameser.h\<close>), case-insensitive comparison, and
  the loop over the records of a reply.

  A pointer into the message is its offset.  A read or a write outside the buffer it belongs
  to is \<open>None\<close>, so that a result other than \<open>None\<close> says that the code stayed in bounds.
  Below that, a failure is the left summand, carrying the status code the code returns.
\<close>

section \<open>Status codes\<close>

datatype ares_status =
    ARES_SUCCESS
  | ARES_ENODATA
  | ARES_EFORMERR
  | ARES_ESERVFAIL
  | ARES_ENOTFOUND
  | ARES_ENOTIMP
  | ARES_EREFUSED
  | ARES_EBADQUERY
  | ARES_EBADNAME
  | ARES_EBADFAMILY
  | ARES_EBADRESP
  | ARES_ECONNREFUSED
  | ARES_ETIMEOUT
  | ARES_EOF
  | ARES_EFILE
  | ARES_ENOMEM
  | ARES_EDESTRUCTION
  | ARES_EBADSTR
  | ARES_EBADFLAGS
  | ARES_ENONAME
  | ARES_EBADHINTS
  | ARES_ENOTINITIALIZED
  | ARES_ELOADIPHLPAPI
  | ARES_EADDRGETNETWORKPARAMS
  | ARES_ECANCELLED

fun ares_code :: "ares_status \<Rightarrow> int" where
  "ares_code ARES_SUCCESS = 0"
| "ares_code ARES_ENODATA = 1"
| "ares_code ARES_EFORMERR = 2"
| "ares_code ARES_ESERVFAIL = 3"
| "ares_code ARES_ENOTFOUND = 4"
| "ares_code ARES_ENOTIMP = 5"
| "ares_code ARES_EREFUSED = 6"
| "ares_code ARES_EBADQUERY = 7"
| "ares_code ARES_EBADNAME = 8"
| "ares_code ARES_EBADFAMILY = 9"
| "ares_code ARES_EBADRESP = 10"
| "ares_code ARES_ECONNREFUSED = 11"
| "ares_code ARES_ETIMEOUT = 12"
| "ares_code ARES_EOF = 13"
| "ares_code ARES_EFILE = 14"
| "ares_code ARES_ENOMEM = 15"
| "ares_code ARES_EDESTRUCTION = 16"
| "ares_code ARES_EBADSTR = 17"
| "ares_code ARES_EBADFLAGS = 18"
| "ares_code ARES_ENONAME = 19"
| "ares_code ARES_EBADHINTS = 20"
| "ares_code ARES_ENOTINITIALIZED = 21"
| "ares_code ARES_ELOADIPHLPAPI = 22"
| "ares_code ARES_EADDRGETNETWORKPARAMS = 23"
| "ares_code ARES_ECANCELLED = 24"

definition errtext :: "string list" where
  "errtext =
     [''Successful completion'',
      ''DNS server returned answer with no data'',
      ''DNS server claims query was misformatted'',
      ''DNS server returned general failure'',
      ''Domain name not found'',
      ''DNS server does not implement requested operation'',
      ''DNS server refused query'',
      ''Misformatted DNS query'',
      ''Misformatted domain name'',
      ''Unsupported address family'',
      ''Misformatted DNS reply'',
      ''Could not contact DNS servers'',
      ''Timeout while contacting DNS servers'',
      ''End of file'',
      ''Error reading file'',
      ''Out of memory'',
      ''Channel is being destroyed'',
      ''Misformatted string'',
      ''Illegal flags specified'',
      ''Given hostname is not numeric'',
      ''Illegal hints flags specified'',
      ''c-ares library initialization not yet performed'',
      ''Error loading iphlpapi.dll'',
      ''Could not find GetNetworkParams function'',
      ''DNS query cancelled'']"

definition ares_strerror :: "int \<Rightarrow> string" where
  "ares_strerror code =
     (if 0 \<le> code \<and> code < int (length errtext) then errtext ! nat code else ''unknown'')"

text \<open>Address families, with the numbers of Linux.\<close>

definition AF_INET :: int where "AF_INET = 2"
definition AF_INET6 :: int where "AF_INET6 = 10"

section \<open>Results\<close>

type_synonym 'a ares = "(ares_status + 'a) option"

definition fail :: "ares_status \<Rightarrow> 'a ares" where "fail st = Some (Inl st)"

definition ret :: "'a \<Rightarrow> 'a ares" where "ret x = Some (Inr x)"

definition try_ares :: "'a ares \<Rightarrow> ('a \<Rightarrow> 'b ares) \<Rightarrow> 'b ares" where
  "try_ares m f = (case m of None \<Rightarrow> None | Some (Inl st) \<Rightarrow> fail st | Some (Inr x) \<Rightarrow> f x)"

lemma try_ares_simps [simp]:
  "try_ares None f = None"
  "try_ares (fail st) f = fail st"
  "try_ares (ret x) f = f x"
  by (simp_all add: try_ares_def fail_def ret_def)

lemma ares_results [simp]:
  "ret x = Some r \<longleftrightarrow> r = Inr x" "Some r = ret x \<longleftrightarrow> r = Inr x"
  "fail st = Some r \<longleftrightarrow> r = Inl st" "Some r = fail st \<longleftrightarrow> r = Inl st"
  "ret x \<noteq> None" "fail st \<noteq> None" "ret x \<noteq> fail st" "fail st \<noteq> ret x"
  "ret x = ret y \<longleftrightarrow> x = y" "fail st = fail st' \<longleftrightarrow> st = st'"
  by (auto simp: ret_def fail_def)

lemma ares_cases [case_names crash fail ret]:
  obtains "m = None" | st where "m = fail st" | x where "m = ret x"
  by (cases m) (auto simp: ret_def fail_def split: sum.splits, metis sum.exhaust)

text \<open>\<open>no_crash m Q\<close>: the code stays in bounds and what it returns satisfies \<open>Q\<close>.\<close>

definition no_crash :: "'a option \<Rightarrow> ('a \<Rightarrow> bool) \<Rightarrow> bool" where
  "no_crash m Q \<longleftrightarrow> (\<exists>x. m = Some x \<and> Q x)"

named_theorems bounds_wp \<open>rules that show that code stays in bounds\<close>

lemma no_crash_bind [bounds_wp]:
  "no_crash m (\<lambda>x. no_crash (f x) Q) \<Longrightarrow> no_crash (m \<bind> f) Q"
  by (auto simp: no_crash_def)

lemma no_crash_Some [bounds_wp]: "Q x \<Longrightarrow> no_crash (Some x) Q"
  by (simp add: no_crash_def)

lemma no_crash_if [bounds_wp]:
  "\<lbrakk>b \<Longrightarrow> no_crash m Q; \<not> b \<Longrightarrow> no_crash m' Q\<rbrakk> \<Longrightarrow> no_crash (if b then m else m') Q"
  by simp

lemma no_crash_Let [bounds_wp]: "(\<And>x. x = e \<Longrightarrow> no_crash (f x) Q) \<Longrightarrow> no_crash (Let e f) Q"
  by simp

lemma no_crash_ret [bounds_wp]: "Q (Inr x) \<Longrightarrow> no_crash (ret x) Q"
  by (simp add: no_crash_def)

lemma no_crash_fail [bounds_wp]: "Q (Inl st) \<Longrightarrow> no_crash (fail st) Q"
  by (simp add: no_crash_def)

lemma no_crash_try:
  assumes "no_crash m R" and "\<And>st. R (Inl st) \<Longrightarrow> Q (Inl st)"
    and "\<And>x. R (Inr x) \<Longrightarrow> no_crash (f x) Q"
  shows "no_crash (try_ares m f) Q"
  using assms by (auto simp: no_crash_def try_ares_def split: sum.splits)

lemma no_crash_mono: "no_crash m Q \<Longrightarrow> (\<And>x. Q x \<Longrightarrow> R x) \<Longrightarrow> no_crash m R"
  by (auto simp: no_crash_def)

section \<open>The message buffer\<close>

type_synonym buffer = "byte list"

abbreviation DOT :: byte where "DOT \<equiv> 46"
abbreviation BSLASH :: byte where "BSLASH \<equiv> 92"

definition rd :: "buffer \<Rightarrow> nat \<Rightarrow> byte option" where
  "rd buf p = (if p < length buf then Some (buf ! p) else None)"

definition wr :: "buffer \<Rightarrow> nat \<Rightarrow> byte \<Rightarrow> buffer option" where
  "wr buf p b = (if p < length buf then Some (buf[p := b]) else None)"

definition HFIXEDSZ :: nat where "HFIXEDSZ = 12"
definition QFIXEDSZ :: nat where "QFIXEDSZ = 4"
definition RRFIXEDSZ :: nat where "RRFIXEDSZ = 10"
definition MAXCDNAME :: nat where "MAXCDNAME = 255"
definition MAXLABEL :: nat where "MAXLABEL = 63"
definition INDIR_MASK :: byte where "INDIR_MASK = 0xc0"

definition C_IN :: nat where "C_IN = 1"
definition T_A :: nat where "T_A = 1"
definition T_NS :: nat where "T_NS = 2"
definition T_CNAME :: nat where "T_CNAME = 5"
definition T_PTR :: nat where "T_PTR = 12"
definition T_MX :: nat where "T_MX = 15"
definition T_TXT :: nat where "T_TXT = 16"
definition T_AAAA :: nat where "T_AAAA = 28"
definition T_SRV :: nat where "T_SRV = 33"

lemmas dns_constants = HFIXEDSZ_def QFIXEDSZ_def RRFIXEDSZ_def MAXCDNAME_def MAXLABEL_def
  C_IN_def T_A_def T_NS_def T_CNAME_def T_PTR_def T_MX_def T_TXT_def T_AAAA_def T_SRV_def

definition DNS__16BIT :: "buffer \<Rightarrow> nat \<Rightarrow> nat option" where
  "DNS__16BIT buf p = do {
     a \<leftarrow> rd buf p;
     b \<leftarrow> rd buf (p + 1);
     Some (push_bit 8 (unat a) OR unat b)
   }"

definition DNS__32BIT :: "buffer \<Rightarrow> nat \<Rightarrow> int option" where
  "DNS__32BIT buf p = do {
     a \<leftarrow> rd buf p;
     b \<leftarrow> rd buf (p + 1);
     c \<leftarrow> rd buf (p + 2);
     d \<leftarrow> rd buf (p + 3);
     Some (sint (push_bit 24 (ucast a) OR push_bit 16 (ucast b) OR push_bit 8 (ucast c) OR ucast d
            :: 32 word))
   }"

definition DNS__SET16BIT :: "buffer \<Rightarrow> nat \<Rightarrow> int \<Rightarrow> buffer option" where
  "DNS__SET16BIT buf p v = do {
     buf \<leftarrow> wr buf p (of_int (drop_bit 8 v AND 0xff));
     wr buf (p + 1) (of_int (v AND 0xff))
   }"

definition DNS_HEADER_QDCOUNT :: "buffer \<Rightarrow> nat \<Rightarrow> nat option" where
  "DNS_HEADER_QDCOUNT buf h = DNS__16BIT buf (h + 4)"
definition DNS_HEADER_ANCOUNT :: "buffer \<Rightarrow> nat \<Rightarrow> nat option" where
  "DNS_HEADER_ANCOUNT buf h = DNS__16BIT buf (h + 6)"

definition DNS_HEADER_SET_QID :: "buffer \<Rightarrow> nat \<Rightarrow> int \<Rightarrow> buffer option" where
  "DNS_HEADER_SET_QID buf h v = DNS__SET16BIT buf h v"
definition DNS_HEADER_SET_OPCODE :: "buffer \<Rightarrow> nat \<Rightarrow> int \<Rightarrow> buffer option" where
  "DNS_HEADER_SET_OPCODE buf h v = do {
     b \<leftarrow> rd buf (h + 2);
     wr buf (h + 2) (b OR of_int (push_bit 3 (v AND 0xf)))
   }"
definition DNS_HEADER_SET_RD :: "buffer \<Rightarrow> nat \<Rightarrow> int \<Rightarrow> buffer option" where
  "DNS_HEADER_SET_RD buf h v = do {
     b \<leftarrow> rd buf (h + 2);
     wr buf (h + 2) (b OR of_int (v AND 0x1))
   }"
definition DNS_HEADER_SET_QDCOUNT :: "buffer \<Rightarrow> nat \<Rightarrow> int \<Rightarrow> buffer option" where
  "DNS_HEADER_SET_QDCOUNT buf h v = DNS__SET16BIT buf (h + 4) v"

definition DNS_QUESTION_SET_TYPE :: "buffer \<Rightarrow> nat \<Rightarrow> int \<Rightarrow> buffer option" where
  "DNS_QUESTION_SET_TYPE buf q v = DNS__SET16BIT buf q v"
definition DNS_QUESTION_SET_CLASS :: "buffer \<Rightarrow> nat \<Rightarrow> int \<Rightarrow> buffer option" where
  "DNS_QUESTION_SET_CLASS buf q v = DNS__SET16BIT buf (q + 2) v"

definition DNS_RR_TYPE :: "buffer \<Rightarrow> nat \<Rightarrow> nat option" where
  "DNS_RR_TYPE buf r = DNS__16BIT buf r"
definition DNS_RR_CLASS :: "buffer \<Rightarrow> nat \<Rightarrow> nat option" where
  "DNS_RR_CLASS buf r = DNS__16BIT buf (r + 2)"
definition DNS_RR_TTL :: "buffer \<Rightarrow> nat \<Rightarrow> int option" where
  "DNS_RR_TTL buf r = DNS__32BIT buf (r + 4)"
definition DNS_RR_LEN :: "buffer \<Rightarrow> nat \<Rightarrow> nat option" where
  "DNS_RR_LEN buf r = DNS__16BIT buf (r + 8)"

lemmas dns_macros = DNS_HEADER_QDCOUNT_def DNS_HEADER_ANCOUNT_def DNS_RR_TYPE_def DNS_RR_CLASS_def
  DNS_RR_TTL_def DNS_RR_LEN_def

lemma rd_Some [simp]: "p < length buf \<Longrightarrow> rd buf p = Some (buf ! p)"
  by (simp add: rd_def)

lemma rd_SomeD: "rd buf p = Some b \<Longrightarrow> p < length buf \<and> b = buf ! p"
  by (simp add: rd_def split: if_splits)

lemma no_crash_rd [bounds_wp]: "p < length buf \<Longrightarrow> Q (buf ! p) \<Longrightarrow> no_crash (rd buf p) Q"
  by (simp add: no_crash_def)

lemma no_crash_16 [bounds_wp]:
  "p + 1 < length buf \<Longrightarrow> (\<And>n. Q n) \<Longrightarrow> no_crash (DNS__16BIT buf p) Q"
  by (simp add: DNS__16BIT_def no_crash_def)

lemma no_crash_32 [bounds_wp]:
  "p + 3 < length buf \<Longrightarrow> (\<And>n. Q n) \<Longrightarrow> no_crash (DNS__32BIT buf p) Q"
  by (simp add: DNS__32BIT_def no_crash_def)

lemma rd_append: "rd (xs @ b # ys) (length xs) = Some b"
  by (simp add: rd_def)

lemma rd_drop: "drop p buf = b # ys \<Longrightarrow> rd buf p = Some b"
  by (metis drop_eq_Nil leI list.distinct(1) nth_via_drop rd_def)

lemma rd_drop_Suc: "drop p buf = a # b # ys \<Longrightarrow> rd buf (Suc p) = Some b"
  by (metis drop_Suc list.sel(3) rd_drop tl_drop)

text \<open>Numbers in network order.\<close>

definition word16 :: "int \<Rightarrow> byte list" where
  "word16 v = [of_int (drop_bit 8 v), of_int v]"

definition word32 :: "32 word \<Rightarrow> byte list" where
  "word32 w = [ucast (drop_bit 24 w), ucast (drop_bit 16 w), ucast (drop_bit 8 w), ucast w]"

lemma word16_word32_length [simp]: "length (word16 v) = 2" "length (word32 w) = 4"
  by (simp_all add: word16_def word32_def)

lemma rd_drops:
  "drop p buf = a # ys \<Longrightarrow> rd buf p = Some a"
  "drop p buf = a # b # ys \<Longrightarrow> rd buf (p + 1) = Some b"
  "drop p buf = a # b # c # ys \<Longrightarrow> rd buf (p + 2) = Some c"
  "drop p buf = a # b # c # d # ys \<Longrightarrow> rd buf (p + 3) = Some d"
proof -
  have nth: "rd buf (p + k) = Some (zs ! k)" if "drop p buf = zs" "k < length zs" for k zs
    using that by (auto simp: rd_def)
  show "drop p buf = a # ys \<Longrightarrow> rd buf p = Some a" using nth [of "a # ys" 0] by simp
  show "drop p buf = a # b # ys \<Longrightarrow> rd buf (p + 1) = Some b" using nth [of "a # b # ys" 1] by simp
  show "drop p buf = a # b # c # ys \<Longrightarrow> rd buf (p + 2) = Some c" using nth [of "a # b # c # ys" 2] by simp
  show "drop p buf = a # b # c # d # ys \<Longrightarrow> rd buf (p + 3) = Some d"
    using nth [of "a # b # c # d # ys" 3] by simp
qed

lemma read_word16:
  assumes "drop p buf = word16 (int v) @ ys" "v < 2 ^ 16"
  shows "DNS__16BIT buf p = Some v"
proof -
  let ?hi = "of_int (drop_bit 8 (int v)) :: byte" and ?lo = "of_int (int v) :: byte"
  have "rd buf p = Some ?hi" "rd buf (p + 1) = Some ?lo"
    using assms(1) rd_drops(1,2) by (simp_all add: word16_def)
  moreover have "push_bit 8 (unat ?hi) OR unat ?lo = v"
  proof (rule bit_eqI)
    fix n
    have "\<not> bit v n" if "16 \<le> n"
      using assms(2) that by (metis bit_take_bit_iff take_bit_nat_eq_self not_le)
    then show "bit (push_bit 8 (unat ?hi) OR unat ?lo) n = bit v n"
      by (cases "n < 8"; cases "n < 16") (auto simp: bit_simps not_less unsigned_of_nat)
  qed
  ultimately show ?thesis by (simp add: DNS__16BIT_def)
qed

lemma read_word32:
  assumes "drop p buf = word32 w @ ys"
  shows "DNS__32BIT buf p = Some (sint w)"
proof -
  have "rd buf p = Some (ucast (drop_bit 24 w))" "rd buf (p + 1) = Some (ucast (drop_bit 16 w))"
    "rd buf (p + 2) = Some (ucast (drop_bit 8 w))" "rd buf (p + 3) = Some (ucast w)"
    using assms rd_drops by (simp_all add: word32_def)
  moreover have "push_bit 24 (ucast (ucast (drop_bit 24 w) :: byte)) OR
      push_bit 16 (ucast (ucast (drop_bit 16 w) :: byte)) OR
      push_bit 8 (ucast (ucast (drop_bit 8 w) :: byte)) OR ucast (ucast w :: byte) = w" (is "?x = w")
  proof (rule bit_eqI)
    fix n assume "possible_bit TYPE(32 word) n"
    then have n: "n < 32" by simp
    consider "n < 8" | "8 \<le> n" "n < 16" | "16 \<le> n" "n < 24" | "24 \<le> n" by linarith
    then show "bit ?x n = bit w n"
      using n by cases (auto simp: bit_or_iff bit_push_bit_iff bit_unsigned_iff bit_drop_bit_eq)
  qed
  ultimately show ?thesis by (simp add: DNS__32BIT_def)
qed

section \<open>Comparison without case\<close>

text \<open>A C string is read up to its terminator; a list stands for its bytes, followed by 0.\<close>

definition ISUPPER :: "byte \<Rightarrow> bool" where "ISUPPER c \<longleftrightarrow> chr CHR ''A'' \<le> c \<and> c \<le> chr CHR ''Z''"

definition tolower :: "byte \<Rightarrow> byte" where "tolower c = (if ISUPPER c then c + 32 else c)"

definition cstr :: "byte list \<Rightarrow> byte list" where "cstr s = takeWhile (\<lambda>c. c \<noteq> 0) s"

fun ares_strcasecmp :: "byte list \<Rightarrow> byte list \<Rightarrow> int" where
  "ares_strcasecmp a b =
     (let c1 = (case a of [] \<Rightarrow> 0 | c # _ \<Rightarrow> if ISUPPER c then tolower c else c);
          c2 = (case b of [] \<Rightarrow> 0 | c # _ \<Rightarrow> if ISUPPER c then tolower c else c)
      in if c1 \<noteq> c2 then sint c1 - sint c2
         else if c1 = 0 then 0
         else case (a, b) of
                (_ # a', _ # b') \<Rightarrow> ares_strcasecmp a' b'
              | _ \<Rightarrow> 0)"

declare ares_strcasecmp.simps [simp del]

lemma tolower_zero [simp]: "tolower c = 0 \<longleftrightarrow> c = 0"
  by (auto simp: tolower_def ISUPPER_def word_le_nat_alt) (simp add: unat_arith_simps)

lemma sint_diff_0: "sint c - sint d = 0 \<longleftrightarrow> c = d" for c d :: byte
  by (metis eq_iff_diff_eq_0 signed_word_eqI)

lemma lower_if: "(if ISUPPER c then tolower c else c) = tolower c"
  by (simp add: tolower_def)

lemma tolower_0 [simp]: "tolower 0 = 0"
  by simp

lemma ares_strcasecmp_cases:
  "ares_strcasecmp [] [] = 0"
  "ares_strcasecmp (c # a) [] = sint (tolower c) - sint (0 :: byte)"
  "ares_strcasecmp [] (d # b) = sint (0 :: byte) - sint (tolower d)"
  "ares_strcasecmp (c # a) (d # b) =
     (if tolower c \<noteq> tolower d then sint (tolower c) - sint (tolower d)
      else if c = 0 then 0 else ares_strcasecmp a b)"
  by (subst ares_strcasecmp.simps; auto simp add: lower_if Let_def)+

lemma ares_strcasecmp_eq_0:
  "ares_strcasecmp a b = 0 \<longleftrightarrow> map tolower (cstr a) = map tolower (cstr b)"
proof (induction a arbitrary: b)
  case Nil
  show ?case
    by (cases b) (simp_all only: ares_strcasecmp_cases sint_diff_0, auto simp: cstr_def)
next
  case (Cons c a)
  show ?case
  proof (cases b)
    case Nil
    then show ?thesis by (simp only: ares_strcasecmp_cases sint_diff_0) (auto simp: cstr_def)
  next
    case b: (Cons d b')
    have "tolower c = tolower d \<Longrightarrow> c = 0 \<longleftrightarrow> d = 0" by (metis tolower_zero)
    then show ?thesis using Cons.IH [of b'] unfolding b
      by (cases "tolower c = tolower d")
        (simp_all only: ares_strcasecmp_cases sint_diff_0 if_True if_False not_True_eq_False
          not_False_eq_True, auto simp: cstr_def)
  qed
qed

section \<open>The loop over the answers\<close>

text \<open>One pass of the body of \<^verbatim>\<open>for (i = 0; i < ancount; i++)\<close> either goes on to the next
  record or leaves the loop with a status.\<close>

datatype 's pass = Next 's | Stop ares_status 's

fun for_answers :: "(nat \<Rightarrow> 's \<Rightarrow> 's pass option) \<Rightarrow> nat \<Rightarrow> nat \<Rightarrow> 's \<Rightarrow> (ares_status \<times> 's) option" where
  "for_answers body i 0 s = Some (ARES_SUCCESS, s)"
| "for_answers body i (Suc k) s =
     (case body i s of
        None \<Rightarrow> None
      | Some (Stop st s) \<Rightarrow> Some (st, s)
      | Some (Next s) \<Rightarrow> for_answers body (Suc i) k s)"

text \<open>Code inside the body that leaves the loop when a call fails.\<close>

definition or_stop :: "'a ares \<Rightarrow> 's \<Rightarrow> ('a \<Rightarrow> 's pass option) \<Rightarrow> 's pass option" where
  "or_stop m s f =
     (case m of None \<Rightarrow> None | Some (Inl st) \<Rightarrow> Some (Stop st s) | Some (Inr x) \<Rightarrow> f x)"

lemma or_stop_simps [simp]:
  "or_stop None s f = None"
  "or_stop (fail st) s f = Some (Stop st s)"
  "or_stop (ret x) s f = f x"
  by (simp_all add: or_stop_def fail_def ret_def)

lemma no_crash_or_stop:
  assumes "no_crash m R" and "\<And>st. R (Inl st) \<Longrightarrow> Q (Stop st s)"
    and "\<And>x. R (Inr x) \<Longrightarrow> no_crash (f x) Q"
  shows "no_crash (or_stop m s f) Q"
  using assms by (auto simp: no_crash_def or_stop_def split: sum.splits)

definition pass_ok :: "('s \<Rightarrow> bool) \<Rightarrow> ('s \<Rightarrow> bool) \<Rightarrow> 's pass \<Rightarrow> bool" where
  "pass_ok good stopped r \<longleftrightarrow>
     (case r of Next s \<Rightarrow> good s | Stop st s \<Rightarrow> st \<noteq> ARES_SUCCESS \<and> stopped s)"

lemma pass_ok_simps [simp]:
  "pass_ok G S (Next s) = G s" "pass_ok G S (Stop st s) = (st \<noteq> ARES_SUCCESS \<and> S s)"
  by (simp_all add: pass_ok_def)

text \<open>A parser of replies: every pass stays in bounds and keeps what the code relies on.\<close>

locale answer_loop =
  fixes body :: "nat \<Rightarrow> 's \<Rightarrow> 's pass option"
    and good :: "nat \<Rightarrow> 's \<Rightarrow> bool"
    and stopped :: "'s \<Rightarrow> bool"
    and total :: nat
  assumes body_good: "i < total \<Longrightarrow> good i s \<Longrightarrow>
      no_crash (body i s) (pass_ok (good (Suc i)) stopped)"
begin

lemma loop_good:
  "good i s \<Longrightarrow> i + k = n \<Longrightarrow> n \<le> total \<Longrightarrow>
     no_crash (for_answers body i k s) (\<lambda>(st, s'). if st = ARES_SUCCESS then good n s' else stopped s')"
proof (induction k arbitrary: i s)
  case 0
  then show ?case by (simp add: no_crash_def)
next
  case (Suc k)
  then obtain r where r: "body i s = Some r"
    "pass_ok (good (Suc i)) stopped r"
    using body_good [of i s] by (auto simp: no_crash_def)
  show ?case
  proof (cases r)
    case (Next s')
    with r Suc show ?thesis using Suc.IH [of "Suc i" s'] by simp
  next
    case (Stop st s')
    with r show ?thesis by (simp add: no_crash_def)
  qed
qed

end

end
