(* ===== verification/Ares_Name.thy ===== *)
theory Ares_Name
  imports Ares_Base
begin

text \<open>
  Names and strings in a message: \<^verbatim>\<open>ares_expand_name.c\<close> and \<^verbatim>\<open>ares_expand_string.c\<close>.
  \<^verbatim>\<open>ares_expand_name\<close> runs over a name twice: \<^verbatim>\<open>name_length\<close> checks it and counts, then the name
  is written without checks into a buffer of that size.  The second loop has no bound of its
  own, so it is a partial function, and its writes are checked against the buffer's size: that
  they stay inside is a theorem.

  The answer of \<^verbatim>\<open>malloc\<close> is the argument \<open>ok\<close>.  A result is the string, without its
  terminator, and the length of the encoding.
\<close>

section \<open>Names\<close>

definition is_indir :: "byte \<Rightarrow> bool" where
  "is_indir b \<longleftrightarrow> b AND INDIR_MASK = INDIR_MASK"

definition indir_offset :: "byte \<Rightarrow> byte \<Rightarrow> nat" where
  "indir_offset b c = push_bit 8 (unat (b AND NOT INDIR_MASK)) OR unat c"

definition escaped :: "byte \<Rightarrow> bool" where
  "escaped b \<longleftrightarrow> b = DOT \<or> b = BSLASH"

fun count_label :: "buffer \<Rightarrow> nat \<Rightarrow> nat \<Rightarrow> nat \<Rightarrow> nat option" where
  "count_label abuf encoded 0 n = Some n"
| "count_label abuf encoded (Suc offset) n = do {
     b \<leftarrow> rd abuf encoded;
     count_label abuf (encoded + 1) offset (n + (if escaped b then 2 else 1))
   }"

function name_length_loop :: "buffer \<Rightarrow> nat \<Rightarrow> nat \<Rightarrow> nat \<Rightarrow> int option" where
  "name_length_loop abuf encoded n indir =
     (let alen = length abuf in
      case rd abuf encoded of
        None \<Rightarrow> None
      | Some b \<Rightarrow>
          if b = 0 then Some (if n \<noteq> 0 then int n - 1 else int n)
          else if is_indir b
          then if encoded + 1 \<ge> alen then Some (-1)
               else (case rd abuf (encoded + 1) of
                       None \<Rightarrow> None
                     | Some c \<Rightarrow>
                         let offset = indir_offset b c
                         in if offset \<ge> alen then Some (-1)
                            else if indir + 1 > alen then Some (-1)
                            else name_length_loop abuf offset n (indir + 1))
          else let offset = unat b
               in if encoded + offset + 1 \<ge> alen then Some (-1)
                  else (case count_label abuf (encoded + 1) offset n of
                          None \<Rightarrow> None
                        | Some n \<Rightarrow> name_length_loop abuf (encoded + 1 + offset) (n + 1) indir))"
  by pat_completeness auto
termination
  by (relation "measures [\<lambda>(abuf, encoded, n, indir). length abuf + 1 - indir,
                          \<lambda>(abuf, encoded, n, indir). length abuf - encoded]")
    (auto dest: rd_SomeD)

declare name_length_loop.simps [simp del]

definition name_length :: "buffer \<Rightarrow> nat \<Rightarrow> int option" where
  "name_length abuf encoded =
     (if encoded = length abuf then Some (-1) else name_length_loop abuf encoded 0 0)"

text \<open>Writing through \<^verbatim>\<open>q\<close> into a buffer of \<open>cap\<close> bytes.\<close>

definition put :: "nat \<Rightarrow> byte list \<Rightarrow> byte \<Rightarrow> byte list option" where
  "put cap q b = (if length q < cap then Some (q @ [b]) else None)"

fun copy_label :: "buffer \<Rightarrow> nat \<Rightarrow> nat \<Rightarrow> nat \<Rightarrow> byte list \<Rightarrow> byte list option" where
  "copy_label abuf cap p 0 q = Some q"
| "copy_label abuf cap p (Suc len) q = do {
     b \<leftarrow> rd abuf p;
     q \<leftarrow> (if escaped b then put cap q BSLASH else Some q);
     q \<leftarrow> put cap q b;
     copy_label abuf cap (p + 1) len q
   }"

partial_function (option) expand_loop ::
    "buffer \<Rightarrow> nat \<Rightarrow> nat \<Rightarrow> nat \<Rightarrow> nat option \<Rightarrow> byte list \<Rightarrow> (byte list \<times> nat) option" where
  "expand_loop abuf cap encoded p enclen q =
     (case rd abuf p of
        None \<Rightarrow> None
      | Some b \<Rightarrow>
          if b = 0 then Some (q, case enclen of None \<Rightarrow> p + 1 - encoded | Some e \<Rightarrow> e)
          else if is_indir b
          then (case rd abuf (p + 1) of
                  None \<Rightarrow> None
                | Some c \<Rightarrow>
                    expand_loop abuf cap encoded (indir_offset b c)
                      (case enclen of None \<Rightarrow> Some (p + 2 - encoded) | Some e \<Rightarrow> Some e) q)
          else (case copy_label abuf cap (p + 1) (unat b) q of
                  None \<Rightarrow> None
                | Some q \<Rightarrow>
                    (case put cap q DOT of
                       None \<Rightarrow> None
                     | Some q \<Rightarrow> expand_loop abuf cap encoded (p + 1 + unat b) enclen q)))"

declare expand_loop.simps [code]

definition ares_expand_name :: "bool \<Rightarrow> buffer \<Rightarrow> nat \<Rightarrow> (byte list \<times> nat) ares" where
  "ares_expand_name ok abuf encoded =
     (case name_length abuf encoded of
        None \<Rightarrow> None
      | Some nlen \<Rightarrow>
          if nlen < 0 then fail ARES_EBADNAME
          else if \<not> ok then fail ARES_ENOMEM
          else if nlen = 0
          then (case rd abuf encoded of
                  None \<Rightarrow> None
                | Some b \<Rightarrow> ret ([], if is_indir b then 2 else 1))
          else (case expand_loop abuf (nat nlen + 1) encoded encoded None [] of
                  None \<Rightarrow> None
                | Some (q, enclen) \<Rightarrow> ret (if q \<noteq> [] then butlast q else q, enclen)))"

definition ares__expand_name_for_response :: "bool \<Rightarrow> buffer \<Rightarrow> nat \<Rightarrow> (byte list \<times> nat) ares" where
  "ares__expand_name_for_response ok abuf encoded =
     (case ares_expand_name ok abuf encoded of
        Some (Inl st) \<Rightarrow> fail (if st = ARES_EBADNAME then ARES_EBADRESP else st)
      | r \<Rightarrow> r)"

section \<open>Strings\<close>

definition ares_expand_string :: "bool \<Rightarrow> buffer \<Rightarrow> nat \<Rightarrow> (byte list \<times> nat) ares" where
  "ares_expand_string ok abuf encoded =
     (if encoded = length abuf then fail ARES_EBADSTR
      else case rd abuf encoded of
             None \<Rightarrow> None
           | Some b \<Rightarrow>
               let elen = unat b
               in if encoded + elen + 1 > length abuf then fail ARES_EBADSTR
                  else if \<not> ok then fail ARES_ENOMEM
                  else ret (cstr (segment (encoded + 1) (encoded + 1 + elen) abuf), elen + 1))"

section \<open>Staying in bounds\<close>

fun escape_label :: "byte list \<Rightarrow> byte list" where
  "escape_label [] = []"
| "escape_label (b # l) = (if escaped b then [BSLASH, b] else [b]) @ escape_label l"

lemma escape_label_Nil [simp]: "escape_label l = [] \<longleftrightarrow> l = []"
  by (cases l) simp_all

lemma count_label:
  assumes "p + k \<le> length abuf"
  shows "count_label abuf p k n = Some (n + length (escape_label (segment p (p + k) abuf)))"
  using assms
proof (induction k arbitrary: p n)
  case (Suc k)
  then have "segment p (p + Suc k) abuf = abuf ! p # segment (Suc p) (Suc p + k) abuf"
    by (simp add: segment_def Cons_nth_drop_Suc [symmetric])
  with Suc show ?case by (simp add: Suc.IH)
qed simp

lemma put_simp [simp]: "length q < cap \<Longrightarrow> put cap q b = Some (q @ [b])"
  by (simp add: put_def)

lemma copy_label:
  assumes "p + k \<le> length abuf" "length q + length (escape_label (segment p (p + k) abuf)) \<le> cap"
  shows "copy_label abuf cap p k q = Some (q @ escape_label (segment p (p + k) abuf))"
  using assms
proof (induction k arbitrary: p q)
  case (Suc k)
  then have "segment p (p + Suc k) abuf = abuf ! p # segment (Suc p) (Suc p + k) abuf"
    by (simp add: segment_def Cons_nth_drop_Suc [symmetric])
  with Suc show ?case by (cases "escaped (abuf ! p)") auto
qed simp

text \<open>\<open>expands abuf p w m\<close>: from \<open>p\<close>, the second loop writes \<open>w\<close>, given the room, and the
  encoding at \<open>p\<close> ends before \<open>m\<close>.\<close>

definition expands :: "buffer \<Rightarrow> nat \<Rightarrow> byte list \<Rightarrow> nat \<Rightarrow> bool" where
  "expands abuf p w m \<longleftrightarrow>
     p < m \<and> m \<le> length abuf \<and>
     (w = [] \<longrightarrow> m = p + (if is_indir (abuf ! p) then 2 else 1)) \<and> length w \<noteq> 1 \<and>
     (\<forall>cap encoded enclen q. length q + length w \<le> cap \<longrightarrow>
        expand_loop abuf cap encoded p enclen q =
          Some (q @ w, case enclen of None \<Rightarrow> m - encoded | Some e \<Rightarrow> e))"

lemma is_indir_0 [simp]: "\<not> is_indir 0"
  by (simp add: is_indir_def INDIR_MASK_def)

lemma expands_stop: "p < length abuf \<Longrightarrow> abuf ! p = 0 \<Longrightarrow> expands abuf p [] (p + 1)"
  by (simp add: expands_def expand_loop.simps split: option.split)

lemma expands_indir:
  assumes "p + 1 < length abuf" "is_indir (abuf ! p)"
    and "expands abuf (indir_offset (abuf ! p) (abuf ! (p + 1))) w m"
  shows "expands abuf p w (p + 2)"
proof -
  have "abuf ! p \<noteq> 0" using assms(2) by (metis is_indir_0)
  with assms show ?thesis
    by (auto simp: expands_def expand_loop.simps [of abuf _ _ p] split: option.split)
qed

lemma expands_label:
  assumes "p + 1 + unat (abuf ! p) < length abuf" "abuf ! p \<noteq> 0" "\<not> is_indir (abuf ! p)"
    and "expands abuf (p + 1 + unat (abuf ! p)) w m"
  shows "expands abuf p (escape_label (segment (p + 1) (p + 1 + unat (abuf ! p)) abuf) @ DOT # w) m"
proof -
  let ?l = "escape_label (segment (p + 1) (p + 1 + unat (abuf ! p)) abuf)"
  have "copy_label abuf cap (p + 1) (unat (abuf ! p)) q = Some (q @ ?l)"
    if "length q + length (?l @ DOT # w) \<le> cap" for cap q
    using copy_label [of "p + 1" "unat (abuf ! p)" abuf q cap] assms(1) that by simp
  moreover have "segment (p + 1) (p + 1 + unat (abuf ! p)) abuf \<noteq> []"
    using assms(1,2) by (simp add: segment_def unat_eq_0)
  ultimately show ?thesis using assms
    by (simp add: expands_def expand_loop.simps [of abuf _ _ p])
qed

text \<open>Whatever \<^verbatim>\<open>name_length\<close> accepts is expanded, in exactly as many bytes as it counted.\<close>

definition less_dot :: "nat \<Rightarrow> int" where
  "less_dot k = (if k \<noteq> 0 then int k - 1 else int k)"

definition counts :: "buffer \<Rightarrow> nat \<Rightarrow> nat \<Rightarrow> int \<Rightarrow> bool" where
  "counts abuf p n r \<longleftrightarrow>
     r = -1 \<or> (\<exists>w m. expands abuf p w m \<and> r = less_dot (n + length w))"

lemma counts_error: "counts abuf p n (-1)"
  by (simp add: counts_def)

lemma countsI:
  "expands abuf p w m \<Longrightarrow> counts abuf p n (less_dot (n + length w))"
  by (auto simp: counts_def)

lemma counts_indir:
  assumes "counts abuf (indir_offset (abuf ! p) (abuf ! (p + 1))) n r"
    and "p + 1 < length abuf" "is_indir (abuf ! p)"
  shows "counts abuf p n r"
  using assms(1) expands_indir [OF assms(2,3)] unfolding counts_def by blast

lemma counts_label:
  assumes "counts abuf (p + 1 + unat (abuf ! p))
      (n + length (escape_label (segment (p + 1) (p + 1 + unat (abuf ! p)) abuf)) + 1) r"
    and "p + 1 + unat (abuf ! p) < length abuf" "abuf ! p \<noteq> 0" "\<not> is_indir (abuf ! p)"
  shows "counts abuf p n r"
proof (cases "r = -1")
  case False
  with assms(1) obtain w m where w: "expands abuf (p + 1 + unat (abuf ! p)) w m"
    "r = less_dot (n + length (escape_label (segment (p + 1) (p + 1 + unat (abuf ! p)) abuf)) + 1 + length w)"
    by (auto simp: counts_def)
  from w(2) countsI [OF expands_label [OF assms(2-4) w(1)], of n] show ?thesis by (simp add: add.assoc)
qed (simp add: counts_def)

text \<open>One round of the first loop, on each branch.\<close>

lemma name_length_steps:
  assumes "p < length abuf"
  shows "abuf ! p = 0 \<Longrightarrow> name_length_loop abuf p n indir = Some (less_dot n)"
    and "is_indir (abuf ! p) \<Longrightarrow> name_length_loop abuf p n indir =
      (let d = indir_offset (abuf ! p) (abuf ! (p + 1))
       in if p + 1 < length abuf \<and> d < length abuf \<and> indir + 1 \<le> length abuf
          then name_length_loop abuf d n (indir + 1) else Some (-1))"
    and "abuf ! p \<noteq> 0 \<Longrightarrow> \<not> is_indir (abuf ! p) \<Longrightarrow> name_length_loop abuf p n indir =
      (let q = p + 1 + unat (abuf ! p)
       in if q < length abuf
          then name_length_loop abuf q (n + length (escape_label (segment (p + 1) q abuf)) + 1) indir
          else Some (-1))"
proof -
  show "abuf ! p = 0 \<Longrightarrow> name_length_loop abuf p n indir = Some (less_dot n)"
    using assms by (subst name_length_loop.simps) (simp add: less_dot_def)
  show "is_indir (abuf ! p) \<Longrightarrow> name_length_loop abuf p n indir =
      (let d = indir_offset (abuf ! p) (abuf ! (p + 1))
       in if p + 1 < length abuf \<and> d < length abuf \<and> indir + 1 \<le> length abuf
          then name_length_loop abuf d n (indir + 1) else Some (-1))"
    using assms by (subst name_length_loop.simps) (auto simp: Let_def)
  show "abuf ! p \<noteq> 0 \<Longrightarrow> \<not> is_indir (abuf ! p) \<Longrightarrow> name_length_loop abuf p n indir =
      (let q = p + 1 + unat (abuf ! p)
       in if q < length abuf
          then name_length_loop abuf q (n + length (escape_label (segment (p + 1) q abuf)) + 1) indir
          else Some (-1))"
    using assms by (subst name_length_loop.simps) (simp add: Let_def count_label)
qed

lemma name_length_induct [consumes 1, case_names step]:
  assumes "p < length abuf"
    and "\<And>p n indir. p < length abuf \<Longrightarrow>
      (\<And>q n. q < length abuf \<Longrightarrow> indir + 1 \<le> length abuf \<Longrightarrow> P q n (indir + 1)) \<Longrightarrow>
      (\<And>q n. p < q \<Longrightarrow> q < length abuf \<Longrightarrow> P q n indir) \<Longrightarrow> P p n indir"
  shows "P p n indir"
  using assms(1)
proof (induction "length abuf + 1 - indir" arbitrary: p n indir rule: less_induct)
  case outer: less
  from outer.prems show ?case
  proof (induction "length abuf - p" arbitrary: p n rule: less_induct)
    case inner: less
    show ?case by (rule assms(2)) (use inner outer in auto)
  qed
qed

lemma name_length_counts:
  "encoded < length abuf \<Longrightarrow> no_crash (name_length_loop abuf encoded n indir) (counts abuf encoded n)"
proof (induction encoded n indir rule: name_length_induct)
  case (step p n indir)
  consider (stop) "abuf ! p = 0" | (indir) "is_indir (abuf ! p)"
    | (label) "abuf ! p \<noteq> 0" "\<not> is_indir (abuf ! p)" by blast
  then show ?case
  proof cases
    case stop
    with step(1) show ?thesis
      using countsI [OF expands_stop, of p abuf n] by (simp add: name_length_steps no_crash_Some)
  next
    case indir
    let ?d = "indir_offset (abuf ! p) (abuf ! (p + 1))"
    have "no_crash (name_length_loop abuf ?d n (indir + 1)) (counts abuf p n)"
      if "p + 1 < length abuf" "?d < length abuf" "indir + 1 \<le> length abuf"
      using step(2) [of ?d n, OF that(2,3)] counts_indir [OF _ that(1) indir] by (rule no_crash_mono)
    with step(1) indir show ?thesis by (simp add: name_length_steps Let_def no_crash_Some counts_error)
  next
    case label
    let ?q = "p + 1 + unat (abuf ! p)"
    let ?n = "n + length (escape_label (segment (p + 1) ?q abuf)) + 1"
    have "no_crash (name_length_loop abuf ?q ?n indir) (counts abuf p n)" if "?q < length abuf"
      using step(3) [of ?q ?n, OF _ that] counts_label [OF _ that label] by (rule no_crash_mono) simp
    with step(1) label show ?thesis by (simp add: name_length_steps Let_def no_crash_Some counts_error)
  qed
qed

text \<open>What the caller gets: a part of the message was used, and all reads were inside it.\<close>

definition name_result :: "buffer \<Rightarrow> nat \<Rightarrow> ares_status + byte list \<times> nat \<Rightarrow> bool" where
  "name_result abuf p r \<longleftrightarrow>
     (case r of Inl st \<Rightarrow> st \<noteq> ARES_SUCCESS | Inr (s, len) \<Rightarrow> 0 < len \<and> p + len \<le> length abuf)"

lemma expand_name_expands:
  assumes "name_length abuf p = Some (less_dot (length w))" "expands abuf p w m"
  shows "ares_expand_name True abuf p = ret (butlast w, m - p)"
proof -
  have p: "p < length abuf" using assms(2) by (simp add: expands_def)
  show ?thesis
  proof (cases "w = []")
    case True
    with assms p show ?thesis by (simp add: ares_expand_name_def expands_def less_dot_def)
  next
    case False
    moreover with assms(2) have "1 < length w" by (cases "length w") (auto simp: expands_def)
    ultimately show ?thesis using assms
      by (simp add: ares_expand_name_def expands_def less_dot_def nat_diff_distrib)
  qed
qed

lemma expand_name_safe:
  assumes "p \<le> length abuf"
  shows "no_crash (ares_expand_name ok abuf p) (name_result abuf p)"
proof (cases "p = length abuf")
  case True
  then show ?thesis
    by (simp add: ares_expand_name_def name_length_def no_crash_def name_result_def)
next
  case False
  with assms have p: "p < length abuf" by simp
  then obtain r where r: "name_length abuf p = Some r" "counts abuf p 0 r"
    using name_length_counts [of p abuf 0 0] False by (auto simp: no_crash_def name_length_def)
  show ?thesis
  proof (cases "r = -1 \<or> \<not> ok")
    case True
    with r show ?thesis by (auto simp: ares_expand_name_def no_crash_def name_result_def)
  next
    case False
    with r obtain w m where "expands abuf p w m" "r = less_dot (length w)" by (auto simp: counts_def)
    with r False show ?thesis using expand_name_expands [of abuf p w m]
      by (auto simp: no_crash_def name_result_def expands_def)
  qed
qed

lemma expand_for_response_safe:
  "p \<le> length abuf \<Longrightarrow> no_crash (ares__expand_name_for_response ok abuf p) (name_result abuf p)"
  using expand_name_safe [of p abuf ok]
  by (cases "ares_expand_name ok abuf p" rule: ares_cases)
    (auto simp: ares__expand_name_for_response_def no_crash_def name_result_def fail_def ret_def)

lemma expand_string_safe:
  "p \<le> length abuf \<Longrightarrow> no_crash (ares_expand_string ok abuf p) (name_result abuf p)"
  by (auto simp: ares_expand_string_def no_crash_def name_result_def Let_def)

section \<open>Names without compression\<close>

text \<open>The encoding of a list of labels, and the text that stands for them.\<close>

fun encode_name :: "byte list list \<Rightarrow> byte list" where
  "encode_name [] = [0]"
| "encode_name (l # ls) = of_nat (length l) # l @ encode_name ls"

definition dots :: "byte list list \<Rightarrow> byte list" where
  "dots ls = concat (map (\<lambda>l. escape_label l @ [DOT]) ls)"

definition dotted :: "byte list list \<Rightarrow> byte list" where
  "dotted ls = butlast (dots ls)"

definition label_ok :: "byte list \<Rightarrow> bool" where
  "label_ok l \<longleftrightarrow> l \<noteq> [] \<and> length l \<le> MAXLABEL"

lemma label_length:
  assumes "label_ok l"
  shows "unat (of_nat (length l) :: byte) = length l" "(of_nat (length l) :: byte) \<noteq> 0"
    "\<not> is_indir (of_nat (length l))"
proof -
  have l: "0 < length l" "length l < 64" using assms by (auto simp: label_ok_def MAXLABEL_def)
  then show u: "unat (of_nat (length l) :: byte) = length l" by (simp add: unat_of_nat_small)
  with l(1) show "(of_nat (length l) :: byte) \<noteq> 0" by (metis less_irrefl unat_0)
  show "\<not> is_indir (of_nat (length l))"
  proof
    assume "is_indir (of_nat (length l))"
    then have "INDIR_MASK \<le> (of_nat (length l) :: byte)"
      unfolding is_indir_def by (metis word_and_le2)
    with u l(2) show False by (simp add: word_le_nat_alt INDIR_MASK_def)
  qed
qed

lemma encoded_label:
  assumes d: "drop p abuf = of_nat (length l) # l @ ys" and l: "label_ok l" and ys: "ys \<noteq> []"
  shows "p < length abuf" "abuf ! p = of_nat (length l)" "unat (abuf ! p) = length l"
    "p + 1 + length l < length abuf" "segment (p + 1) (p + 1 + length l) abuf = l"
    "drop (p + 1 + length l) abuf = ys"
proof -
  show p: "p < length abuf" using d by (metis drop_eq_Nil leI list.distinct(1))
  show b: "abuf ! p = of_nat (length l)" using d by (metis nth_via_drop)
  then show "unat (abuf ! p) = length l" using label_length [OF l] by simp
  have d1: "drop (p + 1) abuf = l @ ys" using d by (metis Suc_eq_plus1 drop_Suc list.sel(3) tl_drop)
  then show "segment (p + 1) (p + 1 + length l) abuf = l" by (simp add: segment_def)
  have "drop (length l) (drop (p + 1) abuf) = ys" unfolding d1 by simp
  then show d2: "drop (p + 1 + length l) abuf = ys" by (simp add: add.commute add.left_commute)
  with ys show "p + 1 + length l < length abuf" by (metis drop_eq_Nil leI)
qed

lemma encode_name_nonempty [simp]: "encode_name ls \<noteq> []"
  by (cases ls) simp_all

lemma dots_Cons: "dots (l # ls) = escape_label l @ DOT # dots ls"
  by (simp add: dots_def)

lemma expands_encoded:
  assumes "drop p abuf = encode_name ls @ rest" "\<forall>l \<in> set ls. label_ok l"
  shows "expands abuf p (dots ls) (p + length (encode_name ls))"
  using assms
proof (induction ls arbitrary: p)
  case Nil
  then have "p < length abuf" "abuf ! p = 0"
    by (metis append_Cons drop_eq_Nil encode_name.simps(1) leI list.distinct(1), simp add: nth_via_drop)
  then show ?case using expands_stop by (simp add: dots_def)
next
  case (Cons l ls)
  then have l: "label_ok l" and d: "drop p abuf = of_nat (length l) # l @ encode_name ls @ rest" by simp_all
  note e = encoded_label [OF d l, simplified]
  have "expands abuf (p + 1 + length l) (dots ls) (p + 1 + length l + length (encode_name ls))"
    using Cons.IH [of "p + 1 + length l"] Cons.prems(2) e(6) by simp
  then show ?case
    using expands_label [of p abuf "dots ls" "p + 1 + length l + length (encode_name ls)"] e label_length [OF l]
    by (simp add: dots_Cons add.assoc)
qed

lemma name_length_encoded:
  assumes "drop p abuf = encode_name ls @ rest" "\<forall>l \<in> set ls. label_ok l"
  shows "name_length_loop abuf p n indir = Some (less_dot (n + length (dots ls)))"
  using assms
proof (induction ls arbitrary: p n)
  case Nil
  then have "p < length abuf" "abuf ! p = 0"
    by (metis append_Cons drop_eq_Nil encode_name.simps(1) leI list.distinct(1), simp add: nth_via_drop)
  then show ?case by (simp add: name_length_steps dots_def)
next
  case (Cons l ls)
  then have l: "label_ok l" and d: "drop p abuf = of_nat (length l) # l @ encode_name ls @ rest" by simp_all
  note e = encoded_label [OF d l, simplified]
  have "name_length_loop abuf (p + 1 + length l) (n + length (escape_label l) + 1) indir =
      Some (less_dot (n + length (escape_label l) + 1 + length (dots ls)))"
    using Cons.IH [of "p + 1 + length l"] Cons.prems(2) e(6) by simp
  then show ?case
    using name_length_steps(3) [of p abuf n indir] e label_length [OF l] by (simp add: dots_Cons Let_def add.assoc)
qed

theorem expand_encoded:
  assumes "drop p abuf = encode_name ls @ rest" "\<forall>l \<in> set ls. label_ok l"
  shows "ares_expand_name True abuf p = ret (dotted ls, length (encode_name ls))"
proof -
  have "p \<noteq> length abuf" using assms(1) by auto
  then have "name_length abuf p = Some (less_dot (length (dots ls)))"
    using name_length_encoded [OF assms, of 0] by (simp add: name_length_def)
  from expand_name_expands [OF this expands_encoded [OF assms]] show ?thesis by (simp add: dotted_def)
qed

lemma expand_response_encoded:
  assumes "drop p abuf = encode_name ls @ rest" "\<forall>l \<in> set ls. label_ok l"
  shows "ares__expand_name_for_response True abuf p = ret (dotted ls, length (encode_name ls))"
  using expand_encoded [OF assms] by (simp add: ares__expand_name_for_response_def ret_def)

end
