(* ===== verification/Ares_Match.thy ===== *)
theory Ares_Match
  imports Ares_Name
begin

text \<open>
  How a reply is matched to the query it answers, \<^verbatim>\<open>same_questions\<close> and \<^verbatim>\<open>same_address\<close> of
  \<^verbatim>\<open>ares_process.c\<close>: every question of the query must be among those of the reply, and the
  reply must come from the address of the server.
\<close>

section \<open>The header and the questions\<close>

definition PACKETSZ :: nat where "PACKETSZ = 512"
definition SERVFAIL :: byte where "SERVFAIL = 2"
definition NOTIMP :: byte where "NOTIMP = 4"
definition REFUSED :: byte where "REFUSED = 5"

definition DNS_HEADER_QID :: "buffer \<Rightarrow> nat \<Rightarrow> nat option" where
  "DNS_HEADER_QID buf h = DNS__16BIT buf h"
definition DNS_HEADER_TC :: "buffer \<Rightarrow> nat \<Rightarrow> bool option" where
  "DNS_HEADER_TC buf h = do { b \<leftarrow> rd buf (h + 2); Some (drop_bit 1 b AND 0x1 \<noteq> 0) }"
definition DNS_HEADER_RCODE :: "buffer \<Rightarrow> nat \<Rightarrow> byte option" where
  "DNS_HEADER_RCODE buf h = do { b \<leftarrow> rd buf (h + 3); Some (b AND 0xf) }"

definition DNS_QUESTION_TYPE :: "buffer \<Rightarrow> nat \<Rightarrow> nat option" where
  "DNS_QUESTION_TYPE buf q = DNS__16BIT buf q"
definition DNS_QUESTION_CLASS :: "buffer \<Rightarrow> nat \<Rightarrow> nat option" where
  "DNS_QUESTION_CLASS buf q = DNS__16BIT buf (q + 2)"

text \<open>
  A question as the code decodes it at an offset: the name, type and class, and where the next one
  starts; the left summand when the code gives up.
\<close>

definition decode_question :: "bool \<Rightarrow> buffer \<Rightarrow> nat \<Rightarrow> ((byte list \<times> nat \<times> nat) \<times> nat) ares" where
  "decode_question ok buf p =
     try_ares (ares_expand_name ok buf p) (\<lambda>(name, namelen).
       let p = p + namelen
       in if p + QFIXEDSZ > length buf then fail ARES_EBADRESP
          else do {
            type \<leftarrow> DNS_QUESTION_TYPE buf p;
            dnsclass \<leftarrow> DNS_QUESTION_CLASS buf p;
            ret ((name, type, dnsclass), p + QFIXEDSZ)
          })"

text \<open>\<open>alloc i 0\<close> and \<open>alloc i (Suc j)\<close> tell whether the copies of the names of question \<open>i\<close> of
  the query and of question \<open>j\<close> of the answer can be allocated.\<close>

primrec find_question ::
  "(nat \<Rightarrow> bool) \<Rightarrow> buffer \<Rightarrow> byte list \<times> nat \<times> nat \<Rightarrow> nat \<Rightarrow> nat \<Rightarrow> nat \<Rightarrow> bool option" where
  "find_question alloc abuf q 0 j p = Some False"
| "find_question alloc abuf q (Suc n) j p =
     (case decode_question (alloc (Suc j)) abuf p of
        None \<Rightarrow> None
      | Some (Inl _) \<Rightarrow> Some False
      | Some (Inr (a, p)) \<Rightarrow>
          if ares_strcasecmp (fst q) (fst a) = 0 \<and> snd q = snd a then Some True
          else find_question alloc abuf q n (j + 1) p)"

primrec all_questions ::
  "(nat \<Rightarrow> nat \<Rightarrow> bool) \<Rightarrow> buffer \<Rightarrow> buffer \<Rightarrow> nat \<Rightarrow> nat \<Rightarrow> nat \<Rightarrow> nat \<Rightarrow> bool option" where
  "all_questions alloc qbuf abuf qdcount 0 i p = Some True"
| "all_questions alloc qbuf abuf qdcount (Suc n) i p =
     (case decode_question (alloc i 0) qbuf p of
        None \<Rightarrow> None
      | Some (Inl _) \<Rightarrow> Some False
      | Some (Inr (q, p)) \<Rightarrow> do {
          found \<leftarrow> find_question (alloc i) abuf q qdcount 0 HFIXEDSZ;
          if found then all_questions alloc qbuf abuf qdcount n (i + 1) p else Some False
        })"

definition same_questions :: "(nat \<Rightarrow> nat \<Rightarrow> bool) \<Rightarrow> buffer \<Rightarrow> buffer \<Rightarrow> bool option" where
  "same_questions alloc qbuf abuf =
     (if length qbuf < HFIXEDSZ \<or> length abuf < HFIXEDSZ then Some False
      else do {
        qcount \<leftarrow> DNS_HEADER_QDCOUNT qbuf 0;
        acount \<leftarrow> DNS_HEADER_QDCOUNT abuf 0;
        if qcount \<noteq> acount then Some False
        else all_questions alloc qbuf abuf acount qcount 0 HFIXEDSZ
      })"

text \<open>\<^verbatim>\<open>struct ares_addr\<close>, and the part of a socket address that is compared.\<close>

record ares_addr =
  ad_family :: int
  ad_bytes :: "byte list"

definition same_address :: "ares_addr \<Rightarrow> ares_addr \<Rightarrow> bool" where
  "same_address sa aa \<longleftrightarrow>
     ad_family sa = ad_family aa \<and>
     (if ad_family aa = AF_INET then take 4 (ad_bytes aa) = take 4 (ad_bytes sa)
      else if ad_family aa = AF_INET6 then take 16 (ad_bytes aa) = take 16 (ad_bytes sa)
      else False)"

section \<open>Any two messages can be compared\<close>

lemma decode_question_safe:
  assumes "p \<le> length buf"
  shows "no_crash (decode_question ok buf p)
     (\<lambda>r. case r of Inl _ \<Rightarrow> True | Inr (q, p') \<Rightarrow> p < p' \<and> p' \<le> length buf)"
  unfolding decode_question_def DNS_QUESTION_TYPE_def DNS_QUESTION_CLASS_def
  by (intro no_crash_try [OF expand_name_safe [OF assms]])
    (auto simp: name_result_def QFIXEDSZ_def Let_def intro!: bounds_wp split: prod.split)

lemma find_question_safe: "p \<le> length abuf \<Longrightarrow> \<exists>b. find_question alloc abuf q n j p = Some b"
proof (induction n arbitrary: j p)
  case (Suc n)
  obtain r where r: "decode_question (alloc (Suc j)) abuf p = Some r"
      "case r of Inl _ \<Rightarrow> True | Inr (q, p') \<Rightarrow> p < p' \<and> p' \<le> length abuf"
    using decode_question_safe [OF Suc.prems, of "alloc (Suc j)"] by (auto simp: no_crash_def)
  show ?case
  proof (cases r)
    case (Inr qp)
    then obtain a p' where "qp = (a, p')" "p' \<le> length abuf" using r(2) by (cases qp) auto
    with Suc.IH [of p'] r(1) Inr show ?thesis by auto
  qed (use r(1) in \<open>auto simp: ex_bool_eq\<close>)
qed (simp add: ex_bool_eq)

lemma all_questions_safe:
  "p \<le> length qbuf \<Longrightarrow> HFIXEDSZ \<le> length abuf \<Longrightarrow>
   \<exists>b. all_questions alloc qbuf abuf qdcount n i p = Some b"
proof (induction n arbitrary: i p)
  case (Suc n)
  obtain r where r: "decode_question (alloc i 0) qbuf p = Some r"
      "case r of Inl _ \<Rightarrow> True | Inr (q, p') \<Rightarrow> p < p' \<and> p' \<le> length qbuf"
    using decode_question_safe [OF Suc.prems(1), of "alloc i 0"] by (auto simp: no_crash_def)
  show ?case
  proof (cases r)
    case (Inr qp)
    then obtain q p' where qp: "qp = (q, p')" "p' \<le> length qbuf" using r(2) by (cases qp) auto
    obtain b where "find_question (alloc i) abuf q qdcount 0 HFIXEDSZ = Some b"
      using find_question_safe [OF Suc.prems(2)] by blast
    then show ?thesis using Suc.IH [OF qp(2) Suc.prems(2)] r(1) Inr qp by (auto simp: ex_bool_eq)
  qed (use r(1) in \<open>auto simp: ex_bool_eq\<close>)
qed (simp add: ex_bool_eq)

lemma same_questions_total: "\<exists>b. same_questions alloc qbuf abuf = Some b"
proof (cases "length qbuf < HFIXEDSZ \<or> length abuf < HFIXEDSZ")
  case False
  then have "HFIXEDSZ \<le> length qbuf" "HFIXEDSZ \<le> length abuf" by auto
  then obtain n k where "DNS_HEADER_QDCOUNT qbuf 0 = Some n" "DNS_HEADER_QDCOUNT abuf 0 = Some k"
    by (simp add: DNS_HEADER_QDCOUNT_def DNS__16BIT_def HFIXEDSZ_def)
  then show ?thesis
    using all_questions_safe [OF \<open>HFIXEDSZ \<le> length qbuf\<close> \<open>HFIXEDSZ \<le> length abuf\<close>] False
    by (simp add: same_questions_def ex_bool_eq)
qed (auto simp: same_questions_def)

section \<open>Messages made of questions\<close>

text \<open>A question as labels, type and class, and a message that starts with given questions.\<close>

type_synonym question = "byte list list \<times> nat \<times> nat"

definition encode_question :: "question \<Rightarrow> byte list" where
  "encode_question q = (case q of (ls, t, c) \<Rightarrow> encode_name ls @ word16 (int t) @ word16 (int c))"

definition question_ok :: "question \<Rightarrow> bool" where
  "question_ok q = (case q of (ls, t, c) \<Rightarrow> (\<forall>l \<in> set ls. label_ok l) \<and> t < 2 ^ 16 \<and> c < 2 ^ 16)"

definition encode_message :: "byte list \<Rightarrow> byte list \<Rightarrow> question list \<Rightarrow> byte list \<Rightarrow> buffer" where
  "encode_message ids nums qs rest =
     ids @ word16 (int (length qs)) @ nums @ concat (map encode_question qs) @ rest"

definition question_text :: "question \<Rightarrow> byte list \<times> nat \<times> nat" where
  "question_text q = (case q of (ls, t, c) \<Rightarrow> (dotted ls, t, c))"

text \<open>The names are compared as C strings and without regard to case.\<close>

definition same_question :: "question \<Rightarrow> question \<Rightarrow> bool" where
  "same_question q a \<longleftrightarrow>
     map tolower (cstr (dotted (fst q))) = map tolower (cstr (dotted (fst a))) \<and> snd q = snd a"

lemma decode_question_encoded:
  assumes d: "drop p buf = encode_question q @ rest" and ok: "question_ok q"
  shows "decode_question True buf p = ret (question_text q, p + length (encode_question q))"
    "drop (p + length (encode_question q)) buf = rest"
proof -
  obtain ls t c where q: "q = (ls, t, c)" by (cases q)
  have d0: "drop p buf = encode_name ls @ word16 (int t) @ word16 (int c) @ rest"
    using d by (simp add: q encode_question_def)
  have d1: "drop (p + length (encode_name ls)) buf = word16 (int t) @ word16 (int c) @ rest"
    using drop_more [OF d0] .
  have d2: "drop (p + length (encode_name ls) + 2) buf = word16 (int c) @ rest"
    using drop_more [OF d1] by simp
  have len: "\<not> p + length (encode_name ls) + QFIXEDSZ > length buf"
    using arg_cong [OF d1, of length] by (simp add: QFIXEDSZ_def)
  show "decode_question True buf p = ret (question_text q, p + length (encode_question q))"
    using expand_encoded [OF d0] read_word16 [OF d1] read_word16 [OF d2] ok len
    by (simp add: decode_question_def q question_ok_def DNS_QUESTION_TYPE_def DNS_QUESTION_CLASS_def
        question_text_def encode_question_def QFIXEDSZ_def)
  show "drop (p + length (encode_question q)) buf = rest" by (rule drop_more [OF d])
qed

lemma same_question_text:
  "same_question q a \<longleftrightarrow>
     ares_strcasecmp (fst (question_text q)) (fst (question_text a)) = 0 \<and>
     snd (question_text q) = snd (question_text a)"
  by (cases q; cases a) (simp add: same_question_def question_text_def ares_strcasecmp_eq_0)

lemma find_question_encoded:
  "drop p abuf = concat (map encode_question as) @ rest \<Longrightarrow> \<forall>a \<in> set as. question_ok a \<Longrightarrow>
   find_question (\<lambda>_. True) abuf (question_text q) (length as) j p = Some (\<exists>a \<in> set as. same_question q a)"
proof (induction as arbitrary: j p)
  case (Cons a as)
  then have "drop p abuf = encode_question a @ concat (map encode_question as) @ rest" by simp
  note d = decode_question_encoded [OF this]
  show ?case using d Cons by (auto simp: same_question_text ret_def)
qed simp

lemma all_questions_encoded:
  assumes "drop HFIXEDSZ abuf = concat (map encode_question as) @ rest'" "\<forall>a \<in> set as. question_ok a"
  shows "drop p qbuf = concat (map encode_question qs) @ rest \<Longrightarrow> \<forall>q \<in> set qs. question_ok q \<Longrightarrow>
    all_questions (\<lambda>_ _. True) qbuf abuf (length as) (length qs) i p =
      Some (\<forall>q \<in> set qs. \<exists>a \<in> set as. same_question q a)"
proof (induction qs arbitrary: i p)
  case (Cons q qs)
  then have "drop p qbuf = encode_question q @ concat (map encode_question qs) @ rest" by simp
  note d = decode_question_encoded [OF this]
  show ?case using d Cons find_question_encoded [OF assms] by (simp add: ret_def)
qed simp

lemma encoded_header:
  assumes "length ids = 4" "length nums = 6" "length qs < 2 ^ 16"
  shows "DNS_HEADER_QDCOUNT (encode_message ids nums qs rest) 0 = Some (length qs)"
    "drop HFIXEDSZ (encode_message ids nums qs rest) = concat (map encode_question qs) @ rest"
    "HFIXEDSZ \<le> length (encode_message ids nums qs rest)"
  using assms read_word16 [of 4 "encode_message ids nums qs rest" "length qs"]
  by (simp_all add: DNS_HEADER_QDCOUNT_def encode_message_def HFIXEDSZ_def)

lemma same_questions_encoded:
  assumes "length ids = 4" "length nums = 6" "length qs < 2 ^ 16" "\<forall>q \<in> set qs. question_ok q"
    and "length ids' = 4" "length nums' = 6" "length as < 2 ^ 16" "\<forall>a \<in> set as. question_ok a"
  shows "same_questions (\<lambda>_ _. True) (encode_message ids nums qs rest) (encode_message ids' nums' as rest') =
    Some (length qs = length as \<and> (\<forall>q \<in> set qs. \<exists>a \<in> set as. same_question q a))"
  using encoded_header [OF assms(1-3), of rest] encoded_header [OF assms(5-7), of rest']
    all_questions_encoded [OF encoded_header(2) [OF assms(5-7)] assms(8) encoded_header(2) [OF assms(1-3)] assms(4)]
  by (auto simp: same_questions_def not_less)

text \<open>
  C23: Two well-formed messages have the same questions for the resolver exactly when they have
  equally many and each question of the query is one of the reply, with names compared without
  regard to case; the names in the reply may be in any order.
\<close>

theorem same_questions_correct:
  assumes "length ids = 4" "length nums = 6" "length qs < 2 ^ 16" "\<forall>q \<in> set qs. question_ok q"
    and "length ids' = 4" "length nums' = 6" "length as < 2 ^ 16" "\<forall>a \<in> set as. question_ok a"
  shows "same_questions (\<lambda>_ _. True) (encode_message ids nums qs rest) (encode_message ids' nums' as rest') =
    Some (length qs = length as \<and> (\<forall>q \<in> set qs. \<exists>a \<in> set as. same_question q a))"
  by (rule same_questions_encoded) fact+

lemma same_questions_correct_witness:
  "same_questions (\<lambda>_ _. True)
     (encode_message [0, 7, 1, 0] [0, 0, 0, 0, 0, 0] [([bytes ''node'', bytes ''js''], 1, 1)] [])
     (encode_message [0, 7, 0x81, 0x80] [0, 1, 0, 0, 0, 0] [([bytes ''Node'', bytes ''JS''], 1, 1)] [192, 12]) =
   Some True"
  by (subst same_questions_correct)
    (simp_all add: question_ok_def label_ok_def MAXLABEL_def, code_simp)

end
