(* ===== verification/Ares_Channel.thy ===== *)
theory Ares_Channel
  imports Ares_Match "HOL-Library.Signed_Division"
begin

text \<open>
  The channels of c-ares: \<^verbatim>\<open>ares_send.c\<close>, \<^verbatim>\<open>ares_process.c\<close>, \<^verbatim>\<open>ares__close_sockets.c\<close> and
  \<^verbatim>\<open>ares_cancel.c\<close>.  A channel keeps the queries that are under way, on the lists through which
  they are found, and the sockets of each name server with what is still to be sent on them.

  Queries are objects on a heap, at addresses that are never used again, so a pointer that is left
  behind shows: to read through it gives \<open>None\<close>, like every other access outside an object, a
  failed assertion, and a loop that does not end.  So does an overflow of an \<^verbatim>\<open>int\<close> in the waiting
  time, the number of attempts and the number of timeouts of a query (\<open>fits_int\<close>, \<open>time_plus\<close>).  A list of
  queries that is linked through the queries is a list of addresses.  What the system answers is a
  \<open>world\<close>: a function of the number of questions asked before.  Callbacks are recorded; a callback
  that calls the channel again is not modelled.
\<close>

section \<open>Times\<close>

text \<open>Seconds and microseconds are numbers without bounds: that a \<^verbatim>\<open>time_t\<close> or a \<^verbatim>\<open>long\<close> overflows is
  not modelled.\<close>

record timeval =
  tv_sec :: int
  tv_usec :: int

definition ares__timedout :: "timeval \<Rightarrow> timeval \<Rightarrow> bool" where
  "ares__timedout now check =
     (let secs = tv_sec now - tv_sec check
      in if secs > 0 then True
         else if secs < 0 then False
         else tv_usec now - tv_usec check \<ge> 0)"

definition ares__timeadd :: "timeval \<Rightarrow> int \<Rightarrow> timeval" where
  "ares__timeadd now millisecs =
     (let s = tv_sec now + millisecs sdiv 1000;
          u = tv_usec now + (millisecs smod 1000) * 1000
      in if u \<ge> 1000000 then \<lparr>tv_sec = s + 1, tv_usec = u - 1000000\<rparr> else \<lparr>tv_sec = s, tv_usec = u\<rparr>)"

definition ares__timeoffset :: "timeval \<Rightarrow> timeval \<Rightarrow> int" where
  "ares__timeoffset now check =
     (tv_sec check - tv_sec now) * 1000 + (tv_usec check - tv_usec now) sdiv 1000"

section \<open>The state of a channel\<close>

text \<open>What fits into an \<^verbatim>\<open>int\<close>.\<close>

definition fits_int :: "int \<Rightarrow> bool" where
  "fits_int i \<longleftrightarrow> - (2 ^ 31) \<le> i \<and> i < 2 ^ 31"

text \<open>The counter of TCP connections is only ever compared for equality with the numbers that were
  taken from it.  It is a word of 32 bits, which wraps around after \<open>2 ^ 32\<close> connections; for the \<^verbatim>\<open>int\<close>
  of the source C leaves open what follows after \<open>2 ^ 31\<close>.\<close>

type_synonym generation = "32 word"

type_synonym address = nat
type_synonym sock = nat

record query_server_info =
  i_skip_server :: bool
  i_generation :: generation

record query =
  q_qid :: nat
  q_timeout :: timeval
  q_tcpbuf :: "byte list"
  q_arg :: nat
  q_try_count :: int
  q_server :: nat
  q_server_info :: "query_server_info list"
  q_using_tcp :: bool
  q_error_status :: ares_status
  q_timeouts :: int

text \<open>\<^verbatim>\<open>qbuf\<close> points into \<^verbatim>\<open>tcpbuf\<close>, behind the length.\<close>

definition q_qbuf :: "query \<Rightarrow> buffer" where
  "q_qbuf x = drop 2 (q_tcpbuf x)"

text \<open>What a request still has to send is in the buffer of a query, or in its own copy.\<close>

datatype pointer = In_query address nat | In_storage nat | Null

record send_request =
  r_data :: pointer
  r_len :: nat
  r_owner_query :: "address option"
  r_data_storage :: "byte list option"

text \<open>\<^verbatim>\<open>tcp_lenbuf\<close> and \<^verbatim>\<open>tcp_buffer\<close> are kept up to their positions.\<close>

record server_state =
  s_addr :: ares_addr
  s_udp_socket :: "sock option"
  s_tcp_socket :: "sock option"
  s_tcp_lenbuf :: "byte list"
  s_tcp_length :: nat
  s_tcp_buffer :: "byte list option"
  s_queue :: "send_request list"
  s_generation :: generation
  s_queries :: "address list"
  s_is_broken :: bool

datatype event =
    Callback address nat ares_status int "byte list option"
  | Refused nat ares_status
  | Sock_state "sock option" bool bool
  | Sent_udp sock "byte list"
  | Sent_tcp sock "byte list"

datatype received = Recv_again | Recv_error | Packet ares_addr "byte list"

text \<open>Beside the fields of \<^verbatim>\<open>struct ares_channeldata\<close> that are used here: the heap of queries, the
  next free address, the list of queries that \<^verbatim>\<open>handle_error\<close> has taken from a server, the results
  of the next calls of \<^verbatim>\<open>recvfrom\<close>, the number of questions put to the system, and what was done.\<close>

record channel =
  c_flags :: nat
  c_timeout :: int
  c_tries :: int
  c_rotate :: bool
  c_servers :: "server_state list"
  c_generation :: generation
  c_last_timeout_processed :: int
  c_last_server :: nat
  c_all_queries :: "address list"
  c_queries_by_qid :: "nat \<Rightarrow> address list"
  c_queries_by_timeout :: "nat \<Rightarrow> address list"
  c_heap :: "address \<Rightarrow> query option"
  c_free :: address
  c_stolen :: "address list"
  c_recvs :: "received list"
  c_ticks :: nat
  c_log :: "event list"

definition ARES_FLAG_USEVC :: nat where "ARES_FLAG_USEVC = 1"
definition ARES_FLAG_IGNTC :: nat where "ARES_FLAG_IGNTC = 4"
definition ARES_FLAG_STAYOPEN :: nat where "ARES_FLAG_STAYOPEN = 16"
definition ARES_FLAG_NOCHECKRESP :: nat where "ARES_FLAG_NOCHECKRESP = 128"

definition ARES_QID_TABLE_SIZE :: nat where "ARES_QID_TABLE_SIZE = 2048"
definition ARES_TIMEOUT_TABLE_SIZE :: nat where "ARES_TIMEOUT_TABLE_SIZE = 1024"

definition has_flag :: "channel \<Rightarrow> nat \<Rightarrow> bool" where
  "has_flag c f \<longleftrightarrow> c_flags c AND f \<noteq> 0"

abbreviation nservers :: "channel \<Rightarrow> nat" where
  "nservers c \<equiv> length (c_servers c)"

text \<open>The system: allocation, the name buffers of \<^verbatim>\<open>same_questions\<close>, opening a socket with all
  its options up to the callback (whose error is below 0), writing, reading and \<^verbatim>\<open>rand\<close>.\<close>

datatype opened = Open_fails | Open_refused nat | Opened sock
datatype written = Wrote nat | Write_again | Write_error
datatype was_read = Read "byte list" | Read_again | Read_error

record world =
  w_alloc :: "nat \<Rightarrow> bool"
  w_names :: "nat \<Rightarrow> nat \<Rightarrow> nat \<Rightarrow> bool"
  w_open :: "nat \<Rightarrow> opened"
  w_write :: "nat \<Rightarrow> written"
  w_read :: "nat \<Rightarrow> was_read"
  w_rand :: "nat \<Rightarrow> nat"

definition tick :: "channel \<Rightarrow> channel" where
  "tick c = c\<lparr>c_ticks := c_ticks c + 1\<rparr>"

definition log_event :: "event \<Rightarrow> channel \<Rightarrow> channel" where
  "log_event e c = c\<lparr>c_log := c_log c @ [e]\<rparr>"

definition server_at :: "channel \<Rightarrow> nat \<Rightarrow> server_state option" where
  "server_at c i = (if i < nservers c then Some (c_servers c ! i) else None)"

definition upd_server :: "nat \<Rightarrow> (server_state \<Rightarrow> server_state) \<Rightarrow> channel \<Rightarrow> channel" where
  "upd_server i f c = c\<lparr>c_servers := (c_servers c)[i := f (c_servers c ! i)]\<rparr>"

definition upd_query :: "address \<Rightarrow> (query \<Rightarrow> query) \<Rightarrow> channel \<Rightarrow> channel" where
  "upd_query q f c = c\<lparr>c_heap := (c_heap c)(q := map_option f (c_heap c q))\<rparr>"

section \<open>Lists of queries\<close>

definition qid_bucket :: "nat \<Rightarrow> nat" where
  "qid_bucket qid = qid mod ARES_QID_TABLE_SIZE"

definition timeout_bucket :: "int \<Rightarrow> nat option" where
  "timeout_bucket t = (if 0 \<le> t then Some (nat t mod ARES_TIMEOUT_TABLE_SIZE) else None)"

definition insert_bucket :: "nat \<Rightarrow> address \<Rightarrow> (nat \<Rightarrow> address list) \<Rightarrow> nat \<Rightarrow> address list" where
  "insert_bucket b q f = f(b := f b @ [q])"

definition remove_bucket :: "address \<Rightarrow> (nat \<Rightarrow> address list) \<Rightarrow> nat \<Rightarrow> address list" where
  "remove_bucket q f = (\<lambda>b. removeAll q (f b))"

definition remove_from_server :: "address \<Rightarrow> channel \<Rightarrow> channel" where
  "remove_from_server q c =
     c\<lparr>c_servers := map (\<lambda>s. s\<lparr>s_queries := removeAll q (s_queries s)\<rparr>) (c_servers c),
       c_stolen := removeAll q (c_stolen c)\<rparr>"

text \<open>The query after \<open>q\<close> on a list, unless \<open>q\<close> is the last.\<close>

fun next_in :: "address \<Rightarrow> address list \<Rightarrow> address option" where
  "next_in q (x # y # xs) = (if x = q then Some y else next_in q (y # xs))"
| "next_in q _ = None"

definition first_in :: "address list \<Rightarrow> address option" where
  "first_in xs = (case xs of [] \<Rightarrow> None | x # _ \<Rightarrow> Some x)"

text \<open>A loop over the servers.\<close>

primrec for_servers :: "nat list \<Rightarrow> (nat \<Rightarrow> 's \<Rightarrow> 's option) \<Rightarrow> 's \<Rightarrow> 's option" where
  "for_servers [] f s = Some s"
| "for_servers (i # is) f s = do { s \<leftarrow> f i s; for_servers is f s }"

section \<open>The end of a query\<close>

definition close_socket :: "sock option \<Rightarrow> channel \<Rightarrow> channel" where
  "close_socket s c = (case s of None \<Rightarrow> c | Some s \<Rightarrow> log_event (Sock_state (Some s) False False) c)"

definition ares__close_sockets :: "nat \<Rightarrow> channel \<Rightarrow> channel option" where
  "ares__close_sockets i c = do {
     s \<leftarrow> server_at c i;
     let c = upd_server i (\<lambda>s. s\<lparr>s_queue := [], s_tcp_buffer := None, s_tcp_lenbuf := [],
       s_is_broken := False\<rparr>) c;
     let c = close_socket (s_tcp_socket s) c;
     let c = (if s_tcp_socket s \<noteq> None
       then upd_server i (\<lambda>s. s\<lparr>s_tcp_socket := None, s_generation := c_generation c + 1\<rparr>)
              (c\<lparr>c_generation := c_generation c + 1\<rparr>)
       else c);
     let c = close_socket (s_udp_socket s) c;
     Some (upd_server i (\<lambda>s. s\<lparr>s_udp_socket := None\<rparr>) c)
   }"

definition close_all :: "channel \<Rightarrow> channel option" where
  "close_all c = for_servers [0..<nservers c] ares__close_sockets c"

definition ares__free_query :: "address \<Rightarrow> channel \<Rightarrow> channel option" where
  "ares__free_query q c = do {
     _ \<leftarrow> c_heap c q;
     let c = c\<lparr>c_queries_by_qid := remove_bucket q (c_queries_by_qid c),
       c_queries_by_timeout := remove_bucket q (c_queries_by_timeout c)\<rparr>;
     let c = remove_from_server q c;
     Some (c\<lparr>c_all_queries := removeAll q (c_all_queries c), c_heap := (c_heap c)(q := None)\<rparr>)
   }"

text \<open>The bytes that a request still has to send.\<close>

definition request_bytes :: "(address \<Rightarrow> query option) \<Rightarrow> send_request \<Rightarrow> byte list option" where
  "request_bytes heap r =
     (let from = (\<lambda>buf k. if k + r_len r \<le> length buf then Some (take (r_len r) (drop k buf)) else None)
      in case r_data r of
           In_query q k \<Rightarrow> (case heap q of None \<Rightarrow> None | Some x \<Rightarrow> from (q_tcpbuf x) k)
         | In_storage k \<Rightarrow> (case r_data_storage r of None \<Rightarrow> None | Some buf \<Rightarrow> from buf k)
         | Null \<Rightarrow> if r_len r = 0 then Some [] else None)"

text \<open>The requests of a queue that point to a query that ends: they get their own copy, or the
  connection is broken.  The result is the queue, whether it is, and the number of questions.\<close>

primrec release_requests ::
  "world \<Rightarrow> (address \<Rightarrow> query option) \<Rightarrow> address \<Rightarrow> ares_status \<Rightarrow> send_request list \<Rightarrow> nat \<Rightarrow>
   (send_request list \<times> bool \<times> nat) option" where
  "release_requests w heap q st [] n = Some ([], False, n)"
| "release_requests w heap q st (r # rs) n =
     (if r_owner_query r = Some q then
        (if r_data_storage r \<noteq> None then None
         else if st = ARES_SUCCESS \<and> w_alloc w n then do {
           buf \<leftarrow> request_bytes heap r;
           (rs, broken, n) \<leftarrow> release_requests w heap q st rs (n + 1);
           Some (r\<lparr>r_owner_query := None, r_data_storage := Some buf, r_data := In_storage 0\<rparr> # rs, broken, n)
         } else do {
           (rs, broken, n) \<leftarrow> release_requests w heap q st rs (if st = ARES_SUCCESS then n + 1 else n);
           Some (r\<lparr>r_owner_query := None, r_data := Null, r_len := 0\<rparr> # rs, True, n)
         })
      else do {
        (rs, broken, n) \<leftarrow> release_requests w heap q st rs n;
        Some (r # rs, broken, n)
      })"

definition release_server :: "world \<Rightarrow> address \<Rightarrow> ares_status \<Rightarrow> nat \<Rightarrow> channel \<Rightarrow> channel option" where
  "release_server w q st i c = do {
     s \<leftarrow> server_at c i;
     (rs, broken, n) \<leftarrow> release_requests w (c_heap c) q st (s_queue s) (c_ticks c);
     Some (upd_server i (\<lambda>s. s\<lparr>s_queue := rs, s_is_broken := s_is_broken s \<or> broken\<rparr>) (c\<lparr>c_ticks := n\<rparr>))
   }"

definition end_query ::
  "world \<Rightarrow> address \<Rightarrow> ares_status \<Rightarrow> byte list option \<Rightarrow> channel \<Rightarrow> channel option" where
  "end_query w q st abuf c = do {
     c \<leftarrow> for_servers [0..<nservers c] (release_server w q st) c;
     x \<leftarrow> c_heap c q;
     let c = log_event (Callback q (q_arg x) st (q_timeouts x) abuf) c;
     c \<leftarrow> ares__free_query q c;
     if \<not> has_flag c ARES_FLAG_STAYOPEN \<and> c_all_queries c = [] then close_all c else Some c
   }"

section \<open>Sending a query\<close>

definition skip_server :: "address \<Rightarrow> nat \<Rightarrow> channel \<Rightarrow> channel option" where
  "skip_server q i c =
     (if nservers c > 1 then do {
        x \<leftarrow> c_heap c q;
        if i < length (q_server_info x)
        then Some (upd_query q (\<lambda>x. x\<lparr>q_server_info := (q_server_info x)
               [i := (q_server_info x ! i)\<lparr>i_skip_server := True\<rparr>]\<rparr>) c)
        else None
      } else Some c)"

definition known_family :: "ares_addr \<Rightarrow> bool" where
  "known_family a \<longleftrightarrow> ad_family a = AF_INET \<or> ad_family a = AF_INET6"

definition open_tcp_socket :: "world \<Rightarrow> nat \<Rightarrow> channel \<Rightarrow> (int \<times> channel) option" where
  "open_tcp_socket w i c = do {
     s \<leftarrow> server_at c i;
     if \<not> known_family (s_addr s) then Some (-1, c)
     else case w_open w (c_ticks c) of
         Open_fails \<Rightarrow> Some (-1, tick c)
       | Open_refused e \<Rightarrow> Some (- 1 - int e, tick c)
       | Opened k \<Rightarrow>
           let c = log_event (Sock_state (Some k) True False) (tick c);
               g = c_generation c + 1
           in Some (0, upd_server i (\<lambda>s. s\<lparr>s_tcp_buffer := map_option (\<lambda>_. []) (s_tcp_buffer s),
                s_tcp_socket := Some k, s_generation := g\<rparr>) (c\<lparr>c_generation := g\<rparr>))
   }"

definition open_udp_socket :: "world \<Rightarrow> nat \<Rightarrow> channel \<Rightarrow> (int \<times> channel) option" where
  "open_udp_socket w i c = do {
     s \<leftarrow> server_at c i;
     if \<not> known_family (s_addr s) then Some (-1, c)
     else case w_open w (c_ticks c) of
         Open_fails \<Rightarrow> Some (-1, tick c)
       | Open_refused e \<Rightarrow> Some (- 1 - int e, tick c)
       | Opened k \<Rightarrow>
           Some (0, upd_server i (\<lambda>s. s\<lparr>s_udp_socket := Some k\<rparr>)
             (log_event (Sock_state (Some k) True False) (tick c)))
   }"

text \<open>The time to wait for an answer: \<^verbatim>\<open>int\<close> arithmetic, in which a shift or a product that does
  not fit is undefined.\<close>

definition time_plus :: "int \<Rightarrow> int \<Rightarrow> nat \<Rightarrow> int option" where
  "time_plus timeout k r =
     (if 0 \<le> timeout \<and> 0 \<le> k \<and> k < 32 \<and> push_bit (nat k) timeout < 2 ^ 31
      then let t = push_bit (nat k) timeout * (9 + int (r mod 8))
           in if t < 2 ^ 31 then Some (t sdiv 16) else None
      else None)"

definition start_timer :: "world \<Rightarrow> address \<Rightarrow> timeval \<Rightarrow> channel \<Rightarrow> channel option" where
  "start_timer w q now c = do {
     x \<leftarrow> c_heap c q;
     plus \<leftarrow> time_plus (c_timeout c) (q_try_count x sdiv int (nservers c)) (w_rand w (c_ticks c));
     let t = ares__timeadd now plus;
     b \<leftarrow> timeout_bucket (tv_sec t);
     let c = upd_query q (\<lambda>x. x\<lparr>q_timeout := t\<rparr>) (tick c);
     let c = c\<lparr>c_queries_by_timeout :=
       insert_bucket b q (remove_bucket q (c_queries_by_timeout c))\<rparr>;
     if q_server x < nservers c
     then Some (upd_server (q_server x) (\<lambda>s. s\<lparr>s_queries := s_queries s @ [q]\<rparr>) (remove_from_server q c))
     else None
   }"

definition queue_request :: "address \<Rightarrow> query \<Rightarrow> server_state \<Rightarrow> channel \<Rightarrow> channel" where
  "queue_request q x s c =
     (let r = \<lparr>r_data = In_query q 0, r_len = length (q_tcpbuf x), r_owner_query = Some q,
                r_data_storage = None\<rparr>;
          c = (if s_queue s = [] then log_event (Sock_state (s_tcp_socket s) True True) c else c);
          c = upd_server (q_server x) (\<lambda>s. s\<lparr>s_queue := s_queue s @ [r]\<rparr>) c
      in upd_query q (\<lambda>x. x\<lparr>q_server_info := (q_server_info x)
           [q_server x := (q_server_info x ! q_server x)\<lparr>i_generation := s_generation s\<rparr>]\<rparr>) c)"

text \<open>One attempt: \<open>True\<close> when \<^verbatim>\<open>ares__send_query\<close> is done, \<open>False\<close> when it goes on with
  \<^verbatim>\<open>next_server\<close>.\<close>

definition send_tcp :: "world \<Rightarrow> address \<Rightarrow> timeval \<Rightarrow> channel \<Rightarrow> (bool \<times> channel) option" where
  "send_tcp w q now c = do {
     x \<leftarrow> c_heap c q;
     s \<leftarrow> server_at c (q_server x);
     (e, c) \<leftarrow> (if s_tcp_socket s = None then open_tcp_socket w (q_server x) c else Some (0, c));
     if e = -1 then do {
       c \<leftarrow> skip_server q (q_server x) c;
       Some (False, c)
     } else if \<not> w_alloc w (c_ticks c) then do {
       c \<leftarrow> end_query w q ARES_ENOMEM None (tick c);
       Some (True, c)
     } else do {
       s \<leftarrow> server_at c (q_server x);
       c \<leftarrow> (if q_server x < length (q_server_info x) then Some (queue_request q x s (tick c)) else None);
       c \<leftarrow> start_timer w q now c;
       Some (True, c)
     }
   }"

definition send_udp :: "world \<Rightarrow> address \<Rightarrow> timeval \<Rightarrow> channel \<Rightarrow> (bool \<times> channel) option" where
  "send_udp w q now c = do {
     x \<leftarrow> c_heap c q;
     s \<leftarrow> server_at c (q_server x);
     (e, c) \<leftarrow> (if s_udp_socket s = None then open_udp_socket w (q_server x) c else Some (0, c));
     s \<leftarrow> server_at c (q_server x);
     case (if e = -1 then None else s_udp_socket s, w_write w (c_ticks c)) of
       (Some k, Wrote _) \<Rightarrow> do {
         c \<leftarrow> start_timer w q now (log_event (Sent_udp k (q_qbuf x)) (tick c));
         Some (True, c)
       }
     | _ \<Rightarrow> do {
         c \<leftarrow> skip_server q (q_server x) (if e = -1 then c else tick c);
         Some (False, c)
       }
   }"

definition send_attempt :: "world \<Rightarrow> address \<Rightarrow> timeval \<Rightarrow> channel \<Rightarrow> (bool \<times> channel) option" where
  "send_attempt w q now c = do {
     x \<leftarrow> c_heap c q;
     if q_using_tcp x then send_tcp w q now c else send_udp w q now c
   }"

definition usable_server :: "query \<Rightarrow> channel \<Rightarrow> nat \<Rightarrow> bool option" where
  "usable_server x c i = do {
     s \<leftarrow> server_at c i;
     info \<leftarrow> (if i < length (q_server_info x) then Some (q_server_info x ! i) else None);
     Some (\<not> s_is_broken s \<and> \<not> i_skip_server info \<and>
       \<not> (q_using_tcp x \<and> i_generation info = s_generation s))
   }"

partial_function (option) next_server :: "world \<Rightarrow> address \<Rightarrow> timeval \<Rightarrow> channel \<Rightarrow> channel option" where
  "next_server w q now c = do {
     x \<leftarrow> c_heap c q;
     let n = q_try_count x + 1;
     let c = upd_query q (\<lambda>x. x\<lparr>q_try_count := n\<rparr>) c;
     if \<not> (fits_int n \<and> fits_int (int (nservers c) * c_tries c)) then None
     else if n < int (nservers c) * c_tries c then do {
       let i = (q_server x + 1) mod nservers c;
       let c = upd_query q (\<lambda>x. x\<lparr>q_server := i\<rparr>) c;
       usable \<leftarrow> usable_server x c i;
       if usable then do {
         (over, c) \<leftarrow> send_attempt w q now c;
         if over then Some c else next_server w q now c
       } else next_server w q now c
     } else end_query w q (q_error_status x) None c
   }"

declare next_server.simps [code]

definition ares__send_query :: "world \<Rightarrow> address \<Rightarrow> timeval \<Rightarrow> channel \<Rightarrow> channel option" where
  "ares__send_query w q now c = do {
     (over, c) \<leftarrow> send_attempt w q now c;
     if over then Some c else next_server w q now c
   }"

end
