(* ===== verification/Ares_Process.thy ===== *)
theory Ares_Process
  imports Ares_Channel
begin

text \<open>
  What happens on a channel: a query is sent (\<^verbatim>\<open>ares_send\<close>), sockets become readable or writable and
  time passes (\<^verbatim>\<open>ares_process\<close>), all queries are given up (\<^verbatim>\<open>ares_cancel\<close>), and the caller asks
  for the sockets and the time to wait for.
\<close>

section \<open>Servers that fail\<close>

definition stolen_queries :: "nat \<Rightarrow> channel \<Rightarrow> channel option" where
  "stolen_queries i c = do {
     s \<leftarrow> server_at c i;
     Some (upd_server i (\<lambda>s. s\<lparr>s_queries := []\<rparr>) (c\<lparr>c_stolen := s_queries s\<rparr>))
   }"

partial_function (option) resend_stolen ::
  "world \<Rightarrow> nat \<Rightarrow> timeval \<Rightarrow> address option \<Rightarrow> channel \<Rightarrow> channel option" where
  "resend_stolen w i now cur c =
     (case cur of
        None \<Rightarrow> Some c
      | Some q \<Rightarrow> do {
          let cur = next_in q (c_stolen c);
          x \<leftarrow> c_heap c q;
          if q_server x = i then do {
            c \<leftarrow> skip_server q i c;
            c \<leftarrow> next_server w q now c;
            resend_stolen w i now cur c
          } else None
        })"

declare resend_stolen.simps [code]

definition handle_error :: "world \<Rightarrow> timeval \<Rightarrow> nat \<Rightarrow> channel \<Rightarrow> channel option" where
  "handle_error w now i c = do {
     c \<leftarrow> ares__close_sockets i c;
     c \<leftarrow> stolen_queries i c;
     c \<leftarrow> resend_stolen w i now (first_in (c_stolen c)) c;
     if c_stolen c = [] then Some c else None
   }"

definition process_broken_connections :: "world \<Rightarrow> timeval \<Rightarrow> channel \<Rightarrow> channel option" where
  "process_broken_connections w now c =
     for_servers [0..<nservers c]
       (\<lambda>i c. do { s \<leftarrow> server_at c i; if s_is_broken s then handle_error w now i c else Some c }) c"

section \<open>Answers\<close>

text \<open>The query with the identifier and the questions of an answer, on its list.\<close>

primrec matching_query ::
  "world \<Rightarrow> (address \<Rightarrow> query option) \<Rightarrow> nat \<Rightarrow> buffer \<Rightarrow> address list \<Rightarrow> nat \<Rightarrow>
   (address option \<times> nat) option" where
  "matching_query w heap qid abuf [] n = Some (None, n)"
| "matching_query w heap qid abuf (q # qs) n = do {
     x \<leftarrow> heap q;
     if q_qid x = qid then do {
       same \<leftarrow> same_questions (w_names w n) (q_qbuf x) abuf;
       if same then Some (Some q, n + 1) else matching_query w heap qid abuf qs (n + 1)
     } else matching_query w heap qid abuf qs n
   }"

definition process_answer ::
  "world \<Rightarrow> timeval \<Rightarrow> nat \<Rightarrow> bool \<Rightarrow> buffer \<Rightarrow> channel \<Rightarrow> channel option" where
  "process_answer w now i tcp abuf c =
     (if length abuf < HFIXEDSZ then Some c
      else do {
        qid \<leftarrow> DNS_HEADER_QID abuf 0;
        tc \<leftarrow> DNS_HEADER_TC abuf 0;
        rcode \<leftarrow> DNS_HEADER_RCODE abuf 0;
        (found, n) \<leftarrow> matching_query w (c_heap c) qid abuf (c_queries_by_qid c (qid_bucket qid)) (c_ticks c);
        let c = c\<lparr>c_ticks := n\<rparr>;
        case found of None \<Rightarrow> Some c
        | Some q \<Rightarrow> do {
            x \<leftarrow> c_heap c q;
            if (tc \<or> length abuf > PACKETSZ) \<and> \<not> tcp \<and> \<not> has_flag c ARES_FLAG_IGNTC
            then (if q_using_tcp x then Some c
                  else ares__send_query w q now (upd_query q (\<lambda>x. x\<lparr>q_using_tcp := True\<rparr>) c))
            else if \<not> has_flag c ARES_FLAG_NOCHECKRESP \<and>
              (rcode = SERVFAIL \<or> rcode = NOTIMP \<or> rcode = REFUSED)
            then do {
              c \<leftarrow> skip_server q i c;
              if q_server x = i then next_server w q now c else Some c
            } else end_query w q ARES_SUCCESS
                (Some (if length abuf > PACKETSZ \<and> \<not> tcp then take PACKETSZ abuf else abuf)) c
          }
      })"

section \<open>Sockets\<close>

text \<open>The sockets to look at: a set, from which a socket is removed when its turn comes, or one.\<close>

datatype fds = Fd_set "sock list" | Fd "sock option"

definition selected :: "sock option \<Rightarrow> fds \<Rightarrow> bool" where
  "selected s fs =
     (case s of None \<Rightarrow> False
      | Some k \<Rightarrow> (case fs of Fd_set ks \<Rightarrow> k \<in> set ks | Fd f \<Rightarrow> f = Some k))"

definition deselect :: "sock option \<Rightarrow> fds \<Rightarrow> fds" where
  "deselect s fs =
     (case s of None \<Rightarrow> fs | Some k \<Rightarrow> (case fs of Fd_set ks \<Rightarrow> Fd_set (removeAll k ks) | Fd f \<Rightarrow> Fd f))"

fun move_pointer :: "pointer \<Rightarrow> nat \<Rightarrow> pointer" where
  "move_pointer (In_query q k) n = In_query q (k + n)"
| "move_pointer (In_storage k) n = In_storage (k + n)"
| "move_pointer Null n = Null"

fun advance_queue :: "send_request list \<Rightarrow> nat \<Rightarrow> send_request list option" where
  "advance_queue rs 0 = Some rs"
| "advance_queue [] (Suc n) = None"
| "advance_queue (r # rs) (Suc n) =
     (if Suc n \<ge> r_len r then (if rs = [] then Some [] else advance_queue rs (Suc n - r_len r))
      else Some (r\<lparr>r_data := move_pointer (r_data r) (Suc n), r_len := r_len r - Suc n\<rparr> # rs))"

definition advance_tcp_send_queue :: "nat \<Rightarrow> nat \<Rightarrow> channel \<Rightarrow> channel option" where
  "advance_tcp_send_queue i num_bytes c = do {
     s \<leftarrow> server_at c i;
     rs \<leftarrow> advance_queue (s_queue s) num_bytes;
     let c = (if s_queue s \<noteq> [] \<and> rs = [] then log_event (Sock_state (s_tcp_socket s) True False) c else c);
     Some (upd_server i (\<lambda>s. s\<lparr>s_queue := rs\<rparr>) c)
   }"

primrec gather :: "(address \<Rightarrow> query option) \<Rightarrow> send_request list \<Rightarrow> byte list option" where
  "gather heap [] = Some []"
| "gather heap (r # rs) = do {
     bs \<leftarrow> request_bytes heap r;
     bss \<leftarrow> gather heap rs;
     Some (bs @ bss)
   }"

definition write_server ::
  "world \<Rightarrow> timeval \<Rightarrow> nat \<Rightarrow> fds \<times> channel \<Rightarrow> (fds \<times> channel) option" where
  "write_server w now i fc = do {
     let (fs, c) = fc;
     s \<leftarrow> server_at c i;
     if s_queue s = [] \<or> s_tcp_socket s = None \<or> s_is_broken s \<or> \<not> selected (s_tcp_socket s) fs
     then Some (fs, c)
     else do {
       let fs = deselect (s_tcp_socket s) fs;
       bs \<leftarrow> gather (c_heap c) (if w_alloc w (c_ticks c) then s_queue s else take 1 (s_queue s));
       let c = tick c;
       case w_write w (c_ticks c) of
         Write_again \<Rightarrow> Some (fs, tick c)
       | Write_error \<Rightarrow> do { c \<leftarrow> handle_error w now i (tick c); Some (fs, c) }
       | Wrote n \<Rightarrow> do {
           let c = log_event (Sent_tcp (the (s_tcp_socket s)) (take n bs)) (tick c);
           c \<leftarrow> advance_tcp_send_queue i (min n (length bs)) c;
           Some (fs, c)
         }
     }
   }"

definition write_tcp_data :: "world \<Rightarrow> timeval \<Rightarrow> fds \<Rightarrow> channel \<Rightarrow> channel option" where
  "write_tcp_data w now fs c =
     map_option snd (for_servers [0..<nservers c] (write_server w now) (fs, c))"

text \<open>One read of at most \<open>n\<close> bytes: \<open>Inr\<close> the bytes, which are not none, or \<open>Inl\<close> whether to try
  again later.\<close>

definition sread :: "world \<Rightarrow> nat \<Rightarrow> nat \<Rightarrow> bool + byte list" where
  "sread w n k =
     (case w_read w k of
        Read bs \<Rightarrow> if take n bs = [] then Inl False else Inr (take n bs)
      | Read_again \<Rightarrow> Inl True
      | Read_error \<Rightarrow> Inl False)"

definition read_length :: "world \<Rightarrow> timeval \<Rightarrow> nat \<Rightarrow> byte list \<Rightarrow> channel \<Rightarrow> channel option" where
  "read_length w now i bs c = do {
     s \<leftarrow> server_at c i;
     let lenbuf = s_tcp_lenbuf s @ bs;
     let c = upd_server i (\<lambda>s. s\<lparr>s_tcp_lenbuf := lenbuf\<rparr>) c;
     if length lenbuf = 2 then do {
       let len = push_bit 8 (unat (lenbuf ! 0)) OR unat (lenbuf ! 1);
       let ok = w_alloc w (c_ticks c);
       let c = upd_server i (\<lambda>s. s\<lparr>s_tcp_length := len, s_tcp_buffer := if ok then Some [] else None\<rparr>) (tick c);
       if ok then Some c
       else do {
         c \<leftarrow> handle_error w now i c;
         Some (upd_server i (\<lambda>s. s\<lparr>s_tcp_buffer := map_option (\<lambda>_. []) (s_tcp_buffer s)\<rparr>) c)
       }
     } else Some c
   }"

definition read_answer :: "world \<Rightarrow> timeval \<Rightarrow> nat \<Rightarrow> byte list \<Rightarrow> channel \<Rightarrow> channel option" where
  "read_answer w now i bs c = do {
     s \<leftarrow> server_at c i;
     old \<leftarrow> s_tcp_buffer s;
     let buf = old @ bs;
     let c = upd_server i (\<lambda>s. s\<lparr>s_tcp_buffer := Some buf\<rparr>) c;
     if length buf = s_tcp_length s then do {
       c \<leftarrow> process_answer w now i True buf c;
       Some (upd_server i (\<lambda>s. s\<lparr>s_tcp_buffer := None, s_tcp_lenbuf := []\<rparr>) c)
     } else Some c
   }"

definition read_server ::
  "world \<Rightarrow> timeval \<Rightarrow> nat \<Rightarrow> fds \<times> channel \<Rightarrow> (fds \<times> channel) option" where
  "read_server w now i fc = do {
     let (fs, c) = fc;
     s \<leftarrow> server_at c i;
     if s_tcp_socket s = None \<or> s_is_broken s \<or> \<not> selected (s_tcp_socket s) fs then Some (fs, c)
     else do {
       let fs = deselect (s_tcp_socket s) fs;
       c \<leftarrow> (if length (s_tcp_lenbuf s) \<noteq> 2
         then (case sread w (2 - length (s_tcp_lenbuf s)) (c_ticks c) of
                 Inr bs \<Rightarrow> read_length w now i bs (tick c)
               | Inl again \<Rightarrow> if again then Some (tick c) else handle_error w now i (tick c))
         else do {
           buf \<leftarrow> s_tcp_buffer s;
           if length buf \<le> s_tcp_length s then
             (case sread w (s_tcp_length s - length buf) (c_ticks c) of
                Inr bs \<Rightarrow> read_answer w now i bs (tick c)
              | Inl again \<Rightarrow> if again then Some (tick c) else handle_error w now i (tick c))
           else None
         });
       Some (fs, c)
     }
   }"

definition read_tcp_data :: "world \<Rightarrow> timeval \<Rightarrow> fds \<Rightarrow> channel \<Rightarrow> (fds \<times> channel) option" where
  "read_tcp_data w now fs c = for_servers [0..<nservers c] (read_server w now) (fs, c)"

text \<open>A call of \<^verbatim>\<open>recvfrom\<close>: without a socket it fails.\<close>

definition recvfrom :: "sock option \<Rightarrow> channel \<Rightarrow> received \<times> channel" where
  "recvfrom s c =
     (case s of None \<Rightarrow> (Recv_error, c)
      | Some _ \<Rightarrow> (case c_recvs c of
           [] \<Rightarrow> (Recv_again, c)
         | r # rs \<Rightarrow> (case r of Packet from bs \<Rightarrow> Packet from (take (PACKETSZ + 1) bs) | _ \<Rightarrow> r, c\<lparr>c_recvs := rs\<rparr>)))"

partial_function (option) read_packets :: "world \<Rightarrow> timeval \<Rightarrow> nat \<Rightarrow> channel \<Rightarrow> channel option" where
  "read_packets w now i c = do {
     s \<leftarrow> server_at c i;
     let (r, c) = recvfrom (s_udp_socket s) c;
     case r of
       Recv_again \<Rightarrow> Some c
     | Recv_error \<Rightarrow> handle_error w now i c
     | Packet from bs \<Rightarrow>
         if bs = [] then handle_error w now i c
         else if \<not> same_address from (s_addr s) then Some c
         else do {
           c \<leftarrow> process_answer w now i False bs c;
           read_packets w now i c
         }
   }"

declare read_packets.simps [code]

definition receive_server ::
  "world \<Rightarrow> timeval \<Rightarrow> nat \<Rightarrow> fds \<times> channel \<Rightarrow> (fds \<times> channel) option" where
  "receive_server w now i fc = do {
     let (fs, c) = fc;
     s \<leftarrow> server_at c i;
     if s_udp_socket s = None \<or> s_is_broken s \<or> \<not> selected (s_udp_socket s) fs then Some (fs, c)
     else do {
       c \<leftarrow> read_packets w now i c;
       Some (deselect (s_udp_socket s) fs, c)
     }
   }"

definition read_udp_packets :: "world \<Rightarrow> timeval \<Rightarrow> fds \<Rightarrow> channel \<Rightarrow> channel option" where
  "read_udp_packets w now fs c =
     map_option snd (for_servers [0..<nservers c] (receive_server w now) (fs, c))"

section \<open>Timeouts\<close>

definition query_timed_out :: "timeval \<Rightarrow> query \<Rightarrow> bool" where
  "query_timed_out now x \<longleftrightarrow> tv_sec (q_timeout x) \<noteq> 0 \<and> ares__timedout now (q_timeout x)"

partial_function (option) timeouts_in ::
  "world \<Rightarrow> timeval \<Rightarrow> nat \<Rightarrow> address option \<Rightarrow> channel \<Rightarrow> channel option" where
  "timeouts_in w now b cur c =
     (case cur of
        None \<Rightarrow> Some c
      | Some q \<Rightarrow> do {
          x \<leftarrow> c_heap c q;
          let cur = next_in q (c_queries_by_timeout c b);
          if query_timed_out now x then if \<not> fits_int (q_timeouts x + 1) then None else do {
            c \<leftarrow> next_server w q now (upd_query q
              (\<lambda>x. x\<lparr>q_error_status := ARES_ETIMEOUT, q_timeouts := q_timeouts x + 1\<rparr>) c);
            timeouts_in w now b cur c
          } else timeouts_in w now b cur c
        })"

declare timeouts_in.simps [code]

primrec timeouts_at :: "world \<Rightarrow> timeval \<Rightarrow> int list \<Rightarrow> channel \<Rightarrow> channel option" where
  "timeouts_at w now [] c = Some c"
| "timeouts_at w now (t # ts) c = do {
     b \<leftarrow> timeout_bucket t;
     c \<leftarrow> timeouts_in w now b (first_in (c_queries_by_timeout c b)) c;
     timeouts_at w now ts c
   }"

definition process_timeouts :: "world \<Rightarrow> timeval \<Rightarrow> channel \<Rightarrow> channel option" where
  "process_timeouts w now c = do {
     c \<leftarrow> timeouts_at w now [c_last_timeout_processed c..tv_sec now] c;
     Some (c\<lparr>c_last_timeout_processed := tv_sec now\<rparr>)
   }"

section \<open>The calls of the client\<close>

definition processfds :: "world \<Rightarrow> timeval \<Rightarrow> fds \<Rightarrow> fds \<Rightarrow> channel \<Rightarrow> channel option" where
  "processfds w now read_fds write_fds c = do {
     c \<leftarrow> write_tcp_data w now write_fds c;
     (read_fds, c) \<leftarrow> read_tcp_data w now read_fds c;
     c \<leftarrow> read_udp_packets w now read_fds c;
     c \<leftarrow> process_timeouts w now c;
     process_broken_connections w now c
   }"

text \<open>A null pointer for a set is \<open>None\<close>.\<close>

definition fds_of :: "sock list option \<Rightarrow> sock option \<Rightarrow> fds" where
  "fds_of fs f = (case fs of None \<Rightarrow> Fd f | Some ks \<Rightarrow> Fd_set ks)"

definition ares_process ::
  "world \<Rightarrow> timeval \<Rightarrow> sock list option \<Rightarrow> sock list option \<Rightarrow> channel \<Rightarrow> channel option" where
  "ares_process w now read_fds write_fds c = processfds w now (fds_of read_fds None) (fds_of write_fds None) c"

definition ares_process_fd ::
  "world \<Rightarrow> timeval \<Rightarrow> sock option \<Rightarrow> sock option \<Rightarrow> channel \<Rightarrow> channel option" where
  "ares_process_fd w now read_fd write_fd c = processfds w now (fds_of None read_fd) (fds_of None write_fd) c"

definition new_query :: "channel \<Rightarrow> buffer \<Rightarrow> nat \<Rightarrow> nat \<Rightarrow> query" where
  "new_query c qbuf qid a =
     \<lparr>q_qid = qid, q_timeout = \<lparr>tv_sec = 0, tv_usec = 0\<rparr>,
      q_tcpbuf = word16 (int (length qbuf)) @ qbuf, q_arg = a, q_try_count = 0, q_server = c_last_server c,
      q_server_info = replicate (nservers c) \<lparr>i_skip_server = False, i_generation = 0\<rparr>,
      q_using_tcp = has_flag c ARES_FLAG_USEVC \<or> length qbuf > PACKETSZ,
      q_error_status = ARES_ECONNREFUSED, q_timeouts = 0\<rparr>"

definition ares_send :: "world \<Rightarrow> timeval \<Rightarrow> buffer \<Rightarrow> nat \<Rightarrow> channel \<Rightarrow> channel option" where
  "ares_send w now qbuf a c =
     (if length qbuf < HFIXEDSZ \<or> length qbuf \<ge> 2 ^ 16 then Some (log_event (Refused a ARES_EBADQUERY) c)
      else if \<not> w_alloc w (c_ticks c) then Some (log_event (Refused a ARES_ENOMEM) (tick c))
      else if \<not> w_alloc w (c_ticks c + 1) then Some (log_event (Refused a ARES_ENOMEM) (tick (tick c)))
      else if \<not> w_alloc w (c_ticks c + 2) then Some (log_event (Refused a ARES_ENOMEM) (tick (tick (tick c))))
      else do {
        qid \<leftarrow> DNS_HEADER_QID qbuf 0;
        let q = c_free c;
        let x = new_query c qbuf qid a;
        if c_rotate c \<and> nservers c = 0 then None
        else do {
          let c = c\<lparr>c_heap := (c_heap c)(q \<mapsto> x), c_free := q + 1, c_ticks := c_ticks c + 3,
            c_last_server := if c_rotate c then (c_last_server c + 1) mod nservers c else c_last_server c,
            c_all_queries := c_all_queries c @ [q],
            c_queries_by_qid := insert_bucket (qid_bucket qid) q (c_queries_by_qid c)\<rparr>;
          ares__send_query w q now c
        }
      })"

primrec cancel_queries :: "address list \<Rightarrow> channel \<Rightarrow> channel option" where
  "cancel_queries [] c = Some c"
| "cancel_queries (q # qs) c = do {
     x \<leftarrow> c_heap c q;
     c \<leftarrow> ares__free_query q (log_event (Callback q (q_arg x) ARES_ECANCELLED 0 None) c);
     cancel_queries qs c
   }"

definition ares_cancel :: "channel \<Rightarrow> channel option" where
  "ares_cancel c = do {
     c \<leftarrow> cancel_queries (c_all_queries c) c;
     if c_all_queries c = [] \<and>
       (\<forall>b \<in> {..<ARES_QID_TABLE_SIZE}. c_queries_by_qid c b = []) \<and>
       (\<forall>b \<in> {..<ARES_TIMEOUT_TABLE_SIZE}. c_queries_by_timeout c b = [])
     then (if \<not> has_flag c ARES_FLAG_STAYOPEN then close_all c else Some c)
     else None
   }"

end
