(* ===== verification/Ares_Invariant.thy ===== *)
theory Ares_Invariant
  imports Ares_Process
begin

text \<open>
  The invariant of a channel: every query is on the lists through which it is looked for, the
  requests that wait to be sent read from memory that is still there, and the callback of a query
  has been called once when it is over and never before.  While an operation works on a query, the
  query may be away from its lists: it is in the set \<open>X\<close> of the invariant.
\<close>

section \<open>The invariant\<close>

definition query_ok :: "nat \<Rightarrow> query \<Rightarrow> bool" where
  "query_ok n x \<longleftrightarrow> q_server x < n \<and> length (q_server_info x) = n"

definition attempts_ok :: "nat \<Rightarrow> int \<Rightarrow> query \<Rightarrow> bool" where
  "attempts_ok n tries x \<longleftrightarrow>
     0 \<le> q_try_count x \<and> (q_try_count x = 0 \<or> q_try_count x < int n * tries) \<and>
     0 \<le> q_timeouts x \<and> q_timeouts x \<le> q_try_count x"

text \<open>A query that has just run out of time is one ahead.\<close>

definition next_ok :: "nat \<Rightarrow> int \<Rightarrow> query \<Rightarrow> bool" where
  "next_ok n tries x \<longleftrightarrow>
     0 \<le> q_try_count x \<and> (q_try_count x = 0 \<or> q_try_count x < int n * tries) \<and>
     0 \<le> q_timeouts x \<and> q_timeouts x \<le> q_try_count x + 1"

lemma attempts_next: "attempts_ok n tries x \<Longrightarrow> next_ok n tries x"
  by (auto simp: attempts_ok_def next_ok_def)

text \<open>A request reads from the buffer of its query, or from its own copy, up to its end; or it has
  nothing to send and the connection is given up.\<close>

definition request_ok :: "(address \<Rightarrow> query option) \<Rightarrow> bool \<Rightarrow> send_request \<Rightarrow> bool" where
  "request_ok heap broken r =
     (case r_owner_query r of
        Some q \<Rightarrow> \<exists>x k. heap q = Some x \<and> r_data_storage r = None \<and> r_data r = In_query q k \<and>
          k + r_len r = length (q_tcpbuf x)
      | None \<Rightarrow> (\<exists>k buf. r_data r = In_storage k \<and> r_data_storage r = Some buf \<and>
            k + r_len r = length buf) \<or> r_data r = Null \<and> r_len r = 0 \<and> broken)"

definition input_ok :: "server_state \<Rightarrow> bool" where
  "input_ok s \<longleftrightarrow>
     (case s_tcp_buffer s of
        None \<Rightarrow> length (s_tcp_lenbuf s) < 2
      | Some buf \<Rightarrow> length (s_tcp_lenbuf s) = 2 \<and> length buf \<le> s_tcp_length s)"

definition server_ok :: "(address \<Rightarrow> query option) \<Rightarrow> server_state \<Rightarrow> bool" where
  "server_ok heap s \<longleftrightarrow>
     (\<forall>r \<in> set (s_queue s). request_ok heap (s_is_broken s) r) \<and> input_ok s \<and>
     distinct (s_queries s) \<and> set (s_queries s) \<subseteq> dom heap"

definition placed :: "address set \<Rightarrow> (address \<Rightarrow> query option) \<Rightarrow> address list list \<Rightarrow> bool" where
  "placed X heap qss \<longleftrightarrow>
     (\<forall>q x i. heap q = Some x \<and> q \<notin> X \<and> i < length qss \<longrightarrow> (q \<in> set (qss ! i) \<longleftrightarrow> q_server x = i))"

definition timers_ok ::
  "address set \<Rightarrow> int \<Rightarrow> (address \<Rightarrow> query option) \<Rightarrow> (nat \<Rightarrow> address list) \<Rightarrow> bool" where
  "timers_ok X since heap qss \<longleftrightarrow>
     (\<forall>b. distinct (qss b) \<and> set (qss b) \<subseteq> dom heap) \<and>
     (\<forall>q x. heap q = Some x \<and> q \<notin> X \<longrightarrow>
        since \<le> tv_sec (q_timeout x) \<and>
        (\<forall>b. q \<in> set (qss b) \<longleftrightarrow> timeout_bucket (tv_sec (q_timeout x)) = Some b))"

definition qids_ok :: "(address \<Rightarrow> query option) \<Rightarrow> (nat \<Rightarrow> address list) \<Rightarrow> bool" where
  "qids_ok heap qss \<longleftrightarrow>
     (\<forall>b. distinct (qss b) \<and>
        (\<forall>q. q \<in> set (qss b) \<longleftrightarrow> (\<exists>x. heap q = Some x \<and> qid_bucket (q_qid x) = b)))"

definition heap_ok ::
  "address set \<Rightarrow> nat \<Rightarrow> int \<Rightarrow> address \<Rightarrow> address list \<Rightarrow> (address \<Rightarrow> query option) \<Rightarrow> bool" where
  "heap_ok X n tries free all heap \<longleftrightarrow>
     distinct all \<and> set all = dom heap \<and>
     (\<forall>q x. heap q = Some x \<longrightarrow> q < free \<and> query_ok n x \<and> (q \<notin> X \<longrightarrow> attempts_ok n tries x))"

fun is_callback :: "address \<Rightarrow> event \<Rightarrow> bool" where
  "is_callback q (Callback q' _ _ _ _) \<longleftrightarrow> q' = q"
| "is_callback q _ \<longleftrightarrow> False"

definition callbacks :: "address \<Rightarrow> event list \<Rightarrow> nat" where
  "callbacks q es = length (filter (is_callback q) es)"

definition log_ok :: "address \<Rightarrow> (address \<Rightarrow> query option) \<Rightarrow> event list \<Rightarrow> bool" where
  "log_ok free heap es \<longleftrightarrow> (\<forall>q. callbacks q es = (if q < free \<and> heap q = None then 1 else 0))"

text \<open>A configuration for which waiting times and the number of attempts fit into an \<^verbatim>\<open>int\<close>.\<close>

definition config_ok :: "channel \<Rightarrow> bool" where
  "config_ok c \<longleftrightarrow>
     0 < nservers c \<and> c_last_server c < nservers c \<and> 0 < c_last_timeout_processed c \<and>
     0 \<le> c_timeout c \<and> c_tries c < 32 \<and> c_timeout c * 2 ^ nat (c_tries c) * 16 < 2 ^ 31 \<and>
     fits_int (int (nservers c) * c_tries c)"

definition chan_ok :: "address set \<Rightarrow> channel \<Rightarrow> bool" where
  "chan_ok X c \<longleftrightarrow>
     config_ok c \<and>
     heap_ok X (nservers c) (c_tries c) (c_free c) (c_all_queries c) (c_heap c) \<and>
     qids_ok (c_heap c) (c_queries_by_qid c) \<and>
     timers_ok X (c_last_timeout_processed c) (c_heap c) (c_queries_by_timeout c) \<and>
     placed X (c_heap c) (map s_queries (c_servers c)) \<and>
     (\<forall>s \<in> set (c_servers c). server_ok (c_heap c) s) \<and>
     distinct (c_stolen c) \<and> set (c_stolen c) \<subseteq> X \<inter> dom (c_heap c) \<and>
     log_ok (c_free c) (c_heap c) (c_log c)"

lemma chan_ok_mono: "chan_ok X c \<Longrightarrow> X \<subseteq> Y \<Longrightarrow> chan_ok Y c"
  unfolding chan_ok_def timers_ok_def placed_def heap_ok_def by blast

section \<open>What operations leave alone\<close>

text \<open>What no operation but \<^verbatim>\<open>ares_send\<close> changes, and nothing but the end of \<^verbatim>\<open>process_timeouts\<close>.\<close>

definition settings :: "channel \<Rightarrow> nat \<times> int \<times> int \<times> nat \<times> int \<times> nat \<times> bool \<times> nat" where
  "settings c = (nservers c, c_tries c, c_timeout c, c_flags c, c_last_timeout_processed c, c_free c,
     c_rotate c, c_last_server c)"

lemma settings_simps [simp]:
  "settings (tick c) = settings c" "settings (log_event e c) = settings c"
  "settings (upd_server i f c) = settings c" "settings (upd_query q g c) = settings c"
  "settings (remove_from_server q c) = settings c"
  "settings (c\<lparr>c_ticks := n\<rparr>) = settings c" "settings (c\<lparr>c_generation := k\<rparr>) = settings c"
  "settings (c\<lparr>c_queries_by_timeout := l\<rparr>) = settings c"
  "settings (c\<lparr>c_all_queries := xs, c_heap := h\<rparr>) = settings c"
  "settings (c\<lparr>c_queries_by_qid := l', c_queries_by_timeout := l\<rparr>) = settings c"
  by (simp_all add: settings_def tick_def log_event_def upd_server_def upd_query_def remove_from_server_def)

lemma settings_eqD:
  assumes "settings c' = settings c"
  shows "nservers c' = nservers c" "c_tries c' = c_tries c" "c_timeout c' = c_timeout c"
    "c_flags c' = c_flags c" "c_last_timeout_processed c' = c_last_timeout_processed c"
    "c_free c' = c_free c" "c_rotate c' = c_rotate c" "c_last_server c' = c_last_server c"
  using assms by (simp_all add: settings_def)

text \<open>Nothing is done but with sockets and what waits on them.\<close>

definition quiet :: "channel \<Rightarrow> channel \<Rightarrow> bool" where
  "quiet c c' \<longleftrightarrow>
     settings c' = settings c \<and> c_heap c' = c_heap c \<and> c_all_queries c' = c_all_queries c \<and>
     c_queries_by_qid c' = c_queries_by_qid c \<and> c_queries_by_timeout c' = c_queries_by_timeout c \<and>
     c_stolen c' = c_stolen c \<and> c_recvs c' = c_recvs c \<and>
     map s_queries (c_servers c') = map s_queries (c_servers c) \<and>
     (\<forall>q. callbacks q (c_log c') = callbacks q (c_log c))"

lemma quiet_refl [simp]: "quiet c c"
  by (simp add: quiet_def)

lemma quiet_trans: "quiet c c' \<Longrightarrow> quiet c' c'' \<Longrightarrow> quiet c c''"
  by (simp add: quiet_def)

lemma quietD:
  assumes "quiet c c'"
  shows "settings c' = settings c" "c_heap c' = c_heap c" "nservers c' = nservers c"
    "map s_queries (c_servers c') = map s_queries (c_servers c)" "c_stolen c' = c_stolen c"
proof -
  show s: "settings c' = settings c" and "c_heap c' = c_heap c"
    "map s_queries (c_servers c') = map s_queries (c_servers c)" "c_stolen c' = c_stolen c"
    using assms by (simp_all add: quiet_def)
  show "nservers c' = nservers c" by (rule settings_eqD(1) [OF s])
qed

lemma chan_ok_quiet:
  assumes "chan_ok X c" "quiet c c'" "\<forall>s \<in> set (c_servers c'). server_ok (c_heap c) s"
  shows "chan_ok X c'"
proof -
  have eqs: "c_heap c' = c_heap c" "c_all_queries c' = c_all_queries c"
    "c_queries_by_qid c' = c_queries_by_qid c" "c_queries_by_timeout c' = c_queries_by_timeout c"
    "c_stolen c' = c_stolen c" "map s_queries (c_servers c') = map s_queries (c_servers c)"
    "\<And>q. callbacks q (c_log c') = callbacks q (c_log c)"
    using assms(2) by (simp_all add: quiet_def)
  note s = settings_eqD [OF quietD(1) [OF assms(2)]]
  show ?thesis using assms(1,3) unfolding chan_ok_def config_ok_def log_ok_def eqs s by blast
qed

lemma quiet_tick [simp]: "quiet c (tick c)" "quiet c (c\<lparr>c_ticks := n\<rparr>)" "quiet c (c\<lparr>c_generation := k\<rparr>)"
  by (simp_all add: quiet_def tick_def settings_def)

lemma quiet_log: "(\<And>q. \<not> is_callback q e) \<Longrightarrow> quiet c (log_event e c)"
  by (simp add: quiet_def log_event_def settings_def callbacks_def)

lemma quiet_upd_server:
  "(\<And>s. s_queries (f s) = s_queries s) \<Longrightarrow> quiet c (upd_server i f c)"
  by (auto simp: quiet_def upd_server_def settings_def map_update list_update_same_conv)
    (metis list_update_id map_update)

text \<open>Only the query \<open>q\<close> is touched.\<close>

definition only :: "address \<Rightarrow> channel \<Rightarrow> channel \<Rightarrow> bool" where
  "only q c c' \<longleftrightarrow>
     settings c' = settings c \<and> c_recvs c' = c_recvs c \<and>
     (\<forall>q'. q' \<noteq> q \<longrightarrow> c_heap c' q' = c_heap c q') \<and>
     removeAll q (c_stolen c') = removeAll q (c_stolen c) \<and>
     (\<forall>b. c_queries_by_timeout c' b = c_queries_by_timeout c b \<or>
       (\<exists>ys. c_queries_by_timeout c' b = removeAll q (c_queries_by_timeout c b) @ ys \<and> set ys \<subseteq> {q}))"

lemma only_quiet: "quiet c c' \<Longrightarrow> only q c c'"
  by (simp add: quiet_def only_def)

lemma removeAll_idem: "removeAll q (removeAll q xs) = removeAll q xs"
  by (induction xs) auto

lemma removeAll_only: "set ys \<subseteq> {q} \<Longrightarrow> removeAll q ys = []"
  by (induction ys) auto

lemma only_trans:
  assumes "only q c c'" "only q c' c''"
  shows "only q c c''"
proof -
  have "c_queries_by_timeout c'' b = c_queries_by_timeout c b \<or>
      (\<exists>ys. c_queries_by_timeout c'' b = removeAll q (c_queries_by_timeout c b) @ ys \<and> set ys \<subseteq> {q})"
    (is "?P c'' b c") for b
  proof -
    have one: "?P c' b c" and two: "?P c'' b c'" using assms by (auto simp: only_def)
    then consider "c_queries_by_timeout c'' b = c_queries_by_timeout c' b"
      | ys where "c_queries_by_timeout c'' b = removeAll q (c_queries_by_timeout c' b) @ ys" "set ys \<subseteq> {q}"
      by blast
    then show ?thesis
    proof cases
      case 1
      with one show ?thesis by simp
    next
      case 2
      have "removeAll q (c_queries_by_timeout c' b) = removeAll q (c_queries_by_timeout c b)"
        using one by (auto simp: removeAll_idem removeAll_only)
      with 2 show ?thesis by auto
    qed
  qed
  with assms show ?thesis by (simp add: only_def)
qed

section \<open>Fields under updates\<close>

lemma field_simps [simp]:
  "c_servers (tick c) = c_servers c" "c_servers (log_event e c) = c_servers c"
  "c_servers (upd_query q g c) = c_servers c"
  "c_heap (tick c) = c_heap c" "c_heap (log_event e c) = c_heap c" "c_heap (upd_server i f c) = c_heap c"
  "c_heap (remove_from_server q c) = c_heap c"
  "c_heap (upd_query q g c) = (c_heap c)(q := map_option g (c_heap c q))"
  "c_queries_by_timeout (tick c) = c_queries_by_timeout c"
  "c_queries_by_timeout (log_event e c) = c_queries_by_timeout c"
  "c_queries_by_timeout (upd_server i f c) = c_queries_by_timeout c"
  "c_queries_by_timeout (upd_query q g c) = c_queries_by_timeout c"
  "c_queries_by_timeout (remove_from_server q c) = c_queries_by_timeout c"
  "c_queries_by_qid (tick c) = c_queries_by_qid c"
  "c_queries_by_qid (log_event e c) = c_queries_by_qid c"
  "c_queries_by_qid (upd_server i f c) = c_queries_by_qid c"
  "c_queries_by_qid (upd_query q g c) = c_queries_by_qid c"
  "c_queries_by_qid (remove_from_server q c) = c_queries_by_qid c"
  "c_all_queries (tick c) = c_all_queries c" "c_all_queries (log_event e c) = c_all_queries c"
  "c_all_queries (upd_server i f c) = c_all_queries c" "c_all_queries (upd_query q g c) = c_all_queries c"
  "c_all_queries (remove_from_server q c) = c_all_queries c"
  "c_stolen (tick c) = c_stolen c" "c_stolen (log_event e c) = c_stolen c"
  "c_stolen (upd_server i f c) = c_stolen c" "c_stolen (upd_query q g c) = c_stolen c"
  "c_stolen (remove_from_server q c) = removeAll q (c_stolen c)"
  "c_recvs (tick c) = c_recvs c" "c_recvs (log_event e c) = c_recvs c"
  "c_recvs (upd_server i f c) = c_recvs c" "c_recvs (upd_query q g c) = c_recvs c"
  "c_recvs (remove_from_server q c) = c_recvs c"
  "c_log (tick c) = c_log c" "c_log (upd_server i f c) = c_log c" "c_log (upd_query q g c) = c_log c"
  "c_log (remove_from_server q c) = c_log c" "c_log (log_event e c) = c_log c @ [e]"
  "nservers (upd_server i f c) = nservers c" "nservers (remove_from_server q c) = nservers c"
  by (simp_all add: tick_def log_event_def upd_server_def upd_query_def remove_from_server_def)

lemma servers_upd:
  "(\<forall>s \<in> set (c_servers c). P s) \<Longrightarrow> (i < nservers c \<Longrightarrow> P (f (c_servers c ! i))) \<Longrightarrow>
   \<forall>s \<in> set (c_servers (upd_server i f c)). P s"
  using set_update_subset_insert [of "c_servers c" i]
  by (cases "i < nservers c") (auto simp: upd_server_def list_update_beyond)

lemma server_at_simps [simp]:
  "i < nservers c \<Longrightarrow> server_at c i = Some (c_servers c ! i)"
  "server_at c i = Some s \<longleftrightarrow> i < nservers c \<and> s = c_servers c ! i"
  by (auto simp: server_at_def)

lemma server_okD: "chan_ok X c \<Longrightarrow> i < nservers c \<Longrightarrow> server_ok (c_heap c) (c_servers c ! i)"
  by (simp add: chan_ok_def)

lemma chan_ok_tick [simp]: "chan_ok X (tick c) \<longleftrightarrow> chan_ok X c" "chan_ok X (c\<lparr>c_ticks := n\<rparr>) \<longleftrightarrow> chan_ok X c"
  "chan_ok X (c\<lparr>c_generation := k\<rparr>) \<longleftrightarrow> chan_ok X c"
  by (simp_all add: chan_ok_def config_ok_def tick_def)

lemma chan_ok_log: "(\<And>q. \<not> is_callback q e) \<Longrightarrow> chan_ok X (log_event e c) \<longleftrightarrow> chan_ok X c"
  by (simp add: chan_ok_def config_ok_def log_event_def log_ok_def callbacks_def)

lemma chan_ok_upd_server:
  assumes "chan_ok X c" "\<And>s. s_queries (f s) = s_queries s"
    and "i < nservers c \<Longrightarrow> server_ok (c_heap c) (c_servers c ! i) \<Longrightarrow> server_ok (c_heap c) (f (c_servers c ! i))"
  shows "chan_ok X (upd_server i f c)"
proof (rule chan_ok_quiet [OF assms(1) quiet_upd_server])
  show "\<forall>s \<in> set (c_servers (upd_server i f c)). server_ok (c_heap c) s"
    by (rule servers_upd) (use assms(1,3) in \<open>auto simp: chan_ok_def\<close>)
qed (rule assms(2))

lemma server_ok_sockets [simp]:
  "server_ok h (s\<lparr>s_tcp_socket := a\<rparr>) \<longleftrightarrow> server_ok h s"
  "server_ok h (s\<lparr>s_udp_socket := b\<rparr>) \<longleftrightarrow> server_ok h s"
  "server_ok h (s\<lparr>s_tcp_socket := a, s_generation := g\<rparr>) \<longleftrightarrow> server_ok h s"
  by (auto simp: server_ok_def input_ok_def split: option.splits)

text \<open>An operation that only works on sockets keeps the invariant.\<close>

definition steady :: "address set \<Rightarrow> channel \<Rightarrow> channel \<Rightarrow> bool" where
  "steady X c d \<longleftrightarrow> chan_ok X d \<and> quiet c d"

named_theorems steady_intros \<open>operations on sockets\<close>

lemma steady_refl [steady_intros]: "chan_ok X c \<Longrightarrow> steady X c c"
  by (simp add: steady_def)

lemma steady_trans: "steady X c d \<Longrightarrow> steady X d e \<Longrightarrow> steady X c e"
  by (auto simp: steady_def intro: quiet_trans)

lemma steady_steps [steady_intros]:
  "steady X c d \<Longrightarrow> steady X c (tick d)" "steady X c d \<Longrightarrow> steady X c (d\<lparr>c_ticks := n\<rparr>)"
  "steady X c d \<Longrightarrow> steady X c (d\<lparr>c_generation := k\<rparr>)"
  by (auto simp: steady_def intro: quiet_trans)

lemma steady_log [steady_intros]:
  "steady X c d \<Longrightarrow> (\<And>q. \<not> is_callback q e) \<Longrightarrow> steady X c (log_event e d)"
  by (auto simp: steady_def chan_ok_log intro: quiet_trans [OF _ quiet_log])

lemma steady_upd_server [steady_intros]:
  assumes "steady X c d" "\<And>s. s_queries (f s) = s_queries s"
    and "i < nservers d \<Longrightarrow> server_ok (c_heap d) (c_servers d ! i) \<Longrightarrow> server_ok (c_heap d) (f (c_servers d ! i))"
  shows "steady X c (upd_server i f d)"
  using assms by (auto simp: steady_def intro: chan_ok_upd_server quiet_trans [OF _ quiet_upd_server])

lemma steady_close_socket [steady_intros]: "steady X c d \<Longrightarrow> steady X c (close_socket s d)"
  by (auto simp: close_socket_def split: option.split intro!: steady_intros)

lemma steadyD:
  assumes "steady X c d"
  shows "chan_ok X d" "nservers d = nservers c" "c_heap d = c_heap c" "quiet c d"
  using assms quietD by (auto simp: steady_def)

section \<open>Loops over the servers\<close>

lemma for_servers_ok:
  "(\<And>i s. i \<in> set is \<Longrightarrow> I s \<Longrightarrow> no_crash (f i s) I) \<Longrightarrow> I s \<Longrightarrow> no_crash (for_servers is f s) I"
  by (induction "is" arbitrary: s) (fastforce simp: no_crash_def)+

lemma for_servers_append: "for_servers (is @ js) f s = for_servers is f s \<bind> for_servers js f"
  by (induction "is" arbitrary: s) (auto split: bind_splits)

lemma for_servers_upto:
  assumes "\<And>i s. i < n \<Longrightarrow> I i s \<Longrightarrow> no_crash (f i s) (I (Suc i))" "I 0 s"
  shows "no_crash (for_servers [0..<n] f s) (I n)"
  using assms(1)
proof (induction n)
  case 0
  then show ?case using assms(2) by (simp add: no_crash_def)
next
  case (Suc n)
  then have "no_crash (for_servers [0..<n] f s) (I n)" by simp
  with Suc.prems [of n] show ?case
    by (fastforce simp: for_servers_append no_crash_def)
qed

section \<open>Closing sockets\<close>

lemma close_sockets_ok:
  assumes "chan_ok X c" "i < nservers c"
  shows "no_crash (ares__close_sockets i c) (steady X c)"
  using assms unfolding ares__close_sockets_def Let_def
  by (auto simp: no_crash_def intro!: steady_intros) (auto simp: server_ok_def input_ok_def)

lemma close_all_ok:
  assumes "chan_ok X c"
  shows "no_crash (close_all c) (steady X c)"
  unfolding close_all_def
proof (rule for_servers_ok)
  fix i d assume "i \<in> set [0..<nservers c]" "steady X c d"
  then show "no_crash (ares__close_sockets i d) (steady X c)"
    using close_sockets_ok [of X d i] by (auto simp: steadyD no_crash_def intro: steady_trans)
qed (use assms in \<open>simp add: steady_refl\<close>)

end
