(* ===== verification/Ares_Sending.thy ===== *)
theory Ares_Sending
  imports Ares_Invariant
begin

text \<open>
  Sending a query, with its retries, ends: every attempt is counted, and when it cannot be sent its
  callback is called.  The invariant holds afterwards, and no other query is touched.
\<close>

section \<open>The requests of a query that ends\<close>

definition free_of :: "address \<Rightarrow> server_state \<Rightarrow> bool" where
  "free_of q s \<longleftrightarrow> (\<forall>r \<in> set (s_queue s). r_owner_query r \<noteq> Some q)"

lemma request_ok_broken: "request_ok heap b r \<Longrightarrow> request_ok heap (b \<or> b') r" "request_ok heap b r \<Longrightarrow> request_ok heap True r"
  by (auto simp: request_ok_def split: option.splits)

lemma request_ok_released:
  "request_ok heap True (r\<lparr>r_owner_query := None, r_data := Null, r_len := 0\<rparr>)"
  "length buf = r_len r \<Longrightarrow>
   request_ok heap b (r\<lparr>r_owner_query := None, r_data_storage := Some buf, r_data := In_storage 0\<rparr>)"
  by (simp_all add: request_ok_def)

lemma request_ok_bytes:
  "request_ok heap b r \<Longrightarrow> \<exists>bs. request_bytes heap r = Some bs \<and> length bs = r_len r"
  by (auto simp: request_ok_def request_bytes_def split: option.splits)

lemma release_requests_ok:
  assumes "\<forall>r \<in> set rs. request_ok heap b r"
  shows "no_crash (release_requests w heap q st rs n)
    (\<lambda>(rs', b', n'). (\<forall>r \<in> set rs'. request_ok heap (b \<or> b') r \<and> r_owner_query r \<noteq> Some q))"
  using assms
proof (induction rs arbitrary: n)
  case (Cons r rs)
  then have IH: "no_crash (release_requests w heap q st rs n)
      (\<lambda>(rs', b', n'). (\<forall>r \<in> set rs'. request_ok heap (b \<or> b') r \<and> r_owner_query r \<noteq> Some q))" for n
    by simp
  have r: "request_ok heap b r" using Cons.prems by simp
  show ?case
  proof (cases "r_owner_query r = Some q")
    case True
    then have none: "r_data_storage r = None" using r by (auto simp: request_ok_def)
    show ?thesis
    proof (cases "st = ARES_SUCCESS \<and> w_alloc w n")
      case ok: True
      obtain bs where "request_bytes heap r = Some bs" "length bs = r_len r"
        using request_ok_bytes [OF r] by blast
      then show ?thesis using IH [of "n + 1"] True none ok
        by (auto simp: no_crash_def request_ok_released)
    next
      case False
      obtain rs' b' n' where "release_requests w heap q st rs (if st = ARES_SUCCESS then n + 1 else n) = Some (rs', b', n')"
        "\<forall>r \<in> set rs'. request_ok heap (b \<or> b') r \<and> r_owner_query r \<noteq> Some q"
        using IH by (fastforce simp: no_crash_def)
      moreover from this(2) have "\<forall>r \<in> set rs'. request_ok heap True r \<and> r_owner_query r \<noteq> Some q"
        using request_ok_broken(2) by blast
      ultimately show ?thesis using True none False by (auto simp: no_crash_def request_ok_released ex_bool_eq)
    qed
  next
    case False
    then show ?thesis using IH [of n] r by (auto simp: no_crash_def intro: request_ok_broken)
  qed
qed (simp add: no_crash_def)

lemma release_server_ok:
  assumes "steady X c d" "i < nservers c" "\<forall>j < i. free_of q (c_servers d ! j)"
  shows "no_crash (release_server w q st i d) (\<lambda>e. steady X c e \<and> (\<forall>j < Suc i. free_of q (c_servers e ! j)))"
proof -
  note d = steadyD [OF assms(1)]
  have "\<forall>r \<in> set (s_queue (c_servers d ! i)). request_ok (c_heap d) (s_is_broken (c_servers d ! i)) r"
    using server_okD [OF d(1), of i] assms(2) d(2) by (simp add: server_ok_def)
  from release_requests_ok [OF this, of w q st "c_ticks d"]
  obtain rs b n where r: "release_requests w (c_heap d) q st (s_queue (c_servers d ! i)) (c_ticks d) = Some (rs, b, n)"
    "\<forall>r \<in> set rs. request_ok (c_heap d) (s_is_broken (c_servers d ! i) \<or> b) r \<and> r_owner_query r \<noteq> Some q"
    by (auto simp: no_crash_def)
  let ?e = "upd_server i (\<lambda>s. s\<lparr>s_queue := rs, s_is_broken := s_is_broken s \<or> b\<rparr>) (d\<lparr>c_ticks := n\<rparr>)"
  have "steady X c ?e"
    using assms(1) r(2) by (auto intro!: steady_intros simp: server_ok_def input_ok_def split: option.splits)
  moreover have "free_of q (c_servers ?e ! j)" if "j < Suc i" for j
    using that assms(2,3) r(2) d(2) by (cases "j = i") (auto simp: upd_server_def free_of_def less_Suc_eq)
  ultimately show ?thesis using r(1) assms(2) d(2) by (simp add: release_server_def no_crash_def)
qed

section \<open>Freeing a query\<close>

lemma request_ok_upd:
  "request_ok heap b r \<Longrightarrow> r_owner_query r \<noteq> Some q \<Longrightarrow> request_ok (heap(q := y)) b r"
  by (auto simp: request_ok_def split: option.splits)

lemma free_query_ok:
  assumes ok: "chan_ok X c" and q: "c_heap c q = Some x"
    and free: "\<forall>j < nservers c. free_of q (c_servers c ! j)"
    and e: "e = Callback q a st k abuf"
  shows "no_crash (ares__free_query q (log_event e c))
     (\<lambda>d. chan_ok (X - {q}) d \<and> only q c d \<and> c_heap d q = None)"
proof -
  define d where "d = (let c = (log_event e c)\<lparr>c_queries_by_qid := remove_bucket q (c_queries_by_qid c),
       c_queries_by_timeout := remove_bucket q (c_queries_by_timeout c)\<rparr>
     in (remove_from_server q c)\<lparr>c_all_queries := removeAll q (c_all_queries c), c_heap := (c_heap c)(q := None)\<rparr>)"
  have d_simps: "c_heap d = (c_heap c)(q := None)" "c_all_queries d = removeAll q (c_all_queries c)"
    "c_queries_by_qid d = remove_bucket q (c_queries_by_qid c)"
    "c_queries_by_timeout d = remove_bucket q (c_queries_by_timeout c)"
    "c_stolen d = removeAll q (c_stolen c)" "c_log d = c_log c @ [e]" "c_recvs d = c_recvs c"
    "c_servers d = map (\<lambda>s. s\<lparr>s_queries := removeAll q (s_queries s)\<rparr>) (c_servers c)"
    "settings d = settings c"
    by (simp_all add: d_def Let_def remove_from_server_def log_event_def settings_def)
  note s = settings_eqD [OF d_simps(9)]
  have 1: "config_ok d"
    using ok by (simp add: chan_ok_def config_ok_def s)
  have 2: "heap_ok (X - {q}) (nservers d) (c_tries d) (c_free d) (c_all_queries d) (c_heap d)"
    using ok by (auto simp: chan_ok_def heap_ok_def s d_simps distinct_removeAll)
  have 3: "qids_ok (c_heap d) (c_queries_by_qid d)"
    using ok by (auto simp: chan_ok_def qids_ok_def d_simps remove_bucket_def distinct_removeAll)
  have 4: "timers_ok (X - {q}) (c_last_timeout_processed d) (c_heap d) (c_queries_by_timeout d)"
    using ok by (auto simp: chan_ok_def timers_ok_def d_simps s remove_bucket_def distinct_removeAll)
  have 5: "placed (X - {q}) (c_heap d) (map s_queries (c_servers d))"
    using ok by (auto simp: chan_ok_def placed_def d_simps)
  have 6: "\<forall>s \<in> set (c_servers d). server_ok (c_heap d) s"
  proof -
    have "server_ok ((c_heap c)(q := None)) (s\<lparr>s_queries := removeAll q (s_queries s)\<rparr>)"
      if "s \<in> set (c_servers c)" for s
    proof -
      have "server_ok (c_heap c) s" "free_of q s"
        using ok free that by (auto simp: chan_ok_def in_set_conv_nth)
      then show ?thesis
        by (auto simp: server_ok_def free_of_def input_ok_def distinct_removeAll intro: request_ok_upd
            split: option.splits)
    qed
    then show ?thesis by (simp add: d_simps)
  qed
  have 7: "distinct (c_stolen d)" "set (c_stolen d) \<subseteq> (X - {q}) \<inter> dom (c_heap d)"
    using ok by (auto simp: chan_ok_def d_simps distinct_removeAll)
  have "q < c_free c" using ok q by (auto simp: chan_ok_def heap_ok_def)
  then have 8: "log_ok (c_free d) (c_heap d) (c_log d)"
    using ok q by (auto simp: chan_ok_def log_ok_def s d_simps callbacks_def e)
  have "only q c d"
    by (auto simp: only_def d_simps removeAll_idem remove_bucket_def)
  moreover have "ares__free_query q (log_event e c) = Some d"
    using q by (simp add: ares__free_query_def d_def Let_def)
  ultimately show ?thesis using 1 2 3 4 5 6 7 8 by (simp add: no_crash_def chan_ok_def d_simps)
qed

lemma end_query_ok:
  assumes "chan_ok X c" "c_heap c q = Some x"
  shows "no_crash (end_query w q st abuf c) (\<lambda>d. chan_ok (X - {q}) d \<and> only q c d \<and> c_heap d q = None)"
proof -
  have "no_crash (for_servers [0..<nservers c] (release_server w q st) c)
      (\<lambda>e. steady X c e \<and> (\<forall>j < nservers c. free_of q (c_servers e ! j)))"
    by (rule for_servers_upto [where I = "\<lambda>i e. steady X c e \<and> (\<forall>j < i. free_of q (c_servers e ! j))"])
      (use assms(1) in \<open>auto intro: release_server_ok steady_refl\<close>)
  then obtain e where e: "for_servers [0..<nservers c] (release_server w q st) c = Some e" "steady X c e"
    "\<forall>j < nservers e. free_of q (c_servers e ! j)"
    by (auto simp: no_crash_def steadyD)
  note se = steadyD [OF e(2)]
  then have x: "c_heap e q = Some x" using assms(2) by simp
  from free_query_ok [OF se(1) x e(3) refl, of "q_arg x" st "q_timeouts x" abuf]
  obtain d where d: "ares__free_query q (log_event (Callback q (q_arg x) st (q_timeouts x) abuf) e) = Some d"
    "chan_ok (X - {q}) d" "only q e d" "c_heap d q = None"
    by (auto simp: no_crash_def)
  have od: "only q c d" using only_trans [OF only_quiet [OF se(4)] d(3)] .
  show ?thesis
  proof (cases "\<not> has_flag d ARES_FLAG_STAYOPEN \<and> c_all_queries d = []")
    case True
    from close_all_ok [OF d(2)] obtain d' where "close_all d = Some d'" "steady (X - {q}) d d'"
      by (auto simp: no_crash_def)
    with steadyD [of "X - {q}" d d'] od d(4) show ?thesis
      by (auto simp: end_query_def no_crash_def e(1) x d(1) True intro: only_trans only_quiet)
  next
    case False
    then show ?thesis using d od by (auto simp: end_query_def no_crash_def e(1) x)
  qed
qed

section \<open>The waiting time\<close>

lemma sdiv_nonneg: "0 \<le> a \<Longrightarrow> 0 < b \<Longrightarrow> a sdiv b = a div b" for a b :: int
  by (cases "a = 0") (simp_all add: signed_divide_int_def)

lemma time_plus_ok:
  assumes "0 \<le> timeout" "tries < 32" "timeout * 2 ^ nat tries * 16 < 2 ^ 31" "0 \<le> k" "k \<le> max 0 tries"
  shows "\<exists>t \<ge> 0. time_plus timeout k r = Some t"
proof -
  have "(2 :: int) ^ nat k \<le> 2 ^ nat tries"
    using assms(4,5) by (intro power_increasing) (auto simp: nat_mono)
  then have "timeout * 2 ^ nat k \<le> timeout * 2 ^ nat tries" using assms(1) by (intro mult_left_mono) auto
  then have small: "timeout * 2 ^ nat k * 16 < 2 ^ 31" using assms(3) by linarith
  have "0 \<le> timeout * 2 ^ nat k" using assms(1) by simp
  moreover have "9 + int (r mod 8) \<le> 16" by (simp add: zmod_int) 
  ultimately have "timeout * 2 ^ nat k * (9 + int (r mod 8)) \<le> timeout * 2 ^ nat k * 16"
    by (intro mult_left_mono) auto
  with small have "timeout * 2 ^ nat k * (9 + int (r mod 8)) < 2 ^ 31" by linarith
  moreover have "0 \<le> timeout * 2 ^ nat k * (9 + int (r mod 8)) div 16"
    using assms(1) by (simp add: pos_imp_zdiv_nonneg_iff)
  ultimately show ?thesis using assms(1,2,4,5) small
    by (auto simp: time_plus_def push_bit_eq_mult Let_def sdiv_nonneg)
qed

lemma timeadd_later: "0 \<le> ms \<Longrightarrow> tv_sec now \<le> tv_sec (ares__timeadd now ms)"
  by (auto simp: ares__timeadd_def Let_def sdiv_nonneg pos_imp_zdiv_nonneg_iff)

lemma attempts_shift:
  assumes "attempts_ok n tries x" "0 < n"
  shows "0 \<le> q_try_count x sdiv int n" "q_try_count x sdiv int n \<le> max 0 tries"
proof -
  have t: "0 \<le> q_try_count x" "q_try_count x = 0 \<or> q_try_count x < int n * tries"
    using assms(1) by (auto simp: attempts_ok_def)
  have div: "q_try_count x sdiv int n = q_try_count x div int n"
    using t(1) assms(2) by (simp add: sdiv_nonneg)
  show "0 \<le> q_try_count x sdiv int n" using t(1) by (simp add: div pos_imp_zdiv_nonneg_iff assms(2))
  show "q_try_count x sdiv int n \<le> max 0 tries"
  proof (cases "q_try_count x = 0")
    case False
    then have "q_try_count x < tries * int n" using t(2) by (simp add: mult.commute)
    moreover have "q_try_count x div int n * int n \<le> q_try_count x"
      using assms(2) by (simp add: minus_mod_eq_div_mult [symmetric])
    ultimately have "q_try_count x div int n * int n < tries * int n" by linarith
    then have "q_try_count x div int n < tries" using assms(2) by (simp add: mult_less_cancel_right)
    then show ?thesis by (simp add: div)
  qed (simp add: div)
qed

section \<open>Updating the query that is worked on\<close>

lemma chan_ok_upd_any:
  assumes ok: "chan_ok X c"
    and f: "\<And>x. c_heap c q = Some x \<Longrightarrow> q_qid (f x) = q_qid x \<and> q_tcpbuf (f x) = q_tcpbuf x \<and>
      (query_ok (nservers c) x \<longrightarrow> query_ok (nservers c) (f x))"
    and q: "\<And>x. c_heap c q = Some x \<Longrightarrow> q \<notin> X \<Longrightarrow> q_timeout (f x) = q_timeout x \<and> q_server (f x) = q_server x \<and>
      q_try_count (f x) = q_try_count x \<and> q_timeouts (f x) = q_timeouts x"
  shows "chan_ok X (upd_query q f c)" "only q c (upd_query q f c)"
proof -
  let ?d = "upd_query q f c" and ?h = "(c_heap c)(q := map_option f (c_heap c q))"
  have s: "settings ?d = settings c" by simp
  note s = settings_eqD [OF s]
  have 2: "heap_ok X (nservers c) (c_tries c) (c_free c) (c_all_queries c) ?h"
    using ok q f by (fastforce simp: chan_ok_def heap_ok_def attempts_ok_def)
  have 3: "qids_ok ?h (c_queries_by_qid c)"
    using ok f by (auto simp: chan_ok_def qids_ok_def)
  have 4: "timers_ok X (c_last_timeout_processed c) ?h (c_queries_by_timeout c)"
    using ok q by (fastforce simp: chan_ok_def timers_ok_def)
  have 5: "placed X ?h (map s_queries (c_servers c))"
    using ok q by (fastforce simp: chan_ok_def placed_def)
  have r: "request_ok ?h b r" if "request_ok (c_heap c) b r" for b r
    using that f by (fastforce simp: request_ok_def split: option.splits)
  have dom: "dom ?h = dom (c_heap c)" by (auto split: if_splits)
  have 6: "\<forall>s \<in> set (c_servers c). server_ok ?h s"
    using ok r unfolding chan_ok_def server_ok_def dom by blast
  have 7: "log_ok (c_free c) ?h (c_log c)" "set (c_stolen c) \<subseteq> X \<inter> dom ?h"
    using ok by (auto simp: chan_ok_def log_ok_def)
  have 8: "config_ok ?d" "distinct (c_stolen c)" using ok by (auto simp: chan_ok_def config_ok_def s)
  show "chan_ok X (upd_query q f c)"
    unfolding chan_ok_def field_simps s using 2 3 4 5 6 7 8 by blast
  show "only q c (upd_query q f c)" by (simp add: only_def)
qed

lemma chan_ok_upd_query:
  assumes "chan_ok X c" "q \<in> X" "\<And>x. c_heap c q = Some x \<Longrightarrow> q_qid (f x) = q_qid x \<and>
    q_tcpbuf (f x) = q_tcpbuf x \<and> (query_ok (nservers c) x \<longrightarrow> query_ok (nservers c) (f x))"
  shows "chan_ok X (upd_query q f c)" "only q c (upd_query q f c)"
  using chan_ok_upd_any [OF assms(1,3)] assms(2) by auto

text \<open>The query is put back on its lists when its timer starts.\<close>

lemma heap_ok_back:
  "heap_ok X n tries free all h \<Longrightarrow> h q = Some x \<Longrightarrow> attempts_ok n tries x \<Longrightarrow> heap_ok (X - {q}) n tries free all h"
  by (auto simp: heap_ok_def)

lemma timers_ok_back:
  "timers_ok X since h l \<Longrightarrow> h q = Some x \<Longrightarrow> since \<le> tv_sec (q_timeout x) \<Longrightarrow>
   timeout_bucket (tv_sec (q_timeout x)) = Some b \<Longrightarrow>
   timers_ok (X - {q}) since h (insert_bucket b q (remove_bucket q l))"
  by (auto simp: timers_ok_def insert_bucket_def remove_bucket_def distinct_removeAll)

lemma placed_back:
  "placed X h qss \<Longrightarrow> h q = Some x \<Longrightarrow> length qss' = length qss \<Longrightarrow>
   (\<And>j. j < length qss \<Longrightarrow> set (qss' ! j) = set (qss ! j) - {q} \<union> (if j = q_server x then {q} else {})) \<Longrightarrow>
   placed (X - {q}) h qss'"
  by (auto simp: placed_def)

lemma start_timer_ok:
  assumes ok: "chan_ok X c" and q: "q \<in> X" "c_heap c q = Some x" "attempts_ok (nservers c) (c_tries c) x"
    and now: "c_last_timeout_processed c \<le> tv_sec now"
  shows "no_crash (start_timer w q now c) (\<lambda>d. chan_ok (X - {q}) d \<and> only q c d \<and>
    (\<exists>t. c_heap d q = Some (x\<lparr>q_timeout := t\<rparr>) \<and> tv_sec now \<le> tv_sec t))"
proof -
  have conf: "config_ok c" and qok: "query_ok (nservers c) x"
    using ok q(2) by (auto simp: chan_ok_def heap_ok_def)
  obtain plus where plus: "0 \<le> plus"
    "time_plus (c_timeout c) (q_try_count x sdiv int (nservers c)) (w_rand w (c_ticks c)) = Some plus"
    using time_plus_ok [OF _ _ _ attempts_shift [OF q(3)], of "c_timeout c"] conf
    by (auto simp: config_ok_def)
  define t where "t = ares__timeadd now plus"
  have t: "tv_sec now \<le> tv_sec t" using timeadd_later [OF plus(1)] by (simp add: t_def)
  obtain b where b: "timeout_bucket (tv_sec t) = Some b"
    using t now conf by (auto simp: timeout_bucket_def config_ok_def)
  have i: "q_server x < nservers c" using qok by (simp add: query_ok_def)
  define e where "e = upd_query q (\<lambda>x. x\<lparr>q_timeout := t\<rparr>) (tick c)"
  have e: "chan_ok X e" "only q c e" "c_heap e = (c_heap c)(q \<mapsto> x\<lparr>q_timeout := t\<rparr>)"
    using chan_ok_upd_query [of X "tick c" q "\<lambda>x. x\<lparr>q_timeout := t\<rparr>"] ok q
      only_trans [OF only_quiet [OF quiet_tick(1)]]
    by (auto simp: e_def query_ok_def)
  define d where "d = upd_server (q_server x) (\<lambda>s. s\<lparr>s_queries := s_queries s @ [q]\<rparr>)
    (remove_from_server q (e\<lparr>c_queries_by_timeout :=
       insert_bucket b q (remove_bucket q (c_queries_by_timeout e))\<rparr>))"
  have run: "start_timer w q now c = Some d"
    using q(2) plus b i
    by (simp add: start_timer_def t_def [symmetric] e_def d_def Let_def)
  have s: "settings d = settings e" by (simp add: d_def)
  note s = settings_eqD [OF s]
  have "settings e = settings c" by (simp add: e_def)
  note se = settings_eqD [OF this]
  note n = se(1)
  have d_simps: "c_heap d = c_heap e" "c_all_queries d = c_all_queries e"
    "c_queries_by_qid d = c_queries_by_qid e" "c_stolen d = removeAll q (c_stolen e)" "c_log d = c_log e"
    "c_recvs d = c_recvs e"
    "c_queries_by_timeout d = insert_bucket b q (remove_bucket q (c_queries_by_timeout e))"
    by (simp_all add: d_def remove_from_server_def upd_server_def)
  have servers: "c_servers d ! j = (c_servers e ! j)\<lparr>s_queries := removeAll q (s_queries (c_servers e ! j)) @
      (if j = q_server x then [q] else [])\<rparr>" if "j < nservers c" for j
    using that n by (auto simp: d_def upd_server_def remove_from_server_def nth_list_update)
  have 1: "config_ok d" using e(1) by (simp add: chan_ok_def config_ok_def s)
  have 2: "heap_ok (X - {q}) (nservers d) (c_tries d) (c_free d) (c_all_queries d) (c_heap d)"
  proof (rule heap_ok_back)
    show "heap_ok X (nservers d) (c_tries d) (c_free d) (c_all_queries d) (c_heap d)"
      using e(1) by (simp add: chan_ok_def s d_simps)
    show "c_heap d q = Some (x\<lparr>q_timeout := t\<rparr>)" by (simp add: d_simps e(3))
    show "attempts_ok (nservers d) (c_tries d) (x\<lparr>q_timeout := t\<rparr>)"
      using q(3) by (simp add: attempts_ok_def s se)
  qed
  have 4: "timers_ok (X - {q}) (c_last_timeout_processed d) (c_heap d) (c_queries_by_timeout d)"
    unfolding d_simps
  proof (rule timers_ok_back)
    show "timers_ok X (c_last_timeout_processed d) (c_heap e) (c_queries_by_timeout e)"
      using e(1) by (simp add: chan_ok_def s)
    show "c_heap e q = Some (x\<lparr>q_timeout := t\<rparr>)" by (simp add: e(3))
  qed (use t now b s se in simp_all)
  have 5: "placed (X - {q}) (c_heap d) (map s_queries (c_servers d))"
  proof (rule placed_back)
    show "placed X (c_heap d) (map s_queries (c_servers e))"
      using e(1) by (simp add: chan_ok_def d_simps)
    show "c_heap d q = Some (x\<lparr>q_timeout := t\<rparr>)" by (simp add: d_simps e(3))
  qed (use n s(1) in \<open>auto simp: servers split: if_splits\<close>)
  have 6: "\<forall>s \<in> set (c_servers d). server_ok (c_heap d) s"
  proof (clarsimp simp: in_set_conv_nth)
    fix j assume "j < nservers d"
    then have j: "j < nservers c" using s(1) n by simp
    have "server_ok (c_heap e) (c_servers e ! j)" using server_okD [OF e(1)] j n by simp
    then show "server_ok (c_heap d) (c_servers d ! j)"
      by (auto simp: servers [OF j] server_ok_def input_ok_def d_simps distinct_removeAll e(3)
          split: option.splits)
  qed
  have 7: "distinct (c_stolen d)" "set (c_stolen d) \<subseteq> (X - {q}) \<inter> dom (c_heap d)"
      "qids_ok (c_heap d) (c_queries_by_qid d)" "log_ok (c_free d) (c_heap d) (c_log d)"
    using e(1) by (auto simp: chan_ok_def d_simps distinct_removeAll s)
  have "only q e d"
    using s(1) by (auto simp: only_def d_simps removeAll_idem insert_bucket_def remove_bucket_def d_def)
  with e(2) have "only q c d" by (rule only_trans)
  then show ?thesis using run 1 2 4 5 6 7 t by (auto simp: no_crash_def chan_ok_def d_simps e(3))
qed

section \<open>One attempt\<close>

lemma heap_okD: "chan_ok X c \<Longrightarrow> c_heap c q = Some x \<Longrightarrow> query_ok (nservers c) x \<and> q < c_free c"
  by (auto simp: chan_ok_def heap_ok_def)

lemma onlyD: "only q c d \<Longrightarrow> nservers d = nservers c \<and> c_tries d = c_tries c \<and> c_timeout d = c_timeout c \<and>
    c_last_timeout_processed d = c_last_timeout_processed c \<and> c_free d = c_free c"
  by (simp add: only_def settings_def)

lemma skip_server_ok:
  assumes "chan_ok X c" "c_heap c q = Some x" "i < nservers c"
  shows "no_crash (skip_server q i c) (\<lambda>d. chan_ok X d \<and> only q c d \<and>
    (\<exists>info. c_heap d q = Some (x\<lparr>q_server_info := info\<rparr>)))"
proof -
  have i: "i < length (q_server_info x)" using heap_okD [OF assms(1,2)] assms(3) by (simp add: query_ok_def)
  have x: "x = x\<lparr>q_server_info := q_server_info x\<rparr>" by simp
  show ?thesis
  proof (cases "nservers c > 1")
    case True
    with i assms show ?thesis
      using chan_ok_upd_any [OF assms(1), of q "\<lambda>x. x\<lparr>q_server_info := (q_server_info x)
        [i := (q_server_info x ! i)\<lparr>i_skip_server := True\<rparr>]\<rparr>"]
      by (auto simp: skip_server_def no_crash_def query_ok_def)
  next
    case False
    have "\<exists>info. Some x = Some (x\<lparr>q_server_info := info\<rparr>)" using x by metis
    with False assms show ?thesis by (auto simp: skip_server_def no_crash_def only_quiet)
  qed
qed

lemma open_tcp_ok:
  assumes "chan_ok X c" "i < nservers c"
  shows "no_crash (open_tcp_socket w i c) (\<lambda>(e, d). steady X c d)"
  using assms unfolding open_tcp_socket_def
  by (auto simp: no_crash_def Let_def server_ok_def input_ok_def split: opened.split option.splits
      intro!: steady_intros)

lemma open_udp_ok:
  assumes "chan_ok X c" "i < nservers c"
  shows "no_crash (open_udp_socket w i c) (\<lambda>(e, d). steady X c d)"
  using assms unfolding open_udp_socket_def
  by (auto simp: no_crash_def Let_def split: opened.split intro!: steady_intros)

lemma queue_request_ok:
  assumes "chan_ok X c" "q \<in> X" "c_heap c q = Some x"
  shows "chan_ok X (queue_request q x s c) \<and> only q c (queue_request q x s c) \<and>
    (\<exists>info. c_heap (queue_request q x s c) q = Some (x\<lparr>q_server_info := info\<rparr>))"
proof -
  define d where "d = upd_server (q_server x) (\<lambda>s. s\<lparr>s_queue := s_queue s @
      [\<lparr>r_data = In_query q 0, r_len = length (q_tcpbuf x), r_owner_query = Some q, r_data_storage = None\<rparr>]\<rparr>)
    (if s_queue s = [] then log_event (Sock_state (s_tcp_socket s) True True) c else c)"
  have d: "steady X c d"
    unfolding d_def using assms
    by (auto intro!: steady_intros simp: server_ok_def input_ok_def request_ok_def split: option.splits)
  let ?g = "\<lambda>x' :: query. x'\<lparr>q_server_info := (q_server_info x')
    [q_server x' := (q_server_info x' ! q_server x')\<lparr>i_generation := s_generation s\<rparr>]\<rparr>"
  have "chan_ok X (upd_query q ?g d)" "only q d (upd_query q ?g d)"
    using chan_ok_upd_query [OF steadyD(1) [OF d] assms(2), of ?g] by (auto simp: query_ok_def)
  moreover have "queue_request q x s c = upd_query q ?g d"
    by (simp add: queue_request_def d_def Let_def)
  ultimately show ?thesis
    using steadyD [OF d] assms(3) by (auto intro: only_trans only_quiet)
qed

text \<open>What becomes of the query \<open>x\<close> in an attempt: it is over, or waits for a new time.\<close>

definition resent :: "timeval \<Rightarrow> query \<Rightarrow> query option \<Rightarrow> bool" where
  "resent now x y \<longleftrightarrow>
     y = None \<or> (\<exists>info t. y = Some (x\<lparr>q_server_info := info, q_timeout := t\<rparr>) \<and> tv_sec now \<le> tv_sec t)"

definition attempted :: "address set \<Rightarrow> address \<Rightarrow> timeval \<Rightarrow> query \<Rightarrow> channel \<Rightarrow> bool \<times> channel \<Rightarrow> bool" where
  "attempted X q now x c r \<longleftrightarrow>
     (case r of (over, d) \<Rightarrow> only q c d \<and>
       (if over then chan_ok (X - {q}) d \<and> resent now x (c_heap d q)
        else chan_ok X d \<and> (\<exists>info. c_heap d q = Some (x\<lparr>q_server_info := info\<rparr>))))"

lemma attempted_skip:
  assumes "chan_ok X d" "c_heap d q = Some x" "only q c d" "i < nservers d"
  shows "no_crash (skip_server q i d) (\<lambda>e. attempted X q now x c (False, e))"
  using skip_server_ok [OF assms(1,2,4)] assms(3)
  by (auto simp: no_crash_def attempted_def intro: only_trans)

lemma attempted_timer:
  assumes "chan_ok X d" "q \<in> X" "c_heap d q = Some (x\<lparr>q_server_info := info\<rparr>)" "only q c d"
    and "attempts_ok (nservers c) (c_tries c) x" "c_last_timeout_processed c \<le> tv_sec now"
  shows "no_crash (start_timer w q now d) (\<lambda>e. attempted X q now x c (True, e))"
proof -
  have "attempts_ok (nservers d) (c_tries d) (x\<lparr>q_server_info := info\<rparr>)"
    using assms(5) onlyD [OF assms(4)] by (simp add: attempts_ok_def)
  from start_timer_ok [OF assms(1-3) this] obtain e t where e: "start_timer w q now d = Some e"
    "chan_ok (X - {q}) e" "only q d e" "c_heap e q = Some (x\<lparr>q_server_info := info\<rparr>\<lparr>q_timeout := t\<rparr>)"
    "tv_sec now \<le> tv_sec t"
    using assms(6) onlyD [OF assms(4)] by (fastforce simp: no_crash_def)
  have "\<exists>info' t'. Some (x\<lparr>q_server_info := info, q_timeout := t\<rparr>) =
      Some (x\<lparr>q_server_info := info', q_timeout := t'\<rparr>) \<and> tv_sec now \<le> tv_sec t'"
    using e(5) by blast
  then show ?thesis using e(1-4) assms(4) by (auto simp: no_crash_def attempted_def resent_def intro: only_trans)
qed

lemma send_tcp_ok:
  assumes ok: "chan_ok X c" and q: "q \<in> X" "c_heap c q = Some x" "attempts_ok (nservers c) (c_tries c) x"
    and now: "c_last_timeout_processed c \<le> tv_sec now"
  shows "no_crash (send_tcp w q now c) (attempted X q now x c)"
proof -
  have qok: "q_server x < nservers c" "q_server x < length (q_server_info x)"
    using heap_okD [OF ok q(2)] by (auto simp: query_ok_def)
  have "no_crash (if s_tcp_socket (c_servers c ! q_server x) = None then open_tcp_socket w (q_server x) c
      else Some (0, c)) (\<lambda>(e, d). steady X c d)"
    using open_tcp_ok [OF ok qok(1)] steady_refl [OF ok] by (auto simp: no_crash_def)
  then obtain e d where d: "(if s_tcp_socket (c_servers c ! q_server x) = None
      then open_tcp_socket w (q_server x) c else Some (0, c)) = Some (e, d)" "steady X c d"
    by (auto simp: no_crash_def)
  note sd = steadyD [OF d(2)]
  have qd: "c_heap d q = Some x" "q_server x < nservers d" using sd q(2) qok(1) by simp_all
  have od: "only q c (tick d)" "only q c d" using only_quiet [OF quiet_trans [OF sd(4) quiet_tick(1)]] only_quiet [OF sd(4)] by auto
  show ?thesis
  proof (cases "e = -1")
    case True
    from attempted_skip [OF sd(1) qd(1) od(2) qd(2), of now]
    obtain f where "skip_server q (q_server x) d = Some f" "attempted X q now x c (False, f)"
      by (auto simp: no_crash_def)
    moreover from this(1) have "send_tcp w q now c = Some (False, f)"
      using True q(2) qok(1) d(1) by (simp add: send_tcp_def)
    ultimately show ?thesis by (simp add: no_crash_def)
  next
    case e: False
    show ?thesis
    proof (cases "w_alloc w (c_ticks d)")
      case False
      have "chan_ok X (tick d)" "c_heap (tick d) q = Some x" using sd(1) qd(1) by simp_all
      from end_query_ok [OF this, of w ARES_ENOMEM None]
      obtain f where f: "end_query w q ARES_ENOMEM None (tick d) = Some f" "chan_ok (X - {q}) f"
        "only q (tick d) f" "c_heap f q = None" by (auto simp: no_crash_def)
      then have "send_tcp w q now c = Some (True, f)"
        using e False q(2) qok(1) d(1) by (simp add: send_tcp_def)
      with f only_trans [OF od(1) f(3)] show ?thesis by (simp add: no_crash_def attempted_def resent_def)
    next
      case True
      let ?r = "queue_request q x (c_servers d ! q_server x) (tick d)"
      have "chan_ok X (tick d)" "c_heap (tick d) q = Some x" using sd(1) qd(1) by simp_all
      from queue_request_ok [OF this(1) q(1) this(2), of "c_servers d ! q_server x"]
      obtain info where r: "chan_ok X ?r" "only q (tick d) ?r" "c_heap ?r q = Some (x\<lparr>q_server_info := info\<rparr>)"
        by auto
      from attempted_timer [OF r(1) q(1) r(3) only_trans [OF od(1) r(2)] q(3) now, of w]
      obtain f where f: "start_timer w q now ?r = Some f" "attempted X q now x c (True, f)"
        by (auto simp: no_crash_def)
      then have "send_tcp w q now c = Some (True, f)"
        using e True q(2) qok d(1) qd(2) by (simp add: send_tcp_def)
      with f show ?thesis by (simp add: no_crash_def)
    qed
  qed
qed

lemma send_udp_ok:
  assumes ok: "chan_ok X c" and q: "q \<in> X" "c_heap c q = Some x" "attempts_ok (nservers c) (c_tries c) x"
    and now: "c_last_timeout_processed c \<le> tv_sec now"
  shows "no_crash (send_udp w q now c) (attempted X q now x c)"
proof -
  have qok: "q_server x < nservers c" using heap_okD [OF ok q(2)] by (auto simp: query_ok_def)
  have "no_crash (if s_udp_socket (c_servers c ! q_server x) = None then open_udp_socket w (q_server x) c
      else Some (0, c)) (\<lambda>(e, d). steady X c d)"
    using open_udp_ok [OF ok qok] steady_refl [OF ok] by (auto simp: no_crash_def)
  then obtain e d where d: "(if s_udp_socket (c_servers c ! q_server x) = None
      then open_udp_socket w (q_server x) c else Some (0, c)) = Some (e, d)" "steady X c d"
    by (auto simp: no_crash_def)
  let ?res = "(if e = -1 then None else s_udp_socket (c_servers d ! q_server x), w_write w (c_ticks d))"
  note sd = steadyD [OF d(2)]
  have qd: "q_server x < nservers d" using sd qok by simp
  show ?thesis
  proof (cases "\<exists>k n. ?res = (Some k, Wrote n)")
    case True
    then obtain k n where k: "?res = (Some k, Wrote n)" by blast
    let ?d = "log_event (Sent_udp k (q_qbuf x)) (tick d)"
    have "steady X c ?d" using d(2) by (auto intro!: steady_intros)
    note s = steadyD [OF this]
    have "c_heap ?d q = Some (x\<lparr>q_server_info := q_server_info x\<rparr>)" using s(3) q(2) by simp
    from attempted_timer [OF s(1) q(1) this only_quiet [OF s(4)] q(3) now, of w] show ?thesis
      using k q(2) qok d(1) qd by (auto simp: send_udp_def no_crash_def)
  next
    case False
    let ?d = "if e = -1 then d else tick d"
    have "steady X c ?d" using d(2) by (auto intro!: steady_intros)
    note s = steadyD [OF this]
    have "c_heap ?d q = Some x" "q_server x < nservers ?d" using s q(2) qok by simp_all
    from attempted_skip [OF s(1) this(1) only_quiet [OF s(4)] this(2), of now]
    obtain f where f: "skip_server q (q_server x) ?d = Some f" "attempted X q now x c (False, f)"
      by (auto simp: no_crash_def)
    then show ?thesis
      using False q(2) qok d(1) qd
      by (auto simp: send_udp_def no_crash_def split: option.split written.split if_splits)
  qed
qed

lemma send_attempt_ok:
  assumes "chan_ok X c" "q \<in> X" "c_heap c q = Some x" "attempts_ok (nservers c) (c_tries c) x"
    "c_last_timeout_processed c \<le> tv_sec now"
  shows "no_crash (send_attempt w q now c) (attempted X q now x c)"
  using send_tcp_ok [OF assms] send_udp_ok [OF assms] assms(3) by (auto simp: send_attempt_def no_crash_def)

section \<open>The next server\<close>

text \<open>What becomes of a query for which another attempt is made.\<close>

definition retried :: "timeval \<Rightarrow> query \<Rightarrow> query option \<Rightarrow> bool" where
  "retried now x y \<longleftrightarrow>
     y = None \<or> (\<exists>n i info t. y = Some (x\<lparr>q_try_count := n, q_server := i, q_server_info := info,
       q_timeout := t\<rparr>) \<and> q_try_count x < n \<and> tv_sec now \<le> tv_sec t)"

lemma retried_step:
  assumes "retried now (x\<lparr>q_try_count := n, q_server := i, q_server_info := info\<rparr>) y" "q_try_count x < n"
  shows "retried now x y"
  using assms(1) unfolding retried_def
proof (elim disjE exE conjE)
  fix n' i' info' t
  assume "y = Some (x\<lparr>q_try_count := n, q_server := i, q_server_info := info\<rparr>
      \<lparr>q_try_count := n', q_server := i', q_server_info := info', q_timeout := t\<rparr>)"
    "q_try_count (x\<lparr>q_try_count := n, q_server := i, q_server_info := info\<rparr>) < n'" "tv_sec now \<le> tv_sec t"
  then show "y = None \<or> (\<exists>n i info t. y = Some (x\<lparr>q_try_count := n, q_server := i, q_server_info := info,
       q_timeout := t\<rparr>) \<and> q_try_count x < n \<and> tv_sec now \<le> tv_sec t)"
    using assms(2) by (intro disjI2 exI [of _ n'] exI [of _ i'] exI [of _ info'] exI [of _ t]) simp
qed simp

lemma retried_resent:
  assumes "resent now (x\<lparr>q_try_count := n, q_server := i\<rparr>) y" "q_try_count x < n"
  shows "retried now x y"
  using assms(1) unfolding resent_def retried_def
proof (elim disjE exE conjE)
  fix info' t
  assume "y = Some (x\<lparr>q_try_count := n, q_server := i\<rparr>\<lparr>q_server_info := info', q_timeout := t\<rparr>)"
    "tv_sec now \<le> tv_sec t"
  then show "y = None \<or> (\<exists>n i info t. y = Some (x\<lparr>q_try_count := n, q_server := i, q_server_info := info,
       q_timeout := t\<rparr>) \<and> q_try_count x < n \<and> tv_sec now \<le> tv_sec t)"
    using assms(2) by (intro disjI2 exI [of _ n] exI [of _ i] exI [of _ info'] exI [of _ t]) simp
qed simp

lemma next_server_ok:
  assumes "chan_ok X c" "q \<in> X" "c_heap c q = Some x" "next_ok (nservers c) (c_tries c) x"
    "c_last_timeout_processed c \<le> tv_sec now"
  shows "no_crash (next_server w q now c) (\<lambda>d. chan_ok (X - {q}) d \<and> only q c d \<and> retried now x (c_heap d q))"
  using assms
proof (induction "nat (int (nservers c) * c_tries c - q_try_count x)" arbitrary: c x rule: less_induct)
  case less
  note ok = less.prems(1) and x = less.prems(3) and now = less.prems(5)
  define n where "n = q_try_count x + 1"
  define c1 where "c1 = upd_query q (\<lambda>x. x\<lparr>q_try_count := n\<rparr>) c"
  have c1: "chan_ok X c1" "only q c c1"
    unfolding c1_def using chan_ok_upd_query [OF ok less.prems(2)] by (auto simp: query_ok_def)
  have x1: "c_heap c1 q = Some (x\<lparr>q_try_count := n\<rparr>)" using x by (simp add: c1_def)
  have n1: "nservers c1 = nservers c" "c_tries c1 = c_tries c" using onlyD [OF c1(2)] by auto
  have fits: "fits_int n" "fits_int (int (nservers c) * c_tries c)"
    using ok less.prems(4) by (auto simp: chan_ok_def config_ok_def next_ok_def fits_int_def n_def)
  show ?case
  proof (cases "n < int (nservers c) * c_tries c")
    case False
    from end_query_ok [OF c1(1) x1, of w "q_error_status x" None]
    obtain d where d: "end_query w q (q_error_status x) None c1 = Some d" "chan_ok (X - {q}) d" "only q c1 d"
      "c_heap d q = None" by (auto simp: no_crash_def)
    have "next_server w q now c = Some d"
      using False d(1) x n1 fits by (subst next_server.simps) (simp add: n_def [symmetric] c1_def [symmetric] Let_def)
    with d c1(2) show ?thesis by (auto simp: no_crash_def retried_def intro: only_trans)
  next
    case True
    define i where "i = (q_server x + 1) mod nservers c"
    define c2 where "c2 = upd_query q (\<lambda>x. x\<lparr>q_server := i\<rparr>) c1"
    let ?x2 = "x\<lparr>q_try_count := n, q_server := i\<rparr>"
    have i_Suc: "Suc (q_server x) mod nservers c = i" by (simp add: i_def)
    have i: "i < nservers c" using ok by (simp add: i_def chan_ok_def config_ok_def)
    have c2: "chan_ok X c2" "only q c1 c2"
      unfolding c2_def using chan_ok_upd_query [OF c1(1) less.prems(2)] i n1 by (auto simp: query_ok_def)
    have o2: "only q c c2" using only_trans [OF c1(2) c2(2)] .
    have x2: "c_heap c2 q = Some ?x2" using x1 by (simp add: c2_def)
    note n2 = onlyD [OF o2]
    have len: "length (q_server_info x) = nservers c" using heap_okD [OF ok x] by (simp add: query_ok_def)
    obtain u where u: "usable_server x c2 i = Some u"
      using i len n2 by (simp add: usable_server_def)
    have run: "next_server w q now c =
        (if u then do { (over, c) \<leftarrow> send_attempt w q now c2; if over then Some c else next_server w q now c }
         else next_server w q now c2)"
      using True x u n1 fits by (subst next_server.simps)
        (simp add: n_def [symmetric] c1_def [symmetric] i_Suc c2_def [symmetric] Let_def)
    have again: "no_crash (next_server w q now d) (\<lambda>e. chan_ok (X - {q}) e \<and> only q c e \<and> retried now x (c_heap e q))"
      if d: "chan_ok X d" "only q c d" "c_heap d q = Some (?x2\<lparr>q_server_info := info\<rparr>)" for d info
    proof -
      note nd = onlyD [OF d(2)]
      have "no_crash (next_server w q now d) (\<lambda>e. chan_ok (X - {q}) e \<and> only q d e \<and>
          retried now (?x2\<lparr>q_server_info := info\<rparr>) (c_heap e q))"
      proof (rule less.hyps [OF _ d(1) less.prems(2) d(3)])
        show "nat (int (nservers d) * c_tries d - q_try_count (?x2\<lparr>q_server_info := info\<rparr>))
            < nat (int (nservers c) * c_tries c - q_try_count x)"
          using True nd by (simp add: n_def)
      qed (use True less.prems(4) now nd in \<open>simp_all add: n_def next_ok_def\<close>)
      then show ?thesis
        using d(2) retried_step [where now = now and x = x and n = n and i = i and info = info] by (auto simp: no_crash_def n_def intro: only_trans)
    qed
    show ?thesis
    proof (cases u)
      case False
      have "c_heap c2 q = Some (?x2\<lparr>q_server_info := q_server_info x\<rparr>)" using x2 by simp
      from again [OF c2(1) o2 this] show ?thesis using False run by simp
    next
      case u: True
      have att: "attempts_ok (nservers c2) (c_tries c2) ?x2"
        using True n2 less.prems(4) by (auto simp: attempts_ok_def next_ok_def n_def)
      from send_attempt_ok [OF c2(1) less.prems(2) x2 att] now n2
      obtain over d where d: "send_attempt w q now c2 = Some (over, d)" "attempted X q now ?x2 c2 (over, d)"
        by (fastforce simp: no_crash_def)
      then have od: "only q c d" using o2 by (auto simp: attempted_def intro: only_trans)
      show ?thesis
      proof (cases over)
        case True
        then show ?thesis using d u run od retried_resent [where now = now and x = x and n = n and i = i and y = "c_heap d q"]
          by (auto simp: no_crash_def attempted_def n_def)
      next
        case False
        then obtain info where "chan_ok X d" "c_heap d q = Some (?x2\<lparr>q_server_info := info\<rparr>)"
          using d(2) by (auto simp: attempted_def)
        from again [OF this(1) od this(2)] show ?thesis using d(1) u run False by simp
      qed
    qed
  qed
qed

lemma send_query_ok:
  assumes "chan_ok X c" "q \<in> X" "c_heap c q = Some x" "attempts_ok (nservers c) (c_tries c) x"
    "c_last_timeout_processed c \<le> tv_sec now"
  shows "no_crash (ares__send_query w q now c) (\<lambda>d. chan_ok (X - {q}) d \<and> only q c d \<and>
    (resent now x (c_heap d q) \<or> retried now x (c_heap d q)))"
proof -
  from send_attempt_ok [OF assms] obtain over d
    where d: "send_attempt w q now c = Some (over, d)" "attempted X q now x c (over, d)"
    by (fastforce simp: no_crash_def)
  show ?thesis
  proof (cases over)
    case True
    with d show ?thesis by (auto simp: ares__send_query_def no_crash_def attempted_def)
  next
    case False
    then obtain info where i: "chan_ok X d" "only q c d" "c_heap d q = Some (x\<lparr>q_server_info := info\<rparr>)"
      using d(2) by (auto simp: attempted_def)
    have "next_ok (nservers d) (c_tries d) (x\<lparr>q_server_info := info\<rparr>)"
      using attempts_next [OF assms(4)] onlyD [OF i(2)] by (simp add: next_ok_def)
    from next_server_ok [OF i(1) assms(2) i(3) this, of now w] assms(5) onlyD [OF i(2)]
    obtain e where e: "next_server w q now d = Some e" "chan_ok (X - {q}) e" "only q d e"
      "retried now (x\<lparr>q_server_info := info\<rparr>) (c_heap e q)"
      by (auto simp: no_crash_def)
    have "retried now x (c_heap e q)" using e(4) unfolding retried_def by fastforce
    with e i(2) False d(1) show ?thesis by (auto simp: ares__send_query_def no_crash_def intro: only_trans)
  qed
qed

end
