(* ===== verification/Ares_Running.thy ===== *)
theory Ares_Running
  imports Ares_Sending
begin

text \<open>
  Processing a channel: every handler keeps the invariant and returns, whatever the network and
  the allocator answer, and a query whose time is over is sent again or ends.
\<close>

section \<open>What becomes of the queries\<close>

text \<open>A query is in the same turn as long as it is neither tried again nor switched to TCP.\<close>

definition same_turn :: "query \<Rightarrow> query \<Rightarrow> bool" where
  "same_turn x y \<longleftrightarrow> q_try_count y = q_try_count x \<and> q_using_tcp y = q_using_tcp x"

definition carried :: "timeval \<Rightarrow> query option \<Rightarrow> query option \<Rightarrow> bool" where
  "carried now x y \<longleftrightarrow>
     (case y of None \<Rightarrow> True
      | Some y' \<Rightarrow> (case x of None \<Rightarrow> False
          | Some x' \<Rightarrow> q_qid y' = q_qid x' \<and> q_tcpbuf y' = q_tcpbuf x' \<and> q_arg y' = q_arg x' \<and>
              q_try_count x' \<le> q_try_count y' \<and> (q_using_tcp x' \<longrightarrow> q_using_tcp y') \<and>
              (if same_turn x' y' then q_timeout y' = q_timeout x'
               else tv_sec now \<le> tv_sec (q_timeout y'))))"

lemma carried_refl [simp]: "carried now x x"
  by (simp add: carried_def same_turn_def split: option.split)

lemma carried_None [simp]: "carried now x None"
  by (simp add: carried_def)

lemma carried_trans: "carried now x y \<Longrightarrow> carried now y z \<Longrightarrow> carried now x z"
  by (auto simp: carried_def same_turn_def split: option.splits if_splits)

definition advances :: "timeval \<Rightarrow> channel \<Rightarrow> channel \<Rightarrow> bool" where
  "advances now c d \<longleftrightarrow>
     settings d = settings c \<and> (\<forall>q. carried now (c_heap c q) (c_heap d q))"

lemma advances_refl [simp]: "advances now c c"
  by (simp add: advances_def)

lemma advances_trans: "advances now c d \<Longrightarrow> advances now d e \<Longrightarrow> advances now c e"
  by (auto simp: advances_def intro: carried_trans)

lemma advances_quiet: "quiet c d \<Longrightarrow> advances now c d"
  by (simp add: quiet_def advances_def)

lemma advances_only: "only q c d \<Longrightarrow> carried now (c_heap c q) (c_heap d q) \<Longrightarrow> advances now c d"
  unfolding advances_def only_def by (metis carried_refl)

lemma advancesD:
  assumes "advances now c d"
  shows "nservers d = nservers c" "c_tries d = c_tries c" "c_last_timeout_processed d = c_last_timeout_processed c"
    "c_free d = c_free c" "carried now (c_heap c q) (c_heap d q)"
  using assms by (simp_all add: advances_def settings_def)

lemma carried_retried: "retried now x y \<Longrightarrow> carried now (Some x) y"
  by (auto simp: retried_def carried_def same_turn_def)

text \<open>What every handler does: it returns a channel that is well again.\<close>

definition runs :: "timeval \<Rightarrow> channel \<Rightarrow> channel option \<Rightarrow> bool" where
  "runs now c m \<longleftrightarrow> no_crash m (\<lambda>d. chan_ok {} d \<and> advances now c d \<and> c_recvs d = c_recvs c)"

lemma runs_bind:
  assumes "runs now c m" "\<And>d. chan_ok {} d \<Longrightarrow> advances now c d \<Longrightarrow> c_recvs d = c_recvs c \<Longrightarrow> runs now d (f d)"
  shows "runs now c (m \<bind> f)"
  using assms by (fastforce simp: runs_def no_crash_def intro: advances_trans)

lemma runs_quiet:
  assumes "quiet c d" "runs now d m"
  shows "runs now c m"
  using assms advances_quiet [OF assms(1)] by (auto simp: runs_def no_crash_def quiet_def intro: advances_trans)

lemma runs_Some: "chan_ok {} d \<Longrightarrow> quiet c d \<Longrightarrow> runs now c (Some d)"
  by (auto simp: runs_def no_crash_def advances_quiet quiet_def)

lemma stolen_empty: "chan_ok {} c \<Longrightarrow> c_stolen c = []"
  by (simp add: chan_ok_def)

section \<open>Servers that fail\<close>

lemma next_in_head: "next_in q (q # qs) = first_in qs"
  by (cases qs) (simp_all add: first_in_def)

lemma only_stolen:
  assumes "only q c d" "chan_ok (set qs) d" "c_stolen c = q # qs" "q \<notin> set qs"
  shows "c_stolen d = qs"
proof -
  have "removeAll q (c_stolen d) = removeAll q (q # qs)" using assms(1,3) by (simp add: only_def)
  moreover have "q \<notin> set (c_stolen d)" using assms(2,4) by (auto simp: chan_ok_def)
  ultimately show ?thesis using assms(4) by simp
qed

lemma resend_stolen_ok:
  assumes "chan_ok (set qs) c" "c_stolen c = qs" "\<forall>q \<in> set qs. \<exists>x. c_heap c q = Some x \<and> q_server x = i \<and> next_ok (nservers c) (c_tries c) x"
    "i < nservers c" "c_last_timeout_processed c \<le> tv_sec now"
  shows "runs now c (resend_stolen w i now (first_in qs) c)"
  using assms
proof (induction qs arbitrary: c)
  case Nil
  then show ?case by (simp add: resend_stolen.simps first_in_def runs_Some)
next
  case (Cons q qs)
  let ?X = "set (q # qs)"
  obtain x where x: "c_heap c q = Some x" "q_server x = i" "next_ok (nservers c) (c_tries c) x" using Cons.prems(3) by auto
  have dist: "q \<notin> set qs" using Cons.prems(1,2) by (auto simp: chan_ok_def)
  from skip_server_ok [OF Cons.prems(1) x(1) Cons.prems(4)] obtain d info
    where d: "skip_server q i c = Some d" "chan_ok ?X d" "only q c d"
      "c_heap d q = Some (x\<lparr>q_server_info := info\<rparr>)"
    by (auto simp: no_crash_def)
  note nd = onlyD [OF d(3)]
  have "next_ok (nservers d) (c_tries d) (x\<lparr>q_server_info := info\<rparr>)"
    using x(3) nd by (simp add: next_ok_def)
  from next_server_ok [OF d(2) _ d(4) this, of now w] Cons.prems(5) nd obtain e
    where e: "next_server w q now d = Some e" "chan_ok (?X - {q}) e" "only q d e"
      "retried now (x\<lparr>q_server_info := info\<rparr>) (c_heap e q)"
    by (auto simp: no_crash_def)
  have oe: "only q c e" using only_trans [OF d(3) e(3)] .
  have eX: "chan_ok (set qs) e" using e(2) dist by (simp add: insert_Diff_if)
  have se: "c_stolen e = qs" by (rule only_stolen [OF oe eX Cons.prems(2) dist])
  have he: "c_heap e q' = c_heap c q'" if "q' \<in> set qs" for q'
    using oe that dist by (auto simp: only_def)
  have "carried now (c_heap c q) (c_heap e q)"
    using e(4) x(1) by (auto simp: retried_def carried_def same_turn_def)
  then have adv: "advances now c e" by (rule advances_only [OF oe])
  note ne = advancesD [OF adv]
  have "runs now e (resend_stolen w i now (first_in qs) e)"
    using Cons.IH [OF eX se] Cons.prems(3-5) he ne by simp
  moreover have "resend_stolen w i now (first_in (q # qs)) c = resend_stolen w i now (first_in qs) e"
    using x d(1) e(1) Cons.prems(2)
    by (subst resend_stolen.simps) (simp add: first_in_def next_in_head [unfolded first_in_def] Let_def)
  moreover have "c_recvs e = c_recvs c" using oe by (simp add: only_def)
  ultimately show ?case using adv by (auto simp: runs_def no_crash_def intro: advances_trans)
qed

lemma handle_error_ok:
  assumes ok: "chan_ok {} c" and i: "i < nservers c" and now: "c_last_timeout_processed c \<le> tv_sec now"
  shows "runs now c (handle_error w now i c)"
proof -
  from close_sockets_ok [OF ok i] obtain d where d: "ares__close_sockets i c = Some d" "steady {} c d"
    by (auto simp: no_crash_def)
  note sd = steadyD [OF d(2)]
  define qs where "qs = s_queries (c_servers d ! i)"
  define e where "e = upd_server i (\<lambda>s. s\<lparr>s_queries := []\<rparr>) (d\<lparr>c_stolen := qs\<rparr>)"
  have di: "i < nservers d" using i sd by simp
  have e_def': "stolen_queries i d = Some e" using di by (simp add: stolen_queries_def e_def qs_def)
  have e_simps: "c_heap e = c_heap d" "c_stolen e = qs" "c_all_queries e = c_all_queries d"
    "c_queries_by_qid e = c_queries_by_qid d" "c_queries_by_timeout e = c_queries_by_timeout d"
    "c_log e = c_log d" "c_recvs e = c_recvs d" "settings e = settings d"
    "c_servers e = (c_servers d)[i := (c_servers d ! i)\<lparr>s_queries := []\<rparr>]"
    by (simp_all add: e_def upd_server_def settings_def)
  note ne = settings_eqD [OF e_simps(8)]
  have so: "server_ok (c_heap d) (c_servers d ! i)" using server_okD [OF sd(1) di] .
  have placed: "placed {} (c_heap d) (map s_queries (c_servers d))" using sd(1) by (simp add: chan_ok_def)
  have mine: "\<exists>x. c_heap d q = Some x \<and> q_server x = i \<and> next_ok (nservers d) (c_tries d) x" if q: "q \<in> set qs" for q
  proof -
    obtain x where x: "c_heap d q = Some x" using so q unfolding server_ok_def qs_def by blast
    moreover have "q_server x = i" using placed x di q by (auto simp: placed_def qs_def)
    moreover have "next_ok (nservers d) (c_tries d) x"
      using sd(1) x by (auto simp: chan_ok_def heap_ok_def intro: attempts_next)
    ultimately show ?thesis by blast
  qed
  have "chan_ok (set qs) e"
  proof -
    have "timers_ok (set qs) (c_last_timeout_processed e) (c_heap e) (c_queries_by_timeout e)"
      using sd(1) by (auto simp: chan_ok_def timers_ok_def e_simps ne)
    moreover have "placed (set qs) (c_heap e) (map s_queries (c_servers e))"
      using placed di by (auto simp: placed_def e_simps nth_list_update qs_def)
    moreover have "\<forall>s \<in> set (c_servers e). server_ok (c_heap e) s"
    proof -
      have "server_ok (c_heap d) ((c_servers d ! i)\<lparr>s_queries := []\<rparr>)"
        using so by (simp add: server_ok_def input_ok_def split: option.splits)
      then show ?thesis using sd(1) set_update_subset_insert [of "c_servers d" i]
        by (fastforce simp: chan_ok_def e_simps)
    qed
    moreover have "set qs \<subseteq> dom (c_heap e)" "distinct qs" using so by (auto simp: server_ok_def qs_def e_simps)
    ultimately show ?thesis
      using sd(1) by (auto simp: chan_ok_def e_simps ne config_ok_def heap_ok_def)
  qed
  then have run: "runs now e (resend_stolen w i now (first_in qs) e)"
    using resend_stolen_ok [of qs e i now w] e_simps mine di ne now settings_eqD(5) [OF quietD(1) [OF sd(4)]]
    by simp
  then obtain f where f: "resend_stolen w i now (first_in qs) e = Some f" "chan_ok {} f"
    by (auto simp: runs_def no_crash_def)
  have "handle_error w now i c = resend_stolen w i now (first_in qs) e"
    using d(1) e_def' f stolen_empty [OF f(2)] by (simp add: handle_error_def e_simps)
  moreover have "advances now c e"
    using advances_quiet [OF sd(4), of now] by (rule advances_trans) (simp add: advances_def e_simps)
  moreover have "c_recvs e = c_recvs c" using sd(4) by (simp add: quiet_def e_simps)
  ultimately show ?thesis
    using run by (auto simp: runs_def no_crash_def intro: advances_trans)
qed

lemma broken_connections_ok:
  assumes "chan_ok {} c" "c_last_timeout_processed c \<le> tv_sec now"
  shows "runs now c (process_broken_connections w now c)"
  unfolding runs_def process_broken_connections_def
proof (rule for_servers_ok)
  fix i d assume i: "i \<in> set [0..<nservers c]"
    and d: "chan_ok {} d \<and> advances now c d \<and> c_recvs d = c_recvs c"
  have "i < nservers d" "c_last_timeout_processed d \<le> tv_sec now"
    using i d assms(2) advancesD [of now c d] by auto
  then show "no_crash (do { s \<leftarrow> server_at d i; if s_is_broken s then handle_error w now i d else Some d })
      (\<lambda>d. chan_ok {} d \<and> advances now c d \<and> c_recvs d = c_recvs c)"
    using handle_error_ok [of d i now w] d
    by (auto simp: runs_def no_crash_def intro: advances_trans)
qed (use assms(1) in simp)

section \<open>Answers\<close>

text \<open>A message with the identifier and the questions of a query, as far as its names can be read
  at some time.\<close>

definition answers :: "world \<Rightarrow> buffer \<Rightarrow> query \<Rightarrow> bool" where
  "answers w abuf x \<longleftrightarrow> DNS_HEADER_QID abuf 0 = Some (q_qid x) \<and>
     (\<exists>n. same_questions (w_names w n) (q_qbuf x) abuf = Some True)"

lemma matching_query_ok:
  assumes "set qs \<subseteq> dom heap" "DNS_HEADER_QID abuf 0 = Some qid"
  shows "no_crash (matching_query w heap qid abuf qs n)
    (\<lambda>(r, k). \<forall>q. r = Some q \<longrightarrow> (\<exists>x. heap q = Some x \<and> answers w abuf x))"
  using assms(1)
proof (induction qs arbitrary: n)
  case (Cons q qs)
  then obtain x where x: "heap q = Some x" by auto
  obtain b where "same_questions (w_names w n) (q_qbuf x) abuf = Some b"
    using same_questions_total by blast
  then show ?case using Cons.IH [of n] Cons.IH [of "n + 1"] Cons.prems x assms(2)
    by (auto simp: no_crash_def answers_def)
qed (simp add: no_crash_def)

text \<open>An operation for the query \<open>q\<close> does nothing to the others.\<close>

definition tends :: "timeval \<Rightarrow> address \<Rightarrow> channel \<Rightarrow> channel option \<Rightarrow> bool" where
  "tends now q c m \<longleftrightarrow>
     no_crash m (\<lambda>d. chan_ok {} d \<and> only q c d \<and> carried now (c_heap c q) (c_heap d q))"

lemma tends_runs: "tends now q c m \<Longrightarrow> runs now c m"
  using advances_only by (fastforce simp: tends_def runs_def no_crash_def only_def)

lemma tends_query:
  assumes "no_crash m (\<lambda>d. chan_ok ({q} - {q}) d \<and> only q c d \<and> P d)"
    and "\<And>d. P d \<Longrightarrow> carried now (c_heap c q) (c_heap d q)"
  shows "tends now q c m"
  using assms by (auto simp: tends_def no_crash_def)

lemma tends_only:
  assumes "only q c d" "carried now (c_heap c q) (c_heap d q)" "tends now q d m"
  shows "tends now q c m"
  using assms by (auto simp: tends_def no_crash_def intro: only_trans carried_trans)

lemma tends_tick: "tends now q (c\<lparr>c_ticks := n\<rparr>) m \<Longrightarrow> tends now q c m"
  by (erule tends_only [rotated 2]) (auto intro: only_quiet)

lemma attempts_okD: "chan_ok {} c \<Longrightarrow> c_heap c q = Some x \<Longrightarrow> attempts_ok (nservers c) (c_tries c) x"
  by (auto simp: chan_ok_def heap_ok_def)

lemma timeouts_fit: "chan_ok {} c \<Longrightarrow> c_heap c q = Some x \<Longrightarrow> fits_int (q_timeouts x + 1)"
  using attempts_okD [of c q x] by (auto simp: chan_ok_def config_ok_def attempts_ok_def fits_int_def)

lemma end_query_tends:
  assumes "chan_ok {} c" "c_heap c q = Some x"
  shows "tends now q c (end_query w q st abuf c)"
  by (rule tends_query [OF end_query_ok [OF chan_ok_mono [OF assms(1)] assms(2)]]) simp_all

lemma next_server_tends:
  assumes "chan_ok {q} c" "c_heap c q = Some x" "next_ok (nservers c) (c_tries c) x" "c_last_timeout_processed c \<le> tv_sec now"
  shows "tends now q c (next_server w q now c)"
  by (rule tends_query [OF next_server_ok [OF assms(1) _ assms(2-4)]])
    (simp_all add: assms(2) carried_retried)

text \<open>The query is switched to TCP.\<close>

lemma switch_tends:
  assumes ok: "chan_ok {} c" and x: "c_heap c q = Some x" "\<not> q_using_tcp x"
    and now: "c_last_timeout_processed c \<le> tv_sec now"
  shows "tends now q c (ares__send_query w q now (upd_query q (\<lambda>x. x\<lparr>q_using_tcp := True\<rparr>) c))"
proof -
  let ?d = "upd_query q (\<lambda>x. x\<lparr>q_using_tcp := True\<rparr>) c" and ?x = "x\<lparr>q_using_tcp := True\<rparr>"
  have d: "chan_ok {q} ?d" "only q c ?d" "c_heap ?d q = Some ?x"
    using chan_ok_upd_query [OF chan_ok_mono [OF ok], of "{q}" q "\<lambda>x. x\<lparr>q_using_tcp := True\<rparr>"] x
    by (auto simp: query_ok_def)
  have "attempts_ok (nservers ?d) (c_tries ?d) ?x"
    using attempts_okD [OF ok x(1)] onlyD [OF d(2)] by (simp add: attempts_ok_def)
  from send_query_ok [OF d(1) _ d(3) this] now onlyD [OF d(2)]
  have "no_crash (ares__send_query w q now ?d) (\<lambda>e. chan_ok ({q} - {q}) e \<and> only q ?d e \<and>
      (resent now ?x (c_heap e q) \<or> retried now ?x (c_heap e q)))" by simp
  then have "no_crash (ares__send_query w q now ?d) (\<lambda>e. chan_ok ({q} - {q}) e \<and> only q c e \<and>
      (resent now ?x (c_heap e q) \<or> retried now ?x (c_heap e q)))"
    by (rule no_crash_mono) (use d(2) in \<open>auto intro: only_trans\<close>)
  then show ?thesis
    by (rule tends_query) (use x in \<open>auto simp: resent_def retried_def carried_def same_turn_def\<close>)
qed

text \<open>The server that refused is not asked again.\<close>

lemma refused_tends:
  assumes ok: "chan_ok {} c" and x: "c_heap c q = Some x" and i: "i < nservers c"
    and now: "c_last_timeout_processed c \<le> tv_sec now"
  shows "tends now q c (do { d \<leftarrow> skip_server q i c; if q_server x = i then next_server w q now d else Some d })"
proof -
  from skip_server_ok [OF ok x i] obtain d info
    where d: "skip_server q i c = Some d" "chan_ok {} d" "only q c d" "c_heap d q = Some (x\<lparr>q_server_info := info\<rparr>)"
    by (auto simp: no_crash_def)
  have same: "carried now (c_heap c q) (c_heap d q)" using x d(4) by (simp add: carried_def same_turn_def)
  have "next_ok (nservers d) (c_tries d) (x\<lparr>q_server_info := info\<rparr>)"
    using attempts_next [OF attempts_okD [OF ok x]] onlyD [OF d(3)] by (simp add: next_ok_def)
  then have "tends now q d (next_server w q now d)"
    using next_server_tends [OF chan_ok_mono [OF d(2)] d(4)] now onlyD [OF d(3)] by simp
  with tends_only [OF d(3) same] d(1-3) same show ?thesis by (auto simp: tends_def no_crash_def)
qed

text \<open>An answer is only for a query that it answers.\<close>

definition answered :: "world \<Rightarrow> timeval \<Rightarrow> buffer \<Rightarrow> channel \<Rightarrow> channel option \<Rightarrow> bool" where
  "answered w now abuf c m \<longleftrightarrow>
     (\<exists>d. m = Some d \<and> chan_ok {} d \<and> quiet c d) \<or>
     (\<exists>q x. c_heap c q = Some x \<and> answers w abuf x \<and> tends now q c m)"

lemma process_answer_answered:
  assumes ok: "chan_ok {} c" and i: "i < nservers c" and now: "c_last_timeout_processed c \<le> tv_sec now"
  shows "answered w now abuf c (process_answer w now i tcp abuf c)"
proof (cases "length abuf < HFIXEDSZ")
  case True
  then show ?thesis using ok by (simp add: process_answer_def answered_def)
next
  case False
  then have "abuf \<noteq> []" by (auto simp: HFIXEDSZ_def)
  with False obtain qid tc rcode where h: "DNS_HEADER_QID abuf 0 = Some qid" "DNS_HEADER_TC abuf 0 = Some tc"
    "DNS_HEADER_RCODE abuf 0 = Some rcode"
    by (simp add: DNS_HEADER_QID_def DNS_HEADER_TC_def DNS_HEADER_RCODE_def DNS__16BIT_def HFIXEDSZ_def rd_def)
  have "set (c_queries_by_qid c (qid_bucket qid)) \<subseteq> dom (c_heap c)"
    using ok by (auto simp: chan_ok_def qids_ok_def)
  from matching_query_ok [OF this h(1), of w "c_ticks c"]
  obtain found n where m: "matching_query w (c_heap c) qid abuf (c_queries_by_qid c (qid_bucket qid)) (c_ticks c)
      = Some (found, n)" "\<And>q. found = Some q \<Longrightarrow> \<exists>x. c_heap c q = Some x \<and> answers w abuf x"
    by (auto simp: no_crash_def)
  let ?c = "c\<lparr>c_ticks := n\<rparr>"
  have c': "chan_ok {} ?c" using ok by simp
  show ?thesis
  proof (cases found)
    case None
    then show ?thesis using False h m(1) c' by (simp add: process_answer_def answered_def Let_def)
  next
    case (Some q)
    then obtain x where x: "c_heap c q = Some x" "answers w abuf x" using m(2) by blast
    then have x': "c_heap ?c q = Some x" by simp
    have "tends now q c (if q_using_tcp x then Some ?c
        else ares__send_query w q now (upd_query q (\<lambda>x. x\<lparr>q_using_tcp := True\<rparr>) ?c))"
    proof (rule tends_tick [where c = c and n = n], cases "q_using_tcp x")
      case False
      then show "tends now q ?c (if q_using_tcp x then Some ?c
          else ares__send_query w q now (upd_query q (\<lambda>x. x\<lparr>q_using_tcp := True\<rparr>) ?c))"
        using switch_tends [OF c' x' False, of now w] now by simp
    qed (use c' in \<open>simp add: tends_def no_crash_def only_quiet\<close>)
    moreover have "tends now q c (do { d \<leftarrow> skip_server q i ?c; if q_server x = i then next_server w q now d else Some d })"
      by (rule tends_tick, rule refused_tends [OF c' x']) (use i now in simp_all)
    moreover have "tends now q c (end_query w q ARES_SUCCESS abuf' ?c)" for abuf'
      by (rule tends_tick, rule end_query_tends [OF c' x'])
    ultimately have "tends now q c (process_answer w now i tcp abuf c)"
      using False h m(1) Some x by (simp add: process_answer_def Let_def)
    with x show ?thesis by (auto simp: answered_def)
  qed
qed

lemma process_answer_ok:
  assumes "chan_ok {} c" "i < nservers c" "c_last_timeout_processed c \<le> tv_sec now"
  shows "runs now c (process_answer w now i tcp abuf c)"
  using process_answer_answered [OF assms, of w abuf tcp] by (auto simp: answered_def intro: tends_runs runs_Some)

section \<open>Sockets\<close>

lemma gather_ok:
  "\<forall>r \<in> set rs. request_ok heap b r \<Longrightarrow> \<exists>bs. gather heap rs = Some bs \<and> length bs = sum_list (map r_len rs)"
proof (induction rs)
  case (Cons r rs)
  then show ?case using request_ok_bytes [of heap b r] by fastforce
qed simp

lemma move_pointer_ok:
  "request_ok heap b r \<Longrightarrow> n < r_len r \<Longrightarrow>
   request_ok heap b (r\<lparr>r_data := move_pointer (r_data r) n, r_len := r_len r - n\<rparr>)"
  by (auto simp: request_ok_def split: option.splits)

lemma advance_queue_ok:
  "\<forall>r \<in> set rs. request_ok heap b r \<Longrightarrow> rs \<noteq> [] \<Longrightarrow>
   no_crash (advance_queue rs n) (\<lambda>rs'. \<forall>r \<in> set rs'. request_ok heap b r)"
proof (induction rs n rule: advance_queue.induct)
  case (3 r rs n)
  then show ?case using move_pointer_ok [of heap b r "Suc n"]
    by (auto simp: no_crash_def)
qed (auto simp: no_crash_def)

lemma advance_send_queue_ok:
  assumes "chan_ok X c" "i < nservers c" "s_queue (c_servers c ! i) \<noteq> []"
  shows "no_crash (advance_tcp_send_queue i n c) (steady X c)"
proof -
  have so: "server_ok (c_heap c) (c_servers c ! i)" by (rule server_okD [OF assms(1,2)])
  then have "\<forall>r \<in> set (s_queue (c_servers c ! i)). request_ok (c_heap c) (s_is_broken (c_servers c ! i)) r"
    by (simp add: server_ok_def)
  from advance_queue_ok [OF this assms(3), of n] obtain rs where rs: "advance_queue (s_queue (c_servers c ! i)) n = Some rs"
    "\<forall>r \<in> set rs. request_ok (c_heap c) (s_is_broken (c_servers c ! i)) r"
    by (auto simp: no_crash_def)
  show ?thesis using assms(1,2) rs
    by (auto simp: advance_tcp_send_queue_def no_crash_def Let_def server_ok_def input_ok_def split: option.splits
        intro!: steady_intros)
qed

definition runs_fds :: "timeval \<Rightarrow> channel \<Rightarrow> (fds \<times> channel) option \<Rightarrow> bool" where
  "runs_fds now c m \<longleftrightarrow> no_crash m (\<lambda>(fs, d). chan_ok {} d \<and> advances now c d \<and> c_recvs d = c_recvs c)"

lemma runs_fds_Some: "runs now c (Some d) \<Longrightarrow> runs_fds now c (Some (fs, d))"
  by (simp add: runs_def runs_fds_def no_crash_def)

lemma runs_fds_bind: "runs now c m \<Longrightarrow> runs_fds now c (m \<bind> (\<lambda>d. Some (fs, d)))"
  by (auto simp: runs_def runs_fds_def no_crash_def)

lemma runs_steady: "steady {} c d \<Longrightarrow> runs now d m \<Longrightarrow> runs now c m"
  by (rule runs_quiet [OF steadyD(4)])

lemma runs_steady_Some: "steady {} c d \<Longrightarrow> runs now c (Some d)"
  by (rule runs_Some) (auto simp: steadyD)

lemma steady_handle_error:
  assumes "steady {} c d" "i < nservers c" "c_last_timeout_processed c \<le> tv_sec now"
  shows "runs now c (handle_error w now i d)"
  using handle_error_ok [of d i now w] assms steadyD [OF assms(1)]
    settings_eqD(5) [OF quietD(1) [OF steadyD(4) [OF assms(1)]]]
  by (auto intro: runs_steady [OF assms(1)])

lemma write_server_ok:
  assumes ok: "chan_ok {} c" and i: "i < nservers c" and now: "c_last_timeout_processed c \<le> tv_sec now"
  shows "runs_fds now c (write_server w now i (fs, c))"
proof -
  let ?s = "c_servers c ! i"
  show ?thesis
  proof (cases "s_queue ?s = [] \<or> s_tcp_socket ?s = None \<or> s_is_broken ?s \<or> \<not> selected (s_tcp_socket ?s) fs")
    case True
    then show ?thesis using i ok by (auto simp: write_server_def intro!: runs_fds_Some runs_Some)
  next
    case False
    define rs where "rs = (if w_alloc w (c_ticks c) then s_queue ?s else take 1 (s_queue ?s))"
    have "\<forall>r \<in> set rs. request_ok (c_heap c) (s_is_broken ?s) r"
      using server_okD [OF ok i] by (auto simp: server_ok_def rs_def dest: in_set_takeD)
    then obtain bs where bs: "gather (c_heap c) rs = Some bs" using gather_ok by blast
    have st: "steady {} c (tick (tick c))" using ok by (auto intro!: steady_intros)
    have wrote: "runs now c (advance_tcp_send_queue i n (log_event (Sent_tcp k bs') (tick (tick c))))" for n k bs'
    proof (rule runs_steady)
      let ?d = "log_event (Sent_tcp k bs') (tick (tick c))"
      show d: "steady {} c ?d" using st by (auto intro!: steady_intros)
      have "no_crash (advance_tcp_send_queue i n ?d) (steady {} ?d)"
        by (rule advance_send_queue_ok) (use steadyD [OF d] i False in auto)
      then show "runs now ?d (advance_tcp_send_queue i n ?d)"
        using runs_steady_Some by (auto simp: no_crash_def)
    qed
    show ?thesis
      using i False bs [unfolded rs_def] runs_steady_Some [OF st] steady_handle_error [OF st i now] wrote
      by (auto simp: write_server_def Let_def split: written.split intro!: runs_fds_Some runs_fds_bind)
  qed
qed

lemma servers_run:
  assumes step: "\<And>fs c i. chan_ok {} c \<Longrightarrow> i < nservers c \<Longrightarrow> c_last_timeout_processed c \<le> tv_sec now \<Longrightarrow>
      runs_fds now c (f i (fs, c))"
    and "chan_ok {} c" "c_last_timeout_processed c \<le> tv_sec now"
  shows "runs_fds now c (for_servers [0..<nservers c] f (fs, c))"
proof -
  have "no_crash (for_servers [0..<nservers c] f (fs, c))
      (\<lambda>(fs, d). chan_ok {} d \<and> advances now c d \<and> c_recvs d = c_recvs c)"
  proof (rule for_servers_ok)
    fix i and s :: "fds \<times> channel"
    assume i: "i \<in> set [0..<nservers c]"
      and s: "case s of (fs, d) \<Rightarrow> chan_ok {} d \<and> advances now c d \<and> c_recvs d = c_recvs c"
    obtain fs d where sd: "s = (fs, d)" by (cases s)
    have d: "chan_ok {} d" "advances now c d" "c_recvs d = c_recvs c" using s sd by auto
    have "runs_fds now d (f i (fs, d))"
      using step [OF d(1)] i assms(3) advancesD [OF d(2)] by simp
    then show "no_crash (f i s) (\<lambda>(fs, d). chan_ok {} d \<and> advances now c d \<and> c_recvs d = c_recvs c)"
      using d(2,3) by (auto simp: runs_fds_def no_crash_def sd intro: advances_trans)
  qed (use assms(2) in simp)
  then show ?thesis by (auto simp: runs_fds_def no_crash_def)
qed

lemma write_tcp_data_ok:
  assumes "chan_ok {} c" "c_last_timeout_processed c \<le> tv_sec now"
  shows "runs now c (write_tcp_data w now fs c)"
  using servers_run [where f = "write_server w now" and fs = fs, OF write_server_ok assms]
  by (auto simp: write_tcp_data_def runs_def runs_fds_def no_crash_def)

lemma sread_Inr: "sread w n k = Inr bs \<Longrightarrow> length bs \<le> n \<and> bs \<noteq> []"
  by (auto simp: sread_def split: was_read.splits if_splits)

text \<open>Changes to the input of a server.\<close>

lemma input_chan_ok:
  assumes "chan_ok {} c" "\<And>s. s_queries (f s) = s_queries s"
    "i < nservers c \<Longrightarrow> server_ok (c_heap c) (c_servers c ! i) \<Longrightarrow> server_ok (c_heap c) (f (c_servers c ! i))"
  shows "chan_ok {} (upd_server i f c)" "quiet c (upd_server i f c)"
  using chan_ok_upd_server [OF assms] quiet_upd_server [of f, OF assms(2)] by auto

lemma runs_input:
  assumes "runs now c m" "\<And>s. s_queries (f s) = s_queries s"
    "\<And>s h. server_ok h s \<Longrightarrow> server_ok h (f s)"
  shows "runs now c (m \<bind> (\<lambda>d. Some (upd_server i f d)))"
proof (rule runs_bind [OF assms(1)])
  fix d assume "chan_ok {} d"
  from input_chan_ok [OF this assms(2,3)] show "runs now d (Some (upd_server i f d))"
    by (rule runs_Some)
qed

lemma read_length_ok:
  assumes ok: "chan_ok {} c" and i: "i < nservers c" and now: "c_last_timeout_processed c \<le> tv_sec now"
    and bs: "length (s_tcp_lenbuf (c_servers c ! i)) + length bs \<le> 2" "length (s_tcp_lenbuf (c_servers c ! i)) \<noteq> 2"
  shows "runs now c (read_length w now i bs c)"
proof -
  let ?s = "c_servers c ! i"
  define lenbuf where "lenbuf = s_tcp_lenbuf ?s @ bs"
  have so: "server_ok (c_heap c) ?s" by (rule server_okD [OF ok i])
  then have buf: "s_tcp_buffer ?s = None" using bs(2) by (auto simp: server_ok_def input_ok_def split: option.splits)
  show ?thesis
  proof (cases "length lenbuf = 2")
    case False
    then have "length lenbuf < 2" using bs by (simp add: lenbuf_def)
    then have "steady {} c (upd_server i (\<lambda>s. s\<lparr>s_tcp_lenbuf := lenbuf\<rparr>) c)"
      using ok buf by (auto intro!: steady_intros simp: server_ok_def input_ok_def)
    moreover have "length (s_tcp_lenbuf ?s) + length bs \<noteq> 2" using False by (simp add: lenbuf_def)
    ultimately show ?thesis using False i runs_steady_Some
      by (simp add: read_length_def Let_def lenbuf_def [symmetric])
  next
    case two: True
    define len where "len = push_bit 8 (unat (lenbuf ! 0)) OR unat (lenbuf ! 1)"
    define d where "d ok = upd_server i (\<lambda>s. s\<lparr>s_tcp_length := len, s_tcp_buffer := if ok then Some [] else None\<rparr>)
      (tick (upd_server i (\<lambda>s. s\<lparr>s_tcp_lenbuf := lenbuf\<rparr>) c))" for ok
    have run: "read_length w now i bs c = (if w_alloc w (c_ticks c) then Some (d True)
        else handle_error w now i (d False) \<bind>
          (\<lambda>c. Some (upd_server i (\<lambda>s. s\<lparr>s_tcp_buffer := map_option (\<lambda>_. []) (s_tcp_buffer s)\<rparr>) c)))"
      using two two [unfolded lenbuf_def length_append] i
      by (simp add: read_length_def Let_def lenbuf_def [symmetric] len_def [symmetric, unfolded One_nat_def]
          d_def [of True, simplified] d_def [of False, simplified] upd_server_def tick_def)
    show ?thesis
    proof (cases "w_alloc w (c_ticks c)")
      case True
      have "d True = upd_server i (\<lambda>s. s\<lparr>s_tcp_lenbuf := lenbuf, s_tcp_length := len, s_tcp_buffer := Some []\<rparr>) (tick c)"
        using i by (simp add: d_def upd_server_def tick_def)
      moreover have "steady {} c (upd_server i (\<lambda>s. s\<lparr>s_tcp_lenbuf := lenbuf, s_tcp_length := len, s_tcp_buffer := Some []\<rparr>) (tick c))"
        using ok two by (auto intro!: steady_intros simp: server_ok_def input_ok_def)
      ultimately show ?thesis using True run runs_steady_Some by simp
    next
      case False
      define e where "e = upd_server i (\<lambda>s. s\<lparr>s_tcp_lenbuf := [], s_tcp_length := len, s_tcp_buffer := None\<rparr>) (tick c)"
      have e: "steady {} c e"
        unfolding e_def using ok by (auto intro!: steady_intros simp: server_ok_def input_ok_def)
      have "ares__close_sockets i (d False) = ares__close_sockets i e"
        using i by (simp add: ares__close_sockets_def d_def e_def Let_def upd_server_def tick_def)
      then have "handle_error w now i (d False) = handle_error w now i e" by (simp add: handle_error_def)
      moreover have "runs now c (handle_error w now i e \<bind>
          (\<lambda>c. Some (upd_server i (\<lambda>s. s\<lparr>s_tcp_buffer := map_option (\<lambda>_. []) (s_tcp_buffer s)\<rparr>) c)))"
        by (rule runs_input [OF steady_handle_error [OF e i now]])
          (auto simp: server_ok_def input_ok_def split: option.splits)
      ultimately show ?thesis using False run by simp
    qed
  qed
qed

lemma read_answer_ok:
  assumes ok: "chan_ok {} c" and i: "i < nservers c" and now: "c_last_timeout_processed c \<le> tv_sec now"
    and buf: "s_tcp_buffer (c_servers c ! i) = Some old" "length old + length bs \<le> s_tcp_length (c_servers c ! i)"
  shows "runs now c (read_answer w now i bs c)"
proof -
  define d where "d = upd_server i (\<lambda>s. s\<lparr>s_tcp_buffer := Some (old @ bs)\<rparr>) c"
  have d: "steady {} c d"
    unfolding d_def using ok buf by (auto intro!: steady_intros simp: server_ok_def input_ok_def)
  note sd = steadyD [OF d]
  have now': "c_last_timeout_processed d \<le> tv_sec now"
    using now settings_eqD(5) [OF quietD(1) [OF sd(4)]] by simp
  have "runs now d (process_answer w now i True (old @ bs) d)"
    using process_answer_ok [OF sd(1) _ now'] i sd(2) by simp
  then have "runs now d (process_answer w now i True (old @ bs) d \<bind>
      (\<lambda>d. Some (upd_server i (\<lambda>s. s\<lparr>s_tcp_buffer := None, s_tcp_lenbuf := []\<rparr>) d)))"
    by (rule runs_input) (simp_all add: server_ok_def input_ok_def)
  then show ?thesis
    using i buf(1) runs_steady [OF d] runs_steady_Some [OF d]
    by (simp add: read_answer_def Let_def d_def [symmetric])
qed

lemma read_server_ok:
  assumes ok: "chan_ok {} c" and i: "i < nservers c" and now: "c_last_timeout_processed c \<le> tv_sec now"
  shows "runs_fds now c (read_server w now i (fs, c))"
proof -
  let ?s = "c_servers c ! i"
  have st: "steady {} c (tick c)" using ok by (auto intro!: steady_intros)
  have t: "chan_ok {} (tick c)" "i < nservers (tick c)" "c_last_timeout_processed (tick c) \<le> tv_sec now"
    using ok i now by (simp_all add: tick_def)
  have so: "input_ok ?s" using server_okD [OF ok i] by (simp add: server_ok_def)
  note again = runs_steady_Some [OF st] steady_handle_error [OF st i now]
  have len: "runs now c (case sread w (2 - length (s_tcp_lenbuf ?s)) (c_ticks c) of
      Inr bs \<Rightarrow> read_length w now i bs (tick c)
    | Inl again \<Rightarrow> if again then Some (tick c) else handle_error w now i (tick c))"
    if two: "length (s_tcp_lenbuf ?s) \<noteq> 2"
  proof (cases "sread w (2 - length (s_tcp_lenbuf ?s)) (c_ticks c)")
    case (Inr bs)
    have "length (s_tcp_lenbuf ?s) + length bs \<le> 2"
      using sread_Inr [OF Inr] so two by (auto simp: input_ok_def split: option.splits)
    then have "runs now (tick c) (read_length w now i bs (tick c))"
      using read_length_ok [OF t] two by simp
    then show ?thesis using Inr runs_steady [OF st] by simp
  qed (use again in simp)
  have ans: "runs now c (case sread w (s_tcp_length ?s - length buf) (c_ticks c) of
      Inr bs \<Rightarrow> read_answer w now i bs (tick c)
    | Inl again \<Rightarrow> if again then Some (tick c) else handle_error w now i (tick c))"
    if buf: "s_tcp_buffer ?s = Some buf" "length buf \<le> s_tcp_length ?s" for buf
  proof (cases "sread w (s_tcp_length ?s - length buf) (c_ticks c)")
    case (Inr bs)
    have "length buf + length bs \<le> s_tcp_length ?s" using sread_Inr [OF Inr] buf(2) by linarith
    then have "runs now (tick c) (read_answer w now i bs (tick c))"
      using read_answer_ok [OF t, of buf bs] buf by simp
    then show ?thesis using Inr runs_steady [OF st] by simp
  qed (use again in simp)
  show ?thesis
  proof (cases "s_tcp_socket ?s = None \<or> s_is_broken ?s \<or> \<not> selected (s_tcp_socket ?s) fs")
    case True
    then show ?thesis using i ok by (auto simp: read_server_def intro!: runs_fds_Some runs_Some)
  next
    case False
    show ?thesis
    proof (cases "length (s_tcp_lenbuf ?s) = 2")
      case True
      then obtain buf where "s_tcp_buffer ?s = Some buf" "length buf \<le> s_tcp_length ?s"
        using so by (auto simp: input_ok_def split: option.splits)
      with ans [OF this] show ?thesis using False True i
        by (auto simp: read_server_def Let_def runs_fds_bind)
    next
      case two: False
      with len show ?thesis using False i by (auto simp: read_server_def Let_def runs_fds_bind)
    qed
  qed
qed

lemma read_tcp_data_ok:
  assumes "chan_ok {} c" "c_last_timeout_processed c \<le> tv_sec now"
  shows "runs_fds now c (read_tcp_data w now fs c)"
  unfolding read_tcp_data_def by (rule servers_run [OF read_server_ok assms])

section \<open>Packets\<close>

text \<open>Packets are taken from the network, so the list of results of \<^verbatim>\<open>recvfrom\<close> gets shorter.\<close>

definition receives :: "timeval \<Rightarrow> channel \<Rightarrow> channel option \<Rightarrow> bool" where
  "receives now c m \<longleftrightarrow> no_crash m (\<lambda>d. chan_ok {} d \<and> advances now c d)"

lemma runs_receives: "runs now c m \<Longrightarrow> receives now c m"
  by (auto simp: runs_def receives_def no_crash_def)

lemma chan_ok_recvs [simp]: "chan_ok X (c\<lparr>c_recvs := rs\<rparr>) \<longleftrightarrow> chan_ok X c"
  by (simp add: chan_ok_def config_ok_def)

lemma advances_recvs [simp]: "advances now c (d\<lparr>c_recvs := rs\<rparr>) \<longleftrightarrow> advances now c d"
  by (simp add: advances_def settings_def)

lemma recvfrom_ok:
  assumes "recvfrom s c = (r, d)" "chan_ok {} c"
  shows "chan_ok {} d" "advances now c d" "nservers d = nservers c"
    "c_last_timeout_processed d = c_last_timeout_processed c"
    "(\<exists>from bs. r = Packet from bs) \<longrightarrow> length (c_recvs d) < length (c_recvs c)"
  using assms by (auto simp: recvfrom_def split: option.splits list.splits)

lemma read_packets_ok:
  assumes "chan_ok {} c" "i < nservers c" "c_last_timeout_processed c \<le> tv_sec now"
  shows "receives now c (read_packets w now i c)"
  using assms
proof (induction "length (c_recvs c)" arbitrary: c rule: less_induct)
  case less
  obtain r d where r: "recvfrom (s_udp_socket (c_servers c ! i)) c = (r, d)" by fastforce
  note d = recvfrom_ok [OF r less.prems(1)]
  have i: "i < nservers d" "c_last_timeout_processed d \<le> tv_sec now" using d less.prems by simp_all
  have from_d: "receives now c m" if "receives now d m" for m
    using that d(2) [of now] by (auto simp: receives_def no_crash_def intro: advances_trans)
  have err: "receives now c (handle_error w now i d)"
    by (rule from_d [OF runs_receives [OF handle_error_ok [OF d(1) i]]])
  have stop: "receives now c (Some d)" using d(1) d(2) [of now] by (simp add: receives_def no_crash_def)
  have run: "read_packets w now i c = (case r of
       Recv_again \<Rightarrow> Some d
     | Recv_error \<Rightarrow> handle_error w now i d
     | Packet from bs \<Rightarrow>
         if bs = [] then handle_error w now i d
         else if \<not> same_address from (s_addr (c_servers c ! i)) then Some d
         else process_answer w now i False bs d \<bind> read_packets w now i)"
    using less.prems(2) r by (subst read_packets.simps) simp
  have next_one: "receives now c (process_answer w now i False bs d \<bind> read_packets w now i)"
    if p: "r = Packet from bs" for "from" bs
  proof -
    from process_answer_ok [OF d(1) i, of w False bs] obtain e
      where e: "process_answer w now i False bs d = Some e" "chan_ok {} e" "advances now d e" "c_recvs e = c_recvs d"
      by (auto simp: runs_def no_crash_def)
    have "receives now e (read_packets w now i e)"
      using less.hyps [of e] d(5) p e i advancesD [OF e(3)] by simp
    then show ?thesis
      using e from_d by (auto simp: receives_def no_crash_def intro: advances_trans)
  qed
  show ?case unfolding run using err stop next_one by (auto split: received.split)
qed

lemma receive_server_ok:
  assumes "chan_ok {} c" "i < nservers c" "c_last_timeout_processed c \<le> tv_sec now"
  shows "no_crash (receive_server w now i (fs, c)) (\<lambda>(fs, d). chan_ok {} d \<and> advances now c d)"
  using read_packets_ok [OF assms, of w] assms(1,2)
  by (auto simp: receive_server_def receives_def no_crash_def Let_def)

lemma read_udp_packets_ok:
  assumes "chan_ok {} c" "c_last_timeout_processed c \<le> tv_sec now"
  shows "receives now c (read_udp_packets w now fs c)"
proof -
  have "no_crash (for_servers [0..<nservers c] (receive_server w now) (fs, c))
      (\<lambda>(fs, d). chan_ok {} d \<and> advances now c d)"
  proof (rule for_servers_ok)
    fix i and s :: "fds \<times> channel"
    assume i: "i \<in> set [0..<nservers c]" and s: "case s of (fs, d) \<Rightarrow> chan_ok {} d \<and> advances now c d"
    obtain fs d where sd: "s = (fs, d)" by (cases s)
    then have d: "chan_ok {} d" "advances now c d" using s by auto
    from receive_server_ok [OF d(1), of i now w fs] i assms(2) advancesD [OF d(2)] d(2)
    show "no_crash (receive_server w now i s) (\<lambda>(fs, d). chan_ok {} d \<and> advances now c d)"
      by (auto simp: no_crash_def sd intro: advances_trans)
  qed (use assms(1) in simp)
  then show ?thesis by (auto simp: receives_def read_udp_packets_def no_crash_def)
qed

section \<open>Timeouts\<close>

text \<open>How much a query may still be tried: it ends when it has no lives left.\<close>

definition lives :: "channel \<Rightarrow> address \<Rightarrow> nat" where
  "lives c q =
     (case c_heap c q of
        None \<Rightarrow> 0
      | Some x \<Rightarrow> nat (int (nservers c) * c_tries c - q_try_count x) + (if q_using_tcp x then 1 else 2))"

text \<open>A query that has had its time is tried again, or over.\<close>

definition settled :: "timeval \<Rightarrow> query option \<Rightarrow> query option \<Rightarrow> bool" where
  "settled now x y \<longleftrightarrow>
     (\<forall>x' y'. x = Some x' \<and> y = Some y' \<and> same_turn x' y' \<longrightarrow> \<not> query_timed_out now x')"

lemma lives_carried_from:
  assumes old: "\<And>x. c_heap c q = Some x \<Longrightarrow> 0 \<le> q_try_count x" and ok: "chan_ok {} d" and adv: "advances now c d"
  shows "lives d q \<le> lives c q"
    and "settled now (c_heap c q) (c_heap d q) \<Longrightarrow> c_heap c q = Some x \<Longrightarrow> query_timed_out now x \<Longrightarrow>
      lives d q < lives c q"
proof -
  note e = advancesD [OF adv]
  have "lives d q \<le> lives c q \<and> (settled now (c_heap c q) (c_heap d q) \<and> c_heap c q = Some x \<and>
      query_timed_out now x \<longrightarrow> lives d q < lives c q)"
  proof (cases "c_heap d q")
    case None
    then show ?thesis by (auto simp: lives_def split: option.split)
  next
    case (Some y)
    then obtain x' where x': "c_heap c q = Some x'" "q_try_count x' \<le> q_try_count y"
      "q_using_tcp x' \<longrightarrow> q_using_tcp y"
      using e(5) [of q] by (auto simp: carried_def split: option.splits)
    have "q_try_count y = 0 \<or> q_try_count y < int (nservers c) * c_tries c" "0 \<le> q_try_count y"
      using attempts_okD [OF ok Some] e by (auto simp: attempts_ok_def)
    moreover have "0 \<le> q_try_count x'" using old [OF x'(1)] .
    ultimately have less: "nat (int (nservers c) * c_tries c - q_try_count y)
        < nat (int (nservers c) * c_tries c - q_try_count x')" if "q_try_count x' < q_try_count y"
      using that by linarith
    show ?thesis
    proof (cases "q_try_count x' < q_try_count y")
      case True
      then show ?thesis using less [OF True] x' Some e(1,2) by (auto simp: lives_def)
    next
      case False
      then show ?thesis using x' Some e(1,2)
        by (auto simp: lives_def settled_def same_turn_def split: if_splits)
    qed
  qed
  then show "lives d q \<le> lives c q"
    and "settled now (c_heap c q) (c_heap d q) \<Longrightarrow> c_heap c q = Some x \<Longrightarrow> query_timed_out now x \<Longrightarrow>
      lives d q < lives c q" by auto
qed

lemma try_count_nonneg: "chan_ok {} c \<Longrightarrow> c_heap c q = Some x \<Longrightarrow> 0 \<le> q_try_count x"
  using attempts_okD by (auto simp: attempts_ok_def)

lemma lives_carried:
  assumes "chan_ok {} c" "chan_ok {} d" "advances now c d"
  shows "lives d q \<le> lives c q"
    and "settled now (c_heap c q) (c_heap d q) \<Longrightarrow> c_heap c q = Some x \<Longrightarrow> query_timed_out now x \<Longrightarrow>
      lives d q < lives c q"
proof -
  have "0 \<le> q_try_count x" if "c_heap c q = Some x" for x using try_count_nonneg [OF assms(1) that] .
  note l = lives_carried_from [OF this assms(2,3)]
  show "lives d q \<le> lives c q" by (rule l(1))
  show "settled now (c_heap c q) (c_heap d q) \<Longrightarrow> c_heap c q = Some x \<Longrightarrow> query_timed_out now x \<Longrightarrow>
      lives d q < lives c q" by (rule l(2))
qed

definition total_lives :: "channel \<Rightarrow> nat" where
  "total_lives c = (\<Sum>q<c_free c. lives c q)"

lemma total_lives_less:
  assumes "chan_ok {} c" "chan_ok {} d" "advances now c d"
    and "settled now (c_heap c q) (c_heap d q)" "c_heap c q = Some x" "query_timed_out now x"
  shows "total_lives d < total_lives c"
proof -
  have "q < c_free c" using heap_okD [OF assms(1,5)] by simp
  moreover have "lives d q < lives c q" using lives_carried(2) [OF assms(1-6)] .
  ultimately have "(\<Sum>q<c_free c. lives d q) < (\<Sum>q<c_free c. lives c q)"
    by (intro sum_strict_mono_ex1) (auto intro: lives_carried(1) [OF assms(1-3)])
  then show ?thesis using advancesD(4) [OF assms(3)] by (simp add: total_lives_def)
qed

text \<open>The part of a list that the loop still has to visit.\<close>

definition from_in :: "address option \<Rightarrow> address list \<Rightarrow> address list" where
  "from_in cur xs = (case cur of None \<Rightarrow> [] | Some q \<Rightarrow> dropWhile (\<lambda>x. x \<noteq> q) xs)"

lemma from_first: "from_in (first_in xs) xs = xs"
  by (cases xs) (simp_all add: from_in_def first_in_def)

lemma from_next: "q \<in> set xs \<Longrightarrow> distinct xs \<Longrightarrow> from_in (Some q) xs = q # from_in (next_in q xs) xs"
proof (induction q xs rule: next_in.induct)
  case (1 q x y xs)
  have "next_in q (y # xs) \<noteq> Some x" if "x \<noteq> q" "q \<in> set (y # xs)" "x \<notin> set (y # xs)"
  proof -
    have "next_in q zs = Some z \<Longrightarrow> z \<in> set zs" for zs z
      by (induction q zs rule: next_in.induct) (auto split: if_splits)
    then show ?thesis using that by blast
  qed
  with 1 show ?case by (auto simp: from_in_def split: option.splits)
qed (auto simp: from_in_def)

lemma next_in_set: "next_in q xs = Some r \<Longrightarrow> distinct xs \<Longrightarrow> r \<in> set xs \<and> r \<noteq> q"
  by (induction q xs rule: next_in.induct) (auto split: if_splits)

lemma next_in_append: "q \<notin> set us \<Longrightarrow> next_in q (us @ q # vs) = first_in vs"
proof (induction us)
  case (Cons u us)
  then show ?case by (cases "us @ q # vs") auto
qed (simp add: next_in_head)

lemma from_removed:
  assumes "distinct xs" "q \<in> set xs"
  shows "set (from_in (next_in q xs) xs) \<subseteq> set (from_in (next_in q xs) (removeAll q xs @ ys))"
proof -
  obtain us vs where xs: "xs = us @ q # vs" "q \<notin> set us" using split_list_first [OF assms(2)] by blast
  then have q: "q \<notin> set vs" using assms(1) by simp
  have n: "next_in q xs = first_in vs" using next_in_append [OF xs(2)] by (simp add: xs(1))
  show ?thesis
  proof (cases vs)
    case Nil
    then show ?thesis by (simp add: n first_in_def from_in_def)
  next
    case (Cons r ws)
    then have r: "r \<noteq> q" "\<forall>x \<in> set us. x \<noteq> r" using assms(1) xs by auto
    have "dropWhile (\<lambda>x. x \<noteq> r) (us @ zs) = dropWhile (\<lambda>x. x \<noteq> r) zs" for zs
      using r(2) by (induction us) auto
    note drop = this
    have "next_in q xs = Some r" by (simp add: n Cons first_in_def)
    moreover have "from_in (Some r) xs = r # ws" using r(1) by (simp add: from_in_def xs(1) Cons drop)
    moreover have "from_in (Some r) (removeAll q xs @ ys) = r # ws @ ys"
      using r(1) q xs(2) by (simp add: from_in_def xs(1) Cons drop)
    ultimately show ?thesis by auto
  qed
qed

lemma timer_live:
  assumes "chan_ok {} c" "q \<in> set (c_queries_by_timeout c b)"
  obtains x where "c_heap c q = Some x"
  using assms unfolding chan_ok_def timers_ok_def by blast

lemma bucket_length: "chan_ok {} c \<Longrightarrow> length (from_in cur (c_queries_by_timeout c b)) \<le> c_free c"
proof -
  assume ok: "chan_ok {} c"
  have "distinct (c_queries_by_timeout c b)" "set (c_queries_by_timeout c b) \<subseteq> {..<c_free c}"
    using ok heap_okD [OF ok] by (auto simp: chan_ok_def timers_ok_def elim!: timer_live [OF ok])
  then have "length (c_queries_by_timeout c b) \<le> c_free c"
    by (metis card_lessThan card_mono distinct_card finite_lessThan)
  moreover have "length (from_in cur (c_queries_by_timeout c b)) \<le> length (c_queries_by_timeout c b)"
    by (auto simp: from_in_def length_dropWhile_le split: option.split)
  ultimately show ?thesis by linarith
qed

text \<open>One step of the loop over a list of timeouts.\<close>

definition settled_since :: "timeval \<Rightarrow> channel \<Rightarrow> channel \<Rightarrow> address \<Rightarrow> bool" where
  "settled_since now c d q \<longleftrightarrow> settled now (c_heap c q) (c_heap d q)"

lemma settled_since_mono:
  assumes "advances now c d" "advances now d e" "settled_since now c d q"
  shows "settled_since now c e q"
  using assms(3) advancesD(5) [OF assms(1), of q] advancesD(5) [OF assms(2), of q]
  by (auto simp: settled_since_def settled_def carried_def same_turn_def split: option.splits)

lemma settled_since_trans:
  assumes "advances now c d" "advances now d e" "settled_since now d e q"
  shows "settled_since now c e q"
  using assms(3) advancesD(5) [OF assms(1), of q] advancesD(5) [OF assms(2), of q]
  by (fastforce simp: settled_since_def settled_def carried_def same_turn_def query_timed_out_def
      split: option.splits)

lemma time_out_query:
  assumes ok: "chan_ok {} c" and x: "c_heap c q = Some x" and now: "c_last_timeout_processed c \<le> tv_sec now"
  shows "no_crash (next_server w q now (upd_query q
      (\<lambda>x. x\<lparr>q_error_status := ARES_ETIMEOUT, q_timeouts := q_timeouts x + 1\<rparr>) c))
    (\<lambda>d. chan_ok {} d \<and> only q c d \<and> advances now c d \<and> settled_since now c d q)"
proof -
  let ?f = "\<lambda>x. x\<lparr>q_error_status := ARES_ETIMEOUT, q_timeouts := q_timeouts x + 1\<rparr>"
  let ?d = "upd_query q ?f c"
  have d: "chan_ok {q} ?d" "only q c ?d"
    using chan_ok_upd_query [OF chan_ok_mono [OF ok], of "{q}" q ?f] by (auto simp: query_ok_def)
  have x': "c_heap ?d q = Some (?f x)" using x by simp
  have "next_ok (nservers ?d) (c_tries ?d) (?f x)"
    using attempts_okD [OF ok x] onlyD [OF d(2)] by (simp add: attempts_ok_def next_ok_def)
  from next_server_ok [OF d(1) _ x' this, of now w] now onlyD [OF d(2)] obtain e
    where e: "next_server w q now ?d = Some e" "chan_ok {} e" "only q ?d e" "retried now (?f x) (c_heap e q)"
    by (auto simp: no_crash_def)
  have oe: "only q c e" using only_trans [OF d(2) e(3)] .
  have "carried now (c_heap c q) (c_heap e q)" "settled_since now c e q"
    using e(4) x by (auto simp: retried_def carried_def same_turn_def settled_since_def settled_def)
  with advances_only [OF oe] e oe show ?thesis by (simp add: no_crash_def)
qed

lemma timeouts_in_ok:
  assumes "chan_ok {} c" "c_last_timeout_processed c \<le> tv_sec now"
    "\<And>q. cur = Some q \<Longrightarrow> q \<in> set (c_queries_by_timeout c b)"
  shows "no_crash (timeouts_in w now b cur c) (\<lambda>d. chan_ok {} d \<and> advances now c d \<and> c_recvs d = c_recvs c \<and>
    (\<forall>q \<in> set (from_in cur (c_queries_by_timeout c b)). settled_since now c d q))"
  using assms
proof (induction "total_lives c * (c_free c + 1) + length (from_in cur (c_queries_by_timeout c b))"
    arbitrary: c cur rule: less_induct)
  case less
  note ok = less.prems(1)
  show ?case
  proof (cases cur)
    case None
    then show ?thesis using ok by (simp add: timeouts_in.simps no_crash_def from_in_def)
  next
    case (Some q)
    let ?xs = "c_queries_by_timeout c b" and ?cur = "next_in q (c_queries_by_timeout c b)"
    have q: "q \<in> set ?xs" "distinct ?xs" using less.prems(1,3) Some by (auto simp: chan_ok_def timers_ok_def)
    obtain x where x: "c_heap c q = Some x" using timer_live [OF ok q(1)] .
    note next_set = next_in_set [OF _ q(2)]
    have rest: "from_in cur ?xs = q # from_in ?cur ?xs" using from_next [OF q] Some by simp
    show ?thesis
    proof (cases "query_timed_out now x")
      case False
      have "no_crash (timeouts_in w now b ?cur c) (\<lambda>d. chan_ok {} d \<and> advances now c d \<and> c_recvs d = c_recvs c \<and>
          (\<forall>q \<in> set (from_in ?cur ?xs). settled_since now c d q))"
        by (rule less.hyps [OF _ ok less.prems(2)]) (use rest next_set in auto)
      moreover have "settled_since now c d q" for d
        using False x by (simp add: settled_since_def settled_def)
      moreover have "timeouts_in w now b cur c = timeouts_in w now b ?cur c"
        using Some x False by (subst timeouts_in.simps) simp
      ultimately show ?thesis by (auto simp: rest no_crash_def)
    next
      case True
      from time_out_query [OF ok x less.prems(2)] obtain d where
        d: "next_server w q now (upd_query q (\<lambda>x. x\<lparr>q_error_status := ARES_ETIMEOUT, q_timeouts := q_timeouts x + 1\<rparr>) c)
          = Some d" "chan_ok {} d" "only q c d" "advances now c d" "settled_since now c d q"
        by (auto simp: no_crash_def)
      have run: "timeouts_in w now b cur c = timeouts_in w now b ?cur d"
        using Some x True d(1) timeouts_fit [OF ok x] by (subst timeouts_in.simps) (simp add: Let_def)
      obtain ys where ys: "c_queries_by_timeout d b = ?xs \<or> c_queries_by_timeout d b = removeAll q ?xs @ ys"
        using d(3) unfolding only_def by blast
      have cur: "r \<in> set (c_queries_by_timeout d b)" if "?cur = Some r" for r
        using next_set [OF that] ys by auto
      have sub: "set (from_in ?cur ?xs) \<subseteq> set (from_in ?cur (c_queries_by_timeout d b))"
        using ys from_removed [OF q(2,1), of ys] by (elim disjE) (simp_all only: subset_refl)
      have "total_lives d < total_lives c"
        using total_lives_less [OF ok d(2,4) d(5) [unfolded settled_since_def] x True] .
      then have "total_lives d * (c_free c + 1) + (c_free c + 1) \<le> total_lives c * (c_free c + 1)"
        by (metis Suc_eq_plus1 Suc_leI add.commute mult_Suc mult_le_mono1)
      then have less': "total_lives d * (c_free d + 1) + length (from_in ?cur (c_queries_by_timeout d b))
          < total_lives c * (c_free c + 1) + length (from_in cur ?xs)"
        using bucket_length [OF d(2), of ?cur b] advancesD(4) [OF d(4)] by simp
      from less.hyps [OF less' d(2) _ cur] less.prems(2) advancesD(3) [OF d(4)]
      obtain e where e: "timeouts_in w now b ?cur d = Some e" "chan_ok {} e" "advances now d e" "c_recvs e = c_recvs d"
        "\<forall>q \<in> set (from_in ?cur (c_queries_by_timeout d b)). settled_since now d e q"
        by (auto simp: no_crash_def)
      have "settled_since now c e r" if "r \<in> set (from_in cur ?xs)" for r
      proof (cases "r = q")
        case True
        then show ?thesis using settled_since_mono [OF d(4) e(3) d(5)] by simp
      next
        case False
        then have "r \<in> set (from_in ?cur (c_queries_by_timeout d b))" using that rest sub by auto
        then show ?thesis using settled_since_trans [OF d(4) e(3)] e(5) by blast
      qed
      moreover have "c_recvs d = c_recvs c" using d(3) by (simp add: only_def)
      ultimately show ?thesis using run e(1-4) advances_trans [OF d(4) e(3)] by (simp add: no_crash_def)
    qed
  qed
qed

lemma timeouts_at_ok:
  assumes "chan_ok {} c" "c_last_timeout_processed c \<le> tv_sec now" "\<forall>t \<in> set ts. 0 \<le> t"
  shows "no_crash (timeouts_at w now ts c) (\<lambda>d. chan_ok {} d \<and> advances now c d \<and> c_recvs d = c_recvs c \<and>
    (\<forall>q x. c_heap c q = Some x \<and> (\<exists>t \<in> set ts. timeout_bucket (tv_sec (q_timeout x)) = timeout_bucket t) \<longrightarrow>
       settled_since now c d q))"
  using assms
proof (induction ts arbitrary: c)
  case (Cons t ts)
  obtain b where b: "timeout_bucket t = Some b" using Cons.prems(3) by (auto simp: timeout_bucket_def)
  let ?xs = "c_queries_by_timeout c b"
  have "q \<in> set ?xs" if "first_in ?xs = Some q" for q
    using that by (cases ?xs) (auto simp: first_in_def)
  from timeouts_in_ok [where w = w and cur = "first_in ?xs", OF Cons.prems(1,2) this] obtain d where
    d: "timeouts_in w now b (first_in ?xs) c = Some d" "chan_ok {} d" "advances now c d" "c_recvs d = c_recvs c"
      "\<forall>q \<in> set ?xs. settled_since now c d q"
    by (auto simp: no_crash_def from_first)
  from Cons.IH [OF d(2)] Cons.prems(2,3) advancesD(3) [OF d(3)] obtain e where
    e: "timeouts_at w now ts d = Some e" "chan_ok {} e" "advances now d e" "c_recvs e = c_recvs d"
      "\<And>q x. c_heap d q = Some x \<Longrightarrow> \<exists>t \<in> set ts. timeout_bucket (tv_sec (q_timeout x)) = timeout_bucket t \<Longrightarrow>
        settled_since now d e q"
    by (auto simp: no_crash_def)
  have "settled_since now c e q"
    if x: "c_heap c q = Some x" and t': "\<exists>t' \<in> set (t # ts). timeout_bucket (tv_sec (q_timeout x)) = timeout_bucket t'"
    for q x
  proof (cases "timeout_bucket (tv_sec (q_timeout x)) = timeout_bucket t")
    case True
    then have "q \<in> set ?xs" using Cons.prems(1) x b by (auto simp: chan_ok_def timers_ok_def)
    then show ?thesis using settled_since_mono [OF d(3) e(3)] d(5) by blast
  next
    case False
    show ?thesis
    proof (cases "\<exists>y. c_heap d q = Some y \<and> same_turn x y")
      case True
      then obtain y where y: "c_heap d q = Some y" "same_turn x y" by blast
      then have "q_timeout y = q_timeout x"
        using advancesD(5) [OF d(3), of q] x by (auto simp: carried_def)
      then have "settled_since now d e q" using e(5) [OF y(1)] t' False by auto
      then show ?thesis by (rule settled_since_trans [OF d(3) e(3)])
    next
      case other: False
      then have "settled_since now c d q" using x by (auto simp: settled_since_def settled_def)
      then show ?thesis by (rule settled_since_mono [OF d(3) e(3)])
    qed
  qed
  then have "\<forall>q x. c_heap c q = Some x \<and> (\<exists>t' \<in> set (t # ts).
      timeout_bucket (tv_sec (q_timeout x)) = timeout_bucket t') \<longrightarrow> settled_since now c e q" by blast
  moreover have "timeouts_at w now (t # ts) c = Some e" using b d(1) e(1) by simp
  ultimately show ?case
    using d(4) e(2,4) advances_trans [OF d(3) e(3)] unfolding no_crash_def by auto
qed (simp add: no_crash_def)

lemma not_timed_out_later:
  "\<not> query_timed_out now x \<Longrightarrow> 0 < tv_sec (q_timeout x) \<Longrightarrow> tv_sec now \<le> tv_sec (q_timeout x)"
  by (auto simp: query_timed_out_def ares__timedout_def Let_def split: if_splits)

lemma process_timeouts_ok:
  assumes ok: "chan_ok {} c" and now: "c_last_timeout_processed c \<le> tv_sec now"
  shows "no_crash (process_timeouts w now c) (\<lambda>d. chan_ok {} d \<and> c_recvs d = c_recvs c \<and>
    advances now (c\<lparr>c_last_timeout_processed := tv_sec now\<rparr>) d \<and> (\<forall>q. settled_since now c d q))"
proof -
  let ?ts = "[c_last_timeout_processed c..tv_sec now]"
  have pos: "0 < c_last_timeout_processed c" using ok by (simp add: chan_ok_def config_ok_def)
  then have "\<forall>t \<in> set ?ts. 0 \<le> t" by auto
  from timeouts_at_ok [where w = w, OF ok now this] obtain d where
    d: "timeouts_at w now ?ts c = Some d" "chan_ok {} d" "advances now c d" "c_recvs d = c_recvs c"
      "\<And>q x. c_heap c q = Some x \<Longrightarrow> \<exists>t \<in> set ?ts. timeout_bucket (tv_sec (q_timeout x)) = timeout_bucket t \<Longrightarrow>
        settled_since now c d q"
    by (auto simp: no_crash_def)
  have settled: "settled_since now c d q" for q
  proof (cases "\<exists>x. c_heap c q = Some x \<and> query_timed_out now x")
    case True
    then obtain x where x: "c_heap c q = Some x" "query_timed_out now x" by blast
    then have "tv_sec (q_timeout x) \<le> tv_sec now"
      by (auto simp: query_timed_out_def ares__timedout_def Let_def split: if_splits)
    moreover have "c_last_timeout_processed c \<le> tv_sec (q_timeout x)"
      using ok x(1) by (auto simp: chan_ok_def timers_ok_def)
    ultimately have "\<exists>t \<in> set ?ts. timeout_bucket (tv_sec (q_timeout x)) = timeout_bucket t"
      by (intro bexI [of _ "tv_sec (q_timeout x)"]) auto
    with d(5) [OF x(1)] show ?thesis .
  qed (auto simp: settled_since_def settled_def)
  let ?d = "d\<lparr>c_last_timeout_processed := tv_sec now\<rparr>"
  have late: "tv_sec now \<le> tv_sec (q_timeout y)" if y: "c_heap d q = Some y" for q y
  proof -
    obtain x where x: "c_heap c q = Some x" "carried now (Some x) (Some y)"
      using advancesD(5) [OF d(3), of q] y by (auto simp: carried_def split: option.splits)
    show ?thesis
    proof (cases "same_turn x y")
      case True
      then have "\<not> query_timed_out now x" using settled [of q] x(1) y by (auto simp: settled_since_def settled_def)
      moreover have "0 < tv_sec (q_timeout x)" using ok x(1) pos by (fastforce simp: chan_ok_def timers_ok_def)
      ultimately have "tv_sec now \<le> tv_sec (q_timeout x)" by (rule not_timed_out_later)
      then show ?thesis using True x(2) by (simp add: carried_def)
    qed (use x(2) in \<open>simp add: carried_def\<close>)
  qed
  have "chan_ok {} ?d"
  proof -
    have "timers_ok {} (tv_sec now) (c_heap d) (c_queries_by_timeout d)"
      using d(2) late by (auto simp: chan_ok_def timers_ok_def)
    moreover have "config_ok ?d" using d(2) pos now by (simp add: chan_ok_def config_ok_def)
    ultimately show ?thesis using d(2) by (simp add: chan_ok_def)
  qed
  moreover have "advances now (c\<lparr>c_last_timeout_processed := tv_sec now\<rparr>) ?d"
    using d(3) by (simp add: advances_def settings_def)
  moreover have "\<forall>q. settled_since now c ?d q" using settled by (simp add: settled_since_def)
  ultimately show ?thesis using d(1,4) by (simp add: process_timeouts_def no_crash_def)
qed

section \<open>A round\<close>

text \<open>A call of \<^verbatim>\<open>ares_process\<close> returns, and every query that had its time is tried again or over.\<close>

lemma processfds_ok:
  assumes ok: "chan_ok {} c" and now: "c_last_timeout_processed c \<le> tv_sec now"
  shows "no_crash (processfds w now rfds wfds c) (\<lambda>d. chan_ok {} d \<and>
    advances now (c\<lparr>c_last_timeout_processed := tv_sec now\<rparr>) d \<and> (\<forall>q. settled_since now c d q))"
proof -
  from write_tcp_data_ok [OF ok now, of w wfds] obtain c1
    where c1: "write_tcp_data w now wfds c = Some c1" "chan_ok {} c1" "advances now c c1"
    by (auto simp: runs_def no_crash_def)
  from read_tcp_data_ok [OF c1(2), of now w rfds] now advancesD(3) [OF c1(3)] obtain c2
    and rfds' where c2: "read_tcp_data w now rfds c1 = Some (rfds', c2)" "chan_ok {} c2" "advances now c1 c2"
    by (auto simp: runs_fds_def no_crash_def)
  have a2: "advances now c c2" using advances_trans [OF c1(3) c2(3)] .
  from read_udp_packets_ok [OF c2(2), of now w rfds'] now advancesD(3) [OF a2] obtain c3
    where c3: "read_udp_packets w now rfds' c2 = Some c3" "chan_ok {} c3" "advances now c2 c3"
    by (auto simp: receives_def no_crash_def)
  have a3: "advances now c c3" using advances_trans [OF a2 c3(3)] .
  let ?later = "\<lambda>c. c\<lparr>c_last_timeout_processed := tv_sec now\<rparr>"
  from process_timeouts_ok [OF c3(2), of now w] now advancesD(3) [OF a3] obtain c4
    where c4: "process_timeouts w now c3 = Some c4" "chan_ok {} c4" "advances now (?later c3) c4"
      "\<And>q. settled_since now c3 c4 q"
    by (auto simp: no_crash_def)
  from broken_connections_ok [OF c4(2), of now w] advancesD(3) [OF c4(3)] obtain c5
    where c5: "process_broken_connections w now c4 = Some c5" "chan_ok {} c5" "advances now c4 c5"
    by (auto simp: runs_def no_crash_def)
  have l: "advances now (?later c) (?later c3)" using a3 by (simp add: advances_def settings_def)
  have l4: "advances now (?later c) c4" by (rule advances_trans [OF l c4(3)])
  have "settled_since now (?later c) c4 q" for q
    by (rule settled_since_trans [OF l c4(3)]) (use c4(4) in \<open>simp add: settled_since_def\<close>)
  then have "settled_since now (?later c) c5 q" for q by (rule settled_since_mono [OF l4 c5(3)])
  then have "\<forall>q. settled_since now c c5 q" by (simp add: settled_since_def)
  then show ?thesis
    using c1(1) c2(1) c3(1) c4(1) c5(1,2) advances_trans [OF l4 c5(3)]
    by (simp add: processfds_def no_crash_def)
qed

end
