(* ===== verification/Ares_Session.thy ===== *)
theory Ares_Session
  imports Ares_Running
begin

text \<open>
  Channels from \<^verbatim>\<open>ares_init_options\<close> on: the calls a client may make as an inductive relation, and
  what holds in every state that they lead to.
\<close>

section \<open>A new channel\<close>

primrec init_servers :: "generation \<Rightarrow> server_state list \<Rightarrow> server_state list" where
  "init_servers g [] = []"
| "init_servers g (s # ss) =
     s\<lparr>s_udp_socket := None, s_tcp_socket := None, s_generation := g + 1, s_tcp_lenbuf := [],
       s_tcp_buffer := None, s_tcp_length := 0, s_queue := [], s_queries := [], s_is_broken := False\<rparr>
     # init_servers (g + 1) ss"

definition ares__init_servers_state :: "channel \<Rightarrow> channel" where
  "ares__init_servers_state c =
     c\<lparr>c_servers := init_servers (c_generation c) (c_servers c),
       c_generation := c_generation c + of_nat (nservers c)\<rparr>"

text \<open>What \<^verbatim>\<open>ares_init_options\<close> starts from, with the configuration that it finds; the servers are
  memory in which only the address is set.\<close>

definition new_channel ::
  "nat \<Rightarrow> int \<Rightarrow> int \<Rightarrow> bool \<Rightarrow> server_state list \<Rightarrow> timeval \<Rightarrow> channel" where
  "new_channel flags timeout tries rot servers now =
     ares__init_servers_state
       \<lparr>c_flags = flags, c_timeout = timeout, c_tries = tries, c_rotate = rot, c_servers = servers,
        c_generation = 0, c_last_timeout_processed = tv_sec now, c_last_server = 0, c_all_queries = [],
        c_queries_by_qid = \<lambda>_. [], c_queries_by_timeout = \<lambda>_. [], c_heap = \<lambda>_. None, c_free = 0,
        c_stolen = [], c_recvs = [], c_ticks = 0, c_log = []\<rparr>"

text \<open>A configuration whose longest waiting time, with the random part, fits into an \<^verbatim>\<open>int\<close>, and whose
  number of attempts does.\<close>

definition config_fits :: "int \<Rightarrow> int \<Rightarrow> server_state list \<Rightarrow> timeval \<Rightarrow> bool" where
  "config_fits timeout tries servers now \<longleftrightarrow>
     servers \<noteq> [] \<and> 0 < tv_sec now \<and> 0 \<le> timeout \<and> tries < 32 \<and> timeout * 2 ^ nat tries * 16 < 2 ^ 31 \<and>
     fits_int (int (length servers) * tries)"

lemma length_init_servers [simp]: "length (init_servers g ss) = length ss"
  by (induction ss arbitrary: g) auto

lemma init_servers_ok:
  "s \<in> set (init_servers g ss) \<Longrightarrow> server_ok h s"
  by (induction ss arbitrary: g) (auto simp: server_ok_def input_ok_def)

lemma new_channel_ok:
  "config_fits timeout tries servers now \<Longrightarrow> chan_ok {} (new_channel flags timeout tries rot servers now)"
  by (auto simp: config_fits_def new_channel_def ares__init_servers_state_def chan_ok_def config_ok_def
      heap_ok_def qids_ok_def timers_ok_def placed_def log_ok_def callbacks_def init_servers_ok)

section \<open>Sending\<close>

lemma server_ok_new: "server_ok h s \<Longrightarrow> h q = None \<Longrightarrow> server_ok (h(q \<mapsto> x)) s"
  unfolding server_ok_def request_ok_def by (fastforce split: option.splits)

lemma placed_new: "placed {} h qss \<Longrightarrow> placed {q} (h(q \<mapsto> x)) qss"
  by (simp add: placed_def)

lemma chan_ok_new:
  assumes ok: "chan_ok {} c"
    and d: "d = c\<lparr>c_heap := (c_heap c)(c_free c \<mapsto> x), c_free := c_free c + 1, c_ticks := n,
        c_last_server := k, c_all_queries := c_all_queries c @ [c_free c],
        c_queries_by_qid := insert_bucket (qid_bucket (q_qid x)) (c_free c) (c_queries_by_qid c)\<rparr>"
    and x: "query_ok (nservers c) x" "k < nservers c"
  shows "chan_ok {c_free c} d"
proof -
  let ?q = "c_free c"
  have none: "c_heap c ?q = None"
    using ok by (cases "c_heap c ?q") (auto simp: chan_ok_def heap_ok_def)
  then have "?q \<notin> dom (c_heap c)" by auto
  moreover have "set (c_all_queries c) = dom (c_heap c)" using ok by (simp add: chan_ok_def heap_ok_def)
  ultimately have fresh: "?q \<notin> set (c_all_queries c)" "?q \<notin> set (c_queries_by_qid c b)" for b
    using ok none by (auto simp: chan_ok_def qids_ok_def)
  have "config_ok d" using ok x by (simp add: chan_ok_def config_ok_def d)
  moreover have "heap_ok {?q} (nservers d) (c_tries d) (c_free d) (c_all_queries d) (c_heap d)"
    using ok fresh x(1) by (auto simp: chan_ok_def heap_ok_def d less_Suc_eq)
  moreover have "qids_ok (c_heap d) (c_queries_by_qid d)"
    using ok none fresh(2) by (auto simp: chan_ok_def qids_ok_def d insert_bucket_def)
  moreover have "timers_ok {?q} (c_last_timeout_processed d) (c_heap d) (c_queries_by_timeout d)"
    using ok by (auto simp: chan_ok_def timers_ok_def d)
  moreover have "placed {?q} (c_heap d) (map s_queries (c_servers d))"
    using ok by (simp add: chan_ok_def d placed_new)
  moreover have "\<forall>s \<in> set (c_servers d). server_ok (c_heap d) s"
    using ok none by (simp add: chan_ok_def d server_ok_new)
  moreover have "log_ok (c_free d) (c_heap d) (c_log d)"
    using ok by (auto simp: chan_ok_def log_ok_def d less_Suc_eq)
  moreover have "c_stolen d = []" using ok by (simp add: chan_ok_def d)
  ultimately show ?thesis by (simp add: chan_ok_def)
qed

lemma HEADER_QID_Some: "HFIXEDSZ \<le> length abuf \<Longrightarrow> \<exists>qid. DNS_HEADER_QID abuf 0 = Some qid"
  by (cases abuf; cases "tl abuf") (simp_all add: DNS_HEADER_QID_def DNS__16BIT_def HFIXEDSZ_def rd_def)

text \<open>Sending a query leaves the other queries alone.\<close>

definition sends :: "channel \<Rightarrow> channel \<Rightarrow> bool" where
  "sends c d \<longleftrightarrow> chan_ok {} d \<and> nservers d = nservers c \<and> c_tries d = c_tries c \<and> c_free c \<le> c_free d \<and>
     (\<forall>q < c_free c. c_heap d q = c_heap c q)"

lemma sends_refused: "chan_ok {} c \<Longrightarrow> sends c (log_event (Refused a st) c)"
  "chan_ok {} c \<Longrightarrow> sends c (log_event (Refused a st) (tick c))"
  "chan_ok {} c \<Longrightarrow> sends c (log_event (Refused a st) (tick (tick c)))"
  "chan_ok {} c \<Longrightarrow> sends c (log_event (Refused a st) (tick (tick (tick c))))"
  by (simp_all add: sends_def chan_ok_log) (simp_all add: tick_def log_event_def)

text \<open>The query that is sent carries the bytes that it was given.\<close>

definition carries :: "buffer \<Rightarrow> query option \<Rightarrow> bool" where
  "carries qbuf x \<longleftrightarrow>
     (\<forall>y. x = Some y \<longrightarrow> q_qbuf y = qbuf \<and> DNS_HEADER_QID qbuf 0 = Some (q_qid y))"

lemma ares_send_carries:
  assumes ok: "chan_ok {} c" and now: "c_last_timeout_processed c \<le> tv_sec now"
  shows "no_crash (ares_send w now qbuf a c) (\<lambda>d. sends c d \<and> carries qbuf (c_heap d (c_free c)))"
proof (cases "length qbuf < HFIXEDSZ \<or> length qbuf \<ge> 2 ^ 16 \<or> \<not> w_alloc w (c_ticks c) \<or>
    \<not> w_alloc w (c_ticks c + 1) \<or> \<not> w_alloc w (c_ticks c + 2)")
  case True
  have "c_heap c (c_free c) = None"
    using ok by (cases "c_heap c (c_free c)") (auto simp: chan_ok_def heap_ok_def)
  with True show ?thesis using sends_refused [OF ok] by (auto simp: ares_send_def no_crash_def carries_def)
next
  case False
  then obtain qid where qid: "DNS_HEADER_QID qbuf 0 = Some qid" using HEADER_QID_Some [of qbuf] by auto
  let ?q = "c_free c" and ?x = "new_query c qbuf qid a"
  have n: "0 < nservers c" "c_last_server c < nservers c" using ok by (simp_all add: chan_ok_def config_ok_def)
  define k where "k = (if c_rotate c then (c_last_server c + 1) mod nservers c else c_last_server c)"
  define d where "d = c\<lparr>c_heap := (c_heap c)(?q \<mapsto> ?x), c_free := ?q + 1, c_ticks := c_ticks c + 3,
      c_last_server := k, c_all_queries := c_all_queries c @ [?q],
      c_queries_by_qid := insert_bucket (qid_bucket (q_qid ?x)) ?q (c_queries_by_qid c)\<rparr>"
  have run: "ares_send w now qbuf a c = ares__send_query w ?q now d"
    using False qid n by (auto simp: ares_send_def d_def k_def new_query_def Let_def)
  have "query_ok (nservers c) ?x" "k < nservers c"
    using n by (simp_all add: query_ok_def new_query_def k_def)
  then have dok: "chan_ok {?q} d" by (intro chan_ok_new [OF ok d_def])
  have "c_heap d ?q = Some ?x" "attempts_ok (nservers d) (c_tries d) ?x"
    by (simp_all add: d_def attempts_ok_def new_query_def)
  from send_query_ok [OF dok _ this, of now w] now obtain e
    where e: "ares__send_query w ?q now d = Some e" "chan_ok {} e" "only ?q d e"
      "resent now ?x (c_heap e ?q) \<or> retried now ?x (c_heap e ?q)"
    by (auto simp: no_crash_def d_def)
  have "sends c e"
    using e(2,3) settings_eqD [of e d] by (auto simp: sends_def only_def d_def)
  moreover have "carries qbuf (c_heap e ?q)"
    using e(4) qid by (auto simp: carries_def resent_def retried_def new_query_def q_qbuf_def word16_def)
  ultimately show ?thesis by (simp add: run e(1) no_crash_def)
qed

lemma ares_send_ok:
  assumes "chan_ok {} c" "c_last_timeout_processed c \<le> tv_sec now"
  shows "no_crash (ares_send w now qbuf a c) (sends c)"
  using ares_send_carries [OF assms, of w qbuf a] by (auto simp: no_crash_def)

section \<open>Cancelling\<close>

text \<open>\<^verbatim>\<open>ares_cancel\<close> frees the queries while requests still point to them.  It makes no difference
  when the queues are emptied before, as long as they are empty at the end.\<close>

definition emptied :: "channel \<Rightarrow> channel" where
  "emptied c = c\<lparr>c_servers := map (\<lambda>s. s\<lparr>s_queue := []\<rparr>) (c_servers c)\<rparr>"

lemma emptied_simps [simp]:
  "c_heap (emptied c) = c_heap c" "c_all_queries (emptied c) = c_all_queries c"
  "c_queries_by_qid (emptied c) = c_queries_by_qid c" "c_queries_by_timeout (emptied c) = c_queries_by_timeout c"
  "emptied (log_event e c) = log_event e (emptied c)" "nservers (emptied c) = nservers c"
  "settings (emptied c) = settings c" "emptied (emptied c) = emptied c"
  by (simp_all add: emptied_def log_event_def settings_def)

definition no_requests :: "channel \<Rightarrow> bool" where
  "no_requests c \<longleftrightarrow> (\<forall>s \<in> set (c_servers c). s_queue s = [])"

lemma no_requests_emptied: "no_requests (emptied c)" "no_requests c \<Longrightarrow> emptied c = c"
  by (simp_all add: emptied_def no_requests_def map_idI)

lemma server_ok_emptied: "server_ok h s \<Longrightarrow> server_ok h (s\<lparr>s_queue := []\<rparr>)"
  by (auto simp: server_ok_def input_ok_def split: option.splits)

lemma emptied_ok: "chan_ok X c \<Longrightarrow> chan_ok X (emptied c)"
  by (auto simp: chan_ok_def config_ok_def emptied_def comp_def server_ok_emptied)

lemma free_query_requests: "ares__free_query q c = Some d \<Longrightarrow> no_requests c \<Longrightarrow> no_requests d"
  by (cases "c_heap c q") (auto simp: ares__free_query_def Let_def remove_from_server_def no_requests_def)

lemma free_query_emptied:
  "ares__free_query q (emptied c) = map_option emptied (ares__free_query q c)"
  by (cases "c_heap c q")
    (simp_all add: ares__free_query_def Let_def remove_from_server_def emptied_def comp_def)

lemma cancel_queries_emptied:
  "cancel_queries qs (emptied c) = map_option emptied (cancel_queries qs c)"
proof (induction qs arbitrary: c)
  case (Cons q qs)
  show ?case
  proof (cases "c_heap c q")
    case (Some x)
    let ?c = "log_event (Callback q (q_arg x) ARES_ECANCELLED 0 None) c"
    have "ares__free_query q (log_event (Callback q (q_arg x) ARES_ECANCELLED 0 None) (emptied c)) =
        map_option emptied (ares__free_query q ?c)"
      using free_query_emptied [of q ?c] by simp
    with Some Cons show ?thesis by (cases "ares__free_query q ?c") simp_all
  qed simp
qed simp

lemma cancel_queries_ok:
  assumes "chan_ok {} c" "no_requests c" "distinct qs" "set qs = dom (c_heap c)"
  shows "no_crash (cancel_queries qs c) (\<lambda>d. chan_ok {} d \<and> settings d = settings c \<and>
    no_requests d \<and> c_heap d = (\<lambda>_. None))"
  using assms
proof (induction qs arbitrary: c)
  case Nil
  then show ?case by (auto simp: no_crash_def)
next
  case (Cons q qs)
  then obtain x where x: "c_heap c q = Some x" by (auto simp: set_eq_iff)
  let ?e = "Callback q (q_arg x) ARES_ECANCELLED 0 None"
  have free: "\<forall>j < nservers c. free_of q (c_servers c ! j)"
    using Cons.prems(2) by (simp add: no_requests_def free_of_def)
  have none: "no_requests (log_event ?e c)" using Cons.prems(2) by (simp add: no_requests_def)
  from free_query_ok [OF Cons.prems(1) x free refl, of "q_arg x" ARES_ECANCELLED 0 None] obtain d
    where d: "ares__free_query q (log_event ?e c) = Some d" "chan_ok {} d" "only q c d" "c_heap d q = None"
    by (auto simp: no_crash_def)
  have "c_heap d = (c_heap c)(q := None)" using d(3,4) by (auto simp: only_def)
  then have "set qs = dom (c_heap d)" using Cons.prems(3,4) by auto
  from Cons.IH [OF d(2) free_query_requests [OF d(1) none] _ this] Cons.prems(3) x d(1,3)
  show ?case by (auto simp: no_crash_def only_def)
qed

text \<open>What closing the sockets of a server comes to.\<close>

definition closed_server :: "generation \<Rightarrow> server_state \<Rightarrow> server_state" where
  "closed_server g s = s\<lparr>s_queue := [], s_tcp_buffer := None, s_tcp_lenbuf := [], s_is_broken := False,
     s_tcp_socket := None, s_udp_socket := None,
     s_generation := if s_tcp_socket s = None then s_generation s else g + 1\<rparr>"

definition close_events :: "sock option \<Rightarrow> event list" where
  "close_events k = (case k of None \<Rightarrow> [] | Some k \<Rightarrow> [Sock_state (Some k) False False])"

lemma close_sockets_eq:
  assumes "i < nservers c"
  shows "ares__close_sockets i c =
    (let s = c_servers c ! i
     in Some (c\<lparr>c_log := c_log c @ close_events (s_tcp_socket s) @ close_events (s_udp_socket s),
          c_generation := if s_tcp_socket s = None then c_generation c else c_generation c + 1,
          c_servers := (c_servers c)[i := closed_server (c_generation c) s]\<rparr>))"
proof -
  obtain s where s: "c_servers c ! i = s" by blast
  show ?thesis
    by (cases s; cases c; cases "s_tcp_socket s"; cases "s_udp_socket s")
      (use s assms in \<open>simp_all add: ares__close_sockets_def Let_def upd_server_def server_at_def
         close_socket_def log_event_def closed_server_def close_events_def\<close>)
qed

lemma close_sockets_emptied:
  assumes "i < nservers c" "ares__close_sockets i c = Some d"
  shows "ares__close_sockets i (emptied c) = Some (emptied d)" "nservers d = nservers c"
    "s_queue (c_servers d ! i) = []" "j < i \<Longrightarrow> c_servers d ! j = c_servers c ! j"
proof -
  have "closed_server g (s\<lparr>s_queue := []\<rparr>) = closed_server g s" "(closed_server g s)\<lparr>s_queue := []\<rparr> = closed_server g s"
    for g s by (simp_all add: closed_server_def)
  then show "ares__close_sockets i (emptied c) = Some (emptied d)"
    using assms by (simp add: close_sockets_eq Let_def emptied_def map_update) (auto simp: map_update)
  show "nservers d = nservers c" "s_queue (c_servers d ! i) = []" "j < i \<Longrightarrow> c_servers d ! j = c_servers c ! j"
    using assms by (auto simp: close_sockets_eq Let_def closed_server_def)
qed

lemma close_sockets_Some: "i < nservers c \<Longrightarrow> \<exists>d. ares__close_sockets i c = Some d"
  by (simp add: close_sockets_eq Let_def)

lemma close_all_requests:
  assumes "chan_ok X (emptied c)"
  shows "no_crash (close_all c) (\<lambda>d. steady X (emptied c) d \<and> no_requests d)"
proof -
  have "no_crash (for_servers [0..<nservers c] ares__close_sockets c)
      (\<lambda>d. steady X (emptied c) (emptied d) \<and> nservers d = nservers c \<and>
        (\<forall>j < nservers c. s_queue (c_servers d ! j) = []))"
  proof (rule for_servers_upto [where I = "\<lambda>i d. steady X (emptied c) (emptied d) \<and> nservers d = nservers c \<and>
        (\<forall>j < i. s_queue (c_servers d ! j) = [])"])
    fix i d
    assume i: "i < nservers c" and d: "steady X (emptied c) (emptied d) \<and> nservers d = nservers c \<and>
        (\<forall>j < i. s_queue (c_servers d ! j) = [])"
    then obtain e where e: "ares__close_sockets i d = Some e" using close_sockets_Some [of i d] by auto
    have "i < nservers d" using i d by simp
    note c = close_sockets_emptied [OF this e]
    have "steady X (emptied d) (emptied e)"
      using close_sockets_ok [of X "emptied d" i] c(1) steadyD(1) [of X "emptied c" "emptied d"] i d
      by (auto simp: no_crash_def)
    then have "steady X (emptied c) (emptied e)" using d steady_trans by blast
    then show "no_crash (ares__close_sockets i d) (\<lambda>d. steady X (emptied c) (emptied d) \<and>
        nservers d = nservers c \<and> (\<forall>j < Suc i. s_queue (c_servers d ! j) = []))"
      using e c(2-4) d by (auto simp: no_crash_def less_Suc_eq)
  qed (use assms in \<open>simp add: steady_refl\<close>)
  then obtain d where d: "close_all c = Some d" "steady X (emptied c) (emptied d)" "nservers d = nservers c"
    "\<forall>j < nservers c. s_queue (c_servers d ! j) = []"
    by (auto simp: close_all_def no_crash_def)
  then have "no_requests d" by (auto simp: no_requests_def in_set_conv_nth)
  with d(1,2) show ?thesis by (simp add: no_crash_def no_requests_emptied)
qed

lemma no_queries_left:
  assumes "chan_ok X d" "c_heap d = (\<lambda>_. None)"
  shows "c_all_queries d = []" "c_queries_by_qid d b = []" "c_queries_by_timeout d b = []"
  using assms by (auto simp: chan_ok_def heap_ok_def qids_ok_def timers_ok_def)

lemma cancel_run:
  assumes ok: "chan_ok {} c"
  obtains e where "cancel_queries (c_all_queries c) c = Some e" "chan_ok {} (emptied e)"
    "settings e = settings c" "c_heap e = (\<lambda>_. None)"
    "ares_cancel c = (if has_flag c ARES_FLAG_STAYOPEN then Some e else close_all e)"
proof -
  have "distinct (c_all_queries c)" "set (c_all_queries c) = dom (c_heap (emptied c))"
    using ok by (simp_all add: chan_ok_def heap_ok_def)
  from cancel_queries_ok [OF emptied_ok [OF ok] no_requests_emptied(1) this] obtain e where
    e: "cancel_queries (c_all_queries c) c = Some e" "chan_ok {} (emptied e)" "settings e = settings c"
      "c_heap e = (\<lambda>_. None)"
    by (auto simp: no_crash_def cancel_queries_emptied)
  have "has_flag e f = has_flag c f" for f using settings_eqD(4) [OF e(3)] by (simp add: has_flag_def)
  then have "ares_cancel c = (if has_flag c ARES_FLAG_STAYOPEN then Some e else close_all e)"
    using e(1) no_queries_left [OF e(2), simplified, OF e(4)] by (simp add: ares_cancel_def)
  with e that show thesis by blast
qed

lemma ares_cancel_ok:
  assumes ok: "chan_ok {} c" and safe: "\<not> has_flag c ARES_FLAG_STAYOPEN \<or> no_requests c"
  shows "no_crash (ares_cancel c) (\<lambda>d. chan_ok {} d \<and> settings d = settings c \<and> c_heap d = (\<lambda>_. None))"
proof -
  from cancel_run [OF ok] obtain e where e: "cancel_queries (c_all_queries c) c = Some e" "chan_ok {} (emptied e)"
    "settings e = settings c" "c_heap e = (\<lambda>_. None)"
    "ares_cancel c = (if has_flag c ARES_FLAG_STAYOPEN then Some e else close_all e)" .
  show ?thesis
  proof (cases "has_flag c ARES_FLAG_STAYOPEN")
    case True
    with safe have c: "no_requests c" by simp
    then have "emptied e = e"
      using cancel_queries_emptied [of "c_all_queries c" c] no_requests_emptied(2) [OF c] e(1) by simp
    with e True show ?thesis by (simp add: no_crash_def)
  next
    case False
    from close_all_requests [OF e(2)] obtain d
      where d: "close_all e = Some d" "steady {} (emptied e) d" by (auto simp: no_crash_def)
    with steadyD [OF d(2)] quietD(1) [of "emptied e" d] e False
    show ?thesis by (simp add: no_crash_def)
  qed
qed

text \<open>The sockets and what waits to be sent on them stay as they are while queries are freed.\<close>

definition connections :: "channel \<Rightarrow> (sock option \<times> bool \<times> send_request list) list" where
  "connections c = map (\<lambda>s. (s_tcp_socket s, s_is_broken s, s_queue s)) (c_servers c)"

lemma connections_eq:
  assumes "connections d = connections c" "i < nservers c"
  shows "s_tcp_socket (c_servers d ! i) = s_tcp_socket (c_servers c ! i)"
    "s_is_broken (c_servers d ! i) = s_is_broken (c_servers c ! i)"
    "s_queue (c_servers d ! i) = s_queue (c_servers c ! i)" "nservers d = nservers c"
proof -
  show n: "nservers d = nservers c" using assms(1) unfolding connections_def by (rule map_eq_imp_length_eq)
  have "connections d ! i = connections c ! i" using assms(1) by simp
  then show "s_tcp_socket (c_servers d ! i) = s_tcp_socket (c_servers c ! i)"
    "s_is_broken (c_servers d ! i) = s_is_broken (c_servers c ! i)"
    "s_queue (c_servers d ! i) = s_queue (c_servers c ! i)"
    using n assms(2) by (simp_all add: connections_def)
qed

lemma cancel_connections: "cancel_queries qs c = Some d \<Longrightarrow> connections d = connections c"
proof (induction qs arbitrary: c)
  case (Cons q qs)
  then obtain x where "c_heap c q = Some x" by (cases "c_heap c q") auto
  with Cons show ?case
    by (fastforce simp: ares__free_query_def Let_def remove_from_server_def connections_def comp_def)
qed simp

section \<open>Sessions\<close>

text \<open>The calls of a client whose clock does not go back.  Packets that arrive are in \<open>c_recvs\<close>;
  a call of \<^verbatim>\<open>ares_cancel\<close> that would leave requests to freed queries is not among them.\<close>

inductive ares_step :: "channel \<Rightarrow> channel \<Rightarrow> bool" where
  step_send: "c_last_timeout_processed c \<le> tv_sec now \<Longrightarrow> ares_send w now qbuf a c = Some d \<Longrightarrow> ares_step c d"
| step_process: "c_last_timeout_processed c \<le> tv_sec now \<Longrightarrow>
    ares_process w now rfds wfds (c\<lparr>c_recvs := ps\<rparr>) = Some d \<Longrightarrow> ares_step c d"
| step_process_fd: "c_last_timeout_processed c \<le> tv_sec now \<Longrightarrow>
    ares_process_fd w now rfd wfd (c\<lparr>c_recvs := ps\<rparr>) = Some d \<Longrightarrow> ares_step c d"
| step_cancel: "\<not> has_flag c ARES_FLAG_STAYOPEN \<or> no_requests c \<Longrightarrow> ares_cancel c = Some d \<Longrightarrow> ares_step c d"

inductive channel_at :: "channel \<Rightarrow> bool" where
  channel_new: "config_fits timeout tries servers now \<Longrightarrow>
    channel_at (new_channel flags timeout tries rot servers now)"
| channel_step: "channel_at c \<Longrightarrow> ares_step c d \<Longrightarrow> channel_at d"

text \<open>A query does not gain lives.\<close>

definition ages :: "address \<Rightarrow> channel \<Rightarrow> channel \<Rightarrow> bool" where
  "ages q c d \<longleftrightarrow> chan_ok {} d \<and> nservers d = nservers c \<and> c_tries d = c_tries c \<and> c_free c \<le> c_free d \<and>
     (q < c_free c \<longrightarrow> lives d q \<le> lives c q)"

lemma ages_trans: "ages q c d \<Longrightarrow> ages q d e \<Longrightarrow> ages q c e"
  by (auto simp: ages_def)

lemma sends_ages: "sends c d \<Longrightarrow> ages q c d"
  by (auto simp: sends_def ages_def lives_def split: option.split)

lemma processfds_ages:
  assumes ok: "chan_ok {} c" and now: "c_last_timeout_processed c \<le> tv_sec now"
    and run: "processfds w now rfds wfds (c\<lparr>c_recvs := ps\<rparr>) = Some d"
  shows "ages q c d" "c_heap c q = Some x \<Longrightarrow> query_timed_out now x \<Longrightarrow> lives d q < lives c q"
proof -
  let ?c = "c\<lparr>c_recvs := ps\<rparr>" and ?l = "c\<lparr>c_recvs := ps, c_last_timeout_processed := tv_sec now\<rparr>"
  have "chan_ok {} ?c" using ok by simp
  from processfds_ok [OF this, of now w rfds wfds] now run
  have d: "chan_ok {} d" "advances now ?l d" "settled_since now ?c d q" by (auto simp: no_crash_def)
  have nonneg: "0 \<le> q_try_count x" if "c_heap ?l q = Some x" for x
    using try_count_nonneg [OF ok] that by simp
  have "lives ?l q = lives c q" by (simp add: lives_def split: option.split)
  moreover have "settled now (c_heap ?l q) (c_heap d q)" using d(3) by (simp add: settled_since_def)
  ultimately have attempts: "lives d q \<le> lives c q"
    "c_heap c q = Some x \<Longrightarrow> query_timed_out now x \<Longrightarrow> lives d q < lives c q"
    using lives_carried_from(1) [OF _ d(1,2), of q] lives_carried_from(2) [OF _ d(1,2), of q x] nonneg
    by simp_all
  show "ages q c d" using d(1) advancesD [OF d(2)] attempts(1) by (simp add: ages_def)
  show "c_heap c q = Some x \<Longrightarrow> query_timed_out now x \<Longrightarrow> lives d q < lives c q" by (rule attempts(2))
qed

lemma cancel_ages:
  assumes "chan_ok {} c" "\<not> has_flag c ARES_FLAG_STAYOPEN \<or> no_requests c" "ares_cancel c = Some d"
  shows "ages q c d"
proof -
  from ares_cancel_ok [OF assms(1,2)] assms(3)
  have d: "chan_ok {} d" "settings d = settings c" "c_heap d = (\<lambda>_. None)" by (auto simp: no_crash_def)
  note s = settings_eqD [OF d(2)]
  show ?thesis using d s by (simp add: ages_def lives_def)
qed

lemma step_ages: "ares_step c d \<Longrightarrow> chan_ok {} c \<Longrightarrow> ages q c d"
proof (induction rule: ares_step.induct)
  case (step_send c now w qbuf a d)
  with ares_send_ok [of c now w qbuf a] show ?case by (auto simp: no_crash_def intro: sends_ages)
next
  case (step_process c now w rfds wfds ps d)
  then show ?case by (auto simp: ares_process_def intro: processfds_ages(1))
next
  case (step_process_fd c now w rfd wfd ps d)
  then show ?case by (auto simp: ares_process_fd_def intro: processfds_ages(1))
next
  case (step_cancel c d)
  then show ?case by (intro cancel_ages)
qed

lemma channel_at_ok: "channel_at c \<Longrightarrow> chan_ok {} c"
proof (induction rule: channel_at.induct)
  case (channel_step c d)
  from step_ages [OF channel_step.hyps(2) channel_step.IH] show ?case by (simp add: ages_def)
qed (rule new_channel_ok)

text \<open>Rounds of \<^verbatim>\<open>ares_process\<close> in which the query \<open>q\<close> has had its time, with anything in between.\<close>

inductive overdue_rounds :: "address \<Rightarrow> nat \<Rightarrow> channel \<Rightarrow> channel \<Rightarrow> bool" where
  rounds_none: "overdue_rounds q 0 c c"
| rounds_step: "overdue_rounds q n c d \<Longrightarrow> ares_step d e \<Longrightarrow> overdue_rounds q n c e"
| rounds_overdue: "overdue_rounds q n c d \<Longrightarrow> c_heap d q = Some x \<Longrightarrow> query_timed_out now x \<Longrightarrow>
    c_last_timeout_processed d \<le> tv_sec now \<Longrightarrow>
    ares_process w now rfds wfds (d\<lparr>c_recvs := ps\<rparr>) = Some e \<Longrightarrow> overdue_rounds q (n + 1) c e"

definition max_rounds :: "channel \<Rightarrow> nat" where
  "max_rounds c = nat (max 1 (int (nservers c) * c_tries c)) + 1"

lemma lives_bounds:
  assumes "chan_ok {} c"
  shows "lives c q \<le> nat (int (nservers c) * c_tries c) + 2"
    and "c_heap c q = Some x \<Longrightarrow> nat (int (nservers c) * c_tries c) + 2 \<le> lives c q + nat (max 1 (int (nservers c) * c_tries c))"
  using try_count_nonneg [OF assms, of q] attempts_okD [OF assms, of q]
  by (auto simp: lives_def attempts_ok_def split: option.split)

lemma rounds_bound:
  assumes "overdue_rounds q n c d" "chan_ok {} c" "q < c_free c"
  shows "ages q c d \<and> n \<le> max_rounds c \<and> n + lives d q \<le> nat (int (nservers c) * c_tries c) + 2"
  using assms
proof (induction rule: overdue_rounds.induct)
  case (rounds_none q c)
  then show ?case using lives_bounds(1) by (simp add: ages_def)
next
  case (rounds_step q n c d e)
  then have d: "ages q c d" "q < c_free d" by (auto simp: ages_def)
  then have "ages q d e" using step_ages [OF rounds_step.hyps(2)] by (simp add: ages_def)
  with rounds_step d ages_trans [OF d(1) this] show ?case by (auto simp: ages_def)
next
  case (rounds_overdue q n c d x now w rfds wfds ps e)
  then have d: "ages q c d" "chan_ok {} d" "n + lives d q \<le> nat (int (nservers c) * c_tries c) + 2"
    "nservers d = nservers c" "c_tries d = c_tries c"
    by (auto simp: ages_def)
  note run = processfds_ages [OF d(2) rounds_overdue.hyps(4) rounds_overdue.hyps(5) [unfolded ares_process_def]]
  have "lives e q < lives d q" using run(2) rounds_overdue.hyps(2,3) by blast
  moreover have "n \<le> nat (max 1 (int (nservers c) * c_tries c))"
    using lives_bounds(2) [OF d(2) rounds_overdue.hyps(2)] d(3-5) by simp
  ultimately show ?case using ages_trans [OF d(1) run(1)] d(3) by (simp add: max_rounds_def)
qed

section \<open>Answers\<close>

text \<open>The callback that ends a query stays in the log.\<close>

lemma close_all_logs:
  assumes "chan_ok X c" "e \<in> set (c_log c)"
  shows "no_crash (close_all c) (\<lambda>d. steady X c d \<and> e \<in> set (c_log d))"
  unfolding close_all_def
proof (rule for_servers_ok)
  fix i d assume i: "i \<in> set [0..<nservers c]" and d: "steady X c d \<and> e \<in> set (c_log d)"
  then have n: "i < nservers d" using steadyD(2) [of X c d] by simp
  with d close_sockets_ok [of X d i] show "no_crash (ares__close_sockets i d) (\<lambda>d. steady X c d \<and> e \<in> set (c_log d))"
    by (auto simp: steadyD no_crash_def close_sockets_eq Let_def intro: steady_trans)
qed (use assms in \<open>simp add: steady_refl\<close>)

lemma end_query_logs:
  assumes "chan_ok X c" "c_heap c q = Some x"
  shows "no_crash (end_query w q st abuf c) (\<lambda>d. c_heap d q = None \<and>
    Callback q (q_arg x) st (q_timeouts x) abuf \<in> set (c_log d))"
proof -
  let ?e = "Callback q (q_arg x) st (q_timeouts x) abuf"
  have "no_crash (for_servers [0..<nservers c] (release_server w q st) c)
      (\<lambda>e. steady X c e \<and> (\<forall>j < nservers c. free_of q (c_servers e ! j)))"
    by (rule for_servers_upto [where I = "\<lambda>i e. steady X c e \<and> (\<forall>j < i. free_of q (c_servers e ! j))"])
      (use assms(1) in \<open>auto intro: release_server_ok steady_refl\<close>)
  then obtain e where e: "for_servers [0..<nservers c] (release_server w q st) c = Some e" "steady X c e"
    "\<forall>j < nservers e. free_of q (c_servers e ! j)"
    by (auto simp: no_crash_def steadyD)
  then have x: "c_heap e q = Some x" using assms(2) by (simp add: steadyD)
  from free_query_ok [OF steadyD(1) [OF e(2)] x e(3) refl, of "q_arg x" st "q_timeouts x" abuf]
  obtain d where d: "ares__free_query q (log_event ?e e) = Some d" "chan_ok (X - {q}) d" "c_heap d q = None"
    by (auto simp: no_crash_def)
  have "?e \<in> set (c_log d)"
    using d(1) x by (auto simp: ares__free_query_def Let_def remove_from_server_def log_event_def)
  with close_all_logs [OF d(2) this] d e(1) x show ?thesis
    by (auto simp: end_query_def no_crash_def steadyD)
qed

lemma matching_query_finds:
  assumes "q \<in> set qs" "set qs \<subseteq> dom heap" "heap q = Some x" "DNS_HEADER_QID abuf 0 = Some (q_qid x)"
    and "\<And>n. same_questions (w_names w n) (q_qbuf x) abuf = Some True"
    and "\<And>r y. heap r = Some y \<Longrightarrow> r \<noteq> q \<Longrightarrow> \<not> answers w abuf y"
  shows "\<exists>k. matching_query w heap (q_qid x) abuf qs n = Some (Some q, k)"
  using assms(1,2)
proof (induction qs arbitrary: n)
  case (Cons r qs)
  then obtain y where y: "heap r = Some y" by auto
  show ?case
  proof (cases "r = q")
    case True
    then show ?thesis using assms(3,5) y by simp
  next
    case False
    then have "\<exists>k. matching_query w heap (q_qid x) abuf qs n = Some (Some q, k)" for n
      using Cons by simp
    moreover obtain b where "same_questions (w_names w n) (q_qbuf y) abuf = Some b"
      using same_questions_total by blast
    moreover from this have "q_qid y = q_qid x \<Longrightarrow> \<not> b"
      using assms(4) assms(6) [OF y False] by (cases b) (auto simp: answers_def)
    ultimately show ?thesis using y by auto
  qed
qed simp

section \<open>The properties\<close>

text \<open>
  C2: In every state that a client brings a channel to, the next call of \<^verbatim>\<open>ares_send\<close>,
  \<^verbatim>\<open>ares_process\<close> or \<^verbatim>\<open>ares_process_fd\<close> returns, whatever the network, the allocator and the bytes
  that arrive are: no freed query is used, no buffer is left, no assertion fails and no loop goes on
  for ever.  Nor does an \<^verbatim>\<open>int\<close> overflow in the waiting time or in the numbers of attempts and timeouts of
  a query; the clock and the counter of connections are not in question here.  So does
  \<^verbatim>\<open>ares_cancel\<close>, when it closes the sockets or nothing waits to be sent.
\<close>

theorem channel_safe:
  assumes "channel_at c" "c_last_timeout_processed c \<le> tv_sec now"
  shows "ares_send w now qbuf a c \<noteq> None \<and>
    ares_process w now rfds wfds (c\<lparr>c_recvs := ps\<rparr>) \<noteq> None \<and>
    ares_process_fd w now rfd wfd (c\<lparr>c_recvs := ps\<rparr>) \<noteq> None \<and>
    ((\<not> has_flag c ARES_FLAG_STAYOPEN \<or> no_requests c) \<longrightarrow> ares_cancel c \<noteq> None)"
proof -
  note ok = channel_at_ok [OF assms(1)]
  then have "chan_ok {} (c\<lparr>c_recvs := ps\<rparr>)" by simp
  then have "processfds w now rs ws (c\<lparr>c_recvs := ps\<rparr>) \<noteq> None" for rs ws
    using processfds_ok [of "c\<lparr>c_recvs := ps\<rparr>" now w rs ws] assms(2) by (auto simp: no_crash_def)
  moreover have "ares_send w now qbuf a c \<noteq> None"
    using ares_send_ok [OF ok assms(2), of w qbuf a] by (auto simp: no_crash_def)
  ultimately show ?thesis
    using ares_cancel_ok [OF ok] by (auto simp: no_crash_def ares_process_def ares_process_fd_def)
qed

text \<open>
  C4: A query that is under way is on the lists through which it is looked for, that of its
  identifier, of its time and of its server, and on no others, and its callback has not been called.
  A query that is over is on no list, and its callback has been called once.
\<close>

theorem query_once:
  assumes "channel_at c"
  shows "case c_heap c q of
      Some x \<Rightarrow> callbacks q (c_log c) = 0 \<and> q \<in> set (c_all_queries c) \<and>
        (\<forall>b. q \<in> set (c_queries_by_qid c b) \<longleftrightarrow> b = qid_bucket (q_qid x)) \<and>
        (\<forall>b. q \<in> set (c_queries_by_timeout c b) \<longleftrightarrow> Some b = timeout_bucket (tv_sec (q_timeout x))) \<and>
        (\<forall>i < nservers c. q \<in> set (s_queries (c_servers c ! i)) \<longleftrightarrow> i = q_server x)
    | None \<Rightarrow> callbacks q (c_log c) = (if q < c_free c then 1 else 0) \<and> q \<notin> set (c_all_queries c) \<and>
        (\<forall>b. q \<notin> set (c_queries_by_qid c b) \<and> q \<notin> set (c_queries_by_timeout c b)) \<and>
        (\<forall>i < nservers c. q \<notin> set (s_queries (c_servers c ! i)))"
proof (cases "c_heap c q")
  case None
  then show ?thesis using channel_at_ok [OF assms]
    by (fastforce simp: chan_ok_def log_ok_def heap_ok_def qids_ok_def timers_ok_def server_ok_def)
next
  case (Some x)
  then show ?thesis using channel_at_ok [OF assms]
    by (auto simp: chan_ok_def log_ok_def heap_ok_def qids_ok_def timers_ok_def placed_def)
qed

text \<open>
  C5: A query does not stay for ever: when \<^verbatim>\<open>ares_process\<close> has been called once more than there are
  attempts to make, each time after the query had its time, it is over and its callback has been
  called, whatever happened in between.
\<close>

theorem query_ends:
  assumes "channel_at c" "q < c_free c" "overdue_rounds q n c d"
  shows "n \<le> max_rounds c \<and> (n = max_rounds c \<longrightarrow> c_heap d q = None \<and> callbacks q (c_log d) = 1)"
proof -
  note b = rounds_bound [OF assms(3) channel_at_ok [OF assms(1)] assms(2)]
  then have d: "chan_ok {} d" "q < c_free d" "nservers d = nservers c" "c_tries d = c_tries c"
    using assms(2) by (auto simp: ages_def)
  have "c_heap d q = None" if "n = max_rounds c"
    using lives_bounds(2) [OF d(1), of q] b that d(3,4) by (cases "c_heap d q") (auto simp: max_rounds_def)
  with b d(1,2) show ?thesis by (auto simp: chan_ok_def log_ok_def)
qed

text \<open>
  C27: With \<^verbatim>\<open>ARES_FLAG_STAYOPEN\<close>, \<^verbatim>\<open>ares_cancel\<close> frees queries but not the requests that wait to be sent
  and point into them: when the connection gets ready, \<^verbatim>\<open>ares_process\<close> reads freed memory.
\<close>

theorem cancel_dangling:
  assumes "channel_at c" "has_flag c ARES_FLAG_STAYOPEN"
    and "s_tcp_socket (c_servers c ! 0) = Some k" "k \<in> set wfds" "\<not> s_is_broken (c_servers c ! 0)"
    and "s_queue (c_servers c ! 0) = r # rs" "r_owner_query r \<noteq> None"
  shows "\<exists>d. ares_cancel c = Some d \<and> ares_process w now rfds (Some wfds) d = None"
proof -
  note ok = channel_at_ok [OF assms(1)]
  from cancel_run [OF ok] assms(2) obtain d
    where d: "ares_cancel c = Some d" "cancel_queries (c_all_queries c) c = Some d" "c_heap d = (\<lambda>_. None)"
    by auto
  have n: "0 < nservers c" using ok by (simp add: chan_ok_def config_ok_def)
  note e = connections_eq [OF cancel_connections [OF d(2)] n]
  have "request_ok (c_heap c) (s_is_broken (c_servers c ! 0)) r"
    using server_okD [OF ok n] assms(6) by (simp add: server_ok_def)
  then obtain q k where "r_data r = In_query q k"
    using assms(7) by (auto simp: request_ok_def)
  then have "request_bytes (\<lambda>_. None) r = None" by (simp add: request_bytes_def Let_def)
  then have "write_server w now 0 (Fd_set wfds, d) = None"
    using assms(3-6) e n by (simp add: write_server_def d(3) selected_def)
  moreover have "[0..<nservers d] = 0 # [1..<nservers d]" using e(4) n by (simp add: upt_conv_Cons)
  ultimately have "write_tcp_data w now (Fd_set wfds) d = None" by (simp add: write_tcp_data_def)
  with d(1) show ?thesis by (auto simp: ares_process_def processfds_def fds_of_def)
qed

text \<open>
  C7: A message from a server, whatever bytes it has, does nothing to the queries that it does not
  answer: those with another identifier or other questions.
\<close>

theorem answer_only_matching:
  assumes "channel_at c" "i < nservers c" "c_last_timeout_processed c \<le> tv_sec now"
    and "c_heap c q = Some x" "\<not> answers w abuf x"
  shows "\<exists>d. process_answer w now i tcp abuf c = Some d \<and> c_heap d q = Some x"
  using process_answer_answered [OF channel_at_ok [OF assms(1)] assms(2,3), of w abuf tcp] unfolding answered_def
proof (elim disjE exE conjE)
  fix q' x'
  assume q': "c_heap c q' = Some x'" "answers w abuf x'"
    and "tends now q' c (process_answer w now i tcp abuf c)"
  moreover have "q' \<noteq> q" using q' assms(4,5) by auto
  ultimately show ?thesis using assms(4) by (auto simp: tends_def no_crash_def only_def)
qed (use assms(4) in \<open>simp add: quiet_def\<close>)

text \<open>
  C8: A whole answer without an error, with the identifier and the questions of one query, is
  delivered: the query is over and its callback gets the bytes.
\<close>

theorem answer_delivered:
  assumes "channel_at c" "c_heap c q = Some x"
    and "DNS_HEADER_QID abuf 0 = Some (q_qid x)" "\<forall>n. same_questions (w_names w n) (q_qbuf x) abuf = Some True"
    and "\<forall>r y. c_heap c r = Some y \<and> r \<noteq> q \<longrightarrow> \<not> answers w abuf y"
    and "HFIXEDSZ \<le> length abuf" "length abuf \<le> PACKETSZ" "DNS_HEADER_TC abuf 0 = Some False"
    and "DNS_HEADER_RCODE abuf 0 = Some rcode" "rcode \<notin> {SERVFAIL, NOTIMP, REFUSED}"
  shows "\<exists>d. process_answer w now i tcp abuf c = Some d \<and> c_heap d q = None \<and>
    Callback q (q_arg x) ARES_SUCCESS (q_timeouts x) (Some abuf) \<in> set (c_log d)"
proof -
  note ok = channel_at_ok [OF assms(1)]
  let ?qs = "c_queries_by_qid c (qid_bucket (q_qid x))"
  have "q \<in> set ?qs" "set ?qs \<subseteq> dom (c_heap c)"
    using ok assms(2) by (auto simp: chan_ok_def qids_ok_def)
  from matching_query_finds [OF this assms(2,3)] assms(4,5) obtain n
    where n: "matching_query w (c_heap c) (q_qid x) abuf ?qs (c_ticks c) = Some (Some q, n)" by blast
  have "chan_ok {} (c\<lparr>c_ticks := n\<rparr>)" "c_heap (c\<lparr>c_ticks := n\<rparr>) q = Some x" using ok assms(2) by simp_all
  from end_query_logs [OF this, of w ARES_SUCCESS "Some abuf"] show ?thesis
    using assms(2,3,6-10) n by (auto simp: process_answer_def no_crash_def Let_def)
qed

section \<open>Examples\<close>

definition sample_server :: server_state where
  "sample_server = \<lparr>s_addr = \<lparr>ad_family = AF_INET, ad_bytes = [10, 0, 0, 1]\<rparr>, s_udp_socket = None,
     s_tcp_socket = None, s_tcp_lenbuf = [], s_tcp_length = 0, s_tcp_buffer = None, s_queue = [],
     s_generation = 0, s_queries = [], s_is_broken = False\<rparr>"

definition sample_world :: world where
  "sample_world = \<lparr>w_alloc = \<lambda>_. True, w_names = \<lambda>_ _ _. True, w_open = \<lambda>_. Opened 3,
     w_write = \<lambda>_. Wrote 512, w_read = \<lambda>_. Read_again, w_rand = \<lambda>_. 3\<rparr>"

definition sample_time :: "int \<Rightarrow> timeval" where
  "sample_time s = \<lparr>tv_sec = s, tv_usec = 0\<rparr>"

definition sample_query :: buffer where
  "sample_query = [0, 7, 1, 0, 0, 1, 0, 0, 0, 0, 0, 0, 1, 97, 0, 0, 1, 0, 1]"

definition sample_channel :: "nat \<Rightarrow> channel" where
  "sample_channel flags = new_channel flags 5000 1 False [sample_server] (sample_time 2)"

lemmas sample_defs = sample_server_def sample_world_def sample_time_def sample_query_def sample_channel_def
  new_channel_def ares__init_servers_state_def

lemmas sending_defs = ares_send_def ares__send_query_def send_attempt_def send_udp_def send_tcp_def
  open_udp_socket_def open_tcp_socket_def known_family_def start_timer_def time_plus_def timeout_bucket_def
  server_at_def queue_request_def tick_def log_event_def upd_server_def upd_query_def remove_from_server_def
  remove_bucket_def insert_bucket_def has_flag_def ARES_FLAG_USEVC_def new_query_def DNS_HEADER_QID_def
  DNS__16BIT_def rd_def HFIXEDSZ_def qid_bucket_def ARES_QID_TABLE_SIZE_def ARES_TIMEOUT_TABLE_SIZE_def
  ares__timeadd_def word16_def PACKETSZ_def

text \<open>A query that waits for its answer over UDP, and one that waits to be sent over TCP.\<close>

definition sample_waiting :: channel where
  "sample_waiting = the (ares_send sample_world (sample_time 2) sample_query 7 (sample_channel 0))"

definition sample_queued :: channel where
  "sample_queued = the (ares_send sample_world (sample_time 2) sample_query 7 (sample_channel 17))"

lemma sample_at: "channel_at (sample_channel flags)"
  unfolding sample_channel_def by (rule channel_new) (simp add: config_fits_def fits_int_def sample_time_def)

lemma sample_waiting_at: "channel_at sample_waiting" "channel_at sample_queued"
proof -
  have "channel_at (the (ares_send sample_world (sample_time 2) sample_query 7 (sample_channel flags)))" for flags
  proof (rule channel_step [OF sample_at step_send])
    show "c_last_timeout_processed (sample_channel flags) \<le> tv_sec (sample_time 2)" by (simp add: sample_defs)
    then show "ares_send sample_world (sample_time 2) sample_query 7 (sample_channel flags) =
        Some (the (ares_send sample_world (sample_time 2) sample_query 7 (sample_channel flags)))"
      using ares_send_ok [OF channel_at_ok [OF sample_at], of flags "sample_time 2" sample_world sample_query 7]
      by (auto simp: no_crash_def)
  qed
  then show "channel_at sample_waiting" "channel_at sample_queued"
    unfolding sample_waiting_def sample_queued_def by blast+
qed

lemma sample_waiting_fields:
  "c_heap sample_waiting = [0 \<mapsto> \<lparr>q_qid = 7, q_timeout = \<lparr>tv_sec = 5, tv_usec = 750000\<rparr>,
     q_tcpbuf = word16 19 @ sample_query, q_arg = 7, q_try_count = 0, q_server = 0,
     q_server_info = [\<lparr>i_skip_server = False, i_generation = 0\<rparr>], q_using_tcp = False,
     q_error_status = ARES_ECONNREFUSED, q_timeouts = 0\<rparr>]"
  "c_free sample_waiting = 1" "c_last_timeout_processed sample_waiting = 2"
  "c_servers sample_waiting = [sample_server\<lparr>s_udp_socket := Some 3, s_generation := 1, s_queries := [0]\<rparr>]"
  by (simp_all add: sample_waiting_def sample_defs sending_defs Let_def)

lemma channel_safe_witness:
  "ares_process sample_world (sample_time 6) (Some [3]) None (sample_waiting\<lparr>c_recvs := [Recv_error]\<rparr>) \<noteq> None"
  using channel_safe [OF sample_waiting_at(1), of "sample_time 6"]
  by (simp add: sample_waiting_fields sample_time_def)

lemma query_once_witness:
  "callbacks 0 (c_log sample_waiting) = 0 \<and> 0 \<in> set (c_queries_by_qid sample_waiting 7) \<and>
   0 \<in> set (c_queries_by_timeout sample_waiting 5) \<and> callbacks 1 (c_log sample_waiting) = 0"
  using query_once [OF sample_waiting_at(1), of 0] query_once [OF sample_waiting_at(1), of 1]
  by (cases "c_heap sample_waiting 1")
    (auto simp: sample_waiting_fields qid_bucket_def timeout_bucket_def ARES_QID_TABLE_SIZE_def
      ARES_TIMEOUT_TABLE_SIZE_def)

lemma query_ends_witness:
  "\<exists>d. overdue_rounds 0 1 sample_waiting d \<and> 1 \<le> max_rounds sample_waiting"
proof -
  let ?now = "sample_time 6" and ?x = "the (c_heap sample_waiting 0)"
  have "chan_ok {} (sample_waiting\<lparr>c_recvs := []\<rparr>)" using channel_at_ok [OF sample_waiting_at(1)] by simp
  from processfds_ok [OF this, of ?now sample_world "fds_of None None" "fds_of None None"] obtain d
    where "ares_process sample_world ?now None None (sample_waiting\<lparr>c_recvs := []\<rparr>) = Some d"
    by (auto simp: no_crash_def ares_process_def sample_waiting_fields sample_time_def)
  from rounds_overdue [OF rounds_none _ _ _ this, of 0 ?x]
  have r: "overdue_rounds 0 1 sample_waiting d"
    by (simp add: sample_waiting_fields query_timed_out_def ares__timedout_def sample_time_def)
  with query_ends [OF sample_waiting_at(1) _ r] show ?thesis by (auto simp: sample_waiting_fields)
qed

lemma cancel_dangling_witness:
  "\<exists>d. ares_cancel sample_queued = Some d \<and> ares_process sample_world (sample_time 3) None (Some [3]) d = None"
  by (rule cancel_dangling [OF sample_waiting_at(2), where k = 3 and rs = "[]" and r =
      "\<lparr>r_data = In_query 0 0, r_len = 21, r_owner_query = Some 0, r_data_storage = None\<rparr>"])
    (simp_all add: sample_queued_def sample_defs sending_defs Let_def ARES_FLAG_STAYOPEN_def)

definition sample_answer :: "byte list" where
  "sample_answer = [0, 7, 129, 128, 0, 1, 0, 1, 0, 0, 0, 0, 1, 65, 0, 0, 1, 0, 1,
     192, 12, 0, 1, 0, 1, 0, 0, 0, 60, 0, 4, 10, 0, 0, 9]"

lemma answer_only_matching_witness:
  "\<exists>d. process_answer sample_world (sample_time 3) 0 False (0 # 8 # drop 2 sample_answer) sample_waiting = Some d \<and>
    c_heap d 0 = Some (the (c_heap sample_waiting 0))"
  by (rule answer_only_matching [OF sample_waiting_at(1)])
    (simp_all add: sample_waiting_fields sample_time_def sample_answer_def answers_def DNS_HEADER_QID_def
      DNS__16BIT_def rd_def)

lemma answer_delivered_witness:
  "\<exists>d. process_answer sample_world (sample_time 3) 0 False sample_answer sample_waiting = Some d \<and> c_heap d 0 = None \<and>
    Callback 0 7 ARES_SUCCESS 0 (Some sample_answer) \<in> set (c_log d)"
proof -
  let ?x = "the (c_heap sample_waiting 0)"
  have "same_questions (\<lambda>_ _. True) (drop 2 (word16 19 @ sample_query)) sample_answer = Some True"
    by code_simp
  then have "\<forall>n. same_questions (w_names sample_world n) (q_qbuf ?x) sample_answer = Some True"
    by (simp add: sample_waiting_fields sample_world_def q_qbuf_def)
  from answer_delivered [OF sample_waiting_at(1) _ _ this, where q = 0 and rcode = 0] show ?thesis
    by (simp add: sample_waiting_fields sample_answer_def DNS_HEADER_QID_def DNS_HEADER_TC_def DNS_HEADER_RCODE_def
      DNS__16BIT_def rd_def HFIXEDSZ_def PACKETSZ_def SERVFAIL_def NOTIMP_def REFUSED_def)
qed

end
