(* ===== verification/Ares_Search.thy ===== *)
theory Ares_Search
  imports Ares_Session
begin

text \<open>
  The search for a name through domains, \<^verbatim>\<open>ares_search.c\<close>.  What becomes of each query is a parameter:
  \<open>ask n name\<close> is what the callback of the query number \<open>n\<close>, for \<open>name\<close>, gets.  So are the answers of
  the allocator, by the place of the call, and the file of host aliases, as its lines and the status
  at its end.
\<close>

type_synonym outcome = "ares_status \<times> int \<times> buffer option"

section \<open>Host aliases\<close>

definition ARES_FLAG_NOSEARCH :: nat where "ARES_FLAG_NOSEARCH = 32"
definition ARES_FLAG_NOALIASES :: nat where "ARES_FLAG_NOALIASES = 64"

datatype alias_file = No_file | File_error | Lines "byte list list" ares_status

definition ISSPACE :: "byte \<Rightarrow> bool" where
  "ISSPACE c \<longleftrightarrow> c = SP \<or> (9 \<le> c \<and> c \<le> 13)"

text \<open>The bytes of a C string, with the terminator.\<close>

definition char_at :: "byte list \<Rightarrow> nat \<Rightarrow> byte" where
  "char_at s i = (if i < length s then s ! i else 0)"

fun ares_strncasecmp :: "byte list \<Rightarrow> byte list \<Rightarrow> nat \<Rightarrow> int" where
  "ares_strncasecmp a b 0 = 0"
| "ares_strncasecmp a b (Suc n) =
     (let c1 = (case a of [] \<Rightarrow> 0 | c # _ \<Rightarrow> if ISUPPER c then tolower c else c);
          c2 = (case b of [] \<Rightarrow> 0 | c # _ \<Rightarrow> if ISUPPER c then tolower c else c)
      in if c1 \<noteq> c2 then sint c1 - sint c2
         else if c1 = 0 then 0
         else ares_strncasecmp (tl a) (tl b) n)"

text \<open>The alias of a name in a line.\<close>

definition alias_in :: "byte list \<Rightarrow> byte list \<Rightarrow> byte list option" where
  "alias_in name line =
     (if ares_strncasecmp line name (length name) \<noteq> 0 \<or> \<not> ISSPACE (char_at line (length name)) then None
      else let p = dropWhile ISSPACE (drop (length name) line)
           in if p = [] then None else Some (hd p # takeWhile (\<lambda>c. \<not> ISSPACE c) (tl p)))"

fun find_alias :: "byte list \<Rightarrow> byte list list \<Rightarrow> byte list option" where
  "find_alias name [] = None"
| "find_alias name (line # lines) =
     (case alias_in name line of None \<Rightarrow> find_alias name lines | Some s \<Rightarrow> Some s)"

text \<open>A name that yields a single query: its name, if there is one.\<close>

definition strdup_to :: "bool \<Rightarrow> byte list \<Rightarrow> ares_status \<times> byte list option" where
  "strdup_to ok s = (if ok then (ARES_SUCCESS, Some s) else (ARES_ENOMEM, None))"

definition single_domain ::
  "bool \<Rightarrow> nat \<Rightarrow> alias_file \<Rightarrow> byte list list \<Rightarrow> byte list \<Rightarrow> (ares_status \<times> byte list option) option" where
  "single_domain ok flags aliases domains name =
     (if name = [] then None
      else if last name = DOT then Some (strdup_to ok name)
      else
        let plain = (if flags AND ARES_FLAG_NOSEARCH \<noteq> 0 \<or> domains = [] then strdup_to ok name
                     else (ARES_SUCCESS, None))
        in if flags AND ARES_FLAG_NOALIASES = 0 \<and> DOT \<notin> set name
           then (case aliases of
               No_file \<Rightarrow> Some plain
             | File_error \<Rightarrow> Some (ARES_EFILE, None)
             | Lines lines st \<Rightarrow>
                 (case find_alias name lines of
                    Some s \<Rightarrow> Some (strdup_to ok s)
                  | None \<Rightarrow> if st \<noteq> ARES_SUCCESS \<and> st \<noteq> ARES_EOF then Some (st, None) else Some plain))
           else Some plain)"

section \<open>The search\<close>

definition cat_domain :: "bool \<Rightarrow> byte list \<Rightarrow> byte list \<Rightarrow> ares_status \<times> byte list" where
  "cat_domain ok name domain = (if ok then (ARES_SUCCESS, name @ DOT # domain) else (ARES_ENOMEM, []))"

record search_query =
  sq_name :: "byte list"
  sq_status_as_is :: "ares_status option"
  sq_next_domain :: nat
  sq_trying_as_is :: bool
  sq_timeouts :: int
  sq_ever_got_nodata :: bool

datatype search_step = Search_done outcome | Search_ask "byte list" search_query

definition end_squery :: "search_query \<Rightarrow> ares_status \<Rightarrow> buffer option \<Rightarrow> search_step" where
  "end_squery sq status abuf = Search_done (status, sq_timeouts sq, abuf)"

definition soft :: "ares_status \<Rightarrow> bool" where
  "soft st \<longleftrightarrow> st = ARES_ENODATA \<or> st = ARES_ESERVFAIL \<or> st = ARES_ENOTFOUND"

definition search_callback ::
  "(nat \<Rightarrow> bool) \<Rightarrow> byte list list \<Rightarrow> outcome \<Rightarrow> search_query \<Rightarrow> search_step" where
  "search_callback alloc domains r sq =
     (case r of (status, timeouts, abuf) \<Rightarrow>
        let sq = sq\<lparr>sq_timeouts := sq_timeouts sq + timeouts\<rparr>
        in if \<not> soft status then end_squery sq status abuf
           else
             let sq = (if sq_trying_as_is sq then sq\<lparr>sq_status_as_is := Some status\<rparr> else sq);
                 sq = (if status = ARES_ENODATA then sq\<lparr>sq_ever_got_nodata := True\<rparr> else sq);
                 k = sq_next_domain sq
             in if k < length domains then
                  (case cat_domain (alloc k) (sq_name sq) (domains ! k) of (st, s) \<Rightarrow>
                     if st \<noteq> ARES_SUCCESS then end_squery sq st None
                     else Search_ask s (sq\<lparr>sq_trying_as_is := False, sq_next_domain := k + 1\<rparr>))
                else (case sq_status_as_is sq of
                    None \<Rightarrow> Search_ask (sq_name sq) (sq\<lparr>sq_trying_as_is := True\<rparr>)
                  | Some st \<Rightarrow>
                      if st = ARES_ENOTFOUND \<and> sq_ever_got_nodata sq then end_squery sq ARES_ENODATA None
                      else end_squery sq st None))"

text \<open>The queries of a search, from the one for \<open>name\<close> on.\<close>

function run_search ::
  "(nat \<Rightarrow> bool) \<Rightarrow> byte list list \<Rightarrow> (nat \<Rightarrow> byte list \<Rightarrow> outcome) \<Rightarrow> nat \<Rightarrow> byte list \<Rightarrow> search_query \<Rightarrow> outcome" where
  "run_search alloc domains ask n name sq =
     (case search_callback alloc domains (ask n name) sq of
        Search_done r \<Rightarrow> r
      | Search_ask s sq \<Rightarrow> run_search alloc domains ask (Suc n) s sq)"
  by pat_completeness auto
termination
  by (relation "measure (\<lambda>(alloc, domains, ask, n, name, sq). 2 * (length domains - sq_next_domain sq) +
      (if sq_status_as_is sq = None then if sq_trying_as_is sq then 1 else 2 else 0))")
    (auto simp: search_callback_def end_squery_def Let_def split: prod.splits if_splits option.splits)

declare run_search.simps [simp del]

definition ares_search ::
  "(nat \<Rightarrow> bool) \<Rightarrow> (nat \<Rightarrow> bool) \<Rightarrow> nat \<Rightarrow> int \<Rightarrow> byte list list \<Rightarrow> alias_file \<Rightarrow> (nat \<Rightarrow> byte list \<Rightarrow> outcome) \<Rightarrow>
   byte list \<Rightarrow> outcome option" where
  "ares_search oks alloc flags ndots domains aliases ask name = do {
     (status, s) \<leftarrow> single_domain (oks 0) flags aliases domains name;
     if status \<noteq> ARES_SUCCESS then Some (status, 0, None)
     else case s of
         Some s \<Rightarrow> Some (ask 0 s)
       | None \<Rightarrow>
           if \<not> oks 1 \<or> \<not> oks 2 then Some (ARES_ENOMEM, 0, None)
           else
             let sq = \<lparr>sq_name = name, sq_status_as_is = None, sq_next_domain = 0, sq_trying_as_is = True,
                       sq_timeouts = 0, sq_ever_got_nodata = False\<rparr>
             in if int (count_list name DOT) \<ge> ndots then Some (run_search alloc domains ask 0 name sq)
                else if domains = [] then None
                else (case cat_domain (alloc 0) name (domains ! 0) of (st, s) \<Rightarrow>
                        if st = ARES_SUCCESS
                        then Some (run_search alloc domains ask 0 s
                          (sq\<lparr>sq_next_domain := 1, sq_trying_as_is := False\<rparr>))
                        else Some (st, 0, None))
   }"

section \<open>The order of a search\<close>

text \<open>The names to try, and which of them is the name as it is.\<close>

definition candidates :: "int \<Rightarrow> byte list list \<Rightarrow> byte list \<Rightarrow> (bool \<times> byte list) list" where
  "candidates ndots domains name =
     (let full = map (\<lambda>d. (False, name @ DOT # d)) domains
      in if int (count_list name DOT) \<ge> ndots then (True, name) # full else full @ [(True, name)])"

text \<open>The queries for names in turn, up to one whose status is not soft.\<close>

fun try_names ::
  "(nat \<Rightarrow> byte list \<Rightarrow> outcome) \<Rightarrow> nat \<Rightarrow> (bool \<times> byte list) list \<Rightarrow> int \<Rightarrow> bool \<Rightarrow> ares_status option \<Rightarrow> outcome" where
  "try_names ask n [] t nodata as_is =
     (if as_is = Some ARES_ENOTFOUND \<and> nodata then ARES_ENODATA else the as_is, t, None)"
| "try_names ask n ((b, name) # cs) t nodata as_is =
     (case ask n name of (st, k, buf) \<Rightarrow>
        if soft st
        then try_names ask (Suc n) cs (t + k) (nodata \<or> st = ARES_ENODATA) (if b then Some st else as_is)
        else (st, t + k, buf))"

lemma run_search_tries:
  "alloc = (\<lambda>_. True) \<Longrightarrow> sq_next_domain sq \<le> length domains \<Longrightarrow> (sq_trying_as_is sq \<Longrightarrow> sq_status_as_is sq = None) \<Longrightarrow>
    run_search alloc domains ask n s sq =
      try_names ask n ((sq_trying_as_is sq, s) #
          map (\<lambda>d. (False, sq_name sq @ DOT # d)) (drop (sq_next_domain sq) domains) @
          (if sq_trying_as_is sq \<or> sq_status_as_is sq \<noteq> None then [] else [(True, sq_name sq)]))
        (sq_timeouts sq) (sq_ever_got_nodata sq) (sq_status_as_is sq)"
proof (induction alloc domains ask n s sq rule: run_search.induct)
  case (1 alloc domains ask n s sq)
  note alloc = "1.prems"(1)
  obtain st k buf where r: "ask n s = (st, k, buf)" by (metis prod_cases3)
  show ?case
  proof (cases "soft st")
    case False
    then show ?thesis by (subst run_search.simps) (simp add: r search_callback_def end_squery_def)
  next
    case soft: True
    show ?thesis
    proof (cases "sq_next_domain sq < length domains")
      case True
      let ?sq = "sq\<lparr>sq_timeouts := sq_timeouts sq + k,
          sq_status_as_is := if sq_trying_as_is sq then Some st else sq_status_as_is sq,
          sq_ever_got_nodata := sq_ever_got_nodata sq \<or> st = ARES_ENODATA,
          sq_trying_as_is := False, sq_next_domain := Suc (sq_next_domain sq)\<rparr>"
      let ?d = "domains ! sq_next_domain sq"
      have step: "search_callback alloc domains (ask n s) sq = Search_ask (sq_name sq @ DOT # ?d) ?sq"
        using soft True alloc by (cases sq) (auto simp: r search_callback_def cat_domain_def Let_def)
      then show ?thesis using "1.IH" [OF step] "1.prems" soft True
        by (subst run_search.simps, cases "sq_trying_as_is sq"; cases "sq_status_as_is sq")
          (simp_all add: r Cons_nth_drop_Suc [symmetric])
    next
      case False
      show ?thesis
      proof (cases "sq_trying_as_is sq \<or> sq_status_as_is sq \<noteq> None")
        case True
        then show ?thesis using False soft "1.prems"
          by (subst run_search.simps) (auto simp: r search_callback_def end_squery_def Let_def)
      next
        case at_end: False
        let ?sq = "sq\<lparr>sq_timeouts := sq_timeouts sq + k,
          sq_ever_got_nodata := sq_ever_got_nodata sq \<or> st = ARES_ENODATA, sq_trying_as_is := True\<rparr>"
        have step: "search_callback alloc domains (ask n s) sq = Search_ask (sq_name sq) ?sq"
          using soft False at_end by (cases sq) (auto simp: r search_callback_def Let_def)
        then show ?thesis using "1.IH" [OF step] "1.prems" soft False at_end
          by (subst run_search.simps) (auto simp: r)
      qed
    qed
  qed
qed

text \<open>What the queries for all names give, and the result that a search takes from them.\<close>

fun outcomes :: "(nat \<Rightarrow> byte list \<Rightarrow> outcome) \<Rightarrow> nat \<Rightarrow> byte list list \<Rightarrow> outcome list" where
  "outcomes ask n [] = []"
| "outcomes ask n (c # cs) = ask n c # outcomes ask (Suc n) cs"

definition search_result :: "nat \<Rightarrow> outcome list \<Rightarrow> outcome" where
  "search_result as_is rs =
     (let sts = map fst rs; times = map (fst \<circ> snd) rs; k = length (takeWhile soft sts)
      in if k < length rs then (sts ! k, sum_list (take (Suc k) times), snd (snd (rs ! k)))
         else (if sts ! as_is = ARES_ENOTFOUND \<and> ARES_ENODATA \<in> set sts then ARES_ENODATA else sts ! as_is,
               sum_list times, None))"

lemma length_outcomes [simp]: "length (outcomes ask n cs) = length cs"
  by (induction cs arbitrary: n) auto

text \<open>The status of the name as it is, when it was among the names.\<close>

definition as_is_of :: "bool list \<Rightarrow> ares_status list \<Rightarrow> ares_status option \<Rightarrow> ares_status option" where
  "as_is_of bs sts d = foldl (\<lambda>d (b, st). if b then Some st else d) d (zip bs sts)"

lemma try_names_result:
  "try_names ask n cs t nodata d =
     (let rs = outcomes ask n (map snd cs); sts = map fst rs; times = map (fst \<circ> snd) rs;
          k = length (takeWhile soft sts); a = as_is_of (map fst cs) sts d
      in if k < length rs then (sts ! k, t + sum_list (take (Suc k) times), snd (snd (rs ! k)))
         else (if a = Some ARES_ENOTFOUND \<and> (nodata \<or> ARES_ENODATA \<in> set sts) then ARES_ENODATA else the a,
               t + sum_list times, None))"
proof (induction ask n cs t nodata d rule: try_names.induct)
  case (2 ask n b name cs t nodata d)
  obtain st k buf where r: "ask n name = (st, k, buf)" by (metis prod_cases3)
  show ?case
  proof (cases "soft st")
    case True
    with "2.IH" [OF r [symmetric] refl True] show ?thesis
      by (auto simp: r Let_def as_is_of_def add.assoc)
  qed (simp add: r Let_def)
qed (simp add: as_is_of_def Let_def)

lemma as_is_of_simps:
  "as_is_of (True # map (\<lambda>_. False) ds) sts None = (if sts = [] then None else Some (hd sts))"
  "length sts = Suc (length ds) \<Longrightarrow> as_is_of (map (\<lambda>_. False) ds @ [True]) sts None = Some (sts ! length ds)"
proof -
  have keep: "foldl (\<lambda>d (b, st). if b then Some st else d) d (zip (map (\<lambda>_. False) ds) sts) = d" for d sts
    by (induction ds arbitrary: sts) (auto simp: zip_Cons1 split: list.split)
  then show "as_is_of (True # map (\<lambda>_. False) ds) sts None = (if sts = [] then None else Some (hd sts))"
    by (cases sts) (simp_all add: as_is_of_def)
  show "length sts = Suc (length ds) \<Longrightarrow> as_is_of (map (\<lambda>_. False) ds @ [True]) sts None = Some (sts ! length ds)"
    using keep [of _ "butlast sts"]
    by (cases sts rule: rev_cases) (simp_all add: as_is_of_def nth_append)
qed

lemma try_names_search:
  assumes "as_is_of (map fst cs) (map fst (outcomes ask 0 (map snd cs))) None =
    Some (map fst (outcomes ask 0 (map snd cs)) ! j)"
  shows "try_names ask 0 cs 0 False None = search_result j (outcomes ask 0 (map snd cs))"
  unfolding try_names_result search_result_def Let_def assms by simp

text \<open>
  C24: A search goes through its names in order, the name as it is first when it has enough dots and
  last otherwise, until a query ends in another way than with no data, no name or a failing server;
  if none does, the status is that for the name as it is, but no data when that is no name and any
  query gave no data.  The timeouts are added up.
\<close>

theorem search_order:
  assumes "single_domain True flags aliases domains name = Some (ARES_SUCCESS, None)"
  shows "ares_search (\<lambda>_. True) (\<lambda>_. True) flags ndots domains aliases ask name =
    Some (let dotted_domains = map (\<lambda>d. name @ DOT # d) domains in
      if int (count_list name DOT) \<ge> ndots
      then search_result 0 (outcomes ask 0 (name # dotted_domains))
      else search_result (length domains) (outcomes ask 0 (dotted_domains @ [name])))"
proof -
  have ne: "domains \<noteq> []"
    using assms by (auto simp: single_domain_def strdup_to_def Let_def split: if_splits alias_file.splits option.splits)
  let ?sq = "\<lparr>sq_name = name, sq_status_as_is = None, sq_next_domain = 0, sq_trying_as_is = True,
    sq_timeouts = 0, sq_ever_got_nodata = False\<rparr>"
  show ?thesis
  proof (cases "int (count_list name DOT) \<ge> ndots")
    case True
    have f: "map fst (map (\<lambda>d. (False, name @ DOT # d)) domains) = map (\<lambda>_. False) domains"
      "map snd (map (\<lambda>d. (False, name @ DOT # d)) domains) = map (\<lambda>d. name @ DOT # d) domains" by simp_all
    have "ares_search (\<lambda>_. True) (\<lambda>_. True) flags ndots domains aliases ask name =
        Some (try_names ask 0 ((True, name) # map (\<lambda>d. (False, name @ DOT # d)) domains) 0 False None)"
      using run_search_tries [of "\<lambda>_. True" ?sq domains ask 0 name] assms True by (simp add: ares_search_def Let_def)
    moreover have "try_names ask 0 ((True, name) # map (\<lambda>d. (False, name @ DOT # d)) domains) 0 False None =
        search_result 0 (outcomes ask 0 (map snd ((True, name) # map (\<lambda>d. (False, name @ DOT # d)) domains)))"
      by (rule try_names_search) (simp only: list.map f fst_conv as_is_of_simps, simp)
    ultimately show ?thesis using True by (simp add: comp_def)
  next
    case False
    let ?d = "map (\<lambda>d. (False, name @ DOT # d)) domains"
    have f: "map fst (?d @ [(True, name)]) = map (\<lambda>_. False) domains @ [True]"
      "map snd (?d @ [(True, name)]) = map (\<lambda>d. name @ DOT # d) domains @ [name]" by simp_all
    have "(False, name @ DOT # domains ! 0) # map (\<lambda>d. (False, name @ DOT # d)) (drop 1 domains) = ?d"
      using ne by (cases domains) simp_all
    then have "ares_search (\<lambda>_. True) (\<lambda>_. True) flags ndots domains aliases ask name =
        Some (try_names ask 0 (?d @ [(True, name)]) 0 False None)"
      using run_search_tries [of "\<lambda>_. True" "?sq\<lparr>sq_next_domain := 1, sq_trying_as_is := False\<rparr>" domains ask 0
          "name @ DOT # domains ! 0"] assms False ne
      by (cases domains) (simp_all add: ares_search_def Let_def cat_domain_def)
    moreover have "try_names ask 0 (?d @ [(True, name)]) 0 False None =
        search_result (length domains) (outcomes ask 0 (map snd (?d @ [(True, name)])))"
      by (rule try_names_search) (simp only: f, rule as_is_of_simps(2), simp)
    ultimately show ?thesis using False by (simp add: comp_def)
  qed
qed

lemma search_order_witness:
  "ares_search (\<lambda>_. True) (\<lambda>_. True) 0 1 [bytes ''a.org''] No_file
     (\<lambda>n s. if n = 0 then (ARES_ENODATA, 1, None) else (ARES_ENOTFOUND, 2, None)) (bytes ''www'') =
   Some (ARES_ENODATA, 3, None)"
  by (subst search_order) (code_simp, simp add: search_result_def soft_def Let_def)

end
