(* ===== verification/Ares_Reply.thy ===== *)
theory Ares_Reply
  imports Ares_Name
begin

text \<open>
  What the parsers of replies share: the header and the question, the fixed part of a record,
  the host entry, and the allocations.  Every allocation of a run has its own answer,
  \<open>mem a\<close> for the allocation \<open>a\<close>, numbered by the record it is made for.
\<close>

section \<open>State\<close>

datatype alloc =
    M_question
  | M_addrs
  | M_aliases
  | M_rr_name nat
  | M_rr_data nat
  | M_item nat
  | M_grow nat
  | M_hostent
  | M_addr_list
  | M_addr
  | M_alias_list

record hostent =
  h_name :: "byte list"
  h_aliases :: "byte list list"
  h_addrtype :: int
  h_length :: int
  h_addr_list :: "byte list list"

section \<open>Header and question\<close>

type_synonym expander = "bool \<Rightarrow> buffer \<Rightarrow> nat \<Rightarrow> (byte list \<times> nat) ares"

text \<open>The name in the question, where the answers start, and how many there are.  The parsers
  of MX, SRV and TXT replies give up at once when there are none (\<open>some\<close>).\<close>

definition reply_question ::
    "expander \<Rightarrow> bool \<Rightarrow> (alloc \<Rightarrow> bool) \<Rightarrow> buffer \<Rightarrow> (byte list \<times> nat \<times> nat) ares" where
  "reply_question expand some mem abuf =
     (if length abuf < HFIXEDSZ then fail ARES_EBADRESP
      else do {
        qdcount \<leftarrow> DNS_HEADER_QDCOUNT abuf 0;
        ancount \<leftarrow> DNS_HEADER_ANCOUNT abuf 0;
        if qdcount \<noteq> 1 then fail ARES_EBADRESP
        else if some \<and> ancount = 0 then fail ARES_ENODATA
        else try_ares (expand (mem M_question) abuf HFIXEDSZ) (\<lambda>(hostname, len).
          if HFIXEDSZ + len + QFIXEDSZ > length abuf then fail ARES_EBADRESP
          else ret (hostname, HFIXEDSZ + len + QFIXEDSZ, ancount))
      })"

section \<open>Records\<close>

record rr =
  rr_name :: "byte list"
  rr_type :: nat
  rr_class :: nat
  rr_len :: nat
  rr_ttl :: int

text \<open>The name and the fixed part of the record at \<open>aptr\<close>, and where its data starts.\<close>

definition decode_rr :: "expander \<Rightarrow> bool \<Rightarrow> buffer \<Rightarrow> nat \<Rightarrow> (rr \<times> nat) ares" where
  "decode_rr expand ok abuf aptr =
     try_ares (expand ok abuf aptr) (\<lambda>(name, len).
       let aptr = aptr + len
       in if aptr + RRFIXEDSZ > length abuf then fail ARES_EBADRESP
          else do {
            type \<leftarrow> DNS_RR_TYPE abuf aptr;
            class \<leftarrow> DNS_RR_CLASS abuf aptr;
            len \<leftarrow> DNS_RR_LEN abuf aptr;
            ttl \<leftarrow> DNS_RR_TTL abuf aptr;
            ret (\<lparr>rr_name = name, rr_type = type, rr_class = class, rr_len = len, rr_ttl = ttl\<rparr>,
                 aptr + RRFIXEDSZ)
          })"

text \<open>Code in the body of the loop, one piece after the other.\<close>

definition then_pass :: "'s pass option \<Rightarrow> ('s \<Rightarrow> 's pass option) \<Rightarrow> 's pass option" where
  "then_pass m f =
     (case m of None \<Rightarrow> None | Some (Stop st s) \<Rightarrow> Some (Stop st s) | Some (Next s) \<Rightarrow> f s)"

lemma then_pass_simps [simp]:
  "then_pass None f = None" "then_pass (Some (Stop st s)) f = Some (Stop st s)"
  "then_pass (Some (Next s)) f = f s"
  by (simp_all add: then_pass_def)

lemma no_crash_Next: "G s \<Longrightarrow> no_crash (Some (Next s)) (pass_ok G S)"
  by (simp add: no_crash_def)

lemma no_crash_then_pass:
  assumes "no_crash m (pass_ok R S)" and "\<And>s. R s \<Longrightarrow> no_crash (f s) (pass_ok G S)"
  shows "no_crash (then_pass m f) (pass_ok G S)"
  using assms by (auto simp: no_crash_def then_pass_def split: pass.splits)

section \<open>Messages without compression\<close>

definition rr_fixed :: "nat \<Rightarrow> nat \<Rightarrow> 32 word \<Rightarrow> nat \<Rightarrow> byte list" where
  "rr_fixed type class ttl len = word16 (int type) @ word16 (int class) @ word32 ttl @ word16 (int len)"

text \<open>A reply with the identification and flags \<open>ids\<close> and the remaining counts \<open>nums\<close>.\<close>

definition encode_reply ::
    "byte list \<Rightarrow> byte list \<Rightarrow> byte list list \<Rightarrow> int \<Rightarrow> int \<Rightarrow> nat \<Rightarrow> byte list \<Rightarrow> buffer" where
  "encode_reply ids nums q qtype qclass n answers =
     ids @ word16 1 @ word16 (int n) @ nums @ encode_name q @ word16 qtype @ word16 qclass @ answers"

section \<open>Staying in bounds\<close>

text \<open>An expander: given a position in the message or at its end, it stays inside, and it reads
  a name that is there.\<close>

locale name_expander =
  fixes expand :: expander
  assumes expand_safe: "p \<le> length abuf \<Longrightarrow> no_crash (expand ok abuf p) (name_result abuf p)"
    and expand_encoded: "drop p abuf = encode_name ls @ rest \<Longrightarrow> \<forall>l \<in> set ls. label_ok l \<Longrightarrow>
      expand True abuf p = ret (dotted ls, length (encode_name ls))"
begin

lemma reply_question_safe:
  "no_crash (reply_question expand some mem abuf)
     (\<lambda>r. case r of Inl st \<Rightarrow> st \<noteq> ARES_SUCCESS | Inr (name, aptr, n) \<Rightarrow> aptr \<le> length abuf)"
  unfolding reply_question_def DNS_HEADER_QDCOUNT_def DNS_HEADER_ANCOUNT_def
  by (intro bounds_wp no_crash_try [OF expand_safe])
    (auto simp: HFIXEDSZ_def name_result_def bounds_wp split: prod.split)

lemma decode_rr_safe:
  assumes "p \<le> length abuf"
  shows "no_crash (decode_rr expand ok abuf p)
     (\<lambda>r. case r of Inl st \<Rightarrow> st \<noteq> ARES_SUCCESS | Inr (x, aptr) \<Rightarrow> p < aptr \<and> aptr \<le> length abuf)"
  unfolding decode_rr_def DNS_RR_TYPE_def DNS_RR_CLASS_def DNS_RR_LEN_def DNS_RR_TTL_def
proof (intro no_crash_try [OF expand_safe [OF assms]])
  fix x assume x: "name_result abuf p (Inr x)"
  then obtain s len where "x = (s, len)" "0 < len" "p + len \<le> length abuf"
    by (cases x) (auto simp: name_result_def)
  then show "no_crash
      ((\<lambda>(name, len). let aptr = p + len in
         if aptr + RRFIXEDSZ > length abuf then fail ARES_EBADRESP
         else do {
            type \<leftarrow> DNS__16BIT abuf aptr;
            class \<leftarrow> DNS__16BIT abuf (aptr + 2);
            len \<leftarrow> DNS__16BIT abuf (aptr + 8);
            ttl \<leftarrow> DNS__32BIT abuf (aptr + 4);
            ret (\<lparr>rr_name = name, rr_type = type, rr_class = class, rr_len = len, rr_ttl = ttl\<rparr>,
                 aptr + RRFIXEDSZ) }) x)
      (\<lambda>r. case r of Inl st \<Rightarrow> st \<noteq> ARES_SUCCESS | Inr (x, aptr) \<Rightarrow> p < aptr \<and> aptr \<le> length abuf)"
    by (auto simp: Let_def RRFIXEDSZ_def intro!: bounds_wp)
qed (auto simp: name_result_def)

text \<open>The two calls in the body of the loop.\<close>

lemma expand_pass:
  assumes "p \<le> length abuf" "S s"
    and "\<And>name len. no_crash (f name len) (pass_ok G S)"
  shows "no_crash (or_stop (expand ok abuf p) s (\<lambda>(name, len). f name len)) (pass_ok G S)"
  by (rule no_crash_or_stop [OF expand_safe [OF assms(1)]])
    (use assms(2,3) in \<open>auto simp: name_result_def split: prod.split\<close>)

lemma decode_pass:
  assumes "p \<le> length abuf" "S s"
    and "\<And>r aptr. aptr \<le> length abuf \<Longrightarrow> no_crash (f r aptr) (pass_ok G S)"
  shows "no_crash (or_stop (decode_rr expand ok abuf p) s (\<lambda>(r, aptr). f r aptr)) (pass_ok G S)"
  by (rule no_crash_or_stop [OF decode_rr_safe [OF assms(1)]])
    (use assms(2,3) in \<open>auto split: prod.split\<close>)

lemma reply_question_encoded:
  fixes answers qclass qtype
  assumes "length ids = 4" "length nums = 4" "\<forall>l \<in> set q. label_ok l" "n < 2 ^ 16" "some \<Longrightarrow> n \<noteq> 0"
  defines "abuf \<equiv> encode_reply ids nums q qtype qclass n answers"
  shows "\<exists>aptr. reply_question expand some (\<lambda>_. True) abuf = ret (dotted q, aptr, n) \<and>
    drop aptr abuf = answers \<and> aptr \<le> length abuf"
proof -
  have d4: "drop 4 abuf = word16 (int 1) @ word16 (int n) @ nums @ encode_name q @ word16 qtype @ word16 qclass @ answers"
    and d6: "drop 6 abuf = word16 (int n) @ nums @ encode_name q @ word16 qtype @ word16 qclass @ answers"
    and d12: "drop HFIXEDSZ abuf = encode_name q @ word16 qtype @ word16 qclass @ answers"
    using assms(1,2) by (simp_all add: abuf_def encode_reply_def HFIXEDSZ_def)
  have len: "length abuf = HFIXEDSZ + length (encode_name q) + QFIXEDSZ + length answers"
    using assms(1,2) by (simp add: abuf_def encode_reply_def dns_constants)
  have "DNS_HEADER_QDCOUNT abuf 0 = Some 1" "DNS_HEADER_ANCOUNT abuf 0 = Some n"
    using read_word16 [of 4 abuf 1] read_word16 [of 6 abuf n] d4 d6 assms(4)
    by (simp_all add: DNS_HEADER_QDCOUNT_def DNS_HEADER_ANCOUNT_def)
  moreover have "drop (HFIXEDSZ + length (encode_name q) + QFIXEDSZ) abuf = answers"
    using arg_cong [OF d12, of "drop (length (encode_name q) + QFIXEDSZ)"]
    by (simp add: QFIXEDSZ_def add_ac)
  ultimately show ?thesis
    using expand_encoded [OF d12 assms(3)] len assms(5) by (auto simp: reply_question_def)
qed

lemma decode_rr_encoded:
  assumes d: "drop p abuf = encode_name ls @ rr_fixed type class ttl len @ rest"
    and ok: "\<forall>l \<in> set ls. label_ok l" "type < 2 ^ 16" "class < 2 ^ 16" "len < 2 ^ 16"
  defines "aptr \<equiv> p + length (encode_name ls) + RRFIXEDSZ"
  shows "decode_rr expand True abuf p = ret (\<lparr>rr_name = dotted ls, rr_type = type, rr_class = class,
      rr_len = len, rr_ttl = sint ttl\<rparr>, aptr)"
    and "drop aptr abuf = rest" "aptr \<le> length abuf"
proof -
  let ?q = "p + length (encode_name ls)"
  have dq: "drop (?q + k) abuf = drop k (rr_fixed type class ttl len @ rest)" for k
    using arg_cong [OF d, of "drop (length (encode_name ls) + k)"] by (simp add: add_ac)
  have q: "drop ?q abuf = word16 (int type) @ word16 (int class) @ word32 ttl @ word16 (int len) @ rest"
    "drop (?q + 2) abuf = word16 (int class) @ word32 ttl @ word16 (int len) @ rest"
    "drop (?q + 4) abuf = word32 ttl @ word16 (int len) @ rest"
    "drop (?q + 8) abuf = word16 (int len) @ rest"
    using dq [of 0] dq [of 2] dq [of 4] dq [of 8] by (simp_all add: rr_fixed_def)
  show r: "drop aptr abuf = rest"
    using dq [of RRFIXEDSZ] by (simp add: aptr_def rr_fixed_def RRFIXEDSZ_def)
  have "length abuf - ?q = RRFIXEDSZ + length rest"
    using arg_cong [OF q(1), of length] by (simp add: RRFIXEDSZ_def)
  then show l: "aptr \<le> length abuf" by (simp add: aptr_def RRFIXEDSZ_def)
  show "decode_rr expand True abuf p = ret (\<lparr>rr_name = dotted ls, rr_type = type, rr_class = class,
      rr_len = len, rr_ttl = sint ttl\<rparr>, aptr)"
    using expand_encoded [OF d ok(1)] read_word16 [OF q(1) ok(2)] read_word16 [OF q(2) ok(3)]
      read_word16 [OF q(4) ok(4)] read_word32 [OF q(3)] l
    by (simp add: decode_rr_def DNS_RR_TYPE_def DNS_RR_CLASS_def DNS_RR_LEN_def DNS_RR_TTL_def aptr_def Let_def)
qed

end

interpretation plain_name: name_expander ares_expand_name
  by unfold_locales (fact expand_name_safe, fact expand_encoded)

interpretation response_name: name_expander ares__expand_name_for_response
  by unfold_locales (fact expand_for_response_safe, fact expand_response_encoded)

end
