(* ===== verification/Ares_Hosts.thy ===== *)
theory Ares_Hosts
  imports Ares_Reply
begin

text \<open>
  Replies that hold names: \<^verbatim>\<open>ares_parse_ns_reply.c\<close> and \<^verbatim>\<open>ares_parse_ptr_reply.c\<close>.  Both return
  a host entry, whose aliases are the name servers, or the names the address stands for.
  Writes into the arrays of names are checked against their allocated sizes.
\<close>

section \<open>Name servers\<close>

record ns_locals =
  nl_aptr :: nat
  nl_servers :: "byte list list"

definition ns_answer ::
    "(alloc \<Rightarrow> bool) \<Rightarrow> buffer \<Rightarrow> nat \<Rightarrow> nat \<Rightarrow> ns_locals \<Rightarrow> ns_locals pass option" where
  "ns_answer mem abuf ancount i l =
     or_stop (decode_rr ares__expand_name_for_response (mem (M_rr_name i)) abuf (nl_aptr l)) l
       (\<lambda>(r, aptr). let l = l\<lparr>nl_aptr := aptr\<rparr> in
         then_pass
           (if rr_class r = C_IN \<and> rr_type r = T_NS
            then or_stop (ares__expand_name_for_response (mem (M_rr_data i)) abuf (nl_aptr l)) l
                   (\<lambda>(rr_data, len).
                     if \<not> mem (M_item i) then Some (Stop ARES_ENOMEM l)
                     else if length (nl_servers l) < ancount + 1
                     then Some (Next (l\<lparr>nl_servers := nl_servers l @ [cstr rr_data]\<rparr>))
                     else None)
            else Some (Next l))
           (\<lambda>l. let l = l\<lparr>nl_aptr := nl_aptr l + rr_len r\<rparr>
                in if nl_aptr l > length abuf then Some (Stop ARES_EBADRESP l) else Some (Next l)))"

definition ns_finish ::
    "(alloc \<Rightarrow> bool) \<Rightarrow> nat \<Rightarrow> byte list \<Rightarrow> ares_status \<Rightarrow> ns_locals \<Rightarrow>
     (ares_status \<times> hostent option) option" where
  "ns_finish mem ancount hostname st l =
     (let st = (if st = ARES_SUCCESS \<and> nl_servers l = [] then ARES_ENODATA else st)
      in if st \<noteq> ARES_SUCCESS then Some (st, None)
         else if \<not> length (nl_servers l) < ancount + 1 then None
         else if mem M_hostent \<and> mem M_addr_list
         then Some (ARES_SUCCESS,
                Some \<lparr>h_name = hostname, h_aliases = nl_servers l, h_addrtype = AF_INET,
                      h_length = 4, h_addr_list = []\<rparr>)
         else Some (ARES_ENOMEM, None))"

definition ares_parse_ns_reply ::
    "(alloc \<Rightarrow> bool) \<Rightarrow> buffer \<Rightarrow> (ares_status \<times> hostent option) option" where
  "ares_parse_ns_reply mem abuf =
     (case reply_question ares__expand_name_for_response False mem abuf of
        None \<Rightarrow> None
      | Some (Inl st) \<Rightarrow> Some (st, None)
      | Some (Inr (hostname, aptr, ancount)) \<Rightarrow>
          if \<not> mem M_aliases then Some (ARES_ENOMEM, None)
          else do {
            (st, l) \<leftarrow> for_answers (ns_answer mem abuf ancount) 0 ancount
              \<lparr>nl_aptr = aptr, nl_servers = []\<rparr>;
            ns_finish mem ancount hostname st l
          })"

section \<open>Names of an address\<close>

record ptr_locals =
  pl_aptr :: nat
  pl_ptrname :: "byte list"
  pl_hostname :: "byte list option"
  pl_aliases :: "byte list list"
  pl_alloc :: nat

text \<open>A name is recorded; the array of names is doubled when it is full.\<close>

definition record_ptr :: "bool \<Rightarrow> bool \<Rightarrow> byte list \<Rightarrow> ptr_locals \<Rightarrow> ptr_locals pass option" where
  "record_ptr item grow rr_data l =
     (let l = l\<lparr>pl_hostname := Some rr_data\<rparr>
      in if \<not> item then Some (Stop ARES_ENOMEM l)
         else if \<not> length (pl_aliases l) < pl_alloc l then None
         else let l = l\<lparr>pl_aliases := pl_aliases l @ [cstr rr_data]\<rparr>
              in if length (pl_aliases l) \<ge> pl_alloc l
                 then let l = l\<lparr>pl_alloc := pl_alloc l * 2\<rparr>
                      in if \<not> grow then Some (Stop ARES_ENOMEM l) else Some (Next l)
                 else Some (Next l))"

definition ptr_answer ::
    "(alloc \<Rightarrow> bool) \<Rightarrow> buffer \<Rightarrow> nat \<Rightarrow> ptr_locals \<Rightarrow> ptr_locals pass option" where
  "ptr_answer mem abuf i l =
     or_stop (decode_rr ares__expand_name_for_response (mem (M_rr_name i)) abuf (pl_aptr l)) l
       (\<lambda>(r, aptr). let l = l\<lparr>pl_aptr := aptr\<rparr> in
         then_pass
           (if rr_class r = C_IN \<and> rr_type r = T_PTR \<and>
               ares_strcasecmp (rr_name r) (pl_ptrname l) = 0
            then or_stop (ares__expand_name_for_response (mem (M_rr_data i)) abuf (pl_aptr l)) l
                   (\<lambda>(rr_data, len). record_ptr (mem (M_item i)) (mem (M_grow i)) rr_data l)
            else Some (Next l))
           (\<lambda>l. then_pass
              (if rr_class r = C_IN \<and> rr_type r = T_CNAME
               then or_stop (ares__expand_name_for_response (mem (M_rr_data i)) abuf (pl_aptr l)) l
                      (\<lambda>(rr_data, len). Some (Next (l\<lparr>pl_ptrname := rr_data\<rparr>)))
               else Some (Next l))
              (\<lambda>l. let l = l\<lparr>pl_aptr := pl_aptr l + rr_len r\<rparr>
                   in if pl_aptr l > length abuf then Some (Stop ARES_EBADRESP l)
                      else Some (Next l))))"

definition ptr_finish ::
    "(alloc \<Rightarrow> bool) \<Rightarrow> byte list \<Rightarrow> int \<Rightarrow> ares_status \<Rightarrow> ptr_locals \<Rightarrow> ares_status \<times> hostent option" where
  "ptr_finish mem addr family st l =
     (case pl_hostname l of
        None \<Rightarrow> (if st = ARES_SUCCESS then ARES_ENODATA else st, None)
      | Some hostname \<Rightarrow>
          if st \<noteq> ARES_SUCCESS then (st, None)
          else if mem M_hostent \<and> mem M_addr_list \<and> mem M_addr \<and> mem M_alias_list
          then (ARES_SUCCESS,
                Some \<lparr>h_name = hostname, h_aliases = pl_aliases l, h_addrtype = family,
                      h_length = int (length addr), h_addr_list = [addr]\<rparr>)
          else (ARES_ENOMEM, None))"

definition ares_parse_ptr_reply ::
    "(alloc \<Rightarrow> bool) \<Rightarrow> buffer \<Rightarrow> byte list \<Rightarrow> int \<Rightarrow> (ares_status \<times> hostent option) option" where
  "ares_parse_ptr_reply mem abuf addr family =
     (case reply_question ares__expand_name_for_response False mem abuf of
        None \<Rightarrow> None
      | Some (Inl st) \<Rightarrow> Some (st, None)
      | Some (Inr (ptrname, aptr, ancount)) \<Rightarrow>
          if \<not> mem M_aliases then Some (ARES_ENOMEM, None)
          else do {
            (st, l) \<leftarrow> for_answers (ptr_answer mem abuf) 0 ancount
              \<lparr>pl_aptr = aptr, pl_ptrname = ptrname, pl_hostname = None, pl_aliases = [], pl_alloc = 8\<rparr>;
            Some (ptr_finish mem addr family st l)
          })"

section \<open>Staying in bounds\<close>

definition ns_inv :: "buffer \<Rightarrow> nat \<Rightarrow> ns_locals \<Rightarrow> bool" where
  "ns_inv abuf i l \<longleftrightarrow> nl_aptr l \<le> length abuf \<and> length (nl_servers l) \<le> i"

lemma ns_answer_safe:
  assumes "ns_inv abuf i l" "i < ancount"
  shows "no_crash (ns_answer mem abuf ancount i l) (pass_ok (ns_inv abuf (Suc i)) (\<lambda>_. True))"
  unfolding ns_answer_def Let_def
  by (intro response_name.decode_pass response_name.expand_pass no_crash_if
      no_crash_then_pass [where R = "ns_inv abuf (Suc i)"])
    (use assms in \<open>auto simp: no_crash_def ns_inv_def\<close>)

interpretation ns: answer_loop "ns_answer mem abuf ancount" "ns_inv abuf" "\<lambda>_. True" ancount
  for mem abuf ancount
  by unfold_locales (rule ns_answer_safe)

definition ptr_inv :: "buffer \<Rightarrow> nat \<Rightarrow> ptr_locals \<Rightarrow> bool" where
  "ptr_inv abuf i l \<longleftrightarrow> pl_aptr l \<le> length abuf \<and> length (pl_aliases l) < pl_alloc l"

lemma record_ptr_safe:
  assumes "ptr_inv abuf i l"
  shows "no_crash (record_ptr item grow rr_data l) (pass_ok (ptr_inv abuf i) (\<lambda>_. True))"
  using assms by (auto simp: record_ptr_def ptr_inv_def Let_def no_crash_def)

lemma ptr_answer_safe:
  assumes "ptr_inv abuf i l"
  shows "no_crash (ptr_answer mem abuf i l) (pass_ok (ptr_inv abuf (Suc i)) (\<lambda>_. True))"
proof -
  have inv: "ptr_inv abuf (Suc i) (l\<lparr>pl_aptr := p\<rparr>)" if "p \<le> length abuf" for p
    using assms that by (simp add: ptr_inv_def)
  show ?thesis unfolding ptr_answer_def Let_def
    by (intro response_name.decode_pass response_name.expand_pass no_crash_if record_ptr_safe
        no_crash_then_pass [where R = "ptr_inv abuf (Suc i)"] inv no_crash_Next)
      (use assms in \<open>auto simp: no_crash_def ptr_inv_def\<close>)
qed

interpretation ptr: answer_loop "ptr_answer mem abuf" "ptr_inv abuf" "\<lambda>_. True" total
  for mem abuf total
  by unfold_locales (rule ptr_answer_safe)

lemma ns_reply_total:
  "\<exists>st h. ares_parse_ns_reply mem abuf = Some (st, h) \<and> (h \<noteq> None \<longleftrightarrow> st = ARES_SUCCESS)"
proof -
  obtain q where q: "reply_question ares__expand_name_for_response False mem abuf = Some q"
    "case q of Inl st \<Rightarrow> st \<noteq> ARES_SUCCESS | Inr (name, aptr, n) \<Rightarrow> aptr \<le> length abuf"
    using response_name.reply_question_safe [of False mem abuf] by (auto simp: no_crash_def)
  show ?thesis
  proof (cases q)
    case (Inl st)
    with q show ?thesis by (simp add: ares_parse_ns_reply_def)
  next
    case (Inr x)
    obtain hostname aptr n where x: "x = (hostname, aptr, n)" by (cases x) auto
    with q Inr have "ns_inv abuf 0 \<lparr>nl_aptr = aptr, nl_servers = []\<rparr>" by (simp add: ns_inv_def)
    from ns.loop_good [OF this, of n n n mem] obtain st l where
      "for_answers (ns_answer mem abuf n) 0 n \<lparr>nl_aptr = aptr, nl_servers = []\<rparr> = Some (st, l)"
      "st = ARES_SUCCESS \<longrightarrow> length (nl_servers l) \<le> n"
      by (auto simp: no_crash_def ns_inv_def split: if_splits)
    with q Inr x show ?thesis
      by (auto simp: ares_parse_ns_reply_def ns_finish_def Let_def)
  qed
qed

lemma ptr_reply_total:
  "\<exists>st h. ares_parse_ptr_reply mem abuf addr family = Some (st, h) \<and> (h \<noteq> None \<longleftrightarrow> st = ARES_SUCCESS)"
proof -
  obtain q where q: "reply_question ares__expand_name_for_response False mem abuf = Some q"
    "case q of Inl st \<Rightarrow> st \<noteq> ARES_SUCCESS | Inr (name, aptr, n) \<Rightarrow> aptr \<le> length abuf"
    using response_name.reply_question_safe [of False mem abuf] by (auto simp: no_crash_def)
  show ?thesis
  proof (cases q)
    case (Inl st)
    with q show ?thesis by (simp add: ares_parse_ptr_reply_def)
  next
    case (Inr x)
    obtain ptrname aptr n where x: "x = (ptrname, aptr, n)" by (cases x) auto
    let ?l = "\<lparr>pl_aptr = aptr, pl_ptrname = ptrname, pl_hostname = None, pl_aliases = [], pl_alloc = 8\<rparr>"
    from x q Inr have "ptr_inv abuf 0 ?l" by (simp add: ptr_inv_def)
    from ptr.loop_good [OF this, of n n n mem] obtain st l where
      "for_answers (ptr_answer mem abuf) 0 n ?l = Some (st, l)"
      by (auto simp: no_crash_def)
    with q Inr x show ?thesis
      by (auto simp: ares_parse_ptr_reply_def ptr_finish_def Let_def split: option.split)
  qed
qed

section \<open>What the answers say\<close>

text \<open>A record whose data is a name.\<close>

record name_rr =
  nr_owner :: "byte list list"
  nr_type :: nat
  nr_class :: nat
  nr_ttl :: "32 word"
  nr_target :: "byte list list"

definition encode_name_rr :: "name_rr \<Rightarrow> byte list" where
  "encode_name_rr x =
     encode_name (nr_owner x) @
     rr_fixed (nr_type x) (nr_class x) (nr_ttl x) (length (encode_name (nr_target x))) @
     encode_name (nr_target x)"

definition name_rr_ok :: "name_rr \<Rightarrow> bool" where
  "name_rr_ok x \<longleftrightarrow>
     (\<forall>l \<in> set (nr_owner x). label_ok l) \<and> (\<forall>l \<in> set (nr_target x). label_ok l) \<and>
     nr_type x < 2 ^ 16 \<and> nr_class x < 2 ^ 16 \<and> length (encode_name (nr_target x)) < 2 ^ 16"

lemma name_rr_encoded:
  assumes d: "drop p abuf = encode_name_rr x @ rest" and ok: "name_rr_ok x"
  obtains q where "decode_rr ares__expand_name_for_response True abuf p =
      ret (\<lparr>rr_name = dotted (nr_owner x), rr_type = nr_type x, rr_class = nr_class x,
            rr_len = length (encode_name (nr_target x)), rr_ttl = sint (nr_ttl x)\<rparr>, q)"
    "ares__expand_name_for_response True abuf q = ret (dotted (nr_target x), length (encode_name (nr_target x)))"
    "q + length (encode_name (nr_target x)) = p + length (encode_name_rr x)"
    "p + length (encode_name_rr x) \<le> length abuf" "drop (p + length (encode_name_rr x)) abuf = rest"
proof -
  have d': "drop p abuf = encode_name (nr_owner x) @ rr_fixed (nr_type x) (nr_class x) (nr_ttl x)
      (length (encode_name (nr_target x))) @ encode_name (nr_target x) @ rest"
    using d by (simp add: encode_name_rr_def)
  have "\<forall>l \<in> set (nr_owner x). label_ok l" "\<forall>l \<in> set (nr_target x). label_ok l"
    "nr_type x < 2 ^ 16" "nr_class x < 2 ^ 16" "length (encode_name (nr_target x)) < 2 ^ 16"
    using ok by (simp_all add: name_rr_ok_def)
  note e = response_name.decode_rr_encoded [OF d' this(1,3-5)]
    and target = expand_response_encoded [OF _ this(2), of _ abuf rest]
  let ?q = "p + length (encode_name (nr_owner x)) + RRFIXEDSZ"
  have q: "?q + length (encode_name (nr_target x)) = p + length (encode_name_rr x)"
    by (simp add: encode_name_rr_def rr_fixed_def RRFIXEDSZ_def)
  have "length abuf - p = length (encode_name_rr x) + length rest" "0 < length (encode_name_rr x)"
    using arg_cong [OF d, of length] by (simp_all add: encode_name_rr_def)
  then have len: "p + length (encode_name_rr x) \<le> length abuf" by linarith
  have "drop (p + length (encode_name_rr x)) abuf = rest"
    using arg_cong [OF d, of "drop (length (encode_name_rr x))"] by (simp add: add.commute)
  from that [OF e(1) target [OF e(2)] q len this] show thesis .
qed

definition is_ns :: "name_rr \<Rightarrow> bool" where
  "is_ns x \<longleftrightarrow> nr_class x = C_IN \<and> nr_type x = T_NS"

definition server_names :: "name_rr list \<Rightarrow> byte list list" where
  "server_names xs = map (\<lambda>x. cstr (dotted (nr_target x))) (filter is_ns xs)"

lemma ns_answers_encoded:
  assumes "drop p abuf = concat (map encode_name_rr xs) @ rest" "\<forall>x \<in> set xs. name_rr_ok x"
    and "length ss + length xs \<le> n"
  shows "\<exists>q. for_answers (ns_answer (\<lambda>_. True) abuf n) i (length xs) \<lparr>nl_aptr = p, nl_servers = ss\<rparr> =
    Some (ARES_SUCCESS, \<lparr>nl_aptr = q, nl_servers = ss @ server_names xs\<rparr>)"
  using assms
proof (induction xs arbitrary: p ss i)
  case Nil
  then show ?case by (simp add: server_names_def)
next
  case (Cons x xs)
  then have d: "drop p abuf = encode_name_rr x @ concat (map encode_name_rr xs) @ rest"
    and x: "name_rr_ok x" by simp_all
  let ?p = "p + length (encode_name_rr x)"
  obtain q where q: "decode_rr ares__expand_name_for_response True abuf p =
      ret (\<lparr>rr_name = dotted (nr_owner x), rr_type = nr_type x, rr_class = nr_class x,
            rr_len = length (encode_name (nr_target x)), rr_ttl = sint (nr_ttl x)\<rparr>, q)"
    "ares__expand_name_for_response True abuf q = ret (dotted (nr_target x), length (encode_name (nr_target x)))"
    "q + length (encode_name (nr_target x)) = ?p" "?p \<le> length abuf"
    "drop ?p abuf = concat (map encode_name_rr xs) @ rest"
    by (rule name_rr_encoded [OF d x])
  have "ns_answer (\<lambda>_. True) abuf n i \<lparr>nl_aptr = p, nl_servers = ss\<rparr> =
      Some (Next \<lparr>nl_aptr = ?p, nl_servers = ss @ server_names [x]\<rparr>)"
    using q Cons.prems(3) by (auto simp: ns_answer_def server_names_def is_ns_def)
  moreover have "server_names (x # xs) = server_names [x] @ server_names xs"
    by (simp add: server_names_def)
  moreover have "length (server_names [x]) \<le> 1" by (simp add: server_names_def)
  ultimately show ?case
    using Cons.IH [of ?p "ss @ server_names [x]" "Suc i"] q(5) Cons.prems(2,3) by simp
qed

text \<open>The name looked for, and the names found, as the answers go.  In the code every alias replaces
  the name looked for (\<open>see_ptr\<close>, \<open>names_of\<close>); what the answers mean is that an alias of that name
  does (\<open>follow_ptr\<close>, \<open>names_for\<close>).\<close>

definition see_ptr :: "name_rr \<Rightarrow> byte list \<times> byte list list \<Rightarrow> byte list \<times> byte list list" where
  "see_ptr x s =
     (if nr_class x = C_IN \<and> nr_type x = T_PTR \<and> ares_strcasecmp (dotted (nr_owner x)) (fst s) = 0
      then (fst s, snd s @ [dotted (nr_target x)])
      else if nr_class x = C_IN \<and> nr_type x = T_CNAME then (dotted (nr_target x), snd s) else s)"

definition names_of :: "byte list list \<Rightarrow> name_rr list \<Rightarrow> byte list list" where
  "names_of q xs = snd (fold see_ptr xs (dotted q, []))"

definition alias_rr :: "name_rr \<Rightarrow> bool" where
  "alias_rr x \<longleftrightarrow> nr_class x = C_IN \<and> nr_type x = T_CNAME"

definition follow_ptr :: "name_rr \<Rightarrow> byte list \<times> byte list list \<Rightarrow> byte list \<times> byte list list" where
  "follow_ptr x s =
     (if ares_strcasecmp (dotted (nr_owner x)) (fst s) \<noteq> 0 \<or> nr_class x \<noteq> C_IN then s
      else if nr_type x = T_PTR then (fst s, snd s @ [dotted (nr_target x)])
      else if nr_type x = T_CNAME then (dotted (nr_target x), snd s) else s)"

definition names_for :: "byte list list \<Rightarrow> name_rr list \<Rightarrow> byte list list" where
  "names_for q xs = snd (fold follow_ptr xs (dotted q, []))"

primrec chained_rrs :: "byte list \<Rightarrow> name_rr list \<Rightarrow> bool" where
  "chained_rrs n [] \<longleftrightarrow> True"
| "chained_rrs n (x # xs) \<longleftrightarrow>
     (if alias_rr x then ares_strcasecmp (dotted (nr_owner x)) n = 0 \<and> chained_rrs (dotted (nr_target x)) xs
      else chained_rrs n xs)"

lemma names_chained: "chained_rrs (dotted q) xs \<Longrightarrow> names_of q xs = names_for q xs"
proof -
  have "fold see_ptr xs s = fold follow_ptr xs s" if "chained_rrs (fst s) xs" for s
    using that
  proof (induction xs arbitrary: s)
    case (Cons x xs)
    have step: "see_ptr x s = follow_ptr x s \<and> chained_rrs (fst (follow_ptr x s)) xs"
    proof (cases "alias_rr x")
      case True
      with Cons.prems show ?thesis
        by (simp add: see_ptr_def follow_ptr_def alias_rr_def T_PTR_def T_CNAME_def)
    next
      case False
      with Cons.prems have "chained_rrs (fst s) xs" by simp
      with False show ?thesis by (auto simp: see_ptr_def follow_ptr_def alias_rr_def)
    qed
    with Cons.IH [of "follow_ptr x s"] show ?case by (simp only: fold.simps comp_def)
  qed simp
  then show "chained_rrs (dotted q) xs \<Longrightarrow> names_of q xs = names_for q xs"
    by (simp add: names_of_def names_for_def)
qed

definition ptr_of :: "byte list \<times> byte list list \<Rightarrow> nat \<Rightarrow> nat \<Rightarrow> ptr_locals" where
  "ptr_of s p room =
     \<lparr>pl_aptr = p, pl_ptrname = fst s, pl_hostname = (if snd s = [] then None else Some (last (snd s))),
      pl_aliases = map cstr (snd s), pl_alloc = room\<rparr>"

lemma ptr_answers_encoded:
  assumes "drop p abuf = concat (map encode_name_rr xs) @ rest" "\<forall>x \<in> set xs. name_rr_ok x"
    and "length (snd s) < room"
  shows "\<exists>q room'. for_answers (ptr_answer (\<lambda>_. True) abuf) i (length xs) (ptr_of s p room) =
    Some (ARES_SUCCESS, ptr_of (fold see_ptr xs s) q room')"
  using assms
proof (induction xs arbitrary: p s i room)
  case Nil
  then show ?case by auto
next
  case (Cons x xs)
  then have d: "drop p abuf = encode_name_rr x @ concat (map encode_name_rr xs) @ rest"
    and x: "name_rr_ok x" by simp_all
  let ?p = "p + length (encode_name_rr x)"
  obtain q where q: "decode_rr ares__expand_name_for_response True abuf p =
      ret (\<lparr>rr_name = dotted (nr_owner x), rr_type = nr_type x, rr_class = nr_class x,
            rr_len = length (encode_name (nr_target x)), rr_ttl = sint (nr_ttl x)\<rparr>, q)"
    "ares__expand_name_for_response True abuf q = ret (dotted (nr_target x), length (encode_name (nr_target x)))"
    "q + length (encode_name (nr_target x)) = ?p" "?p \<le> length abuf"
    "drop ?p abuf = concat (map encode_name_rr xs) @ rest"
    by (rule name_rr_encoded [OF d x])
  have "\<exists>room'. ptr_answer (\<lambda>_. True) abuf i (ptr_of s p room) = Some (Next (ptr_of (see_ptr x s) ?p room')) \<and>
      length (snd (see_ptr x s)) < room'"
  proof (cases "nr_class x = C_IN \<and> nr_type x = T_PTR \<and> ares_strcasecmp (dotted (nr_owner x)) (fst s) = 0")
    case True
    then show ?thesis
      using q Cons.prems(3)
      by (intro exI [of _ "if Suc (length (snd s)) < room then room else room * 2"])
        (auto simp: ptr_answer_def ptr_of_def see_ptr_def record_ptr_def Let_def T_PTR_def T_CNAME_def)
  next
    case False
    then show ?thesis
      using q Cons.prems(3)
      by (intro exI [of _ room]) (auto simp: ptr_answer_def ptr_of_def see_ptr_def Let_def)
  qed
  then obtain room' where "ptr_answer (\<lambda>_. True) abuf i (ptr_of s p room) =
      Some (Next (ptr_of (see_ptr x s) ?p room'))" "length (snd (see_ptr x s)) < room'" by blast
  then show ?case
    using Cons.IH [of ?p "see_ptr x s" room' "Suc i"] q(5) Cons.prems(2) by simp
qed

section \<open>Properties\<close>

text \<open>
  Parsing an NS or a PTR reply stays in bounds: on any bytes and with any answers of the
  allocator, both parsers read inside the reply, write inside their arrays of names, the one
  that is doubled included, and return, with a host entry exactly on success.
\<close>

lemma host_reply_safe:
  "(\<exists>st h. ares_parse_ns_reply mem abuf = Some (st, h) \<and> (h \<noteq> None \<longleftrightarrow> st = ARES_SUCCESS)) \<and>
   (\<exists>st h. ares_parse_ptr_reply mem abuf addr family = Some (st, h) \<and>
     (h \<noteq> None \<longleftrightarrow> st = ARES_SUCCESS))"
  using ns_reply_total ptr_reply_total by blast

text \<open>
  An NS reply gives the name servers among its answers, in order, and is without data
  when there are none.
\<close>

lemma ns_reply_servers:
  assumes "length ids = 4" "length nums = 4" "\<forall>l \<in> set q. label_ok l"
    and "\<forall>x \<in> set xs. name_rr_ok x" "length xs < 2 ^ 16"
  shows "ares_parse_ns_reply (\<lambda>_. True)
      (encode_reply ids nums q qtype qclass (length xs) (concat (map encode_name_rr xs))) =
    Some (if server_names xs = [] then (ARES_ENODATA, None)
          else (ARES_SUCCESS, Some \<lparr>h_name = dotted q, h_aliases = server_names xs,
                  h_addrtype = AF_INET, h_length = 4, h_addr_list = []\<rparr>))"
proof -
  let ?abuf = "encode_reply ids nums q qtype qclass (length xs) (concat (map encode_name_rr xs))"
  obtain aptr where a: "reply_question ares__expand_name_for_response False (\<lambda>_. True) ?abuf =
      ret (dotted q, aptr, length xs)" "drop aptr ?abuf = concat (map encode_name_rr xs)"
    using response_name.reply_question_encoded [OF assms(1-3,5), of False qtype qclass] by blast
  obtain p where "for_answers (ns_answer (\<lambda>_. True) ?abuf (length xs)) 0 (length xs)
      \<lparr>nl_aptr = aptr, nl_servers = []\<rparr> = Some (ARES_SUCCESS, \<lparr>nl_aptr = p, nl_servers = server_names xs\<rparr>)"
    using ns_answers_encoded [of aptr ?abuf xs "[]" "[]" "length xs" 0] a(2) assms(4) by auto
  moreover have "length (server_names xs) \<le> length xs" by (simp add: server_names_def)
  ultimately show ?thesis
    using a(1) by (simp add: ares_parse_ns_reply_def ns_finish_def ret_def Let_def)
qed

text \<open>
  A PTR reply gives the names found for the name looked for, aliases followed, in order,
  the last one as the host's name.
\<close>

lemma ptr_reply_names:
  assumes "length ids = 4" "length nums = 4" "\<forall>l \<in> set q. label_ok l"
    and "\<forall>x \<in> set xs. name_rr_ok x" "length xs < 2 ^ 16"
  shows "ares_parse_ptr_reply (\<lambda>_. True)
      (encode_reply ids nums q qtype qclass (length xs) (concat (map encode_name_rr xs))) addr family =
    Some (if names_of q xs = [] then (ARES_ENODATA, None)
          else (ARES_SUCCESS, Some \<lparr>h_name = last (names_of q xs), h_aliases = map cstr (names_of q xs),
                  h_addrtype = family, h_length = int (length addr), h_addr_list = [addr]\<rparr>))"
proof -
  let ?abuf = "encode_reply ids nums q qtype qclass (length xs) (concat (map encode_name_rr xs))"
  obtain aptr where a: "reply_question ares__expand_name_for_response False (\<lambda>_. True) ?abuf =
      ret (dotted q, aptr, length xs)" "drop aptr ?abuf = concat (map encode_name_rr xs)"
    using response_name.reply_question_encoded [OF assms(1-3,5), of False qtype qclass] by blast
  have start: "\<lparr>pl_aptr = aptr, pl_ptrname = dotted q, pl_hostname = None, pl_aliases = [], pl_alloc = 8\<rparr> =
      ptr_of (dotted q, []) aptr 8" by (simp add: ptr_of_def)
  obtain p room where "for_answers (ptr_answer (\<lambda>_. True) ?abuf) 0 (length xs) (ptr_of (dotted q, []) aptr 8) =
      Some (ARES_SUCCESS, ptr_of (fold see_ptr xs (dotted q, [])) p room)"
    using ptr_answers_encoded [of aptr ?abuf xs "[]" "(dotted q, [])" 8 0] a(2) assms(4) by auto
  with a(1) start show ?thesis
    by (simp add: ares_parse_ptr_reply_def ptr_finish_def ret_def names_of_def ptr_of_def [of "fold see_ptr xs (dotted q, [])"])
qed

text \<open>
  C36: What the parsers of NS and PTR replies make of a reply without compressed names: an NS reply
  gives the name servers among its answers, in order, under the name of the question; a PTR reply
  gives the names found for the name looked for, in order, the last one as the host's name.  Without
  any there is no data.  Every alias in a PTR reply replaces the name looked for, whoever owns it;
  when each belongs to the name looked for where it stands, the names are those that following the
  aliases from the question gives (\<open>names_for\<close>).  When one does not, they need not be: asked for \<open>a\<close>,
  the code takes the name of \<open>y\<close> from a reply that says \<open>x\<close> is an alias of \<open>y\<close>.
\<close>

theorem name_replies_resolve:
  assumes "length ids = 4" "length nums = 4" "\<forall>l \<in> set q. label_ok l"
    and "\<forall>x \<in> set xs. name_rr_ok x" "length xs < 2 ^ 16"
  shows "ares_parse_ns_reply (\<lambda>_. True)
      (encode_reply ids nums q qtype qclass (length xs) (concat (map encode_name_rr xs))) =
      Some (if server_names xs = [] then (ARES_ENODATA, None)
            else (ARES_SUCCESS, Some \<lparr>h_name = dotted q, h_aliases = server_names xs,
                    h_addrtype = AF_INET, h_length = 4, h_addr_list = []\<rparr>)) \<and>
    ares_parse_ptr_reply (\<lambda>_. True)
      (encode_reply ids nums q qtype qclass (length xs) (concat (map encode_name_rr xs))) addr family =
      Some (if names_of q xs = [] then (ARES_ENODATA, None)
            else (ARES_SUCCESS, Some \<lparr>h_name = last (names_of q xs), h_aliases = map cstr (names_of q xs),
                    h_addrtype = family, h_length = int (length addr), h_addr_list = [addr]\<rparr>)) \<and>
    (chained_rrs (dotted q) xs \<longrightarrow> names_of q xs = names_for q xs)"
  by (intro conjI impI ns_reply_servers [OF assms] ptr_reply_names [OF assms] names_chained)

lemma name_replies_resolve_witness:
  "ares_parse_ns_reply (\<lambda>_. True)
     (encode_reply [0, 7, 0x81, 0x80] [0, 0, 0, 0] [[97]] 2 1 (Suc 0)
        (encode_name_rr \<lparr>nr_owner = [[65]], nr_type = T_PTR, nr_class = C_IN, nr_ttl = 9, nr_target = [[98]]\<rparr>)) =
     Some (ARES_ENODATA, None) \<and>
   ares_parse_ptr_reply (\<lambda>_. True)
     (encode_reply [0, 7, 0x81, 0x80] [0, 0, 0, 0] [[97]] 2 1 (Suc 0)
        (encode_name_rr \<lparr>nr_owner = [[65]], nr_type = T_PTR, nr_class = C_IN, nr_ttl = 9, nr_target = [[98]]\<rparr>))
     [10, 0, 0, 1] AF_INET =
     Some (ARES_SUCCESS, Some \<lparr>h_name = [98], h_aliases = [[98]], h_addrtype = AF_INET,
             h_length = 4, h_addr_list = [[10, 0, 0, 1]]\<rparr>) \<and>
   ares_parse_ptr_reply (\<lambda>_. True)
     (encode_reply [0, 7, 0x81, 0x80] [0, 0, 0, 0] [[97]] 12 1 (Suc (Suc 0))
        (encode_name_rr \<lparr>nr_owner = [[120]], nr_type = T_CNAME, nr_class = C_IN, nr_ttl = 9, nr_target = [[121]]\<rparr> @
         encode_name_rr \<lparr>nr_owner = [[121]], nr_type = T_PTR, nr_class = C_IN, nr_ttl = 9, nr_target = [[98]]\<rparr>))
     [10, 0, 0, 1] AF_INET =
     Some (ARES_SUCCESS, Some \<lparr>h_name = [98], h_aliases = [[98]], h_addrtype = AF_INET,
             h_length = 4, h_addr_list = [[10, 0, 0, 1]]\<rparr>) \<and>
   names_for [[97]]
     [\<lparr>nr_owner = [[120]], nr_type = T_CNAME, nr_class = C_IN, nr_ttl = 9, nr_target = [[121]]\<rparr>,
      \<lparr>nr_owner = [[121]], nr_type = T_PTR, nr_class = C_IN, nr_ttl = 9, nr_target = [[98]]\<rparr>] = []"
  using name_replies_resolve [of "[0, 7, 0x81, 0x80]" "[0, 0, 0, 0]" "[[97]]"
      "[\<lparr>nr_owner = [[65]], nr_type = T_PTR, nr_class = C_IN, nr_ttl = 9, nr_target = [[98]]\<rparr>]" 2 1
      "[10, 0, 0, 1]" AF_INET]
    name_replies_resolve [of "[0, 7, 0x81, 0x80]" "[0, 0, 0, 0]" "[[97]]"
      "[\<lparr>nr_owner = [[120]], nr_type = T_CNAME, nr_class = C_IN, nr_ttl = 9, nr_target = [[121]]\<rparr>,
        \<lparr>nr_owner = [[121]], nr_type = T_PTR, nr_class = C_IN, nr_ttl = 9, nr_target = [[98]]\<rparr>]" 12 1
      "[10, 0, 0, 1]" AF_INET]
  by (simp add: names_for_def follow_ptr_def T_CNAME_def label_ok_def MAXLABEL_def name_rr_ok_def names_of_def server_names_def is_ns_def see_ptr_def
      dotted_def dots_def escaped_def cstr_def C_IN_def T_NS_def T_PTR_def ares_strcasecmp_cases tolower_def ISUPPER_def)

end
