(* ===== verification/Ares_Ntop.thy ===== *)
theory Ares_Ntop
  imports Ares_Base
begin

text \<open>
  Addresses as text: \<^verbatim>\<open>inet_ntop.c\<close>.  The text is put together in a local array of the size of
  the longest one that was foreseen; writes into it, the terminators that \<^verbatim>\<open>sprintf\<close> adds
  included, and reads of the address are checked.  \<^verbatim>\<open>errno\<close> is the left summand.
\<close>

datatype inet_errno = ENOENT | EMSGSIZE | ENOSPC | EAFNOSUPPORT

type_synonym 'a inet = "(inet_errno + 'a) option"

definition NS_IN6ADDRSZ :: nat where "NS_IN6ADDRSZ = 16"
definition NS_INADDRSZ :: nat where "NS_INADDRSZ = 4"
definition NS_INT16SZ :: nat where "NS_INT16SZ = 2"

section \<open>Version 4\<close>

definition dotted_quad :: "byte list \<Rightarrow> byte list" where
  "dotted_quad src =
     dec (unat (src ! 0)) @ [DOT] @ dec (unat (src ! 1)) @ [DOT] @
     dec (unat (src ! 2)) @ [DOT] @ dec (unat (src ! 3))"

definition inet_ntop4 :: "byte list \<Rightarrow> nat \<Rightarrow> byte list inet" where
  "inet_ntop4 src size_dst =
     (let tmp = dotted_quad src
      in if \<not> (NS_INADDRSZ \<le> length src \<and> length tmp < 16) then None
         else if length tmp \<ge> size_dst then Some (Inl ENOSPC) else Some (Inr tmp))"

section \<open>Version 6\<close>

text \<open>A run of zero words: where it starts, if there is one, and how long it is.\<close>

record run =
  rbase :: "nat option"
  rlen :: nat

definition words_of :: "byte list \<Rightarrow> nat list" where
  "words_of src = map (\<lambda>i. unat (src ! (2 * i)) * 256 + unat (src ! (2 * i + 1))) [0..<8]"

definition longer :: "run \<Rightarrow> run \<Rightarrow> run" where
  "longer cur best = (if rbase best = None \<or> rlen cur > rlen best then cur else best)"

definition run_step :: "nat list \<Rightarrow> nat \<Rightarrow> run \<times> run \<Rightarrow> run \<times> run" where
  "run_step words i s =
     (let (best, cur) = s
      in if words ! i = 0
         then (best, if rbase cur = None then \<lparr>rbase = Some i, rlen = 1\<rparr>
                     else cur\<lparr>rlen := rlen cur + 1\<rparr>)
         else if rbase cur \<noteq> None then (longer cur best, cur\<lparr>rbase := None\<rparr>)
         else (best, cur))"

definition best_run :: "nat list \<Rightarrow> run" where
  "best_run words =
     (let none = \<lparr>rbase = None, rlen = 0\<rparr>;
          (best, cur) = fold (run_step words) [0..<8] (none, none);
          best = (if rbase cur \<noteq> None then longer cur best else best)
      in if rbase best \<noteq> None \<and> rlen best < 2 then best\<lparr>rbase := None\<rparr> else best)"

definition in_run :: "run \<Rightarrow> nat \<Rightarrow> bool" where
  "in_run best i \<longleftrightarrow> (case rbase best of None \<Rightarrow> False | Some b \<Rightarrow> b \<le> i \<and> i < b + rlen best)"

abbreviation COLON :: byte where "COLON \<equiv> 58"

text \<open>\<^verbatim>\<open>sizeof "ffff:ffff:ffff:ffff:ffff:ffff:255.255.255.255"\<close>\<close>

definition tmp_size :: nat where "tmp_size = 46"

definition add_text :: "byte list \<Rightarrow> byte list \<Rightarrow> byte list option" where
  "add_text xs tp = (if length tp + length xs \<le> tmp_size then Some (tp @ xs) else None)"

text \<open>\<^verbatim>\<open>sprintf\<close> also writes the terminator.\<close>

definition add_printed :: "byte list \<Rightarrow> byte list \<Rightarrow> byte list option" where
  "add_printed xs tp = (if length tp + length xs < tmp_size then Some (tp @ xs) else None)"

definition encapsulated :: "nat list \<Rightarrow> run \<Rightarrow> nat \<Rightarrow> bool" where
  "encapsulated words best i \<longleftrightarrow>
     i = 6 \<and> rbase best = Some 0 \<and>
     (rlen best = 6 \<or> (rlen best = 7 \<and> words ! 7 \<noteq> 1) \<or> (rlen best = 5 \<and> words ! 5 = 0xffff))"

fun format_words :: "byte list \<Rightarrow> nat list \<Rightarrow> run \<Rightarrow> nat \<Rightarrow> nat \<Rightarrow> byte list \<Rightarrow> byte list inet" where
  "format_words src words best i 0 tp = Some (Inr tp)"
| "format_words src words best i (Suc k) tp =
     (if in_run best i
      then (case (if rbase best = Some i then add_text [COLON] tp else Some tp) of
              None \<Rightarrow> None
            | Some tp \<Rightarrow> format_words src words best (Suc i) k tp)
      else case (if i \<noteq> 0 then add_text [COLON] tp else Some tp) of
             None \<Rightarrow> None
           | Some tp \<Rightarrow>
               if encapsulated words best i
               then (case inet_ntop4 (drop 12 src) (tmp_size - length tp) of
                       None \<Rightarrow> None
                     | Some (Inl e) \<Rightarrow> Some (Inl e)
                     | Some (Inr quad) \<Rightarrow> map_option Inr (add_printed quad tp))
               else (case add_printed (hex (words ! i)) tp of
                       None \<Rightarrow> None
                     | Some tp \<Rightarrow> format_words src words best (Suc i) k tp))"

definition ends_in_run :: "run \<Rightarrow> bool" where
  "ends_in_run best \<longleftrightarrow> (case rbase best of None \<Rightarrow> False | Some b \<Rightarrow> b + rlen best = 8)"

definition inet_ntop6 :: "byte list \<Rightarrow> nat \<Rightarrow> byte list inet" where
  "inet_ntop6 src size_dst =
     (let words = words_of src; best = best_run words
      in if length src < NS_IN6ADDRSZ then None
         else case format_words src words best 0 8 [] of
           None \<Rightarrow> None
         | Some (Inl e) \<Rightarrow> Some (Inl e)
         | Some (Inr tp) \<Rightarrow>
             (case (if ends_in_run best then add_text [COLON] tp else Some tp) of
                None \<Rightarrow> None
              | Some tp \<Rightarrow>
                  if \<not> length tp < tmp_size then None
                  else if length tp + 1 > size_dst then Some (Inl ENOSPC)
                  else Some (Inr tp)))"

definition ares_inet_ntop :: "int \<Rightarrow> byte list \<Rightarrow> nat \<Rightarrow> byte list inet" where
  "ares_inet_ntop af src size_dst =
     (if af = AF_INET then inet_ntop4 src size_dst
      else if af = AF_INET6 then inet_ntop6 src size_dst
      else Some (Inl EAFNOSUPPORT))"

section \<open>Staying in bounds\<close>

lemma dec_length: "n < 10 ^ Suc k \<Longrightarrow> length (dec n) \<le> Suc k"
proof (induction n arbitrary: k rule: dec.induct)
  case (1 n)
  show ?case
  proof (cases "n < 10")
    case True
    then show ?thesis by (subst dec.simps) simp
  next
    case False
    with 1(2) obtain j where k: "k = Suc j" by (cases k) auto
    with 1(2) have "n div 10 < 10 ^ Suc j" by (simp add: less_mult_imp_div_less)
    from 1(1) [OF False this] False k show ?thesis by (subst dec.simps) simp
  qed
qed

lemma dec_byte_length: "length (dec (unat (b :: byte))) \<le> 3"
proof -
  have "unat b < 256" using unat_lt_power [of b] by simp
  then show ?thesis using dec_length [of "unat b" 2] by simp
qed

lemma dotted_quad_length: "length (dotted_quad src) \<le> 15"
  using dec_byte_length [of "src ! 0"] dec_byte_length [of "src ! 1"] dec_byte_length [of "src ! 2"]
    dec_byte_length [of "src ! 3"] by (simp add: dotted_quad_def)

lemma ntop4_result:
  "4 \<le> length src \<Longrightarrow>
     inet_ntop4 src n = Some (if length (dotted_quad src) < n then Inr (dotted_quad src) else Inl ENOSPC)"
  using dotted_quad_length [of src] by (simp add: inet_ntop4_def NS_INADDRSZ_def Let_def)

lemma words_small: "i < 8 \<Longrightarrow> words_of src ! i < 16 ^ 4"
  using unat_lt_power [of "src ! (2 * i)"] unat_lt_power [of "src ! (2 * i + 1)"]
  by (simp add: words_of_def)

lemma word_text_length: "i < 8 \<Longrightarrow> length (hex (words_of src ! i)) \<le> 4"
  using hex_length [of 4 "words_of src ! i"] words_small by simp

text \<open>How much of the local array is in use before word \<open>i\<close>.\<close>

definition used :: "run \<Rightarrow> nat \<Rightarrow> nat" where
  "used best i =
     (if i = 0 then 0 else if rbase best = Some 0 \<and> 5 \<le> rlen best then 1 + 5 * (i - 5) else 5 * i)"

lemma format_words_safe:
  assumes "i + k = 8" "length tp \<le> used best i" "16 \<le> length src"
  shows "\<exists>tp'. format_words src (words_of src) best i k tp = Some (Inr tp') \<and> length tp' \<le> 40"
  using assms
proof (induction k arbitrary: i tp)
  case 0
  then show ?case by (simp add: used_def split: if_splits)
next
  case (Suc k)
  have i: "i < 8" using Suc.prems(1) by simp
  show ?case
  proof (cases "in_run best i")
    case True
    let ?tp = "if rbase best = Some i then tp @ [COLON] else tp"
    have "length ?tp \<le> used best (Suc i)"
      using True Suc.prems(2) i by (auto simp: used_def in_run_def split: option.splits if_splits)
    moreover have "length tp + 1 \<le> tmp_size"
      using Suc.prems(2) i by (auto simp: used_def tmp_size_def split: if_splits)
    ultimately show ?thesis
      using True Suc.IH [of "Suc i" ?tp] Suc.prems(1,3) by (auto simp: add_text_def)
  next
    case False
    define sep where "sep = (if i \<noteq> 0 then tp @ [COLON] else tp)"
    have tp: "length sep \<le> used best i + (if i = 0 then 0 else 1)" using Suc.prems(2) by (auto simp: sep_def)
    have room: "used best i + 1 + 4 < tmp_size" using i by (auto simp: used_def tmp_size_def)
    have start: "(if i \<noteq> 0 then add_text [COLON] tp else Some tp) = Some sep"
      using Suc.prems(2) room by (simp add: add_text_def sep_def)
    have small: "length sep + 4 < tmp_size" using tp room by (simp split: if_splits)
    show ?thesis
    proof (cases "encapsulated (words_of src) best i")
      case True
      then have "used best i = 6" "i = 6" by (auto simp: encapsulated_def used_def)
      with tp have "length sep + 15 < tmp_size" "length sep + 15 \<le> 40" by (simp_all add: tmp_size_def)
      with False True start dotted_quad_length [of "drop 12 src"] Suc.prems(3) show ?thesis
        by (simp add: ntop4_result add_printed_def del: if_split)
    next
      case no: False
      let ?w = "hex (words_of src ! i)"
      have w: "length ?w \<le> 4" by (rule word_text_length [OF i])
      have "length (sep @ ?w) \<le> used best (Suc i)"
        using tp w Suc.prems(2) False i
        by (auto simp: used_def in_run_def split: if_splits option.splits)
      with Suc.IH [of "Suc i" "sep @ ?w"] Suc.prems
      obtain tp' where "format_words src (words_of src) best (Suc i) k (sep @ ?w) = Some (Inr tp')"
        "length tp' \<le> 40" by auto
      moreover have "add_printed ?w sep = Some (sep @ ?w)"
        using small w by (simp add: add_printed_def)
      ultimately show ?thesis using False no start by (simp del: if_split)
    qed
  qed
qed

lemma ntop6_result:
  assumes "16 \<le> length src"
  shows "\<exists>res. length res \<le> 41 \<and>
     inet_ntop6 src n = Some (if length res < n then Inr res else Inl ENOSPC)"
proof -
  let ?best = "best_run (words_of src)"
  obtain tp where tp: "format_words src (words_of src) ?best 0 8 [] = Some (Inr tp)" "length tp \<le> 40"
    using format_words_safe [of 0 8 "[]" ?best src] assms by auto
  define res where "res = (if ends_in_run ?best then tp @ [COLON] else tp)"
  have "(if ends_in_run ?best then add_text [COLON] tp else Some tp) = Some res" "length res \<le> 41"
    using tp(2) by (simp_all add: res_def add_text_def tmp_size_def)
  with tp(1) assms show ?thesis
    by (intro exI [of _ res]) (auto simp: inet_ntop6_def Let_def tmp_size_def NS_IN6ADDRSZ_def simp del: if_split split: if_split_asm)
qed

section \<open>Properties\<close>

text \<open>
  Printing an address stays inside the local array, for all bytes of all addresses, and
  fails only for lack of room at the caller's; 46 bytes are always enough.
\<close>

lemma inet_ntop_bounds:
  assumes "af = AF_INET \<Longrightarrow> 4 \<le> length src" "af = AF_INET6 \<Longrightarrow> 16 \<le> length src"
  shows "\<exists>r. ares_inet_ntop af src n = Some r \<and>
     (case r of
        Inl e \<Rightarrow> if af = AF_INET \<or> af = AF_INET6 then e = ENOSPC \<and> n < 46 else e = EAFNOSUPPORT
      | Inr res \<Rightarrow> length res < n \<and> length res < 46)"
proof -
  consider "af = AF_INET" | "af = AF_INET6" | "af \<noteq> AF_INET" "af \<noteq> AF_INET6" by blast
  then show ?thesis
  proof cases
    case 1
    with assms ntop4_result [of src n] dotted_quad_length [of src] show ?thesis
      by (simp add: ares_inet_ntop_def)
  next
    case 2
    then obtain res where "length res \<le> 41"
      "inet_ntop6 src n = Some (if length res < n then Inr res else Inl ENOSPC)"
      using ntop6_result assms by blast
    with 2 show ?thesis by (simp add: ares_inet_ntop_def AF_INET_def AF_INET6_def)
  next
    case 3
    then show ?thesis by (simp add: ares_inet_ntop_def)
  qed
qed

end
