(* ===== verification/Ares_Pton.thy ===== *)
theory Ares_Pton
  imports Ares_Ntop
begin

text \<open>
  Addresses from text: \<^verbatim>\<open>inet_net_pton.c\<close>.  A source string is the list of its bytes, its
  terminator is read as 0 at the end of the list or at the first 0 in it; the code never reads on
  from there.  The destination is the list of the bytes written to it, next to the result:
  a call that fails half way has written some.  The array \<^verbatim>\<open>tmp\<close> of the version 6 parser is
  written at any offset, so it is a buffer with checked accesses.
\<close>

section \<open>Characters\<close>

definition ISASCII :: "byte \<Rightarrow> bool" where "ISASCII c \<longleftrightarrow> c AND NOT 0x7f = 0"

definition ISDIGIT :: "byte \<Rightarrow> bool" where
  "ISDIGIT c \<longleftrightarrow> chr CHR ''0'' \<le> c \<and> c \<le> chr CHR ''9''"

definition ISXDIGIT :: "byte \<Rightarrow> bool" where
  "ISXDIGIT c \<longleftrightarrow> ISDIGIT c \<or> (chr CHR ''a'' \<le> c \<and> c \<le> chr CHR ''f'') \<or>
     (chr CHR ''A'' \<le> c \<and> c \<le> chr CHR ''F'')"

abbreviation SLASH :: byte where "SLASH \<equiv> 47"

text \<open>\<^verbatim>\<open>strchr(s, c) - s\<close>; the terminator of \<open>s\<close> is found too.\<close>

fun strchr :: "byte list \<Rightarrow> byte \<Rightarrow> nat option" where
  "strchr [] c = (if c = 0 then Some 0 else None)"
| "strchr (d # s) c = (if c = d then Some 0 else map_option Suc (strchr s c))"

definition digits :: "byte list" where "digits = bytes ''0123456789''"
definition xdigits_l :: "byte list" where "xdigits_l = bytes ''0123456789abcdef''"
definition xdigits_u :: "byte list" where "xdigits_u = bytes ''0123456789ABCDEF''"

text \<open>\<^verbatim>\<open>*src\<close> and \<^verbatim>\<open>ch = *src++\<close>\<close>

definition peek :: "byte list \<Rightarrow> byte" where "peek src = (case src of [] \<Rightarrow> 0 | c # _ \<Rightarrow> c)"

section \<open>Version 4\<close>

type_synonym out = "byte list"

text \<open>Where a stage of the parser stands: the current character, what follows it, what has been
  written and how much room is left.\<close>

record v4 =
  ch :: byte
  src :: "byte list"
  dst :: out
  space :: nat

type_synonym 'a v4_result = "(inet_errno \<times> out) + 'a"

definition put_octet :: "nat \<Rightarrow> v4 \<Rightarrow> v4 v4_result" where
  "put_octet tmp s =
     (if space s = 0 then Inl (EMSGSIZE, dst s)
      else Inr (s\<lparr>dst := dst s @ [of_nat tmp], space := space s - 1\<rparr>))"

definition is_digit :: "byte \<Rightarrow> bool" where "is_digit c \<longleftrightarrow> c \<noteq> 0 \<and> ISASCII c \<and> ISDIGIT c"
definition is_xdigit :: "byte \<Rightarrow> bool" where "is_xdigit c \<longleftrightarrow> c \<noteq> 0 \<and> ISASCII c \<and> ISXDIGIT c"

fun hex_octets :: "byte list \<Rightarrow> nat \<Rightarrow> nat \<Rightarrow> v4 \<Rightarrow> v4 v4_result" where
  "hex_octets str dirty tmp s =
     (if is_xdigit (peek str)
      then case str of
             [] \<Rightarrow> Inr s
           | c # str \<Rightarrow>
               let c = (if ISUPPER c then tolower c else c);
                   n = the (strchr xdigits_l c);
                   tmp = (if dirty = 0 then n else push_bit 4 tmp OR n)
               in if dirty + 1 = 2
                  then (case put_octet tmp s of
                          Inl e \<Rightarrow> Inl e
                        | Inr s \<Rightarrow> hex_octets str 0 tmp s)
                  else hex_octets str (dirty + 1) tmp s
      else let s = s\<lparr>ch := peek str, src := tl str\<rparr>
           in if dirty \<noteq> 0 then put_octet (push_bit 4 tmp) s else Inr s)"

declare hex_octets.simps [simp del]

text \<open>The digits from \<open>c\<close> on, up to a number that is too large; the character after them.\<close>

fun read_number :: "nat \<Rightarrow> nat \<Rightarrow> byte \<Rightarrow> byte list \<Rightarrow> (nat \<times> byte \<times> byte list) option" where
  "read_number limit tmp c str =
     (let tmp = tmp * 10 + the (strchr digits c)
      in if tmp > limit then None
         else if is_digit (peek str)
         then (case str of [] \<Rightarrow> None | c # str \<Rightarrow> read_number limit tmp c str)
         else Some (tmp, peek str, tl str))"

declare read_number.simps [simp del]

lemma read_number_length: "read_number limit tmp c str = Some (n, d, rest) \<Longrightarrow> length rest \<le> length str"
  by (induction limit tmp c str rule: read_number.induct)
    (subst (asm) (2) read_number.simps,
      fastforce simp: Let_def split: if_splits list.splits)

lemma put_octet_src: "put_octet k s = Inr s' \<Longrightarrow> src s' = src s"
  by (auto simp: put_octet_def split: if_splits)

function dec_octets :: "v4 \<Rightarrow> v4 v4_result" where
  "dec_octets s =
     (case read_number 255 0 (ch s) (src s) of
        None \<Rightarrow> Inl (ENOENT, dst s)
      | Some (tmp, c, str) \<Rightarrow>
          (case put_octet tmp (s\<lparr>ch := c, src := str\<rparr>) of
             Inl e \<Rightarrow> Inl e
           | Inr s \<Rightarrow>
               if c = 0 \<or> c = SLASH then Inr s
               else if c \<noteq> DOT then Inl (ENOENT, dst s)
               else if \<not> ISASCII (peek str) \<or> \<not> ISDIGIT (peek str) then Inl (ENOENT, dst s)
               else dec_octets (s\<lparr>ch := peek str, src := tl str\<rparr>)))"
  by auto

termination
  by (relation "measure (\<lambda>s. length (src s))")
    (auto dest!: read_number_length simp: peek_def ISDIGIT_def split: list.splits)

declare dec_octets.simps [simp del]

text \<open>\<^verbatim>\<open>bits\<close> before it is imputed; \<open>None\<close> is -1.\<close>

definition cidr_width :: "v4 \<Rightarrow> (nat option \<times> v4) v4_result" where
  "cidr_width s =
     (if ch s = SLASH \<and> ISASCII (peek (src s)) \<and> ISDIGIT (peek (src s)) \<and> dst s \<noteq> []
      then case read_number 32 0 (peek (src s)) (tl (src s)) of
             None \<Rightarrow> Inl (ENOENT, dst s)
           | Some (bits, c, str) \<Rightarrow>
               if c \<noteq> 0 then Inl (ENOENT, dst s)
               else Inr (Some bits, s\<lparr>ch := c, src := str\<rparr>)
      else Inr (None, s))"

definition class_bits :: "out \<Rightarrow> nat" where
  "class_bits written =
     (let first = hd written;
          bits = (if first \<ge> 240 then 32 else if first \<ge> 224 then 8
                  else if first \<ge> 192 then 24 else if first \<ge> 128 then 16 else 8);
          bits = (if bits < length written * 8 then length written * 8 else bits)
      in if bits = 8 \<and> first = 224 then 4 else bits)"

fun extend_network :: "nat \<Rightarrow> nat \<Rightarrow> out \<Rightarrow> (inet_errno + nat) \<times> out" where
  "extend_network bits left written =
     (if bits > length written * 8
      then case left of
             0 \<Rightarrow> (Inl EMSGSIZE, written)
           | Suc left \<Rightarrow> extend_network bits left (written @ [0])
      else (Inr bits, written))"

declare extend_network.simps [simp del]

definition v4_finish :: "v4 \<Rightarrow> (inet_errno + nat) \<times> out" where
  "v4_finish s =
     (case cidr_width s of
        Inl (e, written) \<Rightarrow> (Inl e, written)
      | Inr (bits, s) \<Rightarrow>
          if ch s \<noteq> 0 then (Inl ENOENT, dst s)
          else if dst s = [] then (Inl ENOENT, dst s)
          else let bits = (case bits of None \<Rightarrow> class_bits (dst s) | Some bits \<Rightarrow> bits)
               in extend_network bits (space s) (dst s))"

definition inet_net_pton_ipv4 :: "byte list \<Rightarrow> nat \<Rightarrow> (inet_errno + nat) \<times> out" where
  "inet_net_pton_ipv4 str size_dst =
     (let s = \<lparr>ch = peek str, src = tl str, dst = [], space = size_dst\<rparr>
      in case (if ch s = chr CHR ''0'' \<and> (peek (src s) = chr CHR ''x'' \<or> peek (src s) = chr CHR ''X'') \<and>
                  ISASCII (peek (tl (src s))) \<and> ISXDIGIT (peek (tl (src s)))
               then if size_dst = 0 then Inl (EMSGSIZE, []) else hex_octets (tl (src s)) 0 0 s
               else if ISASCII (ch s) \<and> ISDIGIT (ch s) then dec_octets s
               else Inl (ENOENT, [])) of
           Inl (e, written) \<Rightarrow> (Inl e, written)
         | Inr s \<Rightarrow> v4_finish s)"

section \<open>Version 6\<close>

text \<open>\<^verbatim>\<open>n\<close> counts digits; only whether it is 0 matters.\<close>

fun getbits :: "byte list \<Rightarrow> nat \<Rightarrow> nat \<Rightarrow> nat option" where
  "getbits str n v =
     (if peek str = 0 then if n = 0 then None else Some v
      else case str of
             [] \<Rightarrow> None
           | c # str \<Rightarrow>
               (case strchr digits c of
                  None \<Rightarrow> None
                | Some d \<Rightarrow>
                    if n \<noteq> 0 \<and> v = 0 then None
                    else let v = v * 10 + d in if v > 128 then None else getbits str (n + 1) v))"

declare getbits.simps [simp del]

text \<open>Writes octets from \<open>odst\<close> on, the next one to \<open>p\<close>.  The inner \<open>None\<close> is the result 0; the
  number, when there is one, is what \<^verbatim>\<open>*bitsp\<close> is set to.\<close>

fun getv4 :: "byte list \<Rightarrow> nat \<Rightarrow> nat \<Rightarrow> buffer \<Rightarrow> nat \<Rightarrow> nat \<Rightarrow> (buffer \<times> nat option) option option" where
  "getv4 str odst p t n v =
     (if peek str = 0
      then if n = 0 \<or> p - odst > 3 then Some None
           else do { t \<leftarrow> wr t p (of_nat v); Some (Some (t, None)) }
      else case str of
             [] \<Rightarrow> Some None
           | c # str \<Rightarrow>
               (case strchr digits c of
                  Some d \<Rightarrow>
                    if n \<noteq> 0 \<and> v = 0 then Some None
                    else let v = v * 10 + d
                         in if v > 255 then Some None else getv4 str odst p t (n + 1) v
                | None \<Rightarrow>
                    if c = DOT \<or> c = SLASH
                    then if p - odst > 3 then Some None
                         else do {
                           t \<leftarrow> wr t p (of_nat v);
                           if c = SLASH
                           then Some (map_option (\<lambda>b. (t, Some b)) (getbits str 0 0))
                           else getv4 str odst (p + 1) t 0 0
                         }
                    else Some None))"

declare getv4.simps [simp del]

record v6 =
  tmp :: buffer
  tp :: nat
  colonp :: "nat option"
  curtok :: "byte list"
  saw_xdigit :: bool
  val :: nat
  ndigits :: nat
  bits :: "nat option"
  ipv4 :: bool

text \<open>The result of a stage: the value the function returns at once, or the state to go on with.\<close>

type_synonym 'a v6_result = "((inet_errno + nat) + 'a) option"

definition enoent :: "'a v6_result" where "enoent = Some (Inl (Inl ENOENT))"

definition xdigit :: "byte \<Rightarrow> nat option" where
  "xdigit c = (case strchr xdigits_l c of None \<Rightarrow> strchr xdigits_u c | Some n \<Rightarrow> Some n)"

definition put_word :: "v6 \<Rightarrow> v6 option" where
  "put_word s = do {
     t \<leftarrow> wr (tmp s) (tp s) (of_nat (drop_bit 8 (val s) AND 0xff));
     t \<leftarrow> wr t (tp s + 1) (of_nat (val s AND 0xff));
     Some (s\<lparr>tmp := t, tp := tp s + 2\<rparr>)
   }"

fun scan6 :: "byte list \<Rightarrow> v6 \<Rightarrow> v6 v6_result" where
  "scan6 str s =
     (if peek str = 0 then Some (Inr s)
      else case str of
        [] \<Rightarrow> Some (Inr s)
      | c # str \<Rightarrow>
         (case xdigit c of
            Some n \<Rightarrow>
              let s = s\<lparr>val := push_bit 4 (val s) OR n, ndigits := ndigits s + 1\<rparr>
              in if ndigits s > 4 then enoent else scan6 str (s\<lparr>saw_xdigit := True\<rparr>)
          | None \<Rightarrow>
              if c = COLON
              then let s = s\<lparr>curtok := str\<rparr>
                   in if \<not> saw_xdigit s
                      then if colonp s \<noteq> None then enoent
                           else scan6 str (s\<lparr>colonp := Some (tp s)\<rparr>)
                      else if peek str = 0 then enoent
                      else if tp s + NS_INT16SZ > NS_IN6ADDRSZ then Some (Inl (Inr 0))
                      else (case put_word s of
                              None \<Rightarrow> None
                            | Some s \<Rightarrow> scan6 str (s\<lparr>saw_xdigit := False, ndigits := 0, val := 0\<rparr>))
              else if c = DOT \<and> tp s + NS_INADDRSZ \<le> NS_IN6ADDRSZ
              then (case getv4 (curtok s) (tp s) (tp s) (tmp s) 0 0 of
                      None \<Rightarrow> None
                    | Some None \<Rightarrow> enoent
                    | Some (Some (t, b)) \<Rightarrow>
                        Some (Inr (s\<lparr>tmp := t, bits := (case b of None \<Rightarrow> bits s | Some b \<Rightarrow> Some b),
                                     tp := tp s + NS_INADDRSZ, saw_xdigit := False, ipv4 := True\<rparr>)))
              else if c = SLASH
              then (case getbits str 0 0 of
                      None \<Rightarrow> enoent
                    | Some b \<Rightarrow> Some (Inr (s\<lparr>bits := Some b\<rparr>)))
              else enoent))"

declare scan6.simps [simp del]

text \<open>The groups after the double colon are moved to the end, from the last byte to the first.\<close>

fun shift_groups :: "nat \<Rightarrow> nat \<Rightarrow> nat \<Rightarrow> nat \<Rightarrow> nat \<Rightarrow> buffer \<Rightarrow> buffer option" where
  "shift_groups endp from n i 0 t = Some t"
| "shift_groups endp from n i (Suc k) t = do {
     b \<leftarrow> rd t (from + n - i);
     t \<leftarrow> (if endp < i then None else wr t (endp - i) b);
     t \<leftarrow> wr t (from + n - i) 0;
     shift_groups endp from n (i + 1) k t
   }"

definition words_used :: "nat \<Rightarrow> bool \<Rightarrow> nat" where
  "words_used nbits v4 =
     (let words = (nbits + 15) div 16;
          words = (if words < 2 then 2 else words)
      in if v4 then 8 else words)"

definition v6_place :: "nat \<Rightarrow> v6 \<Rightarrow> ((inet_errno + nat) \<times> out) option" where
  "v6_place size_dst s =
     (let nbits = (case bits s of None \<Rightarrow> 128 | Some b \<Rightarrow> b);
          endp = 2 * words_used nbits (ipv4 s);
          nbytes = (nbits + 7) div 8
      in if (colonp s \<noteq> None) = (tp s = endp) then Some (Inl ENOENT, [])
         else (case (case colonp s of
                       None \<Rightarrow> Some (tmp s)
                     | Some c \<Rightarrow> shift_groups endp c (tp s - c) 1 (tp s - c) (tmp s)) of
                 None \<Rightarrow> None
               | Some t \<Rightarrow> if nbytes > size_dst then Some (Inl EMSGSIZE, [])
                           else Some (Inr nbits, take nbytes t)))"

definition v6_finish :: "v6 \<Rightarrow> nat \<Rightarrow> ((inet_errno + nat) \<times> out) option" where
  "v6_finish s size_dst =
     (if saw_xdigit s \<and> tp s + NS_INT16SZ > NS_IN6ADDRSZ then Some (Inl ENOENT, [])
      else (if saw_xdigit s then put_word s else Some s) \<bind> v6_place size_dst)"

definition v6_start :: "byte list \<Rightarrow> v6" where
  "v6_start str =
     \<lparr>tmp = replicate NS_IN6ADDRSZ 0, tp = 0, colonp = None, curtok = str, saw_xdigit = False,
      val = 0, ndigits = 0, bits = None, ipv4 = False\<rparr>"

definition inet_net_pton_ipv6 :: "byte list \<Rightarrow> nat \<Rightarrow> ((inet_errno + nat) \<times> out) option" where
  "inet_net_pton_ipv6 str size_dst =
     (if peek str = COLON \<and> peek (tl str) \<noteq> COLON then Some (Inl ENOENT, [])
      else let str = (if peek str = COLON then tl str else str)
           in case scan6 str (v6_start str) of
                None \<Rightarrow> None
              | Some (Inl r) \<Rightarrow> Some (r, [])
              | Some (Inr s) \<Rightarrow> v6_finish s size_dst)"

section \<open>Either version\<close>

definition ares_inet_net_pton :: "int \<Rightarrow> byte list \<Rightarrow> nat \<Rightarrow> ((inet_errno + nat) \<times> out) option" where
  "ares_inet_net_pton af str size_dst =
     (if af = AF_INET then Some (inet_net_pton_ipv4 str size_dst)
      else if af = AF_INET6 then inet_net_pton_ipv6 str size_dst
      else Some (Inl EAFNOSUPPORT, []))"

text \<open>The value that \<^verbatim>\<open>ares_inet_pton\<close> returns for what \<^verbatim>\<open>ares_inet_net_pton\<close> returned.\<close>

definition code_of :: "inet_errno + nat \<Rightarrow> int" where
  "code_of r = (case r of Inl e \<Rightarrow> if e = ENOENT then 0 else -1 | Inr _ \<Rightarrow> 1)"

definition ares_inet_pton :: "int \<Rightarrow> byte list \<Rightarrow> (int \<times> out) option" where
  "ares_inet_pton af str =
     (if af \<noteq> AF_INET \<and> af \<noteq> AF_INET6 then Some (-1, [])
      else map_option
             (\<lambda>(r, written). (code_of r, written))
             (ares_inet_net_pton af str (if af = AF_INET then 4 else 16)))"

lemma families: "AF_INET \<noteq> AF_INET6" "AF_INET6 \<noteq> AF_INET"
  by (simp_all add: AF_INET_def AF_INET6_def)

lemma inet_pton4:
  "ares_inet_pton AF_INET str =
     Some (code_of (fst (inet_net_pton_ipv4 str 4)), snd (inet_net_pton_ipv4 str 4))"
  by (simp add: ares_inet_pton_def ares_inet_net_pton_def case_prod_beta)

lemma inet_pton6:
  "inet_net_pton_ipv6 str 16 = Some (r, written) \<Longrightarrow> ares_inet_pton AF_INET6 str = Some (code_of r, written)"
  by (simp add: ares_inet_pton_def ares_inet_net_pton_def families)

section \<open>Staying in bounds\<close>

text \<open>Version 4 never writes more than it was given room for.\<close>

definition v4_room :: "nat \<Rightarrow> v4 \<Rightarrow> bool" where
  "v4_room n s \<longleftrightarrow> length (dst s) + space s = n"

definition v4_fits :: "nat \<Rightarrow> v4 v4_result \<Rightarrow> bool" where
  "v4_fits n r \<longleftrightarrow> (case r of Inl (e, written) \<Rightarrow> length written \<le> n | Inr s \<Rightarrow> v4_room n s)"

lemma v4_fits_simps [simp]:
  "v4_fits n (Inl (e, written)) \<longleftrightarrow> length written \<le> n" "v4_fits n (Inr s) \<longleftrightarrow> v4_room n s"
  by (simp_all add: v4_fits_def)

lemma v4_fits_case:
  "v4_fits n r \<Longrightarrow> (\<And>s. r = Inr s \<Longrightarrow> v4_room n s \<Longrightarrow> v4_fits n (f s)) \<Longrightarrow>
     v4_fits n (case r of Inl e \<Rightarrow> Inl e | Inr s \<Rightarrow> f s)"
  by (cases r) auto

lemma v4_fits_if:
  "(c \<Longrightarrow> v4_fits n x) \<Longrightarrow> (\<not> c \<Longrightarrow> v4_fits n y) \<Longrightarrow> v4_fits n (if c then x else y)"
  by simp

lemma v4_room_keeps [simp]: "v4_room n (s\<lparr>ch := c, src := rest\<rparr>) = v4_room n s"
  by (simp add: v4_room_def)

lemma v4_room_length: "v4_room n s \<Longrightarrow> length (dst s) \<le> n"
  by (simp add: v4_room_def)

lemma put_octet_fits: "v4_room n s \<Longrightarrow> v4_fits n (put_octet k s)"
  by (auto simp: put_octet_def v4_room_def)

lemma hex_octets_fits: "v4_room n s \<Longrightarrow> v4_fits n (hex_octets str dirty k s)"
proof (induction str arbitrary: dirty k s)
  case Nil
  then show ?case
    by (subst hex_octets.simps) (simp add: peek_def is_xdigit_def Let_def put_octet_fits)
next
  case (Cons c str)
  show ?case
    by (subst hex_octets.simps)
      (simp add: Let_def put_octet_fits v4_fits_case Cons)
qed

lemma dec_octets_fits: "v4_room n s \<Longrightarrow> v4_fits n (dec_octets s)"
proof (induction s rule: dec_octets.induct)
  case (1 s)
  show ?case
  proof (cases "read_number 255 0 (ch s) (src s)")
    case None
    then show ?thesis using v4_room_length [OF 1(2)] by (subst dec_octets.simps) simp
  next
    case (Some x)
    obtain k c rest where x: "x = (k, c, rest)" by (cases x)
    show ?thesis
      by (subst dec_octets.simps)
        (auto simp: Some x intro!: v4_fits_case 1(1) [OF Some x [symmetric] refl] put_octet_fits 1(2) v4_room_length)
  qed
qed

lemma extend_fits:
  "length written + left = n \<Longrightarrow> length (snd (extend_network nbits left written)) \<le> n"
  by (induction nbits left written rule: extend_network.induct)
    (subst extend_network.simps, auto split: nat.splits)

lemma v4_finish_fits: "v4_room n s \<Longrightarrow> length (snd (v4_finish s)) \<le> n"
  by (auto simp: v4_finish_def cidr_width_def v4_room_def Let_def extend_fits split: option.splits)

lemma pton4_fits: "length (snd (inet_net_pton_ipv4 str n)) \<le> n"
proof -
  let ?s = "\<lparr>ch = peek str, src = tl str, dst = [], space = n\<rparr>"
  have space: "v4_room n ?s" by (simp add: v4_room_def)
  have finish: "length (snd (case r of Inl (e, written) \<Rightarrow> (Inl e, written) | Inr s \<Rightarrow> v4_finish s)) \<le> n"
    if "v4_fits n r" for r
    using that by (auto simp: v4_finish_fits split: sum.splits prod.splits)
  show ?thesis
    unfolding inet_net_pton_ipv4_def Let_def
    by (rule finish) (intro v4_fits_if hex_octets_fits dec_octets_fits space; simp)
qed

text \<open>Version 6: the array keeps its length, the position and the place of the double colon stay
  in it, and without a slash the number of bits is never set.\<close>

definition v6_ok :: "v6 \<Rightarrow> bool" where
  "v6_ok s \<longleftrightarrow> length (tmp s) = 16 \<and> tp s \<le> 16 \<and> (\<forall>c. colonp s = Some c \<longrightarrow> c \<le> tp s)"

lemma no_crash_wr [bounds_wp]:
  "p < length buf \<Longrightarrow> Q (buf[p := b]) \<Longrightarrow> no_crash (wr buf p b) Q"
  by (simp add: wr_def no_crash_def)

lemma getv4_safe:
  "\<lbrakk>odst + 4 \<le> length t; odst \<le> p\<rbrakk> \<Longrightarrow>
   no_crash (getv4 str odst p t n v)
     (\<lambda>r. \<forall>t' b. r = Some (t', b) \<longrightarrow> length t' = length t \<and> (SLASH \<notin> set str \<longrightarrow> b = None))"
  (is "_ \<Longrightarrow> _ \<Longrightarrow> no_crash _ (?Q t str)")
proof (induction str arbitrary: p t n v)
  case Nil
  then show ?case by (subst getv4.simps) (auto simp: peek_def no_crash_def wr_def)
next
  case (Cons c str)
  have store: "no_crash (wr t p x) (\<lambda>t'. length t' = length t)" if "\<not> 3 < p - odst" for x
    using Cons.prems that by (intro bounds_wp) auto
  have rest: "no_crash (getv4 str odst q t' m w) (?Q t (c # str))"
    if "length t' = length t" "odst \<le> q" for q t' m w
    by (rule no_crash_mono [OF Cons.IH]) (use Cons.prems that in auto)
  show ?case
  proof (cases "c = 0")
    case True
    with Cons.prems show ?thesis
      by (subst getv4.simps) (auto simp: peek_def no_crash_def wr_def)
  next
    case c: False
    show ?thesis
    proof (cases "strchr digits c")
      case None
      have "no_crash (wr t p (of_nat v) \<bind> (\<lambda>t'. if c = SLASH
            then Some (map_option (\<lambda>b. (t', Some b)) (getbits str 0 0))
            else getv4 str odst (p + 1) t' 0 0)) (?Q t (c # str))" if "\<not> 3 < p - odst"
        by (rule no_crash_bind, rule no_crash_mono [OF store [OF that]], rule no_crash_if)
          (rule no_crash_Some, force, rule rest, use Cons.prems in auto)
      with None c show ?thesis
        by (subst getv4.simps) (auto simp: peek_def no_crash_def [of "Some _"])
    next
      case (Some d)
      with c Cons.prems rest [of t p "n + 1" "v * 10 + d"] show ?thesis
        by (subst getv4.simps) (auto simp: peek_def Let_def no_crash_def [of "Some _"])
    qed
  qed
qed

lemma put_word_safe:
  assumes "v6_ok s" "tp s + 2 \<le> 16"
  obtains t where "put_word s = Some (s\<lparr>tmp := t, tp := tp s + 2\<rparr>)" "length t = 16"
  using assms by (simp add: put_word_def wr_def v6_ok_def)

text \<open>What holds of the state the scan leaves.\<close>

definition scanned :: "bool \<Rightarrow> nat option \<Rightarrow> (inet_errno + nat) + v6 \<Rightarrow> bool" where
  "scanned slash b r \<longleftrightarrow> (case r of Inl _ \<Rightarrow> True | Inr s \<Rightarrow> v6_ok s \<and> (slash \<or> bits s = b))"

lemma scanned_simps [simp]:
  "scanned slash b (Inl x)" "scanned slash b (Inr s) \<longleftrightarrow> v6_ok s \<and> (slash \<or> bits s = b)"
  by (simp_all add: scanned_def)

lemma enoent_safe [simp]: "no_crash enoent (scanned slash b)"
  by (simp add: enoent_def no_crash_def)

lemma scan6_safe:
  "v6_ok s \<Longrightarrow> (SLASH \<in> set (curtok s) \<Longrightarrow> slash) \<Longrightarrow> (SLASH \<in> set str \<Longrightarrow> slash) \<Longrightarrow>
     no_crash (scan6 str s) (scanned slash (bits s))"
proof (induction str arbitrary: s)
  case Nil
  then show ?case by (subst scan6.simps) (simp add: peek_def no_crash_def)
next
  case (Cons c str)
  have rest: "no_crash (scan6 str s') (scanned slash (bits s))"
    if "v6_ok s'" "bits s' = bits s" "curtok s' = curtok s \<or> curtok s' = str" for s'
    using Cons.IH [of s'] Cons.prems that by auto
  consider "c = 0" | n where "c \<noteq> 0" "xdigit c = Some n"
    | "xdigit c = None" "c = COLON"
    | "xdigit c = None" "c = DOT" | "xdigit c = None" "c = SLASH"
    | "c \<noteq> 0" "xdigit c = None" "c \<noteq> COLON" "c \<noteq> DOT" "c \<noteq> SLASH" by blast
  then show ?case
  proof cases
    case 1
    with Cons.prems show ?thesis by (subst scan6.simps) (simp add: peek_def no_crash_def)
  next
    case 2
    with Cons.prems show ?thesis
      by (subst scan6.simps) (auto simp: peek_def Let_def v6_ok_def intro!: rest)
  next
    case 3
    show ?thesis
    proof (cases "saw_xdigit s \<and> tp s + 2 \<le> 16")
      case True
      let ?s = "s\<lparr>curtok := str\<rparr>"
      have "v6_ok ?s" "tp ?s + 2 \<le> 16" using Cons.prems True by (simp_all add: v6_ok_def)
      then obtain t where "put_word ?s = Some (?s\<lparr>tmp := t, tp := tp ?s + 2\<rparr>)" "length t = 16"
        by (rule put_word_safe)
      with 3 True Cons.prems show ?thesis
        by (subst scan6.simps)
          (auto simp: peek_def Let_def v6_ok_def NS_IN6ADDRSZ_def NS_INT16SZ_def intro!: rest)
    next
      case False
      with 3 Cons.prems show ?thesis
        by (subst scan6.simps)
          (auto simp: peek_def Let_def v6_ok_def NS_IN6ADDRSZ_def NS_INT16SZ_def no_crash_def [of "Some _"]
            intro!: rest)
    qed
  next
    case 4
    show ?thesis
    proof (cases "tp s + 4 \<le> 16")
      case True
      then obtain r where "getv4 (curtok s) (tp s) (tp s) (tmp s) 0 0 = Some r"
        "\<forall>t' b. r = Some (t', b) \<longrightarrow> length t' = 16 \<and> (SLASH \<notin> set (curtok s) \<longrightarrow> b = None)"
        using getv4_safe [of "tp s" "tmp s" "tp s" "curtok s" 0 0] Cons.prems
        by (auto simp: no_crash_def v6_ok_def)
      with 4 True Cons.prems show ?thesis
        by (subst scan6.simps)
          (auto simp: peek_def v6_ok_def NS_IN6ADDRSZ_def NS_INADDRSZ_def no_crash_def [of "Some _"]
            split: option.splits)
    next
      case False
      with 4 show ?thesis
        by (subst scan6.simps) (simp add: peek_def NS_IN6ADDRSZ_def NS_INADDRSZ_def)
    qed
  next
    case 5
    with Cons.prems show ?thesis
      by (subst scan6.simps)
        (auto simp: peek_def v6_ok_def no_crash_def [of "Some _"] split: option.splits)
  next
    case 6
    then show ?thesis by (subst scan6.simps) (simp add: peek_def)
  qed
qed

lemma shift_groups_safe:
  "\<lbrakk>length t = 16; from + n \<le> 16; n \<le> endp; endp \<le> 16; 0 < i; i + k = n + 1\<rbrakk> \<Longrightarrow>
     \<exists>t'. shift_groups endp from n i k t = Some t' \<and> length t' = 16"
proof (induction k arbitrary: i t)
  case (Suc k)
  then show ?case by (simp add: wr_def) linarith
qed simp

lemma words_used_128 [simp]: "words_used 128 b = 8"
  by (simp add: words_used_def Let_def)

lemma v6_place_safe:
  assumes "v6_ok s" "bits s = None"
  shows "\<exists>r written. v6_place 16 s = Some (r, written) \<and>
     (case r of Inl e \<Rightarrow> e = ENOENT \<and> written = [] | Inr n \<Rightarrow> n = 128 \<and> length written = 16)"
proof (cases "(colonp s \<noteq> None) = (tp s = 16)")
  case True
  with assms(2) show ?thesis by (simp add: v6_place_def)
next
  case False
  have "\<exists>t'. (case colonp s of None \<Rightarrow> Some (tmp s)
      | Some c \<Rightarrow> shift_groups 16 c (tp s - c) 1 (tp s - c) (tmp s)) = Some t' \<and> length t' = 16"
    using assms(1) by (auto simp: v6_ok_def intro!: shift_groups_safe split: option.splits)
  with False assms(2) show ?thesis by (auto simp: v6_place_def)
qed

lemma v6_finish_safe:
  assumes "v6_ok s" "bits s = None"
  shows "\<exists>r written. v6_finish s 16 = Some (r, written) \<and>
     (case r of Inl e \<Rightarrow> e = ENOENT \<and> written = [] | Inr n \<Rightarrow> n = 128 \<and> length written = 16)"
proof (cases "saw_xdigit s")
  case saw: True
  show ?thesis
  proof (cases "tp s + 2 \<le> 16")
    case True
    then obtain t where t: "put_word s = Some (s\<lparr>tmp := t, tp := tp s + 2\<rparr>)" "length t = 16"
      by (rule put_word_safe [OF assms(1)])
    then have "v6_ok (s\<lparr>tmp := t, tp := tp s + 2\<rparr>)" using assms(1) True
      by (auto simp: v6_ok_def)
    from v6_place_safe [OF this] show ?thesis
      using saw True t assms(2) by (simp add: v6_finish_def NS_IN6ADDRSZ_def NS_INT16SZ_def)
  next
    case False
    with saw show ?thesis by (simp add: v6_finish_def NS_IN6ADDRSZ_def NS_INT16SZ_def)
  qed
next
  case False
  with v6_place_safe [OF assms] show ?thesis by (simp add: v6_finish_def)
qed

section \<open>Properties\<close>

text \<open>
  Reading an address that has no slash in it stays inside the arrays and never overruns the
  address that the caller gives room for.  When it reports success, a version 6 address is
  written in full, unless nothing at all is written.
\<close>

lemma inet_pton_bounds:
  assumes "SLASH \<notin> set str"
  shows "\<exists>r written. ares_inet_pton af str = Some (r, written) \<and> r \<in> {-1, 0, 1} \<and>
     (af = AF_INET \<longrightarrow> length written \<le> 4) \<and>
     (af = AF_INET6 \<longrightarrow> written = [] \<or> r = 1 \<and> length written = 16) \<and>
     (af \<noteq> AF_INET \<and> af \<noteq> AF_INET6 \<longrightarrow> r = -1 \<and> written = [])"
proof -
  consider "af = AF_INET" | "af = AF_INET6" | "af \<noteq> AF_INET" "af \<noteq> AF_INET6" by blast
  then show ?thesis
  proof cases
    case 1
    obtain r written where r: "inet_net_pton_ipv4 str 4 = (r, written)" by fastforce
    with pton4_fits [of str 4] have "length written \<le> 4" by simp
    with 1 r show ?thesis by (simp add: inet_pton4 families code_of_def split: sum.split)
  next
    case 2
    let ?str = "if peek str = COLON then tl str else str"
    have str: "SLASH \<notin> set ?str" using assms by (cases str) auto
    have start: "v6_ok (v6_start ?str)" "curtok (v6_start ?str) = ?str" "bits (v6_start ?str) = None"
      by (simp_all add: v6_start_def v6_ok_def NS_IN6ADDRSZ_def)
    with str obtain x where x: "scan6 ?str (v6_start ?str) = Some x" "scanned False None x"
      using scan6_safe [of "v6_start ?str" False ?str] by (auto simp: no_crash_def)
    have "\<exists>r written. inet_net_pton_ipv6 str 16 = Some (r, written) \<and>
        (written = [] \<or> (\<exists>n. r = Inr n) \<and> length written = 16)"
    proof (cases x)
      case (Inl r)
      with x show ?thesis by (auto simp: inet_net_pton_ipv6_def Let_def)
    next
      case (Inr s)
      with x v6_finish_safe [of s] obtain r written where "v6_finish s 16 = Some (r, written)"
        "case r of Inl e \<Rightarrow> e = ENOENT \<and> written = [] | Inr n \<Rightarrow> n = 128 \<and> length written = 16" by auto
      with x Inr show ?thesis by (auto simp: inet_net_pton_ipv6_def Let_def split: sum.splits)
    qed
    then obtain r written where "inet_net_pton_ipv6 str 16 = Some (r, written)"
      "written = [] \<or> (\<exists>n. r = Inr n) \<and> length written = 16" by blast
    with 2 show ?thesis
      by (auto simp: inet_pton6 families code_of_def split: sum.split)
  next
    case 3
    then show ?thesis by (simp add: ares_inet_pton_def)
  qed
qed

end
