(* ===== verification/Ares_Text.thy ===== *)
theory Ares_Text
  imports Ares_Pton
begin

text \<open>
  Printing an address and reading it again: the two directions, \<^verbatim>\<open>inet_ntop.c\<close> and
  \<^verbatim>\<open>inet_net_pton.c\<close>, are inverse to each other.
\<close>

section \<open>Digits\<close>

definition dec_digit :: "nat \<Rightarrow> byte" where "dec_digit k = of_nat (48 + k)"

lemma dec_step: "dec n = (if n < 10 then [dec_digit n] else dec (n div 10) @ [dec_digit (n mod 10)])"
  by (subst dec.simps) (simp add: dec_digit_def)

lemma dec_digits_read:
  "\<forall>k\<in>{0..<10}. strchr digits (dec_digit k) = Some k \<and> is_digit (dec_digit k) \<and>
     xdigit (dec_digit k) = Some k \<and> dec_digit k \<noteq> 0 \<and> dec_digit k \<noteq> COLON \<and>
     dec_digit k \<noteq> chr CHR ''x'' \<and> dec_digit k \<noteq> chr CHR ''X'' \<and> dec_digit k \<noteq> DOT"
  by code_simp

lemma hex_digits_read:
  "\<forall>k\<in>{0..<16}. xdigit (hex_digit k) = Some k \<and> hex_digit k \<noteq> 0 \<and> hex_digit k \<noteq> COLON"
  by code_simp

lemma dec_digit_simps:
  assumes "k < 10"
  shows "strchr digits (dec_digit k) = Some k" "is_digit (dec_digit k)" "xdigit (dec_digit k) = Some k"
    "dec_digit k \<noteq> 0" "dec_digit k \<noteq> COLON" "dec_digit k \<noteq> chr CHR ''x''" "dec_digit k \<noteq> chr CHR ''X''"
    "dec_digit k \<noteq> DOT"
  using assms dec_digits_read by auto

lemma dec_chars: "c \<in> set (dec n) \<Longrightarrow> \<exists>k<10. c = dec_digit k"
proof (induction n rule: dec.induct)
  case (1 n)
  show ?case
  proof (cases "n < 10")
    case True
    with 1(2) show ?thesis by (subst (asm) dec_step) auto
  next
    case False
    with 1(2) consider "c \<in> set (dec (n div 10))" | "c = dec_digit (n mod 10)"
      by (subst (asm) dec_step) auto
    then show ?thesis
    proof cases
      case 1
      with "1.IH" False show ?thesis by blast
    next
      case 2
      then show ?thesis by (intro exI [of _ "n mod 10"]) simp
    qed
  qed
qed

lemma dec_nonempty: "dec n \<noteq> []"
  by (subst dec_step) simp

text \<open>The three readers of decimal numbers: what they do with the text of a number.\<close>

lemma read_number_dec:
  "\<lbrakk>n \<le> limit; dec n = c # ds\<rbrakk> \<Longrightarrow>
   read_number limit 0 c (ds @ rest) =
     (if is_digit (peek rest) then read_number limit n (hd rest) (tl rest)
      else Some (n, peek rest, tl rest))"
proof (induction n arbitrary: c ds rest rule: dec.induct)
  case (1 n)
  have step: "read_number limit m (dec_digit k) rest' =
      (if is_digit (peek rest') then read_number limit (m * 10 + k) (hd rest') (tl rest')
       else Some (m * 10 + k, peek rest', tl rest'))" if "k < 10" "m * 10 + k \<le> limit" for m k rest'
    using that by (subst read_number.simps)
      (cases rest', simp_all add: dec_digit_simps Let_def peek_def is_digit_def)
  show ?case
  proof (cases "n < 10")
    case True
    with 1(3) have "c = dec_digit n" "ds = []" by (subst (asm) dec_step, simp)+
    with step [of n 0] True 1(2) show ?thesis by simp
  next
    case False
    obtain ds' where ds': "dec (n div 10) = c # ds'" "ds = ds' @ [dec_digit (n mod 10)]"
      using 1(3) False dec_step [of n] by (auto simp: append_eq_Cons_conv dec_nonempty)
    have "read_number limit 0 c (ds @ rest) = read_number limit (n div 10) (dec_digit (n mod 10)) rest"
      using 1(1) [OF False _ ds'(1), of "dec_digit (n mod 10) # rest"] 1(2) ds'(2)
      by (simp add: peek_def dec_digit_simps)
    with step [of "n mod 10" "n div 10" rest] 1(2) show ?thesis by simp
  qed
qed

lemma getv4_dec:
  "n \<le> 255 \<Longrightarrow> getv4 (dec n @ rest) odst p t 0 0 = getv4 rest odst p t (length (dec n)) n"
proof (induction n arbitrary: rest rule: dec.induct)
  case (1 n)
  have step: "getv4 (dec_digit k # rest) odst p t j m = getv4 rest odst p t (j + 1) (m * 10 + k)"
    if "k < 10" "m * 10 + k \<le> 255" "j = 0 \<or> m \<noteq> 0" for j m k
    using that by (subst getv4.simps) (auto simp: dec_digit_simps Let_def peek_def)
  show ?case
  proof (cases "n < 10")
    case True
    then have d: "dec n = [dec_digit n]" by (subst dec_step) simp
    show ?thesis unfolding d using step [of n 0 0] True by simp
  next
    case False
    then have d: "dec n = dec (n div 10) @ [dec_digit (n mod 10)]" by (subst dec_step) simp
    have "n div 10 \<noteq> 0" using False by simp
    with 1(1) [OF False, of "dec_digit (n mod 10) # rest"] 1(2)
      step [of "n mod 10" "n div 10" "length (dec (n div 10))"]
    show ?thesis by (simp add: d)
  qed
qed

section \<open>Version 4\<close>

lemma dec_octets_step:
  assumes "ch s # src s = dec n @ DOT # c # rest" "n \<le> 255" "is_digit c" "space s = Suc r"
  shows "dec_octets s = dec_octets \<lparr>ch = c, src = rest, dst = dst s @ [of_nat n], space = r\<rparr>"
proof -
  obtain ds where ds: "dec n = ch s # ds" "src s = ds @ DOT # c # rest"
    using assms(1) dec_nonempty [of n] by (cases "dec n") auto
  have "\<not> is_digit DOT" by code_simp
  with read_number_dec [OF assms(2) ds(1), of "DOT # c # rest"] ds(2)
  have "read_number 255 0 (ch s) (src s) = Some (n, DOT, c # rest)" by (simp add: peek_def)
  with assms(3,4) show ?thesis
    by (subst dec_octets.simps) (cases s, simp add: put_octet_def peek_def is_digit_def)
qed

lemma dec_octets_last:
  assumes "ch s # src s = dec n" "n \<le> 255" "space s = Suc r"
  shows "dec_octets s = Inr \<lparr>ch = 0, src = [], dst = dst s @ [of_nat n], space = r\<rparr>"
proof -
  have "\<not> is_digit 0" by (simp add: is_digit_def)
  with read_number_dec [OF assms(2), of "ch s" "src s" "[]"] assms(1)
  have "read_number 255 0 (ch s) (src s) = Some (n, 0, [])" by (simp add: peek_def)
  with assms(3) show ?thesis by (subst dec_octets.simps) (cases s, simp add: put_octet_def)
qed


lemma dotted_quad_chars: "c \<in> set (dotted_quad q) \<Longrightarrow> c = DOT \<or> (\<exists>k<10. c = dec_digit k)"
  by (auto simp: dotted_quad_def dest: dec_chars)

lemma byte_small: "unat (b :: byte) \<le> 255"
  using unat_lt_power [of b] by simp

lemma v4_finish_quad:
  assumes "length q = 4"
  shows "v4_finish \<lparr>ch = 0, src = [], dst = q, space = 0\<rparr> = (Inr 32, q)"
proof -
  have "q \<noteq> []" "class_bits q = 32" using assms by (auto simp: class_bits_def Let_def)
  moreover have "extend_network 32 0 q = (Inr 32, q)" using assms by (subst extend_network.simps) simp
  ultimately show ?thesis by (simp add: v4_finish_def cidr_width_def)
qed

lemma read_dotted_quad:
  assumes "length q = 4"
  shows "inet_net_pton_ipv4 (dotted_quad q) 4 = (Inr 32, q)"
proof -
  obtain a b c d where q: "q = [a, b, c, d]" using assms by (auto simp: length_Suc_conv eval_nat_numeral)
  have hd: "\<exists>c cs. dec (unat x) = c # cs \<and> is_digit c" for x :: byte
  proof -
    obtain c cs where "dec (unat x) = c # cs" using dec_nonempty by (meson list.exhaust)
    with dec_chars [of c "unat x"] show ?thesis by (auto simp: dec_digit_simps)
  qed
  obtain a0 as where a: "dec (unat a) = a0 # as" "is_digit a0" using hd by blast
  obtain b0 bs where b: "dec (unat b) = b0 # bs" "is_digit b0" using hd by blast
  obtain c0 cs where c: "dec (unat c) = c0 # cs" "is_digit c0" using hd by blast
  obtain d0 ds where d: "dec (unat d) = d0 # ds" "is_digit d0" using hd by blast
  let ?rest = "as @ DOT # b0 # bs @ DOT # c0 # cs @ DOT # d0 # ds"
  have str: "dotted_quad q = a0 # ?rest" by (simp add: q dotted_quad_def a b c d)
  let ?s = "\<lparr>ch = a0, src = ?rest, dst = [], space = 4\<rparr>"
  have "dec_octets ?s = dec_octets \<lparr>ch = b0, src = bs @ DOT # c0 # cs @ DOT # d0 # ds, dst = [a], space = 3\<rparr>"
    using dec_octets_step [of ?s "unat a" b0 "bs @ DOT # c0 # cs @ DOT # d0 # ds" 3] byte_small [of a]
    by (simp add: a b)
  also have "\<dots> = dec_octets \<lparr>ch = c0, src = cs @ DOT # d0 # ds, dst = [a, b], space = 2\<rparr>"
    using dec_octets_step [of "\<lparr>ch = b0, src = bs @ DOT # c0 # cs @ DOT # d0 # ds, dst = [a], space = 3\<rparr>"
      "unat b" c0 "cs @ DOT # d0 # ds" 2] byte_small [of b]
    by (simp add: b c)
  also have "\<dots> = dec_octets \<lparr>ch = d0, src = ds, dst = [a, b, c], space = 1\<rparr>"
    using dec_octets_step [of "\<lparr>ch = c0, src = cs @ DOT # d0 # ds, dst = [a, b], space = 2\<rparr>"
      "unat c" d0 ds 1] byte_small [of c]
    by (simp add: c d)
  also have "\<dots> = Inr \<lparr>ch = 0, src = [], dst = q, space = 0\<rparr>"
    using dec_octets_last [of "\<lparr>ch = d0, src = ds, dst = [a, b, c], space = 1\<rparr>" "unat d" 0] byte_small [of d]
    by (simp add: d q)
  finally have octets: "dec_octets ?s = Inr \<lparr>ch = 0, src = [], dst = q, space = 0\<rparr>" .
  have "peek ?rest \<in> set (dotted_quad q)" unfolding str by (cases as) (simp_all add: peek_def)
  then have no_x: "peek ?rest \<noteq> chr CHR ''x''" "peek ?rest \<noteq> chr CHR ''X''"
    using dotted_quad_chars dec_digit_simps(6,7) by force+
  show ?thesis
    using a(2) no_x unfolding inet_net_pton_ipv4_def Let_def str is_digit_def peek_def [of "a0 # _"]
      list.case list.sel v4.simps
    by (simp only: octets v4_finish_quad [OF assms] simp_thms if_True if_False sum.case prod.case)
qed

section \<open>Version 6: what is printed\<close>

definition piece :: "nat list \<Rightarrow> run \<Rightarrow> nat \<Rightarrow> byte list" where
  "piece ws best i =
     (if in_run best i then if rbase best = Some i then [COLON] else []
      else (if i \<noteq> 0 then [COLON] else []) @ hex (ws ! i))"

definition quad_at :: "nat list \<Rightarrow> run \<Rightarrow> nat \<Rightarrow> bool" where
  "quad_at ws best i \<longleftrightarrow> \<not> in_run best i \<and> encapsulated ws best i"

lemma quad_at_6: "quad_at ws best i \<Longrightarrow> i = 6"
  by (simp add: quad_at_def encapsulated_def)

lemma printed_piece:
  "\<lbrakk>format_words q ws best i (Suc k) acc = Some (Inr acc'); \<not> quad_at ws best i\<rbrakk> \<Longrightarrow>
     format_words q ws best (Suc i) k (acc @ piece ws best i) = Some (Inr acc')"
  by (auto simp: piece_def quad_at_def add_text_def add_printed_def split: if_splits option.splits)

lemma printed_pieces:
  "\<lbrakk>format_words q ws best i k acc = Some (Inr acc'); i + k = 8; \<not> quad_at ws best 6\<rbrakk> \<Longrightarrow>
     acc' = acc @ concat (map (piece ws best) [i..<8])"
proof (induction k arbitrary: i acc)
  case (Suc k)
  have "\<not> quad_at ws best i" using Suc.prems(3) quad_at_6 by blast
  from Suc.IH [OF printed_piece [OF Suc.prems(1) this]] Suc.prems(2,3) show ?case
    by (simp add: upt_conv_Cons [of i])
qed simp

lemma printed_quad:
  "\<lbrakk>format_words q ws best i k acc = Some (Inr acc'); i + k = 8; i \<le> 6; quad_at ws best 6; 16 \<le> length q\<rbrakk> \<Longrightarrow>
     acc' = acc @ concat (map (piece ws best) [i..<6]) @ [COLON] @ dotted_quad (drop 12 q)"
proof (induction k arbitrary: i acc)
  case (Suc k)
  show ?case
  proof (cases "i = 6")
    case True
    with Suc.prems show ?thesis
      by (auto simp: quad_at_def ntop4_result add_text_def add_printed_def split: if_splits option.splits)
  next
    case False
    then have "\<not> quad_at ws best i" using quad_at_6 by blast
    from Suc.IH [OF printed_piece [OF Suc.prems(1) this]] Suc.prems(2-5) False show ?thesis
      by (simp add: upt_conv_Cons [of i])
  qed
qed simp

text \<open>The run that is left out, if there is one, is a run of at least two zero words.\<close>

definition zero_run :: "nat list \<Rightarrow> nat \<Rightarrow> run \<Rightarrow> bool" where
  "zero_run ws n r \<longleftrightarrow>
     (\<forall>b. rbase r = Some b \<longrightarrow> b + rlen r \<le> n \<and> (\<forall>j. b \<le> j \<and> j < b + rlen r \<longrightarrow> ws ! j = 0))"

definition runs_ok :: "nat list \<Rightarrow> nat \<Rightarrow> run \<times> run \<Rightarrow> bool" where
  "runs_ok ws n s \<longleftrightarrow> zero_run ws n (fst s) \<and> zero_run ws n (snd s) \<and>
     (\<forall>b. rbase (snd s) = Some b \<longrightarrow> b + rlen (snd s) = n)"

lemma run_step_ok: "runs_ok ws n s \<Longrightarrow> runs_ok ws (Suc n) (run_step ws n s)"
  by (cases s, cases "rbase (snd s)"; cases "ws ! n = 0")
    (auto simp: runs_ok_def run_step_def longer_def zero_run_def less_Suc_eq)

lemma run_steps: "runs_ok ws n (fold (run_step ws) [0..<n] (\<lparr>rbase = None, rlen = 0\<rparr>, \<lparr>rbase = None, rlen = 0\<rparr>))"
proof (induction n)
  case 0
  show ?case by (simp add: runs_ok_def zero_run_def)
next
  case (Suc n)
  then show ?case using run_step_ok by (simp only: fold_append upt_Suc_append le0 fold.simps comp_def id_apply)
qed

lemma best_run_zero:
  assumes "rbase (best_run ws) = Some b"
  shows "b + rlen (best_run ws) \<le> 8" "2 \<le> rlen (best_run ws)"
    "\<And>j. b \<le> j \<Longrightarrow> j < b + rlen (best_run ws) \<Longrightarrow> ws ! j = 0"
proof -
  obtain best cur where st: "fold (run_step ws) [0..<8]
      (\<lparr>rbase = None, rlen = 0\<rparr>, \<lparr>rbase = None, rlen = 0\<rparr>) = (best, cur)" by fastforce
  define r where "r = (if rbase cur \<noteq> None then longer cur best else best)"
  have zero: "zero_run ws 8 r" using run_steps [of ws 8] by (simp add: st runs_ok_def r_def longer_def)
  have best: "best_run ws = (if rbase r \<noteq> None \<and> rlen r < 2 then r\<lparr>rbase := None\<rparr> else r)"
    by (simp add: best_run_def st r_def)
  with assms have r: "best_run ws = r" "rbase r = Some b" "2 \<le> rlen r" by (auto split: if_splits)
  show "b + rlen (best_run ws) \<le> 8" "2 \<le> rlen (best_run ws)"
    "\<And>j. b \<le> j \<Longrightarrow> j < b + rlen (best_run ws) \<Longrightarrow> ws ! j = 0"
    using zero r by (auto simp: zero_run_def)
qed

text \<open>The text in terms of the words to the left and to the right of the run.\<close>

definition lefts :: "nat list \<Rightarrow> byte list" where "lefts ws = concat (map (\<lambda>w. hex w @ [COLON]) ws)"
definition rights :: "nat list \<Rightarrow> byte list" where "rights ws = concat (map (\<lambda>w. COLON # hex w) ws)"

lemma lefts_rights: "rights ws @ [COLON] = COLON # lefts ws"
  by (induction ws) (simp_all add: lefts_def rights_def)

fun groups :: "nat list \<Rightarrow> byte list" where
  "groups [] = []"
| "groups (w # ws) = hex w @ rights ws"

lemma lefts_simps [simp]: "lefts [] = []" "lefts (w # ws) = hex w @ COLON # lefts ws"
  by (simp_all add: lefts_def)

lemma rights_simps [simp]: "rights [] = []" "rights (w # ws) = COLON # hex w @ rights ws"
  by (simp_all add: rights_def)

lemma rights_append [simp]: "rights (us @ ws) = rights us @ rights ws"
  by (simp add: rights_def)

lemma groups_colon: "ws \<noteq> [] \<Longrightarrow> groups ws @ [COLON] = lefts ws"
  by (cases ws) (simp_all add: lefts_rights)

lemma groups_snoc: "groups (ws @ [w]) = lefts ws @ hex w"
  using groups_colon [of ws] by (cases ws) auto

lemma colon_groups: "ws \<noteq> [] \<Longrightarrow> rights ws = COLON # groups ws"
  by (cases ws) simp_all

lemma pieces_right:
  "\<lbrakk>0 < i; i + k = n; n \<le> length ws; \<And>j. i \<le> j \<Longrightarrow> j < n \<Longrightarrow> \<not> in_run best j\<rbrakk> \<Longrightarrow>
     concat (map (piece ws best) [i..<n]) = rights (drop i (take n ws))"
proof (induction k arbitrary: i)
  case (Suc k)
  have "drop i (take n ws) = ws ! i # drop (Suc i) (take n ws)"
    using Suc.prems(2,3) Cons_nth_drop_Suc [of i "take n ws"] by simp
  with Suc.prems Suc.IH [of "Suc i"] show ?case by (simp add: upt_conv_Cons [of i] piece_def)
qed simp

lemma pieces_left:
  assumes "n \<le> length ws" "\<And>j. j < n \<Longrightarrow> \<not> in_run best j"
  shows "concat (map (piece ws best) [0..<n]) = groups (take n ws)"
proof (cases n)
  case (Suc m)
  obtain w us where us: "take n ws = w # us" using assms(1) Suc by (cases ws) auto
  then have "ws ! 0 = w" "drop 1 (take n ws) = us"
    by (metis nth_Cons_0 nth_take Suc zero_less_Suc, simp)
  moreover have "[0..<n] = 0 # [1..<n]" by (simp add: Suc upt_conv_Cons del: upt_Suc)
  moreover have "concat (map (piece ws best) [1..<n]) = rights (drop 1 (take n ws))"
    by (rule pieces_right [where k = m]) (use Suc assms in auto)
  ultimately show ?thesis using assms(2) [of 0] us by (simp add: Suc piece_def del: upt_Suc take_Suc)
qed simp

lemma pieces_run:
  "\<lbrakk>rbase best = Some b; b < n; n \<le> b + rlen best\<rbrakk> \<Longrightarrow> concat (map (piece ws best) [b..<n]) = [COLON]"
proof (induction n)
  case (Suc n)
  have n: "in_run best n" using Suc.prems by (simp add: in_run_def)
  show ?case
  proof (cases "b = n")
    case True
    with n Suc.prems show ?thesis by (simp add: piece_def)
  next
    case False
    with n Suc show ?thesis by (simp add: piece_def)
  qed
qed simp

lemma pieces_around:
  assumes "rbase best = Some b" "0 < rlen best" "b + rlen best \<le> n" "n \<le> length ws"
  shows "concat (map (piece ws best) [0..<n]) =
    groups (take b ws) @ COLON # rights (drop (b + rlen best) (take n ws))"
proof -
  let ?e = "b + rlen best"
  have "[0..<n] = [0..<b] @ [b..<?e] @ [?e..<n]"
    using assms(3) upt_add_eq_append [of 0 b "n - b"] upt_add_eq_append [of b ?e "n - ?e"] by simp
  moreover have "concat (map (piece ws best) [0..<b]) = groups (take b ws)"
    by (rule pieces_left) (use assms in \<open>auto simp: in_run_def\<close>)
  moreover have "concat (map (piece ws best) [b..<?e]) = [COLON]"
    by (rule pieces_run) (use assms in auto)
  moreover have "concat (map (piece ws best) [?e..<n]) = rights (drop ?e (take n ws))"
    by (rule pieces_right [where k = "n - ?e"]) (use assms in \<open>auto simp: in_run_def\<close>)
  ultimately show ?thesis by simp
qed

text \<open>The three forms of the text.\<close>

definition left_part :: "nat list \<Rightarrow> byte list" where
  "left_part ws = (if ws = [] then [COLON] else lefts ws)"

lemma left_part: "groups ws @ COLON # str = left_part ws @ str"
  using groups_colon [of ws] by (auto simp: left_part_def)

lemma words_length [simp]: "length (words_of q) = 8"
  by (simp add: words_of_def)

lemma ntop6_acc:
  assumes "inet_ntop6 q n = Some (Inr str)"
  shows "\<exists>acc. format_words q (words_of q) (best_run (words_of q)) 0 8 [] = Some (Inr acc) \<and>
     str = acc @ (if ends_in_run (best_run (words_of q)) then [COLON] else [])"
proof (cases "format_words q (words_of q) (best_run (words_of q)) 0 8 []")
  case None
  with assms show ?thesis by (simp add: inet_ntop6_def Let_def split: if_splits)
next
  case (Some r)
  then show ?thesis
    using assms by (cases r)
      (auto simp: inet_ntop6_def Let_def add_text_def simp del: format_words.simps split: if_split_asm)
qed

lemma ntop6_text:
  assumes "inet_ntop6 q n = Some (Inr str)" "16 \<le> length q"
  defines "ws \<equiv> words_of q" and "best \<equiv> best_run (words_of q)"
  shows "rbase best = None \<and> str = groups ws \<or>
    (\<exists>b. rbase best = Some b \<and> str = left_part (take b ws) @ COLON # groups (drop (b + rlen best) ws)) \<or>
    (rbase best = Some 0 \<and> rlen best \<in> {5, 6} \<and>
       str = COLON # COLON # lefts (drop (rlen best) (take 6 ws)) @ dotted_quad (drop 12 q))"
proof -
  obtain acc where acc: "format_words q ws best 0 8 [] = Some (Inr acc)"
    and str: "str = acc @ (if ends_in_run best then [COLON] else [])"
    using ntop6_acc [OF assms(1)] unfolding ws_def best_def by blast
  have len: "length ws = 8" by (simp add: ws_def)
  show ?thesis
  proof (cases "quad_at ws best 6")
    case True
    then have best: "rbase best = Some 0" "rlen best \<in> {5, 6}"
      by (auto simp: quad_at_def encapsulated_def in_run_def)
    then have "\<not> ends_in_run best" by (auto simp: ends_in_run_def)
    moreover have "acc = concat (map (piece ws best) [0..<6]) @ [COLON] @ dotted_quad (drop 12 q)"
      using printed_quad [OF acc _ _ True assms(2)] by simp
    moreover have "concat (map (piece ws best) [0..<6]) = COLON # rights (drop (rlen best) (take 6 ws))"
      using pieces_around [OF best(1), of 6 ws] best(2) len by auto
    moreover have "rights us @ COLON # zs = COLON # lefts us @ zs" for us zs
      using lefts_rights [of us] by (metis append.assoc append_Cons append_Nil)
    ultimately show ?thesis using best str by simp
  next
    case False
    have all: "acc = concat (map (piece ws best) [0..<8])" using printed_pieces [OF acc _ False] by simp
    show ?thesis
    proof (cases "rbase best")
      case None
      with all str len pieces_left [of 8 ws best] show ?thesis by (simp add: in_run_def ends_in_run_def)
    next
      case (Some b)
      have run: "b + rlen best \<le> 8" "2 \<le> rlen best"
        using best_run_zero [OF Some [unfolded best_def]] by (simp_all add: best_def)
      have "acc = groups (take b ws) @ COLON # rights (drop (b + rlen best) ws)"
        using pieces_around [OF Some _ run(1)] run len all by simp
      moreover have "rights (drop (b + rlen best) ws) @ (if ends_in_run best then [COLON] else []) =
          COLON # groups (drop (b + rlen best) ws)"
        using Some run len by (cases "b + rlen best = 8") (simp_all add: ends_in_run_def colon_groups)
      ultimately show ?thesis using Some str left_part [of "take b ws"] by simp
    qed
  qed
qed

section \<open>Version 6: what is read\<close>

text \<open>The state between two groups: the bytes \<open>xs\<close> are written, the rest of the array is zero.\<close>

definition at6 :: "byte list \<Rightarrow> nat option \<Rightarrow> byte list \<Rightarrow> v6" where
  "at6 xs c tok =
     \<lparr>tmp = xs @ replicate (16 - length xs) 0, tp = length xs, colonp = c, curtok = tok,
      saw_xdigit = False, val = 0, ndigits = 0, bits = None, ipv4 = False\<rparr>"

lemma at6_simps [simp]:
  "tmp (at6 xs c tok) = xs @ replicate (16 - length xs) 0" "tp (at6 xs c tok) = length xs"
  "colonp (at6 xs c tok) = c" "curtok (at6 xs c tok) = tok" "\<not> saw_xdigit (at6 xs c tok)"
  "val (at6 xs c tok) = 0" "ndigits (at6 xs c tok) = 0" "bits (at6 xs c tok) = None"
  "\<not> ipv4 (at6 xs c tok)"
  by (simp_all add: at6_def)

lemma at6_updates [simp]:
  "(at6 xs None tok)\<lparr>curtok := str, colonp := c\<rparr> = at6 xs c str"
  "(at6 xs c tok)\<lparr>saw_xdigit := False, ndigits := 0, val := 0\<rparr> = at6 xs c tok"
  by (simp_all add: at6_def)

definition word_bytes :: "nat \<Rightarrow> byte list" where
  "word_bytes w = [of_nat (drop_bit 8 w AND 0xff), of_nat (w AND 0xff)]"

lemma word_bytes_length [simp]: "length (word_bytes w) = 2"
  by (simp add: word_bytes_def)

definition words_bytes :: "nat list \<Rightarrow> byte list" where
  "words_bytes ws = concat (map word_bytes ws)"

lemma words_bytes_simps [simp]:
  "words_bytes [] = []" "words_bytes (w # ws) = word_bytes w @ words_bytes ws"
  "words_bytes (us @ ws) = words_bytes us @ words_bytes ws" "length (words_bytes ws) = 2 * length ws"
  by (simp add: words_bytes_def, simp add: words_bytes_def, simp add: words_bytes_def)
    (induction ws, simp_all add: words_bytes_def word_bytes_def)

text \<open>A digit, and the digits of a word.\<close>

lemma scan_xdigit:
  "\<lbrakk>xdigit c = Some d; c \<noteq> 0; ndigits s < 4\<rbrakk> \<Longrightarrow>
     scan6 (c # str) s =
       scan6 str (s\<lparr>val := push_bit 4 (val s) OR d, ndigits := ndigits s + 1, saw_xdigit := True\<rparr>)"
  by (subst scan6.simps) (simp add: peek_def Let_def)

lemma push_or: "d < 16 \<Longrightarrow> push_bit 4 m OR d = 16 * m + d" for m d :: nat
proof -
  assume "d < 16"
  then have d: "take_bit 4 d = d" by (simp add: take_bit_nat_eq_self_iff)
  have "\<not> bit (push_bit 4 m) n \<or> \<not> bit d n" for n
    using bit_take_bit_iff [of 4 d n] by (auto simp: d bit_push_bit_iff)
  then have "push_bit 4 m + d = push_bit 4 m OR d" by (rule disjunctive_add)
  then show ?thesis by (simp add: push_bit_eq_mult)
qed

definition pending :: "byte list \<Rightarrow> nat option \<Rightarrow> byte list \<Rightarrow> nat \<Rightarrow> nat \<Rightarrow> v6" where
  "pending xs c tok w n = (at6 xs c tok)\<lparr>val := w, ndigits := n, saw_xdigit := True\<rparr>"

lemma hex_step: "hex n = (if n < 16 then [hex_digit n] else hex (n div 16) @ [hex_digit (n mod 16)])"
  by (rule hex.simps)

lemma scan_hex:
  "length (hex w) \<le> 4 \<Longrightarrow>
     scan6 (hex w @ str) (at6 xs c tok) = scan6 str (pending xs c tok w (length (hex w)))"
proof (induction w arbitrary: str rule: hex.induct)
  case (1 w)
  have digit: "xdigit (hex_digit k) = Some k" "hex_digit k \<noteq> 0" if "k < 16" for k
    using hex_digits_read that by auto
  show ?case
  proof (cases "w < 16")
    case True
    then have h: "hex w = [hex_digit w]" by (subst hex_step) simp
    show ?thesis unfolding h using True by (simp add: scan_xdigit [OF digit] push_or pending_def)
  next
    case False
    then have h: "hex w = hex (w div 16) @ [hex_digit (w mod 16)]" by (subst hex_step) simp
    have "length (hex (w div 16)) < 4" using 1(2) h by simp
    with 1(1) [OF False, of "hex_digit (w mod 16) # str"] show ?thesis
      unfolding h by (simp add: scan_xdigit [OF digit] push_or pending_def)
  qed
qed

lemma put_pending:
  assumes "length xs + 2 \<le> 16"
  shows "put_word (pending xs c tok w n) =
    Some ((at6 (xs @ word_bytes w) c tok)\<lparr>val := w, ndigits := n, saw_xdigit := True\<rparr>)"
proof -
  have "16 - length xs = Suc (Suc (14 - length xs))" using assms by linarith
  then obtain k where k: "16 - length xs = Suc (Suc k)" by blast
  then have "16 - length (xs @ word_bytes w) = k" by (simp add: word_bytes_def)
  with k assms show ?thesis
    by (simp add: put_word_def pending_def wr_def word_bytes_def list_update_append at6_def)
qed

lemma colon_no_digit: "xdigit COLON = None" "xdigit DOT = None"
  by code_simp+

lemma scan_colon:
  assumes "length xs + 2 \<le> 16" "peek str \<noteq> 0"
  shows "scan6 (COLON # str) (pending xs c tok w n) = scan6 str (at6 (xs @ word_bytes w) c str)"
proof -
  have "(pending xs c tok w n)\<lparr>curtok := str\<rparr> = pending xs c str w n"
    by (simp add: pending_def at6_def)
  with put_pending [OF assms(1), of c str w n] show ?thesis
    using assms by (subst scan6.simps)
      (simp add: peek_def colon_no_digit Let_def NS_IN6ADDRSZ_def NS_INT16SZ_def, simp add: pending_def)
qed

lemma scan_double:
  "scan6 (COLON # str) (at6 xs None tok) = scan6 str (at6 xs (Some (length xs)) str)"
  by (subst scan6.simps) (simp add: peek_def colon_no_digit Let_def)

lemma peek_hex: "peek (hex w @ str) \<noteq> 0"
proof -
  obtain c cs where h: "hex w = c # cs" using hex_nonempty by (meson list.exhaust)
  then have "c \<in> set (hex w)" by simp
  then have "c \<in> hex_digit ` {..<16}" using hex_digits by blast
  with h show ?thesis using hex_digits_read by (auto simp: peek_def)
qed

text \<open>The groups to the left of the double colon, and those to the right.\<close>

definition word_list :: "nat list \<Rightarrow> bool" where "word_list ws \<longleftrightarrow> (\<forall>w\<in>set ws. length (hex w) \<le> 4)"

lemma scan_lefts:
  "\<lbrakk>word_list ws; length xs + 2 * length ws \<le> 16; peek str \<noteq> 0; ws \<noteq> []\<rbrakk> \<Longrightarrow>
     scan6 (lefts ws @ str) (at6 xs c tok) = scan6 str (at6 (xs @ words_bytes ws) c str)"
proof (induction ws arbitrary: xs tok)
  case (Cons w ws)
  have peek: "peek (lefts ws @ str) \<noteq> 0"
    using Cons.prems(3) peek_hex by (cases ws) simp_all
  have "scan6 (lefts (w # ws) @ str) (at6 xs c tok) =
      scan6 (lefts ws @ str) (at6 (xs @ word_bytes w) c (lefts ws @ str))"
    using Cons.prems(1,2) scan_hex [of w "COLON # lefts ws @ str" xs c tok] scan_colon [OF _ peek, of xs c tok w]
    by (simp add: word_list_def)
  then show ?case
    using Cons.IH [of "xs @ word_bytes w" "lefts ws @ str"] Cons.prems
    by (cases ws) (simp_all add: word_list_def word_bytes_def)
qed simp

lemma scan_end: "scan6 [] s = Some (Inr s)"
  by (subst scan6.simps) (simp add: peek_def)

lemma scan_groups:
  assumes "word_list (ws @ [w])" "length xs + 2 * length ws \<le> 16"
  shows "\<exists>tok' n. scan6 (groups (ws @ [w])) (at6 xs c tok) = Some (Inr (pending (xs @ words_bytes ws) c tok' w n))"
proof (cases "ws = []")
  case True
  with assms(1) scan_hex [of w "[]" xs c tok] show ?thesis
    by (auto simp: groups_snoc word_list_def scan_end)
next
  case False
  with assms scan_lefts [of ws xs "hex w" c tok] peek_hex [of w "[]"]
    scan_hex [of w "[]" "xs @ words_bytes ws" c "hex w"]
  show ?thesis by (auto simp: groups_snoc word_list_def scan_end)
qed

text \<open>The dotted quad: its first number is taken for a group until the dot is seen.\<close>

lemma scan_dec:
  "length (dec n) \<le> 4 \<Longrightarrow>
     \<exists>v. scan6 (dec n @ str) (at6 xs c tok) = scan6 str (pending xs c tok v (length (dec n)))"
proof (induction n arbitrary: str rule: dec.induct)
  case (1 n)
  show ?case
  proof (cases "n < 10")
    case True
    then have d: "dec n = [dec_digit n]" by (subst dec_step) simp
    show ?thesis unfolding d using True
      by (auto simp: scan_xdigit [OF dec_digit_simps(3,4)] pending_def)
  next
    case False
    then have d: "dec n = dec (n div 10) @ [dec_digit (n mod 10)]" by (subst dec_step) simp
    have "length (dec (n div 10)) < 4" using 1(2) d by simp
    with 1(1) [OF False, of "dec_digit (n mod 10) # str"] show ?thesis
      unfolding d by (auto simp: scan_xdigit [OF dec_digit_simps(3,4)] pending_def)
  qed
qed

lemma getv4_dot:
  "p - odst \<le> 3 \<Longrightarrow> p < length t \<Longrightarrow>
     getv4 (DOT # str) odst p t n v = getv4 str odst (p + 1) (t[p := of_nat v]) 0 0"
proof -
  have "strchr digits DOT = None" by code_simp
  then show "p - odst \<le> 3 \<Longrightarrow> p < length t \<Longrightarrow> ?thesis"
    by (subst getv4.simps) (simp add: peek_def wr_def)
qed

lemma getv4_quad:
  assumes "p + 4 \<le> length t" "length q = 4"
  shows "getv4 (dotted_quad q) p p t 0 0 = Some (Some (take p t @ q @ drop (p + 4) t, None))"
proof -
  obtain a b c d where q: "q = [a, b, c, d]" using assms(2) by (auto simp: length_Suc_conv eval_nat_numeral)
  have "getv4 (dotted_quad q) p p t 0 0 =
      getv4 (dec (unat d)) p (p + 3) (t[p := a, p + 1 := b, p + 2 := c]) 0 0"
    using assms(1) byte_small [of a] byte_small [of b] byte_small [of c]
    by (simp add: dotted_quad_def q getv4_dec getv4_dot eval_nat_numeral)
  also have "\<dots> = Some (Some (t[p := a, p + 1 := b, p + 2 := c, p + 3 := d], None))"
    using getv4_dec [of "unat d" "[]"] byte_small [of d] dec_nonempty [of "unat d"] assms(1)
    by simp (subst getv4.simps, simp add: peek_def wr_def)
  also have "t[p := a, p + 1 := b, p + 2 := c, p + 3 := d] = take p t @ q @ drop (p + 4) t"
    by (rule nth_equalityI)
      (use assms(1) in \<open>auto simp: q nth_append nth_list_update nth_Cons' less_Suc_eq\<close>)
  finally show ?thesis .
qed

lemma scan_dot:
  assumes "length xs + 4 \<le> 16" "length q = 4"
  shows "scan6 (DOT # str) (pending xs c (dotted_quad q) v n) =
    Some (Inr ((at6 (xs @ q) c (dotted_quad q))\<lparr>val := v, ndigits := n, ipv4 := True\<rparr>))"
proof -
  have "getv4 (dotted_quad q) (length xs) (length xs) (xs @ replicate (16 - length xs) 0) 0 0 =
      Some (Some (xs @ q @ replicate (12 - length xs) 0, None))"
    using getv4_quad [of "length xs" "xs @ replicate (16 - length xs) 0" q] assms by simp
  moreover have "(pending xs c (dotted_quad q) v n)\<lparr>tmp := xs @ q @ replicate (12 - length xs) 0,
      bits := None, tp := length xs + 4, saw_xdigit := False, ipv4 := True\<rparr> =
      (at6 (xs @ q) c (dotted_quad q))\<lparr>val := v, ndigits := n, ipv4 := True\<rparr>"
    using assms by (simp add: pending_def at6_def)
  ultimately show ?thesis
    using assms(1) by (subst scan6.simps)
      (simp add: peek_def colon_no_digit pending_def NS_IN6ADDRSZ_def NS_INADDRSZ_def)
qed

lemma scan_quad:
  assumes "length xs + 4 \<le> 16" "length q = 4"
  shows "\<exists>v n. scan6 (dotted_quad q) (at6 xs c (dotted_quad q)) =
    Some (Inr ((at6 (xs @ q) c (dotted_quad q))\<lparr>val := v, ndigits := n, ipv4 := True\<rparr>))"
proof -
  let ?rest = "dec (unat (q ! 1)) @ [DOT] @ dec (unat (q ! 2)) @ [DOT] @ dec (unat (q ! 3))"
  have "length (dec (unat (q ! 0))) \<le> 4" using dec_byte_length [of "q ! 0"] by simp
  from scan_dec [OF this, of "DOT # ?rest" xs c "dotted_quad q"] obtain v n where
    "scan6 (dotted_quad q) (at6 xs c (dotted_quad q)) = scan6 (DOT # ?rest) (pending xs c (dotted_quad q) v n)"
    by (auto simp: dotted_quad_def)
  with scan_dot [OF assms] show ?thesis by metis
qed

text \<open>The final placement of the groups.\<close>

lemma shift_groups_moves:
  "\<lbrakk>k \<le> length rs; i + k = length rs + 1; 0 < m; endp = length ls + length rs + m\<rbrakk> \<Longrightarrow>
   shift_groups endp (length ls) (length rs) i k (ls @ take k rs @ replicate m 0 @ drop k rs) =
     Some (ls @ replicate m 0 @ rs)"
proof (induction k arbitrary: i)
  case (Suc k)
  obtain m' where m: "m = Suc m'" using Suc.prems(3) by (cases m) auto
  define pre where "pre = ls @ take k rs"
  let ?b = "rs ! k" and ?post = "drop (Suc k) rs"
  have pre: "length pre = length ls + k" using Suc.prems(1) by (simp add: pre_def)
  have rep: "replicate m 0 = replicate m' 0 @ [0 :: byte]" by (simp add: m replicate_append_same)
  have t: "ls @ take (Suc k) rs @ replicate m 0 @ ?post = (pre @ ?b # replicate m' 0) @ 0 # ?post"
    using Suc.prems(1) by (simp add: rep take_Suc_conv_app_nth pre_def)
  have i: "i = length rs - k" using Suc.prems(1,2) by simp
  have pos: "length ls + length rs - i = length pre" "endp - i = length (pre @ ?b # replicate m' 0)"
    "\<not> endp < i"
    using Suc.prems(1,4) by (simp_all add: i pre m)
  have "shift_groups endp (length ls) (length rs) i (Suc k) ((pre @ ?b # replicate m' 0) @ 0 # ?post) =
      shift_groups endp (length ls) (length rs) (i + 1) k (pre @ 0 # replicate m' 0 @ ?b # ?post)"
    unfolding shift_groups.simps pos using pos(3)
    by (simp add: rd_def wr_def nth_append list_update_append)
  also have "pre @ 0 # replicate m' 0 @ ?b # ?post = ls @ take k rs @ replicate m 0 @ drop k rs"
    using Suc.prems(1) by (simp add: pre_def m Cons_nth_drop_Suc)
  also have "shift_groups endp (length ls) (length rs) (i + 1) k (ls @ take k rs @ replicate m 0 @ drop k rs) =
      Some (ls @ replicate m 0 @ rs)"
    by (rule Suc.IH) (use Suc.prems in auto)
  finally show ?case unfolding t .
qed simp

lemma place_full:
  assumes "tmp s = xs" "tp s = 16" "colonp s = None" "bits s = None" "length xs = 16"
  shows "v6_place 16 s = Some (Inr 128, xs)"
  using assms by (simp add: v6_place_def)

lemma place_run:
  assumes "tmp s = ls @ rs @ replicate m 0" "tp s = length ls + length rs" "colonp s = Some (length ls)"
    "bits s = None" "length ls + length rs + m = 16" "0 < m"
  shows "v6_place 16 s = Some (Inr 128, ls @ replicate m 0 @ rs)"
proof -
  have "shift_groups 16 (length ls) (length rs) 1 (length rs) (tmp s) = Some (ls @ replicate m 0 @ rs)"
    using shift_groups_moves [of "length rs" rs 1 m 16 ls] assms by simp
  moreover have "length (ls @ replicate m 0 @ rs) = 16" using assms(5) by simp
  ultimately show ?thesis using assms(2-6) by (simp add: v6_place_def)
qed

lemma finish_pending:
  assumes "length xs + 2 \<le> 16"
  shows "v6_finish (pending xs c tok w n) 16 =
    v6_place 16 ((at6 (xs @ word_bytes w) c tok)\<lparr>val := w, ndigits := n, saw_xdigit := True\<rparr>)"
  using assms put_pending [OF assms, of c tok w n]
  by (simp add: v6_finish_def NS_IN6ADDRSZ_def NS_INT16SZ_def) (simp add: pending_def)

section \<open>Round trip\<close>

lemma byte_and_255: "(of_nat (n AND 0xff) :: byte) = of_nat n"
proof -
  have "n AND 0xff = take_bit 8 n" using take_bit_eq_mask [of 8 n] by (simp add: mask_eq_exp_minus_1)
  then show ?thesis by (auto intro!: bit_word_eqI simp: bit_simps)
qed

lemma word_bytes_pair: "word_bytes (unat hi * 256 + unat lo) = [hi, lo]" for hi lo :: byte
proof -
  have "(256 :: byte) = 0" by simp
  then have "hi * 256 = 0" by (simp only: mult_zero_right)
  then show ?thesis
    using unat_lt_power [of lo] by (simp add: word_bytes_def byte_and_255 drop_bit_eq_div)
qed

lemma words_bytes_of:
  assumes "length q = 16"
  shows "words_bytes (words_of q) = q"
proof -
  have "words_bytes (words_of q) = concat (map (\<lambda>i. [q ! (2 * i), q ! (2 * i + 1)]) [0..<8])"
    by (simp add: words_bytes_def words_of_def word_bytes_pair comp_def del: upt_Suc)
  also have "\<dots> = map ((!) q) [0..<16]" by (simp add: upt_rec) (simp add: eval_nat_numeral)
  finally show ?thesis using map_nth [of q] assms by simp
qed

lemma word_list_of: "word_list (words_of q)"
  using word_text_length [of _ q] by (auto simp: word_list_def in_set_conv_nth)

lemma hex_no_colon: "peek (hex w @ str) \<noteq> COLON"
proof -
  obtain c cs where h: "hex w = c # cs" using hex_nonempty by (meson list.exhaust)
  then have "c \<in> hex_digit ` {..<16}" using hex_digits [of w] by auto
  with h show ?thesis using hex_digits_read by (auto simp: peek_def)
qed

lemma peek_quad: "peek (dotted_quad q) \<noteq> 0"
proof -
  obtain c cs where h: "dotted_quad q = c # cs"
    using dec_nonempty by (cases "dotted_quad q") (auto simp: dotted_quad_def)
  with dotted_quad_chars [of c q] show ?thesis by (auto simp: peek_def dec_digit_simps)
qed

lemma start_at6: "v6_start str = at6 [] None str"
  by (simp add: v6_start_def at6_def NS_IN6ADDRSZ_def)

text \<open>What is read of the three forms of the text.\<close>

lemma read_groups:
  assumes "word_list ws" "length ws = 8"
  shows "inet_net_pton_ipv6 (groups ws) 16 = Some (Inr 128, words_bytes ws)"
proof -
  obtain us w where ws: "ws = us @ [w]" using assms(2) by (cases ws rule: rev_cases) auto
  then obtain tok n where "scan6 (groups ws) (at6 [] None (groups ws)) = Some (Inr (pending (words_bytes us) None tok w n))"
    using scan_groups [of us w "[]" None "groups ws"] assms by auto
  moreover have "v6_finish (pending (words_bytes us) None tok w n) 16 = Some (Inr 128, words_bytes ws)"
    using assms(2) ws by (subst finish_pending) (auto intro!: place_full simp: word_bytes_def)
  moreover have "peek (groups ws) \<noteq> COLON" using assms(2) hex_no_colon by (cases ws) auto
  ultimately show ?thesis by (simp add: inet_net_pton_ipv6_def start_at6)
qed

definition after_scan :: "v6 v6_result \<Rightarrow> ((inet_errno + nat) \<times> out) option" where
  "after_scan r =
     (case r of None \<Rightarrow> None | Some (Inl x) \<Rightarrow> Some (x, []) | Some (Inr s) \<Rightarrow> v6_finish s 16)"

lemma read_left:
  assumes "word_list us" "2 * length us \<le> 16"
  shows "inet_net_pton_ipv6 (left_part us @ COLON # str) 16 =
    after_scan (scan6 str (at6 (words_bytes us) (Some (2 * length us)) str))"
proof (cases us)
  case Nil
  then show ?thesis
    by (simp add: inet_net_pton_ipv6_def left_part_def start_at6 scan_double after_scan_def
      peek_def [of "COLON # _"])
next
  case (Cons w ws)
  have "scan6 (lefts us @ COLON # str) (at6 [] None (lefts us @ COLON # str)) =
      scan6 str (at6 (words_bytes us) (Some (2 * length us)) str)"
    using scan_lefts [of us "[]" "COLON # str" None] assms Cons
    by (simp add: scan_double peek_def [of "COLON # _"] del: lefts_simps)
  moreover have "peek (lefts us @ COLON # str) \<noteq> COLON" using hex_no_colon Cons by simp
  ultimately show ?thesis
    using Cons by (simp add: inet_net_pton_ipv6_def left_part_def start_at6 after_scan_def del: lefts_simps)
qed

lemma read_run:
  assumes "word_list us" "word_list vs" "2 * length us + 2 * length vs + m = 16" "0 < m"
  shows "inet_net_pton_ipv6 (left_part us @ COLON # groups vs) 16 =
    Some (Inr 128, words_bytes us @ replicate m 0 @ words_bytes vs)"
proof (cases vs rule: rev_cases)
  case Nil
  have "v6_finish (at6 (words_bytes us) (Some (2 * length us)) []) 16 =
      Some (Inr 128, words_bytes us @ replicate m 0)"
    using assms(3,4) Nil place_run [of "at6 (words_bytes us) (Some (2 * length us)) []" "words_bytes us" "[]" m]
    by (simp add: v6_finish_def)
  with Nil assms show ?thesis by (simp add: read_left scan_end after_scan_def)
next
  case (snoc ws w)
  let ?c = "Some (2 * length us)"
  obtain tok n where "scan6 (groups vs) (at6 (words_bytes us) ?c (groups vs)) =
      Some (Inr (pending (words_bytes us @ words_bytes ws) ?c tok w n))"
    using scan_groups [of ws w "words_bytes us" ?c "groups vs"] assms snoc by auto
  moreover have "v6_finish (pending (words_bytes us @ words_bytes ws) ?c tok w n) 16 =
      Some (Inr 128, words_bytes us @ replicate m 0 @ words_bytes vs)"
    using assms(3,4) snoc
    by (subst finish_pending) (auto intro!: place_run simp: word_bytes_def)
  ultimately show ?thesis using assms by (simp add: read_left after_scan_def)
qed

lemma read_quad:
  assumes "word_list vs" "2 * length vs + 4 + m = 16" "0 < m" "length q = 4"
  shows "inet_net_pton_ipv6 (COLON # COLON # lefts vs @ dotted_quad q) 16 =
    Some (Inr 128, replicate m 0 @ words_bytes vs @ q)"
proof -
  have "scan6 (lefts vs @ dotted_quad q) (at6 [] (Some 0) (lefts vs @ dotted_quad q)) =
      scan6 (dotted_quad q) (at6 (words_bytes vs) (Some 0) (dotted_quad q))"
    using scan_lefts [of vs "[]" "dotted_quad q" "Some 0"] assms peek_quad by (cases vs) auto
  moreover obtain v n where "scan6 (dotted_quad q) (at6 (words_bytes vs) (Some 0) (dotted_quad q)) =
      Some (Inr ((at6 (words_bytes vs @ q) (Some 0) (dotted_quad q))\<lparr>val := v, ndigits := n, ipv4 := True\<rparr>))"
    using scan_quad [of "words_bytes vs" q "Some 0"] assms by auto
  moreover have "v6_finish ((at6 (words_bytes vs @ q) (Some 0) (dotted_quad q))
      \<lparr>val := v, ndigits := n, ipv4 := True\<rparr>) 16 = Some (Inr 128, [] @ replicate m 0 @ (words_bytes vs @ q))"
    using assms by (simp add: v6_finish_def del: append_Nil) (rule place_run, auto)
  ultimately show ?thesis
    using read_left [of "[]" "lefts vs @ dotted_quad q"]
    by (simp add: left_part_def word_list_def after_scan_def)
qed

lemma words_bytes_zero: "words_bytes (replicate n 0) = replicate (2 * n) 0"
  by (induction n) (simp_all add: word_bytes_def)

lemma split_words:
  "words_bytes (us @ replicate n 0 @ vs) = q \<Longrightarrow> q = words_bytes us @ replicate (2 * n) 0 @ words_bytes vs"
  by (auto simp: words_bytes_zero)

lemma zero_run_words:
  assumes "b + n \<le> length ws" "\<And>j. b \<le> j \<Longrightarrow> j < b + n \<Longrightarrow> ws ! j = 0"
  shows "ws = take b ws @ replicate n 0 @ drop (b + n) ws"
  using assms by (intro nth_equalityI) (auto simp: nth_append)

lemma front: "words_bytes ws = q \<Longrightarrow> 6 \<le> length ws \<Longrightarrow> q = words_bytes (take 6 ws) @ drop 12 q"
  using words_bytes_simps(3) [of "take 6 ws" "drop 6 ws"] by auto

lemma pton_ntop6:
  assumes "inet_ntop6 q n = Some (Inr str)" "length q = 16"
  shows "inet_net_pton_ipv6 str 16 = Some (Inr 128, q)"
proof -
  define ws where "ws = words_of q"
  define best where "best = best_run ws"
  have ws: "word_list ws" "length ws = 8" "words_bytes ws = q"
    using word_list_of words_bytes_of assms(2) by (simp_all add: ws_def)
  have parts: "word_list (take i ws)" "word_list (drop i ws)" "word_list (drop i (take j ws))" for i j
    using ws(1) by (auto simp: word_list_def dest: in_set_takeD in_set_dropD)
  consider "str = groups ws"
    | b where "rbase best = Some b" "str = left_part (take b ws) @ COLON # groups (drop (b + rlen best) ws)"
    | "rbase best = Some 0" "rlen best \<in> {5, 6}"
      "str = COLON # COLON # lefts (drop (rlen best) (take 6 ws)) @ dotted_quad (drop 12 q)"
    using ntop6_text [OF assms(1)] assms(2) unfolding best_def ws_def by auto
  then show ?thesis
  proof cases
    case 1
    with read_groups [OF ws(1,2)] ws(3) show ?thesis by simp
  next
    case 2
    note run = best_run_zero [OF 2(1) [unfolded best_def], folded best_def]
    have "q = words_bytes (take b ws) @ replicate (2 * rlen best) 0 @ words_bytes (drop (b + rlen best) ws)"
      by (rule split_words) (use zero_run_words [of b "rlen best" ws] run ws in auto)
    moreover have "inet_net_pton_ipv6 str 16 = Some (Inr 128, words_bytes (take b ws) @
        replicate (2 * rlen best) 0 @ words_bytes (drop (b + rlen best) ws))"
      unfolding 2(2) by (rule read_run) (use run ws(2) parts in auto)
    ultimately show ?thesis by simp
  next
    case 3
    note run = best_run_zero [OF 3(1) [unfolded best_def], folded best_def]
    have "take 6 ws = replicate (rlen best) 0 @ drop (rlen best) (take 6 ws)"
      using zero_run_words [of 0 "rlen best" "take 6 ws"] run(3) 3(2) ws(2) by auto
    then have "words_bytes (take 6 ws) = replicate (2 * rlen best) 0 @ words_bytes (drop (rlen best) (take 6 ws))"
      using split_words [of "[]" "rlen best" "drop (rlen best) (take 6 ws)"] by simp
    moreover have "q = words_bytes (take 6 ws) @ drop 12 q"
      by (rule front) (use ws in auto)
    ultimately have "q = replicate (2 * rlen best) 0 @ words_bytes (drop (rlen best) (take 6 ws)) @ drop 12 q"
      by simp
    moreover have "inet_net_pton_ipv6 str 16 = Some (Inr 128, replicate (2 * rlen best) 0 @
        words_bytes (drop (rlen best) (take 6 ws)) @ drop 12 q)"
      unfolding 3(3) by (rule read_quad) (use run 3(2) ws(2) assms(2) parts in auto)
    ultimately show ?thesis by simp
  qed
qed

lemma groups_append: "us \<noteq> [] \<Longrightarrow> vs \<noteq> [] \<Longrightarrow> groups (us @ vs) = lefts us @ groups vs"
proof -
  assume ne: "us \<noteq> []" "vs \<noteq> []"
  then have "groups (us @ vs) = (groups us @ [COLON]) @ groups vs"
    using colon_groups [of vs] by (cases us) simp_all
  with groups_colon [OF ne(1)] show ?thesis by simp
qed

lemma scan_overflow:
  assumes "length xs = 16" "peek str \<noteq> 0"
  shows "scan6 (COLON # str) (pending xs c tok w n) = Some (Inl (Inr 0))"
  using assms
  by (subst scan6.simps)
    (simp add: peek_def colon_no_digit Let_def pending_def NS_IN6ADDRSZ_def NS_INT16SZ_def)

section \<open>Properties\<close>

text \<open>
  C16: an address that was printed is read back as it was, for every address of either
  version, the ones with a run of zero words and the ones printed with a dotted quad included.
\<close>

theorem inet_text_roundtrip:
  assumes "af = AF_INET \<and> length q = 4 \<or> af = AF_INET6 \<and> length q = 16"
    and "ares_inet_ntop af q n = Some (Inr str)"
  shows "ares_inet_pton af str = Some (1, q)"
  using assms(1)
proof
  assume v4: "af = AF_INET \<and> length q = 4"
  with assms(2) have "str = dotted_quad q"
    by (simp add: ares_inet_ntop_def ntop4_result split: if_splits)
  with v4 read_dotted_quad show ?thesis by (simp add: inet_pton4 code_of_def)
next
  assume v6: "af = AF_INET6 \<and> length q = 16"
  with assms(2) have "inet_ntop6 q n = Some (Inr str)" by (simp add: ares_inet_ntop_def families)
  with v6 pton_ntop6 show ?thesis by (simp add: inet_pton6 code_of_def)
qed

theorem inet_text_roundtrip_witness:
  "ares_inet_pton AF_INET (bytes ''10.0.0.255'') = Some (1, [10, 0, 0, 255])"
  by (rule inet_text_roundtrip [where n = 16]) (simp, code_simp)

text \<open>
  C40: printing and reading an address stay in bounds.  Printing stays inside the local array, for
  all bytes of all addresses, fails only for lack of room at the caller's, and 46 bytes are always
  enough.  Reading a text without a slash stays inside the arrays and never overruns the address
  that the caller gives room for; when it reports success, a version 6 address is written in full,
  unless nothing at all is written.
\<close>

theorem inet_text_bounds:
  assumes "af = AF_INET \<Longrightarrow> 4 \<le> length a" "af = AF_INET6 \<Longrightarrow> 16 \<le> length a" "SLASH \<notin> set str"
  shows "(\<exists>r. ares_inet_ntop af a n = Some r \<and>
     (case r of
        Inl e \<Rightarrow> if af = AF_INET \<or> af = AF_INET6 then e = ENOSPC \<and> n < 46 else e = EAFNOSUPPORT
      | Inr res \<Rightarrow> length res < n \<and> length res < 46)) \<and>
    (\<exists>r written. ares_inet_pton af str = Some (r, written) \<and> r \<in> {-1, 0, 1} \<and>
     (af = AF_INET \<longrightarrow> length written \<le> 4) \<and>
     (af = AF_INET6 \<longrightarrow> written = [] \<or> r = 1 \<and> length written = 16) \<and>
     (af \<noteq> AF_INET \<and> af \<noteq> AF_INET6 \<longrightarrow> r = -1 \<and> written = []))"
  by (rule conjI [OF inet_ntop_bounds inet_pton_bounds]) (fact assms)+

lemma inet_text_bounds_witness:
  "(\<exists>r. ares_inet_ntop AF_INET [127, 0, 0, 1] 16 = Some r \<and>
     (case r of
        Inl e \<Rightarrow> if AF_INET = AF_INET \<or> AF_INET = AF_INET6 then e = ENOSPC \<and> (16 :: nat) < 46
                 else e = EAFNOSUPPORT
      | Inr res \<Rightarrow> length res < 16 \<and> length res < 46)) \<and>
   (\<exists>r written. ares_inet_pton AF_INET (bytes ''10.0.0.1'') = Some (r, written) \<and> r \<in> {-1, 0, 1} \<and>
     (AF_INET = AF_INET \<longrightarrow> length written \<le> 4) \<and>
     (AF_INET = AF_INET6 \<longrightarrow> written = [] \<or> r = 1 \<and> length written = 16) \<and>
     (AF_INET \<noteq> AF_INET \<and> AF_INET \<noteq> AF_INET6 \<longrightarrow> r = -1 \<and> written = []))"
  by (rule inet_text_bounds) (simp_all add: AF_INET_def AF_INET6_def)

text \<open>
  A text of ten groups or more is too long for an address, but the reader reports success
  and writes nothing: it leaves with 0, which stands for a width of 0 bits.
\<close>

lemma inet_pton_overlong:
  assumes "\<forall>w\<in>set ws. w < 2 ^ 16" "10 \<le> length ws"
  shows "ares_inet_pton AF_INET6 (groups ws) = Some (1, [])"
proof -
  have words: "length (hex w) \<le> 4" if "w \<in> set ws" for w
    using hex_length [of 4 w] assms(1) that by simp
  obtain v v' vs where vs: "drop 8 ws = v # v' # vs"
    using assms(2) by (cases "drop 8 ws"; cases "tl (drop 8 ws)") (auto simp: drop_eq_Nil dest: arg_cong [of _ _ length])
  have all: "groups ws = lefts (take 8 ws) @ hex v @ COLON # hex v' @ rights vs"
  proof -
    have "groups ws = groups (take 8 ws @ v # v' # vs)" using append_take_drop_id [of 8 ws] vs by simp
    moreover have "take 8 ws \<noteq> []" using assms(2) by auto
    ultimately show ?thesis using groups_append [of "take 8 ws" "v # v' # vs"] by simp
  qed
  have eight: "word_list (take 8 ws)" "length (take 8 ws) = 8"
    using words assms(2) by (auto simp: word_list_def dest: in_set_takeD)
  have v: "length (hex v) \<le> 4" using words [of v] vs by (metis in_set_dropD list.set_intros(1))
  have nonempty: "ws \<noteq> []" using assms(2) by auto
  let ?str = "hex v' @ rights vs"
  have "scan6 (groups ws) (at6 [] None (groups ws)) = Some (Inl (Inr 0))"
    using scan_lefts [of "take 8 ws" "[]" "hex v @ COLON # ?str" None] eight assms(2)
      peek_hex [of v] peek_hex [of v' "rights vs"] nonempty
    by (simp add: all scan_hex [OF v] scan_overflow)
  moreover have "peek (groups ws) \<noteq> COLON" using assms(2) hex_no_colon by (cases ws) auto
  ultimately have "inet_net_pton_ipv6 (groups ws) 16 = Some (Inr 0, [])"
    by (simp add: inet_net_pton_ipv6_def start_at6)
  then show ?thesis by (simp add: inet_pton6 code_of_def)
qed

end
