(* ===== verification/Ares_Hostfile.thy ===== *)
theory Ares_Hostfile
  imports Ares_Search Ares_Hosts Ares_Text
begin

text \<open>
  The file of hosts: \<^verbatim>\<open>ares__read_line.c\<close>, \<^verbatim>\<open>ares__get_hostent.c\<close> and the functions \<^verbatim>\<open>file_lookup\<close> of
  \<^verbatim>\<open>ares_gethostbyname.c\<close> and \<^verbatim>\<open>ares_gethostbyaddr.c\<close>.  A file is the list of the bytes that are left
  of it; \<open>err\<close> tells whether it ends with an error.  What the allocator answers is the function
  \<open>mem\<close>, and \<open>inet\<close> is \<^verbatim>\<open>inet_addr\<close>, which gives \<^verbatim>\<open>INADDR_NONE\<close> for what is no address.  A read before
  the line, or a write outside an array, has no result.
\<close>

section \<open>Lines\<close>

datatype place = P_line nat | P_hostent | P_name | P_addr_list | P_addr | P_aliases | P_alias nat

text \<open>At most \<open>n - 1\<close> bytes, up to the end of the line.\<close>

definition fgets :: "nat \<Rightarrow> byte list \<Rightarrow> byte list \<times> byte list" where
  "fgets n fs =
     (let s = take (n - 1) fs;
          s = (if LF \<in> set s then takeWhile (\<lambda>c. c \<noteq> LF) s @ [LF] else s)
      in (s, drop (length s) fs))"

text \<open>The line read so far, without its terminator, and the size of its buffer.\<close>

partial_function (option) read_more ::
  "bool \<Rightarrow> (place \<Rightarrow> bool) \<Rightarrow> nat \<Rightarrow> byte list \<Rightarrow> byte list \<Rightarrow> (ares_status \<times> byte list \<times> nat \<times> byte list) option" where
  "read_more err mem bufsize line fs =
     (if fs = [] then
        Some (if line \<noteq> [] then ARES_SUCCESS else if err then ARES_EFILE else ARES_EOF, line, bufsize, [])
      else case fgets (bufsize - length line) fs of (s, fs) \<Rightarrow>
        let line = line @ takeWhile (\<lambda>c. c \<noteq> 0) s
        in if line = [] then None
           else if last line = LF then Some (ARES_SUCCESS, butlast line, bufsize, fs)
           else if length line < bufsize - 1 then read_more err mem bufsize line fs
           else if \<not> mem (P_line (bufsize * 2)) then Some (ARES_ENOMEM, line, bufsize, fs)
           else read_more err mem (bufsize * 2) line fs)"

declare read_more.simps [code]

definition ares__read_line ::
  "bool \<Rightarrow> (place \<Rightarrow> bool) \<Rightarrow> nat option \<Rightarrow> byte list \<Rightarrow>
   (ares_status \<times> byte list \<times> nat option \<times> byte list) option" where
  "ares__read_line err mem buf fs =
     (if buf = None \<and> \<not> mem (P_line 128) then Some (ARES_ENOMEM, [], None, fs)
      else do {
        (status, line, bufsize, fs) \<leftarrow> read_more err mem (case buf of None \<Rightarrow> 128 | Some n \<Rightarrow> n) [] fs;
        Some (status, line, Some bufsize, fs)
      })"

section \<open>A line of the file\<close>

definition HASH :: byte where "HASH = chr CHR ''#''"

text \<open>The address, the name and what follows it, if the line has an address and a name.\<close>

definition host_fields :: "byte list \<Rightarrow> (byte list \<times> byte list \<times> byte list) option" where
  "host_fields line =
     (let line = takeWhile (\<lambda>c. c \<noteq> HASH) line;
          line = rev (dropWhile ISSPACE (rev line));
          p = dropWhile ISSPACE line
      in if p = [] then None
         else
           let txtaddr = takeWhile (\<lambda>c. \<not> ISSPACE c) p;
               p = dropWhile (\<lambda>c. \<not> ISSPACE c) p
           in if p = [] then None
              else
                let p = dropWhile ISSPACE (tl p)
                in if p = [] then None
                   else
                     let txthost = takeWhile (\<lambda>c. \<not> ISSPACE c) p;
                         p = dropWhile (\<lambda>c. \<not> ISSPACE c) p;
                         txtalias = (if p \<noteq> [] then dropWhile ISSPACE (tl p) else [])
                     in Some (txtaddr, txthost, txtalias))"

abbreviation next_word :: "byte list \<Rightarrow> byte list" where
  "next_word p \<equiv> dropWhile ISSPACE (dropWhile (\<lambda>c. \<not> ISSPACE c) p)"

lemma next_word_shorter [simp]: "p \<noteq> [] \<Longrightarrow> length (next_word p) < length p"
  using length_dropWhile_le [of "\<lambda>c. \<not> ISSPACE c" p] length_dropWhile_le [of ISSPACE "tl p"]
    length_dropWhile_le [of ISSPACE "dropWhile (\<lambda>c. \<not> ISSPACE c) p"]
    length_dropWhile_le [of "\<lambda>c. \<not> ISSPACE c" "tl p"]
  by (cases p) auto

function count_aliases :: "byte list \<Rightarrow> nat" where
  "count_aliases p = (if p = [] then 0 else Suc (count_aliases (next_word p)))"
  by pat_completeness auto
termination by (relation "measure length") auto

text \<open>Copying the aliases into an array with room for \<open>n\<close>, the first of them at \<open>i\<close>.\<close>

function copy_aliases :: "(place \<Rightarrow> bool) \<Rightarrow> nat \<Rightarrow> nat \<Rightarrow> byte list \<Rightarrow> byte list list option option" where
  "copy_aliases mem n i p =
     (if p = [] then Some (Some [])
      else if i \<ge> n then None
      else if \<not> mem (P_alias i) then Some None
      else do {
        rest \<leftarrow> copy_aliases mem n (Suc i) (next_word p);
        Some (map_option ((#) (takeWhile (\<lambda>c. \<not> ISSPACE c) p)) rest)
      })"
  by pat_completeness auto
termination by (relation "measure (\<lambda>(mem, n, i, p). length p)") auto

declare count_aliases.simps [simp del] copy_aliases.simps [simp del]

definition AF_UNSPEC :: int where "AF_UNSPEC = 0"
definition INADDR_NONE :: "byte list" where "INADDR_NONE = [255, 255, 255, 255]"

text \<open>The address of the family asked for.  \<open>junk\<close> is what \<^verbatim>\<open>addr\<close> holds before it is written to.\<close>

definition line_address ::
  "(byte list \<Rightarrow> byte list) \<Rightarrow> (nat \<Rightarrow> byte) \<Rightarrow> int \<Rightarrow> byte list \<Rightarrow> (int \<times> byte list) option option" where
  "line_address inet junk family txtaddr =
     (let addr4 = (if family = AF_INET \<or> family = AF_UNSPEC then inet txtaddr else INADDR_NONE)
      in if addr4 \<noteq> INADDR_NONE then Some (Some (AF_INET, addr4))
         else if family = AF_INET6 \<or> family = AF_UNSPEC then do {
           (r, written) \<leftarrow> ares_inet_pton AF_INET6 txtaddr;
           Some (if r > 0
                 then Some (AF_INET6, written @ drop (length written) (INADDR_NONE @ map junk [4..<16]))
                 else None)
         }
         else Some None)"

text \<open>The host of a line: \<open>None\<close> when the line is passed over.\<close>

definition line_hostent ::
  "(byte list \<Rightarrow> byte list) \<Rightarrow> (nat \<Rightarrow> byte) \<Rightarrow> (place \<Rightarrow> bool) \<Rightarrow> int \<Rightarrow> byte list \<Rightarrow>
   (ares_status \<times> hostent option) option option" where
  "line_hostent inet junk mem family line =
     (case host_fields line of
        None \<Rightarrow> Some None
      | Some (txtaddr, txthost, txtalias) \<Rightarrow> do {
          a \<leftarrow> line_address inet junk family txtaddr;
          case a of
            None \<Rightarrow> Some None
          | Some (fam, addr) \<Rightarrow>
              if \<not> (mem P_hostent \<and> mem P_name \<and> mem P_addr_list \<and> mem P_addr \<and> mem P_aliases)
              then Some (Some (ARES_ENOMEM, None))
              else do {
                aliases \<leftarrow> copy_aliases mem (count_aliases txtalias) 0 txtalias;
                case aliases of
                  None \<Rightarrow> Some (Some (ARES_ENOMEM, None))
                | Some as \<Rightarrow> Some (Some (ARES_SUCCESS,
                    Some \<lparr>h_name = txthost, h_aliases = as, h_addrtype = fam,
                      h_length = int (length addr), h_addr_list = [addr]\<rparr>))
              }
        })"

partial_function (option) next_hostent ::
  "(byte list \<Rightarrow> byte list) \<Rightarrow> (nat \<Rightarrow> byte) \<Rightarrow> bool \<Rightarrow> (place \<Rightarrow> bool) \<Rightarrow> int \<Rightarrow> nat option \<Rightarrow> byte list \<Rightarrow>
   (ares_status \<times> hostent option \<times> byte list) option" where
  "next_hostent inet junk err mem family buf fs = do {
     (status, line, buf, fs) \<leftarrow> ares__read_line err mem buf fs;
     if status \<noteq> ARES_SUCCESS then Some (status, None, fs)
     else do {
       r \<leftarrow> line_hostent inet junk mem family line;
       case r of
         None \<Rightarrow> next_hostent inet junk err mem family buf fs
       | Some (st, host) \<Rightarrow> Some (st, host, fs)
     }
   }"

declare next_hostent.simps [code]

definition ares__get_hostent ::
  "(byte list \<Rightarrow> byte list) \<Rightarrow> (nat \<Rightarrow> byte) \<Rightarrow> bool \<Rightarrow> (place \<Rightarrow> bool) \<Rightarrow> int \<Rightarrow> byte list \<Rightarrow>
   (ares_status \<times> hostent option \<times> byte list) option" where
  "ares__get_hostent inet junk err mem family fs =
     (if family \<noteq> AF_INET \<and> family \<noteq> AF_INET6 \<and> family \<noteq> AF_UNSPEC
      then Some (ARES_EBADFAMILY, None, fs)
      else next_hostent inet junk err mem family None fs)"

section \<open>Looking for a host\<close>

datatype hosts_file = No_hosts | Hosts_error | Hosts "byte list" bool

text \<open>The loop of both functions: the hosts of the file until one is wanted.\<close>

partial_function (option) lookup_loop ::
  "(byte list \<Rightarrow> byte list) \<Rightarrow> (nat \<Rightarrow> byte) \<Rightarrow> bool \<Rightarrow> (place \<Rightarrow> bool) \<Rightarrow> int \<Rightarrow> (hostent \<Rightarrow> bool) \<Rightarrow> byte list \<Rightarrow>
   (ares_status \<times> hostent option) option" where
  "lookup_loop inet junk err mem family wanted fs = do {
     (status, host, fs) \<leftarrow> ares__get_hostent inet junk err mem family fs;
     if status \<noteq> ARES_SUCCESS then Some (if status = ARES_EOF then ARES_ENOTFOUND else status, None)
     else do {
       h \<leftarrow> host;
       if wanted h then Some (ARES_SUCCESS, Some h)
       else lookup_loop inet junk err mem family wanted fs
     }
   }"

declare lookup_loop.simps [code]

definition file_lookup ::
  "(byte list \<Rightarrow> byte list) \<Rightarrow> (nat \<Rightarrow> byte) \<Rightarrow> (place \<Rightarrow> bool) \<Rightarrow> int \<Rightarrow> (hostent \<Rightarrow> bool) \<Rightarrow> hosts_file \<Rightarrow>
   (ares_status \<times> hostent option) option" where
  "file_lookup inet junk mem family wanted f =
     (case f of
        No_hosts \<Rightarrow> Some (ARES_ENOTFOUND, None)
      | Hosts_error \<Rightarrow> Some (ARES_EFILE, None)
      | Hosts fs err \<Rightarrow> lookup_loop inet junk err mem family wanted fs)"

definition has_name :: "byte list \<Rightarrow> hostent \<Rightarrow> bool" where
  "has_name name h \<longleftrightarrow> ares_strcasecmp (h_name h) name = 0 \<or> (\<exists>a \<in> set (h_aliases h). ares_strcasecmp a name = 0)"

definition has_addr :: "int \<Rightarrow> byte list \<Rightarrow> hostent \<Rightarrow> bool" where
  "has_addr family addr h \<longleftrightarrow> h_addrtype h = family \<and> hd (h_addr_list h) = addr"

section \<open>Reading lines\<close>

text \<open>The lines of a file.\<close>

function text_lines :: "byte list \<Rightarrow> byte list list" where
  "text_lines fs =
     (if fs = [] then []
      else takeWhile (\<lambda>c. c \<noteq> LF) fs # text_lines (tl (dropWhile (\<lambda>c. c \<noteq> LF) fs)))"
  by pat_completeness auto
termination
proof (relation "measure length")
  show "(tl (dropWhile (\<lambda>c. c \<noteq> LF) fs), fs) \<in> measure length" if "fs \<noteq> []" for fs :: "byte list"
    using that length_dropWhile_le [of "\<lambda>c. c \<noteq> LF" fs] by (cases fs) (auto simp: less_diff_conv)
qed simp

declare text_lines.simps [simp del]

lemma rest_shorter: "fs \<noteq> [] \<Longrightarrow> length (tl (dropWhile (\<lambda>c. c \<noteq> LF) fs)) < length fs"
  using length_dropWhile_le [of "\<lambda>c. c \<noteq> LF" fs] by (cases fs) (auto simp: less_diff_conv)

lemma fgets_cases:
  assumes "0 < k" "fs \<noteq> []"
  obtains (line) rest where "fgets (Suc k) fs = (takeWhile (\<lambda>c. c \<noteq> LF) fs @ [LF], rest)"
      "rest = tl (dropWhile (\<lambda>c. c \<noteq> LF) fs)" "LF \<in> set fs"
    | (part) s rest where "fgets (Suc k) fs = (s, rest)" "fs = s @ rest" "LF \<notin> set s" "s \<noteq> []" "length s \<le> k"
proof (cases "LF \<in> set (take k fs)")
  case True
  then have w: "takeWhile (\<lambda>c. c \<noteq> LF) (take k fs @ drop k fs) = takeWhile (\<lambda>c. c \<noteq> LF) (take k fs)"
    by (intro takeWhile_append1) auto
  then have w': "takeWhile (\<lambda>c. c \<noteq> LF) (take k fs) = takeWhile (\<lambda>c. c \<noteq> LF) fs" by (simp only: append_take_drop_id)
  have "drop (length (takeWhile (\<lambda>c. c \<noteq> LF) fs @ [LF])) fs = tl (dropWhile (\<lambda>c. c \<noteq> LF) fs)"
    by (simp add: dropWhile_eq_drop drop_Suc tl_drop)
  with True show ?thesis by (intro line) (auto simp: fgets_def w' dest: in_set_takeD)
next
  case False
  with assms show ?thesis by (intro part [of "take k fs" "drop k fs"]) (auto simp: fgets_def Let_def min_def)
qed

lemma no_zero: "0 \<notin> set s \<Longrightarrow> takeWhile (\<lambda>c. c \<noteq> (0 :: byte)) s = s"
  by (auto simp: takeWhile_eq_all_conv)

lemma read_more_line:
  assumes "0 \<notin> set fs" "LF \<notin> set line" "length line + 1 < bufsize" "fs \<noteq> [] \<or> line \<noteq> []"
  shows "\<exists>n \<ge> bufsize. read_more err (\<lambda>_. True) bufsize line fs =
    Some (ARES_SUCCESS, line @ takeWhile (\<lambda>c. c \<noteq> LF) fs, n, tl (dropWhile (\<lambda>c. c \<noteq> LF) fs))"
  using assms
proof (induction "length fs" arbitrary: fs line bufsize rule: less_induct)
  case less
  show ?case
  proof (cases "fs = []")
    case True
    with less.prems(4) show ?thesis by (subst read_more.simps) auto
  next
    case False
    obtain k where k: "bufsize - length line = Suc k" "0 < k" using less.prems(3) by (cases "bufsize - length line") auto
    from k(2) False show ?thesis
    proof (cases rule: fgets_cases)
      case (line rest)
      have "0 \<notin> set (takeWhile (\<lambda>c. c \<noteq> LF) fs @ [LF])" using less.prems(1) by (auto dest: set_takeWhileD)
      with line show ?thesis using False k(1)
        by (intro exI [of _ bufsize]) (subst read_more.simps, simp add: no_zero butlast_append)
    next
      case (part s rest)
      let ?line = "line @ s"
      have s: "0 \<notin> set s" "0 \<notin> set rest" "length rest < length fs" "LF \<notin> set ?line" "?line \<noteq> []" "last ?line \<noteq> LF"
        using part less.prems(1,2) last_in_set [of s] by (auto simp del: last_in_set)
      have len: "length ?line + 1 \<le> bufsize" using part(5) k(1) by simp
      have goal: "takeWhile (\<lambda>c. c \<noteq> LF) fs = s @ takeWhile (\<lambda>c. c \<noteq> LF) rest"
        "dropWhile (\<lambda>c. c \<noteq> LF) fs = dropWhile (\<lambda>c. c \<noteq> LF) rest"
        using part(2,3) by (auto intro!: takeWhile_append2 dropWhile_append2)
      show ?thesis
      proof (cases "length ?line < bufsize - 1")
        case True
        then have "length ?line + 1 < bufsize" by simp
        from less.hyps [OF s(3,2,4) this] s(5) True show ?thesis
          unfolding goal using False part(1) k(1) s(1,6)
          by (subst read_more.simps) (simp add: no_zero Let_def)
      next
        case False': False
        have "length ?line + 1 < bufsize * 2" using len less.prems(3) by simp
        from less.hyps [OF s(3,2,4) this] s(5) obtain n where "n \<ge> bufsize * 2"
          "read_more err (\<lambda>_. True) (bufsize * 2) ?line rest =
            Some (ARES_SUCCESS, ?line @ takeWhile (\<lambda>c. c \<noteq> LF) rest, n, tl (dropWhile (\<lambda>c. c \<noteq> LF) rest))" by blast
        then show ?thesis
          unfolding goal using False False' part(1) k(1) s(1,5,6)
          by (intro exI [of _ n]) (subst read_more.simps, simp add: no_zero Let_def)
      qed
    qed
  qed
qed

lemma read_line_ok:
  assumes "0 \<notin> set fs" "case buf of None \<Rightarrow> True | Some n \<Rightarrow> 1 < n"
  shows "\<exists>n > 1. ares__read_line False (\<lambda>_. True) buf fs =
    (if fs = [] then Some (ARES_EOF, [], Some n, [])
     else Some (ARES_SUCCESS, takeWhile (\<lambda>c. c \<noteq> LF) fs, Some n, tl (dropWhile (\<lambda>c. c \<noteq> LF) fs)))"
proof -
  obtain m where m: "(case buf of None \<Rightarrow> 128 | Some n \<Rightarrow> n) = m" "1 < m" using assms(2) by (cases buf) auto
  show ?thesis
  proof (cases "fs = []")
    case True
    with m show ?thesis by (intro exI [of _ m]) (simp add: ares__read_line_def read_more.simps)
  next
    case False
    with read_more_line [of fs "[]" m False] assms(1) m(2) obtain n where "n \<ge> m"
      "read_more False (\<lambda>_. True) m [] fs =
        Some (ARES_SUCCESS, takeWhile (\<lambda>c. c \<noteq> LF) fs, n, tl (dropWhile (\<lambda>c. c \<noteq> LF) fs))" by auto
    with m False show ?thesis by (intro exI [of _ n]) (simp add: ares__read_line_def)
  qed
qed

section \<open>Words of a line\<close>

function split_words :: "byte list \<Rightarrow> byte list list" where
  "split_words s =
     (let s = dropWhile ISSPACE s
      in if s = [] then [] else takeWhile (\<lambda>c. \<not> ISSPACE c) s # split_words (dropWhile (\<lambda>c. \<not> ISSPACE c) s))"
  by pat_completeness auto
termination
proof (relation "measure length")
  fix s x :: "byte list"
  assume "x = dropWhile ISSPACE s" "x \<noteq> []"
  then have "\<not> ISSPACE (hd x)" using hd_dropWhile by blast
  then have "length (dropWhile (\<lambda>c. \<not> ISSPACE c) x) < length x"
    using \<open>x \<noteq> []\<close> length_dropWhile_le [of "\<lambda>c. \<not> ISSPACE c" "tl x"] by (cases x) auto
  also have "\<dots> \<le> length s" using \<open>x = dropWhile ISSPACE s\<close> by (simp add: length_dropWhile_le)
  finally show "(dropWhile (\<lambda>c. \<not> ISSPACE c) x, s) \<in> measure length" by simp
qed simp

declare split_words.simps [simp del]

lemma dropWhile_idem [simp]: "dropWhile P (dropWhile P xs) = dropWhile P xs"
  by (induction xs) auto

lemma split_words_dropWhile: "split_words (dropWhile ISSPACE s) = split_words s"
  by (subst (1 2) split_words.simps) simp

lemma split_words_word:
  "p \<noteq> [] \<Longrightarrow> \<not> ISSPACE (hd p) \<Longrightarrow> split_words p = takeWhile (\<lambda>c. \<not> ISSPACE c) p # split_words (next_word p)"
  unfolding split_words_dropWhile by (subst split_words.simps) (cases p; simp)

lemma split_words_spaces: "\<forall>c \<in> set ws. ISSPACE c \<Longrightarrow> split_words (s @ ws) = split_words s"
proof (induction s rule: split_words.induct)
  case (1 s)
  let ?x = "dropWhile ISSPACE s"
  have d: "dropWhile ISSPACE (s @ ws) = (if ?x = [] then [] else ?x @ ws)"
    using 1(2) by (auto simp: dropWhile_append dropWhile_eq_Nil_conv)
  show ?case
  proof (cases "?x = []")
    case True
    with d show ?thesis by (subst (1 2) split_words.simps) simp
  next
    case False
    have w: "takeWhile (\<lambda>c. \<not> ISSPACE c) (?x @ ws) = takeWhile (\<lambda>c. \<not> ISSPACE c) ?x"
      using 1(2) by (cases "\<exists>c \<in> set ?x. ISSPACE c"; cases ws) (auto simp: takeWhile_append takeWhile_eq_all_conv intro: takeWhile_eq_all_conv [THEN iffD2, symmetric])
    have d': "split_words (dropWhile (\<lambda>c. \<not> ISSPACE c) (?x @ ws)) = split_words (dropWhile (\<lambda>c. \<not> ISSPACE c) ?x @ ws)"
    proof (cases "\<exists>c \<in> set ?x. ISSPACE c")
      case True
      then show ?thesis by (auto simp: dropWhile_append)
    next
      case False
      then have none: "dropWhile (\<lambda>c. \<not> ISSPACE c) ?x = []" by (simp add: dropWhile_eq_Nil_conv)
      show ?thesis unfolding none using False 1(2) by (cases ws) (auto simp: dropWhile_append none)
    qed
    have "split_words (s @ ws) = takeWhile (\<lambda>c. \<not> ISSPACE c) (?x @ ws) # split_words (dropWhile (\<lambda>c. \<not> ISSPACE c) (?x @ ws))"
      using False d by (subst split_words.simps) (simp add: Let_def)
    also have "\<dots> = takeWhile (\<lambda>c. \<not> ISSPACE c) ?x # split_words (dropWhile (\<lambda>c. \<not> ISSPACE c) ?x)"
      using 1(1) [OF refl False 1(2)] by (simp only: w d')
    also have "\<dots> = split_words s" using False by (subst (2) split_words.simps) (simp add: Let_def)
    finally show ?thesis .
  qed
qed

text \<open>What the code finds in a line are its words.\<close>

definition line_words :: "byte list \<Rightarrow> byte list list" where
  "line_words line = split_words (takeWhile (\<lambda>c. c \<noteq> HASH) line)"

lemma split_words_trimmed: "split_words (rev (dropWhile ISSPACE (rev s))) = split_words s"
proof -
  have "s = rev (dropWhile ISSPACE (rev s)) @ rev (takeWhile ISSPACE (rev s))"
    by (metis rev_append rev_rev_ident takeWhile_dropWhile_id)
  moreover have "\<forall>c \<in> set (rev (takeWhile ISSPACE (rev s))). ISSPACE c" by (auto dest: set_takeWhileD)
  ultimately show ?thesis by (metis split_words_spaces)
qed

lemma host_fields_words:
  "case host_fields line of
     None \<Rightarrow> length (line_words line) < 2
   | Some (a, h, p) \<Rightarrow> line_words line = a # h # split_words p \<and> (p = [] \<or> \<not> ISSPACE (hd p))"
proof -
  define s where "s = rev (dropWhile ISSPACE (rev (takeWhile (\<lambda>c. c \<noteq> HASH) line)))"
  have w: "line_words line = split_words s" by (simp add: line_words_def s_def split_words_trimmed)
  have "split_words s = (if dropWhile ISSPACE s = [] then [] else split_words (dropWhile ISSPACE s))"
    using split_words_dropWhile [of s] by (auto simp: split_words.simps [of s])
  moreover define p where "p = dropWhile ISSPACE s"
  ultimately have p: "line_words line = (if p = [] then [] else split_words p)" by (simp add: w)
  have hp: "p \<noteq> [] \<Longrightarrow> \<not> ISSPACE (hd p)" unfolding p_def by (rule hd_dropWhile)
  define q where "q = dropWhile (\<lambda>c. \<not> ISSPACE c) p"
  have tq: "dropWhile ISSPACE (tl q) = dropWhile ISSPACE q"
    using hd_dropWhile [of "\<lambda>c. \<not> ISSPACE c" p] by (cases q) (auto simp: q_def [symmetric])
  define r where "r = dropWhile ISSPACE q"
  have hr: "r \<noteq> [] \<Longrightarrow> \<not> ISSPACE (hd r)" unfolding r_def by (rule hd_dropWhile)
  define u where "u = dropWhile (\<lambda>c. \<not> ISSPACE c) r"
  have tu: "dropWhile ISSPACE (tl u) = dropWhile ISSPACE u"
    using hd_dropWhile [of "\<lambda>c. \<not> ISSPACE c" r] by (cases u) (auto simp: u_def [symmetric])
  have nil: "split_words [] = []" by (simp add: split_words.simps)
  have "host_fields line =
      (if p = [] then None else if q = [] then None else if r = [] then None
       else Some (takeWhile (\<lambda>c. \<not> ISSPACE c) p, takeWhile (\<lambda>c. \<not> ISSPACE c) r, dropWhile ISSPACE u))"
    unfolding host_fields_def Let_def s_def [symmetric] p_def [symmetric] q_def [symmetric] tq r_def [symmetric] u_def [symmetric] tu
    by auto
  moreover have "p \<noteq> [] \<Longrightarrow> line_words line = takeWhile (\<lambda>c. \<not> ISSPACE c) p # split_words r"
    using p split_words_word [OF _ hp] by (simp add: r_def q_def)
  moreover have "r \<noteq> [] \<Longrightarrow> split_words r = takeWhile (\<lambda>c. \<not> ISSPACE c) r # split_words (dropWhile ISSPACE u)"
    using split_words_word [OF _ hr] by (simp add: u_def)
  moreover have "q = [] \<Longrightarrow> r = []" by (simp add: r_def)
  ultimately show ?thesis using p nil hd_dropWhile [of ISSPACE u] by auto
qed

lemma count_aliases_split_words: "p = [] \<or> \<not> ISSPACE (hd p) \<Longrightarrow> count_aliases p = length (split_words p)"
proof (induction p rule: count_aliases.induct)
  case (1 p)
  show ?case
  proof (cases "p = []")
    case False
    have "next_word p = [] \<or> \<not> ISSPACE (hd (next_word p))" using hd_dropWhile by blast
    from 1(1) [OF False this] False 1(2) show ?thesis
      by (subst count_aliases.simps) (simp add: split_words_word)
  qed (simp add: count_aliases.simps split_words.simps)
qed

lemma copy_aliases_split_words:
  "p = [] \<or> \<not> ISSPACE (hd p) \<Longrightarrow> i + length (split_words p) \<le> n \<Longrightarrow> copy_aliases (\<lambda>_. True) n i p = Some (Some (split_words p))"
proof (induction p arbitrary: i rule: count_aliases.induct)
  case (1 p)
  show ?case
  proof (cases "p = []")
    case False
    have "next_word p = [] \<or> \<not> ISSPACE (hd (next_word p))" using hd_dropWhile by blast
    from 1(1) [OF False this, of "Suc i"] False 1(2,3) show ?thesis
      by (subst copy_aliases.simps) (simp add: split_words_word)
  qed (simp add: copy_aliases.simps split_words.simps)
qed


section \<open>Hosts of a file\<close>

text \<open>The host of a line, and all hosts of a file.\<close>

definition entry_of :: "(byte list \<Rightarrow> byte list) \<Rightarrow> (nat \<Rightarrow> byte) \<Rightarrow> int \<Rightarrow> byte list \<Rightarrow> hostent option" where
  "entry_of inet junk family line =
     (case line_words line of
        a # h # as \<Rightarrow>
          (case line_address inet junk family a of
             Some (Some (fam, addr)) \<Rightarrow>
               Some \<lparr>h_name = h, h_aliases = as, h_addrtype = fam, h_length = int (length addr), h_addr_list = [addr]\<rparr>
           | _ \<Rightarrow> None)
      | _ \<Rightarrow> None)"

definition entries :: "(byte list \<Rightarrow> byte list) \<Rightarrow> (nat \<Rightarrow> byte) \<Rightarrow> int \<Rightarrow> byte list \<Rightarrow> hostent list" where
  "entries inet junk family fs = List.map_filter (entry_of inet junk family) (text_lines fs)"

text \<open>Files that the code can read: no zero bytes, and no slashes in addresses.\<close>

definition readable :: "byte list \<Rightarrow> bool" where
  "readable fs \<longleftrightarrow> 0 \<notin> set fs \<and>
     (\<forall>line \<in> set (text_lines fs). case line_words line of [] \<Rightarrow> True | a # _ \<Rightarrow> SLASH \<notin> set a)"

lemma line_address_total: "SLASH \<notin> set a \<Longrightarrow> line_address inet junk family a \<noteq> None"
  using inet_pton_bounds [of a AF_INET6] by (auto simp: line_address_def Let_def)

lemma line_hostent_entry:
  assumes "case line_words line of [] \<Rightarrow> True | a # _ \<Rightarrow> SLASH \<notin> set a"
  shows "line_hostent inet junk (\<lambda>_. True) family line =
    Some (map_option (\<lambda>h. (ARES_SUCCESS, Some h)) (entry_of inet junk family line))"
proof (cases "host_fields line")
  case None
  with host_fields_words [of line] show ?thesis
    by (auto simp: line_hostent_def entry_of_def split: list.split)
next
  case (Some f)
  then obtain a h p where f: "host_fields line = Some (a, h, p)" by (cases f) auto
  with host_fields_words [of line] have w: "line_words line = a # h # split_words p" "p = [] \<or> \<not> ISSPACE (hd p)" by auto
  with assms line_address_total [of a inet junk family] obtain r where r: "line_address inet junk family a = Some r" by auto
  have "copy_aliases (\<lambda>_. True) (count_aliases p) 0 p = Some (Some (split_words p))"
    using w(2) by (intro copy_aliases_split_words) (simp_all add: count_aliases_split_words)
  with f w(1) r show ?thesis by (auto simp: line_hostent_def entry_of_def split: option.split)
qed

lemma text_lines_step:
  "fs \<noteq> [] \<Longrightarrow> text_lines fs = takeWhile (\<lambda>c. c \<noteq> LF) fs # text_lines (tl (dropWhile (\<lambda>c. c \<noteq> LF) fs))"
  by (subst text_lines.simps) simp

lemma readable_rest:
  assumes "readable fs" "fs \<noteq> []"
  shows "readable (tl (dropWhile (\<lambda>c. c \<noteq> LF) fs))"
    and "case line_words (takeWhile (\<lambda>c. c \<noteq> LF) fs) of [] \<Rightarrow> True | a # _ \<Rightarrow> SLASH \<notin> set a"
proof -
  have "set (tl (dropWhile (\<lambda>c. c \<noteq> LF) fs)) \<subseteq> set fs"
  proof
    fix x assume "x \<in> set (tl (dropWhile (\<lambda>c. c \<noteq> LF) fs))"
    then have "x \<in> set (dropWhile (\<lambda>c. c \<noteq> LF) fs)" by (cases "dropWhile (\<lambda>c. c \<noteq> LF) fs") auto
    then show "x \<in> set fs" by (rule set_dropWhileD)
  qed
  with assms show "readable (tl (dropWhile (\<lambda>c. c \<noteq> LF) fs))"
    and "case line_words (takeWhile (\<lambda>c. c \<noteq> LF) fs) of [] \<Rightarrow> True | a # _ \<Rightarrow> SLASH \<notin> set a"
    by (auto simp: readable_def text_lines_step)
qed

lemma next_hostent_entries:
  assumes "readable fs" "case buf of None \<Rightarrow> True | Some n \<Rightarrow> 1 < n"
  shows "\<exists>rest. next_hostent inet junk False (\<lambda>_. True) family buf fs =
      Some (case entries inet junk family fs of [] \<Rightarrow> (ARES_EOF, None, rest) | h # _ \<Rightarrow> (ARES_SUCCESS, Some h, rest)) \<and>
    (entries inet junk family fs \<noteq> [] \<longrightarrow> readable rest \<and> length rest < length fs \<and>
       entries inet junk family rest = tl (entries inet junk family fs))"
  using assms
proof (induction "length fs" arbitrary: fs buf rule: less_induct)
  case less
  have z: "0 \<notin> set fs" using less.prems(1) by (simp add: readable_def)
  from read_line_ok [OF z less.prems(2)] obtain n where n: "n > 1"
    "ares__read_line False (\<lambda>_. True) buf fs = (if fs = [] then Some (ARES_EOF, [], Some n, [])
     else Some (ARES_SUCCESS, takeWhile (\<lambda>c. c \<noteq> LF) fs, Some n, tl (dropWhile (\<lambda>c. c \<noteq> LF) fs)))" by blast
  show ?case
  proof (cases "fs = []")
    case True
    with n show ?thesis
      by (subst next_hostent.simps) (simp add: entries_def text_lines.simps List.map_filter_simps)
  next
    case False
    let ?line = "takeWhile (\<lambda>c. c \<noteq> LF) fs" and ?rest = "tl (dropWhile (\<lambda>c. c \<noteq> LF) fs)"
    note rest = readable_rest [OF less.prems(1) False]
    have e: "entries inet junk family fs =
        (case entry_of inet junk family ?line of None \<Rightarrow> [] | Some h \<Rightarrow> [h]) @ entries inet junk family ?rest"
      by (simp add: entries_def text_lines_step [OF False] List.map_filter_simps split: option.split)
    have s: "next_hostent inet junk False (\<lambda>_. True) family buf fs =
        (case entry_of inet junk family ?line of
           None \<Rightarrow> next_hostent inet junk False (\<lambda>_. True) family (Some n) ?rest
         | Some h \<Rightarrow> Some (ARES_SUCCESS, Some h, ?rest))"
      using n False by (subst next_hostent.simps)
        (simp add: line_hostent_entry [OF rest(2)] split: option.split)
    show ?thesis
    proof (cases "entry_of inet junk family ?line")
      case None
      from less.hyps [OF rest_shorter [OF False] rest(1), of "Some n"] n(1) rest_shorter [OF False] show ?thesis
        unfolding s e None by fastforce
    next
      case (Some h)
      with rest(1) rest_shorter [OF False] show ?thesis unfolding s e by auto
    qed
  qed
qed

lemma lookup_entries:
  assumes "readable fs" "family \<in> {AF_INET, AF_INET6, AF_UNSPEC}"
  shows "lookup_loop inet junk False (\<lambda>_. True) family wanted fs =
    Some (case find wanted (entries inet junk family fs) of
            None \<Rightarrow> (ARES_ENOTFOUND, None) | Some h \<Rightarrow> (ARES_SUCCESS, Some h))"
  using assms(1)
proof (induction "length fs" arbitrary: fs rule: less_induct)
  case less
  from next_hostent_entries [OF less.prems, of None inet junk family] obtain rest where r:
    "next_hostent inet junk False (\<lambda>_. True) family None fs =
      Some (case entries inet junk family fs of [] \<Rightarrow> (ARES_EOF, None, rest) | h # _ \<Rightarrow> (ARES_SUCCESS, Some h, rest))"
    "entries inet junk family fs \<noteq> [] \<Longrightarrow> readable rest \<and> length rest < length fs \<and>
       entries inet junk family rest = tl (entries inet junk family fs)" by auto
  have "ares__get_hostent inet junk False (\<lambda>_. True) family fs = next_hostent inet junk False (\<lambda>_. True) family None fs"
    using assms(2) by (auto simp: ares__get_hostent_def)
  with r less.hyps [of rest] show ?case
    by (subst lookup_loop.simps) (auto split: list.splits)
qed

section \<open>Property\<close>

text \<open>
  C14: Looking for a host in the file of hosts gives the first line of the file that has an address of
  the family, a name and what is wanted of a host: its words are those between white space up to
  the comment, an address, the name and its aliases.  It is the same for names and for addresses.
\<close>

theorem hosts_file_lookup:
  assumes "readable fs" "family \<in> {AF_INET, AF_INET6, AF_UNSPEC}"
  shows "file_lookup inet junk (\<lambda>_. True) family wanted (Hosts fs False) =
    Some (case find wanted (List.map_filter (entry_of inet junk family) (text_lines fs)) of
            None \<Rightarrow> (ARES_ENOTFOUND, None) | Some h \<Rightarrow> (ARES_SUCCESS, Some h))"
  using lookup_entries [OF assms, of inet junk wanted] by (simp add: file_lookup_def entries_def)

definition sample_hosts :: "byte list" where
  "sample_hosts = [35, 47, 10, 49, 32, 97, 9, 98, 32, 35, 10]"

definition sample_inet :: "byte list \<Rightarrow> byte list" where
  "sample_inet s = (if s = [49] then [10, 0, 0, 1] else INADDR_NONE)"

lemma hosts_file_lookup_witness:
  "file_lookup sample_inet (\<lambda>_. 0) (\<lambda>_. True) AF_INET (has_name [66]) (Hosts sample_hosts False) =
    Some (ARES_SUCCESS, Some \<lparr>h_name = [97], h_aliases = [[98]], h_addrtype = AF_INET, h_length = 4,
      h_addr_list = [[10, 0, 0, 1]]\<rparr>)"
proof -
  have "readable sample_hosts" by code_simp
  from hosts_file_lookup [OF this, of AF_INET sample_inet "\<lambda>_. 0" "has_name [66]"]
  have "file_lookup sample_inet (\<lambda>_. 0) (\<lambda>_. True) AF_INET (has_name [66]) (Hosts sample_hosts False) =
    Some (case find (has_name [66]) (List.map_filter (entry_of sample_inet (\<lambda>_. 0) AF_INET) (text_lines sample_hosts)) of
            None \<Rightarrow> (ARES_ENOTFOUND, None) | Some h \<Rightarrow> (ARES_SUCCESS, Some h))" by simp
  also have "find (has_name [66]) (List.map_filter (entry_of sample_inet (\<lambda>_. 0) AF_INET) (text_lines sample_hosts)) =
    Some \<lparr>h_name = [97], h_aliases = [[98]], h_addrtype = AF_INET, h_length = 4, h_addr_list = [[10, 0, 0, 1]]\<rparr>"
    by code_simp
  finally show ?thesis by simp
qed

text \<open>A line that begins with a zero byte makes the code look at the byte before its buffer.\<close>

lemma zero_line_underrun:
  assumes "1 < n"
  shows "read_more err mem n [] (0 # fs) = None"
proof -
  obtain k where "n - 1 = Suc k" using assms by (cases "n - 1") auto
  then obtain s rest where "fgets n (0 # fs) = (0 # s, rest)" by (cases "LF \<in> set (take k fs)") (simp_all add: fgets_def Let_def)
  then show ?thesis by (subst read_more.simps) simp
qed

end
