(* ===== verification/Ares_Address.thy ===== *)
theory Ares_Address
  imports Ares_Reply
begin

text \<open>
  Address replies: \<^verbatim>\<open>ares_parse_a_reply.c\<close> and \<^verbatim>\<open>ares_parse_aaaa_reply.c\<close>.  The two files have the
  same code, for addresses of 4 and of 16 bytes; it is modelled once, with the record type and
  the size of an address as arguments, and the one difference, in what counts as no data.

  The caller may want a host entry (\<open>host\<close>), and may give an array \<open>addrttls\<close> with its size
  \<open>naddrttls\<close>.  Writes into the array, and into the two arrays of the host entry, are checked.
\<close>

section \<open>State\<close>

type_synonym addrttl = "byte list \<times> int"

record addr_locals =
  al_aptr :: nat
  al_hostname :: "byte list"
  al_addrs :: "byte list list"
  al_naddrs :: nat
  al_aliases :: "byte list list"
  al_naliases :: nat
  al_addrttls :: "addrttl list"
  al_cname_ttl :: int

record addr_result =
  ar_status :: ares_status
  ar_host :: "hostent option"
  ar_addrttls :: "addrttl list"
  ar_naddrttls :: "int option"

definition INT_MAX :: int where "INT_MAX = 2147483647"

definition max_addr_ttls :: "addrttl list option \<Rightarrow> int option \<Rightarrow> int" where
  "max_addr_ttls addrttls naddrttls =
     (case (addrttls, naddrttls) of (Some _, Some n) \<Rightarrow> n | _ \<Rightarrow> 0)"

section \<open>One answer\<close>

text \<open>An address for the name looked for.\<close>

definition record_addr ::
    "buffer \<Rightarrow> nat \<Rightarrow> bool \<Rightarrow> nat \<Rightarrow> int \<Rightarrow> int \<Rightarrow> addr_locals \<Rightarrow> addr_locals pass option" where
  "record_addr abuf sz host ancount limit ttl l =
     (let addr = segment (al_aptr l) (al_aptr l + sz) abuf;
          short = al_aptr l + sz > length abuf
      in then_pass
           (if \<not> host then Some (Next l)
            else if short then Some (Stop ARES_EBADRESP l)
            else if al_naddrs l < ancount then Some (Next (l\<lparr>al_addrs := al_addrs l @ [addr]\<rparr>))
            else None)
           (\<lambda>l. then_pass
              (if \<not> int (al_naddrs l) < limit then Some (Next l)
               else if short then Some (Stop ARES_EBADRESP l)
               else if al_naddrs l < length (al_addrttls l)
               then Some (Next (l\<lparr>al_addrttls := (al_addrttls l)[al_naddrs l := (addr, ttl)]\<rparr>))
               else None)
              (\<lambda>l. Some (Next (l\<lparr>al_naddrs := al_naddrs l + 1\<rparr>)))))"

text \<open>Another name for it.\<close>

definition record_cname ::
    "bool \<Rightarrow> buffer \<Rightarrow> bool \<Rightarrow> nat \<Rightarrow> rr \<Rightarrow> addr_locals \<Rightarrow> addr_locals pass option" where
  "record_cname ok abuf host ancount r l =
     then_pass
       (if \<not> host then Some (Next l)
        else if al_naliases l < ancount + 1
        then Some (Next (l\<lparr>al_aliases := al_aliases l @ [rr_name r]\<rparr>))
        else None)
       (\<lambda>l. let l = l\<lparr>al_naliases := al_naliases l + 1\<rparr>
            in or_stop (ares__expand_name_for_response ok abuf (al_aptr l)) l (\<lambda>(rr_data, len).
                 let l = l\<lparr>al_hostname := rr_data\<rparr>
                 in Some (Next (if al_cname_ttl l > rr_ttl r
                                then l\<lparr>al_cname_ttl := rr_ttl r\<rparr> else l))))"

definition addr_answer ::
    "nat \<Rightarrow> nat \<Rightarrow> (alloc \<Rightarrow> bool) \<Rightarrow> buffer \<Rightarrow> bool \<Rightarrow> nat \<Rightarrow> int \<Rightarrow>
     nat \<Rightarrow> addr_locals \<Rightarrow> addr_locals pass option" where
  "addr_answer T sz mem abuf host ancount limit i l =
     or_stop (decode_rr ares__expand_name_for_response (mem (M_rr_name i)) abuf (al_aptr l)) l
       (\<lambda>(r, aptr).
         then_pass
           (if rr_class r = C_IN \<and> rr_type r = T \<and> rr_len r = sz \<and>
               ares_strcasecmp (rr_name r) (al_hostname l) = 0
            then record_addr abuf sz host ancount limit (rr_ttl r) (l\<lparr>al_aptr := aptr\<rparr>)
            else Some (Next (l\<lparr>al_aptr := aptr\<rparr>)))
           (\<lambda>l. then_pass
              (if rr_class r = C_IN \<and> rr_type r = T_CNAME
               then record_cname (mem (M_rr_data i)) abuf host ancount r l
               else Some (Next l))
              (\<lambda>l. let l = l\<lparr>al_aptr := al_aptr l + rr_len r\<rparr>
                   in if al_aptr l > length abuf then Some (Stop ARES_EBADRESP l)
                      else Some (Next l))))"

section \<open>The reply\<close>

definition limit_ttl :: "int \<Rightarrow> addrttl \<Rightarrow> addrttl" where
  "limit_ttl cname_ttl at = (if snd at > cname_ttl then (fst at, cname_ttl) else at)"

definition addr_hostent :: "int \<Rightarrow> nat \<Rightarrow> addr_locals \<Rightarrow> hostent" where
  "addr_hostent family sz l =
     \<lparr>h_name = al_hostname l, h_aliases = al_aliases l, h_addrtype = family,
      h_length = int sz, h_addr_list = al_addrs l\<rparr>"

text \<open>What follows the loop.\<close>

definition addr_finish ::
    "int \<Rightarrow> nat \<Rightarrow> (alloc \<Rightarrow> bool) \<Rightarrow> bool \<Rightarrow> int \<Rightarrow> int option \<Rightarrow>
     ares_status \<Rightarrow> addr_locals \<Rightarrow> addr_result" where
  "addr_finish family sz mem host limit naddrttls st l =
     (if st \<noteq> ARES_SUCCESS
      then \<lparr>ar_status = st, ar_host = None, ar_addrttls = al_addrttls l,
            ar_naddrttls = map_option (\<lambda>_. 0) naddrttls\<rparr>
      else
        let n = (if int (al_naddrs l) < limit then int (al_naddrs l) else limit);
            ttls = (if naddrttls = None then al_addrttls l
                    else map (limit_ttl (al_cname_ttl l)) (take (nat n) (al_addrttls l)) @
                         drop (nat n) (al_addrttls l));
            out = \<lparr>ar_status = ARES_SUCCESS, ar_host = None, ar_addrttls = ttls,
                   ar_naddrttls = map_option (\<lambda>_. n) naddrttls\<rparr>
        in if \<not> host then out
           else if mem M_hostent \<and> mem M_addr_list
           then out\<lparr>ar_host := Some (addr_hostent family sz l)\<rparr>
           else out\<lparr>ar_status := ARES_ENOMEM\<rparr>)"

definition addr_reply ::
    "nat \<Rightarrow> int \<Rightarrow> nat \<Rightarrow> (addr_locals \<Rightarrow> bool) \<Rightarrow> (alloc \<Rightarrow> bool) \<Rightarrow> buffer \<Rightarrow> bool \<Rightarrow>
     addrttl list option \<Rightarrow> int option \<Rightarrow> addr_result option" where
  "addr_reply T family sz nodata mem abuf host addrttls naddrttls =
     (let limit = max_addr_ttls addrttls naddrttls;
          array = (case addrttls of None \<Rightarrow> [] | Some xs \<Rightarrow> xs);
          bad = (\<lambda>st. \<lparr>ar_status = st, ar_host = None, ar_addrttls = array,
                       ar_naddrttls = map_option (\<lambda>_. 0) naddrttls\<rparr>)
      in case reply_question ares__expand_name_for_response False mem abuf of
           None \<Rightarrow> None
         | Some (Inl st) \<Rightarrow> Some (bad st)
         | Some (Inr (hostname, aptr, ancount)) \<Rightarrow>
             if host \<and> \<not> (mem M_addrs \<and> mem M_aliases) then Some (bad ARES_ENOMEM)
             else do {
               (st, l) \<leftarrow> for_answers (addr_answer T sz mem abuf host ancount limit) 0 ancount
                 \<lparr>al_aptr = aptr, al_hostname = hostname, al_addrs = [], al_naddrs = 0,
                  al_aliases = [], al_naliases = 0, al_addrttls = array, al_cname_ttl = INT_MAX\<rparr>;
               let st = (if st = ARES_SUCCESS \<and> nodata l then ARES_ENODATA else st);
               Some (addr_finish family sz mem host limit naddrttls st l)
             })"

definition a_answer ::
    "(alloc \<Rightarrow> bool) \<Rightarrow> buffer \<Rightarrow> bool \<Rightarrow> nat \<Rightarrow> int \<Rightarrow> nat \<Rightarrow> addr_locals \<Rightarrow> addr_locals pass option" where
  "a_answer = addr_answer T_A 4"

definition aaaa_answer ::
    "(alloc \<Rightarrow> bool) \<Rightarrow> buffer \<Rightarrow> bool \<Rightarrow> nat \<Rightarrow> int \<Rightarrow> nat \<Rightarrow> addr_locals \<Rightarrow> addr_locals pass option" where
  "aaaa_answer = addr_answer T_AAAA 16"

definition ares_parse_a_reply ::
    "(alloc \<Rightarrow> bool) \<Rightarrow> buffer \<Rightarrow> bool \<Rightarrow> addrttl list option \<Rightarrow> int option \<Rightarrow> addr_result option" where
  "ares_parse_a_reply =
     addr_reply T_A AF_INET 4 (\<lambda>l. al_naddrs l = 0 \<and> al_naliases l = 0)"

definition ares_parse_aaaa_reply ::
    "(alloc \<Rightarrow> bool) \<Rightarrow> buffer \<Rightarrow> bool \<Rightarrow> addrttl list option \<Rightarrow> int option \<Rightarrow> addr_result option" where
  "ares_parse_aaaa_reply = addr_reply T_AAAA AF_INET6 16 (\<lambda>l. al_naddrs l = 0)"

section \<open>Staying in bounds\<close>

definition addr_inv :: "buffer \<Rightarrow> bool \<Rightarrow> nat \<Rightarrow> nat \<Rightarrow> addr_locals \<Rightarrow> bool" where
  "addr_inv abuf host room i l \<longleftrightarrow>
     al_aptr l \<le> length abuf \<and> al_naddrs l \<le> i \<and> al_naliases l \<le> i \<and>
     (host \<longrightarrow> length (al_addrs l) = al_naddrs l \<and> length (al_aliases l) = al_naliases l) \<and>
     length (al_addrttls l) = room"

lemma record_addr_safe:
  assumes "addr_inv abuf host room i l" "i < ancount" "limit \<le> int room"
  shows "no_crash (record_addr abuf sz host ancount limit ttl l)
    (pass_ok (\<lambda>l'. addr_inv abuf host room (Suc i) l' \<and> al_naliases l' \<le> i) (\<lambda>l. length (al_addrttls l) = room))"
  using assms by (auto simp: record_addr_def addr_inv_def Let_def no_crash_def)

lemma record_cname_safe:
  assumes "addr_inv abuf host room (Suc i) l" "al_naliases l \<le> i" "i < ancount"
  shows "no_crash (record_cname ok abuf host ancount r l)
    (pass_ok (addr_inv abuf host room (Suc i)) (\<lambda>l. length (al_addrttls l) = room))"
proof -
  let ?inv = "\<lambda>l. al_aptr l \<le> length abuf \<and> al_naddrs l \<le> Suc i \<and> al_naliases l \<le> i \<and>
     (host \<longrightarrow> length (al_addrs l) = al_naddrs l \<and> length (al_aliases l) = Suc (al_naliases l)) \<and>
     length (al_addrttls l) = room"
  show ?thesis unfolding record_cname_def Let_def
  proof (rule no_crash_then_pass [where R = ?inv])
    show "no_crash (if \<not> host then Some (Next l)
        else if al_naliases l < ancount + 1 then Some (Next (l\<lparr>al_aliases := al_aliases l @ [rr_name r]\<rparr>))
        else None) (pass_ok ?inv (\<lambda>l. length (al_addrttls l) = room))"
      using assms by (auto simp: addr_inv_def no_crash_def)
  next
    fix l :: addr_locals assume "?inv l"
    then show "no_crash (or_stop (ares__expand_name_for_response ok abuf
            (al_aptr (l\<lparr>al_naliases := al_naliases l + 1\<rparr>))) (l\<lparr>al_naliases := al_naliases l + 1\<rparr>)
          (\<lambda>(rr_data, len). Some (Next
            (if al_cname_ttl (l\<lparr>al_naliases := al_naliases l + 1, al_hostname := rr_data\<rparr>) > rr_ttl r
             then l\<lparr>al_naliases := al_naliases l + 1, al_hostname := rr_data, al_cname_ttl := rr_ttl r\<rparr>
             else l\<lparr>al_naliases := al_naliases l + 1, al_hostname := rr_data\<rparr>))))
        (pass_ok (addr_inv abuf host room (Suc i)) (\<lambda>l. length (al_addrttls l) = room))"
      by (intro no_crash_or_stop [OF expand_for_response_safe])
        (auto simp: addr_inv_def name_result_def no_crash_def)
  qed
qed

lemma addr_answer_safe:
  assumes "addr_inv abuf host room i l" "i < ancount" "limit \<le> int room"
  shows "no_crash (addr_answer T sz mem abuf host ancount limit i l)
    (pass_ok (addr_inv abuf host room (Suc i)) (\<lambda>l. length (al_addrttls l) = room))"
proof -
  have inv: "addr_inv abuf host room i (l\<lparr>al_aptr := p\<rparr>)" if "p \<le> length abuf" for p
    using assms(1) that by (simp add: addr_inv_def)
  then have next_inv: "addr_inv abuf host room (Suc i) (l\<lparr>al_aptr := p\<rparr>) \<and> al_naliases l \<le> i"
    if "p \<le> length abuf" for p
    using that by (fastforce simp: addr_inv_def)
  show ?thesis unfolding addr_answer_def
    by (intro response_name.decode_pass no_crash_then_pass [where R = "addr_inv abuf host room (Suc i)"]
        no_crash_then_pass [where R = "\<lambda>l'. addr_inv abuf host room (Suc i) l' \<and> al_naliases l' \<le> i"]
        no_crash_if record_addr_safe [OF inv assms(2,3)] record_cname_safe)
      (use assms next_inv in \<open>auto simp: no_crash_def Let_def addr_inv_def\<close>)
qed

text \<open>The loop of the address parsers, on the whole reply.\<close>

interpretation addr: answer_loop "addr_answer T sz mem abuf host ancount limit"
    "addr_inv abuf host room" "\<lambda>l. length (al_addrttls l) = room" "if limit \<le> int room then ancount else 0"
  for T sz mem abuf host ancount limit room
  by unfold_locales
    (use addr_answer_safe in \<open>auto split: if_splits\<close>)

lemma addr_reply_safe:
  assumes "\<And>xs n. addrttls = Some xs \<Longrightarrow> naddrttls = Some n \<Longrightarrow> n \<le> int (length xs)"
  shows "\<exists>r. addr_reply T family sz nodata mem abuf host addrttls naddrttls = Some r \<and>
    length (ar_addrttls r) = (case addrttls of None \<Rightarrow> 0 | Some xs \<Rightarrow> length xs) \<and>
    (ar_status r \<noteq> ARES_SUCCESS \<longrightarrow> ar_host r = None)"
proof -
  let ?limit = "max_addr_ttls addrttls naddrttls"
  let ?room = "case addrttls of None \<Rightarrow> 0 | Some xs \<Rightarrow> length xs"
  have limit: "?limit \<le> int ?room"
    using assms by (auto simp: max_addr_ttls_def split: option.split)
  show ?thesis
  proof (cases "reply_question ares__expand_name_for_response False mem abuf")
    case None
    then show ?thesis
      using response_name.reply_question_safe [of False mem abuf] by (simp add: no_crash_def)
  next
    case (Some q)
    show ?thesis
    proof (cases q)
      case (Inl st)
      moreover have "st \<noteq> ARES_SUCCESS"
        using response_name.reply_question_safe [of False mem abuf] Some Inl by (simp add: no_crash_def)
      ultimately show ?thesis using Some by (simp add: addr_reply_def Let_def split: option.split)
    next
      case (Inr x)
      obtain hostname aptr ancount where x: "x = (hostname, aptr, ancount)" by (cases x) auto
      then have "aptr \<le> length abuf"
        using response_name.reply_question_safe [of False mem abuf] Some Inr by (simp add: no_crash_def)
      then obtain st l where l: "for_answers (addr_answer T sz mem abuf host ancount ?limit) 0 ancount
          \<lparr>al_aptr = aptr, al_hostname = hostname, al_addrs = [], al_naddrs = 0, al_aliases = [],
           al_naliases = 0, al_addrttls = (case addrttls of None \<Rightarrow> [] | Some xs \<Rightarrow> xs),
           al_cname_ttl = INT_MAX\<rparr> = Some (st, l)"
        "if st = ARES_SUCCESS then addr_inv abuf host ?room ancount l else length (al_addrttls l) = ?room"
        using addr.loop_good [where abuf = abuf and host = host and room = "?room" and i = 0 and k = ancount
            and n = ancount and ancount = ancount and limit = "?limit" and T = T and sz = sz and mem = mem and
            s = "\<lparr>al_aptr = aptr, al_hostname = hostname, al_addrs = [],
            al_naddrs = 0, al_aliases = [], al_naliases = 0,
            al_addrttls = (case addrttls of None \<Rightarrow> [] | Some xs \<Rightarrow> xs), al_cname_ttl = INT_MAX\<rparr>"] limit
        by (auto simp: addr_inv_def no_crash_def split: option.splits if_splits)
      have "length (al_addrttls l) = ?room" using l(2) by (auto simp: addr_inv_def split: if_splits)
      with Some Inr x l(1) show ?thesis
        by (auto simp: addr_reply_def addr_finish_def Let_def split: option.split)
    qed
  qed
qed

section \<open>What the answers say\<close>

text \<open>An answer is an address, another name, or anything else; names are lists of labels.\<close>

datatype answer =
    Address "byte list list" "32 word" "byte list"
  | Alias "byte list list" "32 word" "byte list list"
  | Unrelated "byte list list" nat nat "32 word" "byte list"

fun encode_answer :: "nat \<Rightarrow> answer \<Rightarrow> byte list" where
  "encode_answer T (Address ls ttl a) = encode_name ls @ rr_fixed T C_IN ttl (length a) @ a"
| "encode_answer T (Alias ls ttl target) =
     encode_name ls @ rr_fixed T_CNAME C_IN ttl (length (encode_name target)) @ encode_name target"
| "encode_answer T (Unrelated ls type class ttl d) =
     encode_name ls @ rr_fixed type class ttl (length d) @ d"

fun answer_ok :: "nat \<Rightarrow> answer \<Rightarrow> bool" where
  "answer_ok T (Address ls ttl a) \<longleftrightarrow> (\<forall>l \<in> set ls. label_ok l) \<and> length a < 2 ^ 16"
| "answer_ok T (Alias ls ttl target) \<longleftrightarrow>
     (\<forall>l \<in> set ls. label_ok l) \<and> (\<forall>l \<in> set target. label_ok l) \<and> length (encode_name target) < 2 ^ 16"
| "answer_ok T (Unrelated ls type class ttl d) \<longleftrightarrow>
     (\<forall>l \<in> set ls. label_ok l) \<and> type < 2 ^ 16 \<and> class < 2 ^ 16 \<and> length d < 2 ^ 16 \<and>
     \<not> (class = C_IN \<and> (type = T \<or> type = T_CNAME))"

text \<open>The name in force, the addresses found for it, the names passed, and the shortest time to
  live among those.  The code lets every alias change the name in force, whoever owns it:
  \<open>see_answer\<close> and \<open>resolve\<close> say what that amounts to.\<close>

record resolved =
  rv_name :: "byte list"
  rv_addrs :: "addrttl list"
  rv_aliases :: "byte list list"
  rv_ttl :: int

definition unresolved :: "byte list list \<Rightarrow> resolved" where
  "unresolved q = \<lparr>rv_name = dotted q, rv_addrs = [], rv_aliases = [], rv_ttl = INT_MAX\<rparr>"

fun see_answer :: "nat \<Rightarrow> answer \<Rightarrow> resolved \<Rightarrow> resolved" where
  "see_answer sz (Address ls ttl a) r =
     (if length a = sz \<and> ares_strcasecmp (dotted ls) (rv_name r) = 0
      then r\<lparr>rv_addrs := rv_addrs r @ [(a, sint ttl)]\<rparr> else r)"
| "see_answer sz (Alias ls ttl target) r =
     r\<lparr>rv_name := dotted target, rv_aliases := rv_aliases r @ [dotted ls],
       rv_ttl := min (rv_ttl r) (sint ttl)\<rparr>"
| "see_answer sz (Unrelated ls type class ttl d) r = r"

definition resolve :: "nat \<Rightarrow> byte list list \<Rightarrow> answer list \<Rightarrow> resolved" where
  "resolve sz q as = fold (see_answer sz) as (unresolved q)"

text \<open>What the answers mean: an alias changes the name in force when it is the alias of that name.
  The two agree on the replies in which every alias belongs to the name in force where it stands.\<close>

definition named :: "byte list list \<Rightarrow> byte list \<Rightarrow> bool" where
  "named ls n \<longleftrightarrow> ares_strcasecmp (dotted ls) n = 0"

fun follow_answer :: "nat \<Rightarrow> answer \<Rightarrow> resolved \<Rightarrow> resolved" where
  "follow_answer sz (Alias ls ttl target) r =
     (if named ls (rv_name r)
      then r\<lparr>rv_name := dotted target, rv_aliases := rv_aliases r @ [dotted ls],
             rv_ttl := min (rv_ttl r) (sint ttl)\<rparr>
      else r)"
| "follow_answer sz (Address ls ttl a) r =
     (if named ls (rv_name r) \<and> length a = sz then r\<lparr>rv_addrs := rv_addrs r @ [(a, sint ttl)]\<rparr> else r)"
| "follow_answer sz (Unrelated ls type class ttl d) r = r"

definition follow :: "nat \<Rightarrow> byte list list \<Rightarrow> answer list \<Rightarrow> resolved" where
  "follow sz q as = fold (follow_answer sz) as (unresolved q)"

fun chained :: "byte list \<Rightarrow> answer list \<Rightarrow> bool" where
  "chained n [] \<longleftrightarrow> True"
| "chained n (Alias ls ttl target # as) \<longleftrightarrow> named ls n \<and> chained (dotted target) as"
| "chained n (Address ls ttl a # as) \<longleftrightarrow> chained n as"
| "chained n (Unrelated ls type class ttl d # as) \<longleftrightarrow> chained n as"

lemma resolve_chained: "chained (dotted q) as \<Longrightarrow> resolve sz q as = follow sz q as"
proof -
  have "fold (see_answer sz) as r = fold (follow_answer sz) as r" if "chained n as" "rv_name r = n" for n r
    using that by (induction n as arbitrary: r rule: chained.induct) (auto simp: named_def)
  then show "chained (dotted q) as \<Longrightarrow> resolve sz q as = follow sz q as"
    by (simp add: resolve_def follow_def unresolved_def)
qed

text \<open>On other replies they do not: the addresses of a name that nothing leads to from the question
  are taken for those of the question.\<close>

lemma resolve_unchained:
  "resolve 4 [[97]] [Alias [[120]] 30 [[121]], Address [[121]] 60 [10, 0, 0, 1]] =
     \<lparr>rv_name = [121], rv_addrs = [([10, 0, 0, 1], 60)], rv_aliases = [[120]], rv_ttl = 30\<rparr>"
  "follow 4 [[97]] [Alias [[120]] 30 [[121]], Address [[121]] 60 [10, 0, 0, 1]] = unresolved [[97]]"
  by code_simp+

definition locals_of :: "addrttl list \<Rightarrow> resolved \<Rightarrow> nat \<Rightarrow> addr_locals" where
  "locals_of xs r p =
     \<lparr>al_aptr = p, al_hostname = rv_name r, al_addrs = map fst (rv_addrs r),
      al_naddrs = length (rv_addrs r), al_aliases = rv_aliases r, al_naliases = length (rv_aliases r),
      al_addrttls = take (length xs) (rv_addrs r) @ drop (length (rv_addrs r)) xs,
      al_cname_ttl = rv_ttl r\<rparr>"

lemma fill_next:
  assumes "length as < length xs"
  shows "(as @ drop (length as) xs)[length as := x] = as @ x # drop (Suc (length as)) xs"
  using assms by (simp add: list_update_append Cons_nth_drop_Suc [symmetric])

lemma record_addr_encoded:
  assumes "length (rv_addrs r) < ancount" "drop p abuf = a @ rest" "p + length a \<le> length abuf"
  shows "record_addr abuf (length a) True ancount (int (length xs)) ttl (locals_of xs r p) =
    Some (Next (locals_of xs (r\<lparr>rv_addrs := rv_addrs r @ [(a, ttl)]\<rparr>) p))"
proof -
  have "segment p (p + length a) abuf = a" using assms(2) by (simp add: segment_def)
  then show ?thesis using assms(1,3) fill_next [of "rv_addrs r" xs "(a, ttl)"]
    by (auto simp: record_addr_def locals_of_def Let_def)
qed

lemma answer_encoded:
  assumes d: "drop p abuf = encode_answer T a @ rest" and ok: "answer_ok T a"
    and T: "T \<noteq> T_CNAME" "T < 2 ^ 16"
    and n: "length (rv_addrs r) < ancount" "length (rv_aliases r) < ancount"
  shows "addr_answer T sz (\<lambda>_. True) abuf True ancount (int (length xs)) i (locals_of xs r p) =
      Some (Next (locals_of xs (see_answer sz a r) (p + length (encode_answer T a))))"
    and "drop (p + length (encode_answer T a)) abuf = rest"
proof -
  show rest: "drop (p + length (encode_answer T a)) abuf = rest"
    using arg_cong [OF d, of "drop (length (encode_answer T a))"] by (simp add: add.commute)
  have p: "al_aptr (locals_of xs r p) = p" "\<And>q. locals_of xs r p\<lparr>al_aptr := q\<rparr> = locals_of xs r q"
    "\<And>q. al_hostname (locals_of xs r q) = rv_name r" "\<And>r q. al_aptr (locals_of xs r q) = q"
    by (simp_all add: locals_of_def)
  have "length abuf - p = length (encode_answer T a) + length rest"
    using arg_cong [OF d, of length] by simp
  moreover have "0 < length (encode_answer T a)" by (cases a) simp_all
  ultimately have len: "p + length (encode_answer T a) \<le> length abuf" by linarith
  show "addr_answer T sz (\<lambda>_. True) abuf True ancount (int (length xs)) i (locals_of xs r p) =
      Some (Next (locals_of xs (see_answer sz a r) (p + length (encode_answer T a))))"
  proof (cases a)
    case (Address ls ttl b)
    have "C_IN < 2 ^ 16" by (simp add: C_IN_def)
    then have x: "drop p abuf = encode_name ls @ rr_fixed T C_IN ttl (length b) @ b @ rest"
      "\<forall>l \<in> set ls. label_ok l" "length b < 2 ^ 16" "C_IN < 2 ^ 16"
      using d ok Address by simp_all
    note e = response_name.decode_rr_encoded [OF x(1,2) T(2) x(4,3)]
    let ?q = "p + length (encode_name ls) + RRFIXEDSZ"
    have q: "?q + length b = p + length (encode_answer T a)" by (simp add: Address rr_fixed_def RRFIXEDSZ_def)
    have "record_addr abuf (length b) True ancount (int (length xs)) (sint ttl) (locals_of xs r ?q) =
        Some (Next (locals_of xs (r\<lparr>rv_addrs := rv_addrs r @ [(b, sint ttl)]\<rparr>) ?q))"
      by (rule record_addr_encoded [OF n(1) e(2)]) (use len q in simp)
    with e T(1) len q show ?thesis
      by (auto simp: addr_answer_def p Address Let_def C_IN_def) (simp_all add: locals_of_def)
  next
    case (Alias ls ttl target)
    have "C_IN < 2 ^ 16" "T_CNAME < 2 ^ 16" by (simp_all add: C_IN_def T_CNAME_def)
    then have x: "drop p abuf = encode_name ls @ rr_fixed T_CNAME C_IN ttl (length (encode_name target)) @ encode_name target @ rest"
      "\<forall>l \<in> set ls. label_ok l" "length (encode_name target) < 2 ^ 16" "C_IN < 2 ^ 16" "T_CNAME < 2 ^ 16"
      "\<forall>l \<in> set target. label_ok l"
      using d ok Alias by simp_all
    note e = response_name.decode_rr_encoded [OF x(1,2,5,4,3)]
    let ?q = "p + length (encode_name ls) + RRFIXEDSZ"
    have q: "?q + length (encode_name target) = p + length (encode_answer T a)"
      by (simp add: Alias rr_fixed_def RRFIXEDSZ_def)
    have "record_cname True abuf True ancount \<lparr>rr_name = dotted ls, rr_type = T_CNAME, rr_class = C_IN,
          rr_len = length (encode_name target), rr_ttl = sint ttl\<rparr> (locals_of xs r ?q) =
        Some (Next (locals_of xs (see_answer sz a r) ?q))"
      using expand_response_encoded [OF e(2) x(6)] n(2)
      by (auto simp: record_cname_def locals_of_def Alias Let_def min_def)
    with e T(1) len q show ?thesis
      by (auto simp: addr_answer_def p Let_def) (simp_all add: locals_of_def)
  next
    case (Unrelated ls ty cls ttl b)
    then have x: "drop p abuf = encode_name ls @ rr_fixed ty cls ttl (length b) @ b @ rest"
      "\<forall>l \<in> set ls. label_ok l" "length b < 2 ^ 16" "ty < 2 ^ 16" "cls < 2 ^ 16"
      "\<not> (cls = C_IN \<and> (ty = T \<or> ty = T_CNAME))"
      using d ok by simp_all
    note e = response_name.decode_rr_encoded [OF x(1,2,4,5,3)]
    have q: "p + length (encode_name ls) + RRFIXEDSZ + length b = p + length (encode_answer T a)"
      by (simp add: Unrelated rr_fixed_def RRFIXEDSZ_def)
    with e x(6) len show ?thesis
      by (auto simp: addr_answer_def p Unrelated Let_def) (simp_all add: locals_of_def)
  qed
qed

lemma see_answer_grows:
  "length (rv_addrs (see_answer sz a r)) \<le> Suc (length (rv_addrs r))"
  "length (rv_aliases (see_answer sz a r)) \<le> Suc (length (rv_aliases r))"
  by (cases a; simp)+

lemma answers_encoded:
  assumes "drop p abuf = concat (map (encode_answer T) as) @ rest" "\<forall>a \<in> set as. answer_ok T a"
    and T: "T \<noteq> T_CNAME" "T < 2 ^ 16"
    and "length (rv_addrs r) + length as \<le> ancount" "length (rv_aliases r) + length as \<le> ancount"
  shows "\<exists>q. for_answers (addr_answer T sz (\<lambda>_. True) abuf True ancount (int (length xs))) i (length as)
      (locals_of xs r p) = Some (ARES_SUCCESS, locals_of xs (fold (see_answer sz) as r) q)"
  using assms(1,2,5,6)
proof (induction as arbitrary: p r i)
  case Nil
  then show ?case by auto
next
  case (Cons a as)
  then have d: "drop p abuf = encode_answer T a @ concat (map (encode_answer T) as) @ rest" by simp
  have "answer_ok T a" "length (rv_addrs r) < ancount" "length (rv_aliases r) < ancount"
    using Cons.prems by auto
  note step = answer_encoded [OF d this(1) T this(2,3)]
  have "length (rv_addrs (see_answer sz a r)) + length as \<le> ancount"
    "length (rv_aliases (see_answer sz a r)) + length as \<le> ancount"
    using see_answer_grows [of sz a r] Cons.prems(3,4) by simp_all
  then show ?case using Cons.IH [OF step(2)] Cons.prems(2) step(1) by simp
qed

lemma addr_reply_resolves:
  fixes qtype qclass sz
  assumes "length ids = 4" "length nums = 4" "\<forall>l \<in> set q. label_ok l"
    and "\<forall>a \<in> set as. answer_ok T a" "length as < 2 ^ 16" "T \<noteq> T_CNAME" "T < 2 ^ 16"
  defines "abuf \<equiv> encode_reply ids nums q qtype qclass (length as) (concat (map (encode_answer T) as))"
  defines "r \<equiv> resolve sz q as"
  shows "\<exists>p. addr_reply T family sz nodata (\<lambda>_. True) abuf True (Some xs) (Some (int (length xs))) =
    Some (addr_finish family sz (\<lambda>_. True) True (int (length xs)) (Some (int (length xs)))
      (if nodata (locals_of xs r p) then ARES_ENODATA else ARES_SUCCESS) (locals_of xs r p))"
proof -
  obtain aptr where q: "reply_question ares__expand_name_for_response False (\<lambda>_. True) abuf =
      ret (dotted q, aptr, length as)" "drop aptr abuf = concat (map (encode_answer T) as)"
    using response_name.reply_question_encoded [OF assms(1-3,5), of False] unfolding abuf_def by blast
  obtain p where "for_answers (addr_answer T sz (\<lambda>_. True) abuf True (length as) (int (length xs))) 0
      (length as) (locals_of xs (unresolved q) aptr) = Some (ARES_SUCCESS, locals_of xs r p)"
    using answers_encoded [of aptr abuf T as "[]" "unresolved q" "length as" sz xs 0] q(2) assms(4,6,7)
    by (auto simp: unresolved_def r_def resolve_def)
  with q(1) show ?thesis
    by (intro exI [of _ p])
      (simp add: addr_reply_def ret_def max_addr_ttls_def locals_of_def unresolved_def Let_def)
qed

text \<open>What a caller gets that asks for a host entry and gives an array.\<close>

definition resolved_result :: "int \<Rightarrow> nat \<Rightarrow> addrttl list \<Rightarrow> resolved \<Rightarrow> addr_result" where
  "resolved_result family sz xs r =
     \<lparr>ar_status = ARES_SUCCESS,
      ar_host = Some \<lparr>h_name = rv_name r, h_aliases = rv_aliases r, h_addrtype = family,
                      h_length = int sz, h_addr_list = map fst (rv_addrs r)\<rparr>,
      ar_addrttls = map (limit_ttl (rv_ttl r)) (take (length xs) (rv_addrs r)) @
                    drop (length (rv_addrs r)) xs,
      ar_naddrttls = Some (int (min (length xs) (length (rv_addrs r))))\<rparr>"

definition empty_result :: "addrttl list \<Rightarrow> addr_result" where
  "empty_result xs =
     \<lparr>ar_status = ARES_ENODATA, ar_host = None, ar_addrttls = xs, ar_naddrttls = Some 0\<rparr>"

lemma finish_resolved:
  "addr_finish family sz (\<lambda>_. True) True (int (length xs)) (Some (int (length xs))) ARES_SUCCESS
     (locals_of xs r p) = resolved_result family sz xs r"
  by (auto simp: addr_finish_def resolved_result_def locals_of_def addr_hostent_def Let_def min_def)

lemma finish_empty:
  "rv_addrs r = [] \<Longrightarrow> addr_finish family sz (\<lambda>_. True) True (int (length xs)) (Some (int (length xs)))
     ARES_ENODATA (locals_of xs r p) = empty_result xs"
  by (simp add: addr_finish_def empty_result_def locals_of_def)

section \<open>Properties\<close>

text \<open>
  Parsing an address reply stays in bounds: on any bytes, with any answers of the
  allocator, and an array as large as the caller says, both parsers read inside the reply,
  write inside their arrays and return; only a success has a host entry.
\<close>

lemma address_reply_safe:
  assumes "\<And>xs n. addrttls = Some xs \<Longrightarrow> naddrttls = Some n \<Longrightarrow> n \<le> int (length xs)"
  shows "(\<exists>r. ares_parse_a_reply mem abuf host addrttls naddrttls = Some r \<and>
           (ar_status r \<noteq> ARES_SUCCESS \<longrightarrow> ar_host r = None)) \<and>
         (\<exists>r. ares_parse_aaaa_reply mem abuf host addrttls naddrttls = Some r \<and>
           (ar_status r \<noteq> ARES_SUCCESS \<longrightarrow> ar_host r = None))"
  unfolding ares_parse_a_reply_def ares_parse_aaaa_reply_def
  using addr_reply_safe [OF assms] by blast

text \<open>What an A reply is read as.\<close>

lemma a_reply_resolves:
  assumes "length ids = 4" "length nums = 4" "\<forall>l \<in> set q. label_ok l"
    and "\<forall>a \<in> set as. answer_ok T_A a" "length as < 2 ^ 16"
  shows "ares_parse_a_reply (\<lambda>_. True)
      (encode_reply ids nums q qtype qclass (length as) (concat (map (encode_answer T_A) as)))
      True (Some xs) (Some (int (length xs))) =
    Some (let r = resolve 4 q as
          in if rv_addrs r = [] \<and> rv_aliases r = [] then empty_result xs
             else resolved_result AF_INET 4 xs r)"
proof -
  have "T_A \<noteq> T_CNAME" "T_A < 2 ^ 16" by (simp_all add: T_A_def T_CNAME_def)
  from addr_reply_resolves [OF assms this, where family = AF_INET and sz = 4 and xs = xs and
      nodata = "\<lambda>l. al_naddrs l = 0 \<and> al_naliases l = 0" and qtype = qtype and qclass = qclass]
  obtain p where
    "ares_parse_a_reply (\<lambda>_. True)
      (encode_reply ids nums q qtype qclass (length as) (concat (map (encode_answer T_A) as)))
      True (Some xs) (Some (int (length xs))) =
    Some (addr_finish AF_INET 4 (\<lambda>_. True) True (int (length xs)) (Some (int (length xs)))
      (if rv_addrs (resolve 4 q as) = [] \<and> rv_aliases (resolve 4 q as) = [] then ARES_ENODATA
       else ARES_SUCCESS) (locals_of xs (resolve 4 q as) p))"
    unfolding ares_parse_a_reply_def by (auto simp: locals_of_def)
  then show ?thesis by (simp add: finish_resolved finish_empty Let_def)
qed

text \<open>An AAAA reply, in the same way; without any address there is no data, whatever the aliases.\<close>

lemma aaaa_reply_resolves:
  assumes "length ids = 4" "length nums = 4" "\<forall>l \<in> set q. label_ok l"
    and "\<forall>a \<in> set as. answer_ok T_AAAA a" "length as < 2 ^ 16"
  shows "ares_parse_aaaa_reply (\<lambda>_. True)
      (encode_reply ids nums q qtype qclass (length as) (concat (map (encode_answer T_AAAA) as)))
      True (Some xs) (Some (int (length xs))) =
    Some (let r = resolve 16 q as
          in if rv_addrs r = [] then empty_result xs else resolved_result AF_INET6 16 xs r)"
proof -
  have "T_AAAA \<noteq> T_CNAME" "T_AAAA < 2 ^ 16" by (simp_all add: T_AAAA_def T_CNAME_def)
  from addr_reply_resolves [OF assms this, where family = AF_INET6 and sz = 16 and xs = xs and
      nodata = "\<lambda>l. al_naddrs l = 0" and qtype = qtype and qclass = qclass]
  obtain p where
    "ares_parse_aaaa_reply (\<lambda>_. True)
      (encode_reply ids nums q qtype qclass (length as) (concat (map (encode_answer T_AAAA) as)))
      True (Some xs) (Some (int (length xs))) =
    Some (addr_finish AF_INET6 16 (\<lambda>_. True) True (int (length xs)) (Some (int (length xs)))
      (if rv_addrs (resolve 16 q as) = [] then ARES_ENODATA else ARES_SUCCESS)
      (locals_of xs (resolve 16 q as) p))"
    unfolding ares_parse_aaaa_reply_def by (auto simp: locals_of_def)
  then show ?thesis by (simp add: finish_resolved finish_empty Let_def)
qed

text \<open>
  C12: What the parsers of A and AAAA replies make of a reply without compressed names, made of a
  question and any answers: a name in force, at first that of the question, the addresses found for
  it, in order, the names passed, and for as many addresses as fit the caller's array their times to
  live, cut to the shortest on the way.  Without addresses there is no data; of an A reply, only if
  there is no alias either.  Every alias changes the name in force, whoever owns it; when each
  belongs to the name in force where it stands, the result is that of following the aliases from
  the question (\<open>follow\<close>).  When one does not, it need not be: asked for \<open>a\<close>, the code takes the
  address of \<open>y\<close> from a reply that says \<open>x\<close> is an alias of \<open>y\<close>.
\<close>

theorem address_replies_resolve:
  assumes "length ids = 4" "length nums = 4" "\<forall>l \<in> set q. label_ok l"
    and "\<forall>a \<in> set as. answer_ok T_A a" "length as < 2 ^ 16"
    and "\<forall>a \<in> set bs. answer_ok T_AAAA a" "length bs < 2 ^ 16"
  shows "ares_parse_a_reply (\<lambda>_. True)
      (encode_reply ids nums q qtype qclass (length as) (concat (map (encode_answer T_A) as)))
      True (Some xs) (Some (int (length xs))) =
      Some (let r = resolve 4 q as
            in if rv_addrs r = [] \<and> rv_aliases r = [] then empty_result xs
               else resolved_result AF_INET 4 xs r) \<and>
    ares_parse_aaaa_reply (\<lambda>_. True)
      (encode_reply ids nums q qtype qclass (length bs) (concat (map (encode_answer T_AAAA) bs)))
      True (Some xs) (Some (int (length xs))) =
      Some (let r = resolve 16 q bs
            in if rv_addrs r = [] then empty_result xs else resolved_result AF_INET6 16 xs r) \<and>
    (chained (dotted q) as \<longrightarrow> resolve 4 q as = follow 4 q as) \<and>
    (chained (dotted q) bs \<longrightarrow> resolve 16 q bs = follow 16 q bs)"
  by (intro conjI impI a_reply_resolves [OF assms(1-5)] aaaa_reply_resolves [OF assms(1-3,6,7)] resolve_chained)

lemma address_replies_resolve_witness:
  "ares_parse_a_reply (\<lambda>_. True)
     (encode_reply [0, 7, 0x81, 0x80] [0, 0, 0, 0] [[97]] 1 1 (Suc (Suc 0))
        (encode_answer T_A (Alias [[97]] 30 [[98]]) @ encode_answer T_A (Address [[66]] 60 [10, 0, 0, 1])))
     True (Some [([], 0)]) (Some 1) =
   Some \<lparr>ar_status = ARES_SUCCESS,
         ar_host = Some \<lparr>h_name = [98], h_aliases = [[97]], h_addrtype = AF_INET, h_length = 4,
                         h_addr_list = [[10, 0, 0, 1]]\<rparr>,
         ar_addrttls = [([10, 0, 0, 1], 30)], ar_naddrttls = Some 1\<rparr> \<and>
   ares_parse_aaaa_reply (\<lambda>_. True)
     (encode_reply [0, 7, 0x81, 0x80] [0, 0, 0, 0] [[97]] 1 1 (Suc 0)
        (encode_answer T_AAAA (Alias [[97]] 30 [[98]]))) True (Some [([], 0)]) (Some 1) =
   Some (empty_result [([], 0)]) \<and>
   follow 4 [[97]] [Alias [[97]] 30 [[98]], Address [[66]] 60 [10, 0, 0, 1]] =
     \<lparr>rv_name = [98], rv_addrs = [([10, 0, 0, 1], 60)], rv_aliases = [[97]], rv_ttl = 30\<rparr> \<and>
   ares_parse_a_reply (\<lambda>_. True)
     (encode_reply [0, 7, 0x81, 0x80] [0, 0, 0, 0] [[97]] 1 1 (Suc (Suc 0))
        (encode_answer T_A (Alias [[120]] 30 [[121]]) @ encode_answer T_A (Address [[121]] 60 [10, 0, 0, 1])))
     True (Some [([], 0)]) (Some 1) =
   Some \<lparr>ar_status = ARES_SUCCESS,
         ar_host = Some \<lparr>h_name = [121], h_aliases = [[120]], h_addrtype = AF_INET, h_length = 4,
                         h_addr_list = [[10, 0, 0, 1]]\<rparr>,
         ar_addrttls = [([10, 0, 0, 1], 30)], ar_naddrttls = Some 1\<rparr>"
  using address_replies_resolve [of "[0, 7, 0x81, 0x80]" "[0, 0, 0, 0]" "[[97]]"
      "[Alias [[97]] 30 [[98]], Address [[66]] 60 [10, 0, 0, 1]]" "[Alias [[97]] 30 [[98]]]" 1 1 "[([], 0)]"]
    address_replies_resolve [of "[0, 7, 0x81, 0x80]" "[0, 0, 0, 0]" "[[97]]"
      "[Alias [[120]] 30 [[121]], Address [[121]] 60 [10, 0, 0, 1]]" "[]" 1 1 "[([], 0)]"]
  by (simp add: named_def Let_def label_ok_def MAXLABEL_def resolve_def unresolved_def dotted_def dots_def escaped_def
      ares_strcasecmp_cases tolower_def ISUPPER_def resolved_result_def limit_ttl_def INT_MAX_def)

end
