(* ===== verification/Ares_Lookup.thy ===== *)
theory Ares_Lookup
  imports Ares_Hostfile Ares_Address "HOL-Library.Multiset"
begin

text \<open>
  Hosts by name and by address: \<^verbatim>\<open>ares_gethostbyname.c\<close>, \<^verbatim>\<open>ares_gethostbyaddr.c\<close> and \<^verbatim>\<open>bitncmp.c\<close>.
  What \<^verbatim>\<open>ares_search\<close> and \<^verbatim>\<open>ares_query\<close> answer to the n-th question is a parameter, the file of hosts
  and the parsers of replies are those of the other theories.
\<close>

section \<open>Comparing bits\<close>





section \<open>Sorting addresses\<close>

text \<open>A pattern of the sort list: its mask is an address or a number of bits.\<close>

datatype pattern_mask = Mask "byte list" | Bits nat

record apattern =
  p_addr :: "byte list"
  p_mask :: pattern_mask
  p_family :: int







section \<open>Hosts by name\<close>

text \<open>What does not change during a lookup: \<^verbatim>\<open>inet_addr\<close>, fresh memory, allocation in the file of
  hosts, in replies and for the lookup itself, the file of hosts, and the channel's sort list.\<close>

record host_config =
  g_inet :: "byte list \<Rightarrow> byte list"
  g_junk :: "nat \<Rightarrow> byte"
  g_place :: "place \<Rightarrow> bool"
  g_alloc :: "alloc \<Rightarrow> bool"
  g_ok :: "nat \<Rightarrow> bool"
  g_hosts :: hosts_file
  g_sortlist :: "apattern list"


type_synonym host_outcome = "ares_status \<times> int \<times> hostent option"











definition ares_gethostbyname_file ::
  "host_config \<Rightarrow> bool \<Rightarrow> byte list \<Rightarrow> int \<Rightarrow> (ares_status \<times> hostent option) option" where
  "ares_gethostbyname_file g channel name family =
     (if \<not> channel then Some (ARES_ENOTFOUND, None)
      else do {
        (result, host) \<leftarrow> file_lookup (g_inet g) (g_junk g) (g_place g) family (has_name name) (g_hosts g);
        Some (result, if result \<noteq> ARES_SUCCESS then None else host)
      })"

section \<open>Hosts by address\<close>

record addr_query =
  aq_family :: int
  aq_addr :: "byte list"
  aq_remaining_lookups :: "byte list"
  aq_timeouts :: int

datatype addr_step = Addr_done host_outcome | Addr_query "byte list" addr_query

text \<open>The name of an address, in a buffer of 128 bytes.\<close>

definition nibbles :: "byte \<Rightarrow> byte list" where
  "nibbles b = hex (unat (b AND 0xf)) @ [DOT] @ hex (unat (drop_bit 4 b)) @ [DOT]"

definition ptr_rr_name :: "int \<Rightarrow> byte list \<Rightarrow> byte list option" where
  "ptr_rr_name family addr =
     (let name =
        (if family = AF_INET then dotted_quad (rev addr) @ bytes ''.in-addr.arpa''
         else concat (map nibbles (rev addr)) @ bytes ''ip6.arpa'')
      in if length name < 128 then Some name else None)"

definition end_aquery :: "addr_query \<Rightarrow> ares_status \<Rightarrow> hostent option \<Rightarrow> addr_step" where
  "end_aquery aq status host = Addr_done (status, aq_timeouts aq, host)"

fun next_addr_lookup :: "host_config \<Rightarrow> addr_query \<Rightarrow> byte list \<Rightarrow> addr_step option" where
  "next_addr_lookup g aq [] = Some (end_aquery aq ARES_ENOTFOUND None)"
| "next_addr_lookup g aq (c # p) =
     (if c = chr CHR ''b'' then do {
        name \<leftarrow> ptr_rr_name (aq_family aq) (aq_addr aq);
        Some (Addr_query name (aq\<lparr>aq_remaining_lookups := p\<rparr>))
      }
      else if c = chr CHR ''f'' then do {
        (status, host) \<leftarrow> file_lookup (g_inet g) (g_junk g) (g_place g) (aq_family aq)
          (has_addr (aq_family aq) (aq_addr aq)) (g_hosts g);
        if status = ARES_SUCCESS then Some (end_aquery aq status host)
        else next_addr_lookup g aq p
      }
      else next_addr_lookup g aq p)"

definition addr_callback :: "host_config \<Rightarrow> outcome \<Rightarrow> addr_query \<Rightarrow> addr_step option" where
  "addr_callback g r aq = (case r of (status, timeouts, abuf) \<Rightarrow>
     let aq = aq\<lparr>aq_timeouts := aq_timeouts aq + timeouts\<rparr>
     in if status = ARES_SUCCESS then do {
          abuf \<leftarrow> abuf;
          (status, host) \<leftarrow> ares_parse_ptr_reply (g_alloc g) abuf (aq_addr aq) (aq_family aq);
          Some (end_aquery aq status host)
        }
        else if status = ARES_EDESTRUCTION then Some (end_aquery aq status None)
        else next_addr_lookup g aq (aq_remaining_lookups aq))"

lemma next_addr_lookup_remaining:
  "next_addr_lookup g aq p = Some (Addr_query name aq') \<Longrightarrow> length (aq_remaining_lookups aq') < length p"
  by (induction g aq p rule: next_addr_lookup.induct)
    (auto simp: end_aquery_def split: if_splits option.splits prod.splits bind_splits intro: less_SucI)

lemma addr_callback_query:
  "addr_callback g r aq = Some (Addr_query name aq') \<Longrightarrow>
     length (aq_remaining_lookups aq') < length (aq_remaining_lookups aq)"
  by (auto simp: addr_callback_def end_aquery_def Let_def
      split: prod.splits if_splits bind_splits option.splits dest: next_addr_lookup_remaining)

function run_addr :: "host_config \<Rightarrow> (nat \<Rightarrow> byte list \<Rightarrow> outcome) \<Rightarrow> nat \<Rightarrow> byte list \<Rightarrow> addr_query \<Rightarrow> host_outcome option" where
  "run_addr g ask n name aq =
     (case addr_callback g (ask n name) aq of
        None \<Rightarrow> None
      | Some (Addr_done r) \<Rightarrow> Some r
      | Some (Addr_query name aq) \<Rightarrow> run_addr g ask (Suc n) name aq)"
  by pat_completeness auto
termination
proof (relation "measure (\<lambda>(g, ask, n, name, aq). length (aq_remaining_lookups aq))", goal_cases)
  case (2 g ask n name aq x name' aq')
  then have "addr_callback g (ask n name) aq = Some (Addr_query name' aq')" by simp
  from addr_callback_query [OF this] show ?case by simp
qed simp

declare run_addr.simps [simp del]

definition ares_gethostbyaddr ::
  "host_config \<Rightarrow> byte list \<Rightarrow> (nat \<Rightarrow> byte list \<Rightarrow> outcome) \<Rightarrow> byte list \<Rightarrow> int \<Rightarrow> host_outcome option" where
  "ares_gethostbyaddr g lookups ask addr family =
     (if family \<noteq> AF_INET \<and> family \<noteq> AF_INET6 then Some (ARES_ENOTIMP, 0, None)
      else if (family = AF_INET \<and> length addr \<noteq> 4) \<or> (family = AF_INET6 \<and> length addr \<noteq> 16)
      then Some (ARES_ENOTIMP, 0, None)
      else if \<not> g_ok g 1 then Some (ARES_ENOMEM, 0, None)
      else do {
        step \<leftarrow> next_addr_lookup g
          \<lparr>aq_family = family, aq_addr = addr, aq_remaining_lookups = lookups, aq_timeouts = 0\<rparr> lookups;
        case step of
          Addr_done r \<Rightarrow> Some r
        | Addr_query name aq \<Rightarrow> run_addr g ask 0 name aq
      })"

section \<open>Prefixes\<close>











section \<open>The place of an address in the sort list\<close>







section \<open>The sort\<close>







section \<open>A lookup\<close>












section \<open>What a lookup gives\<close>



















end
