(* ===== verification/Ares_Query.thy ===== *)
theory Ares_Query
  imports Ares_Name
begin

text \<open>
  Building a query: \<^verbatim>\<open>ares_mkquery.c\<close>.  The name is a C string, given by its bytes without the
  terminator; a pointer into it is what is left of it.  The buffer's contents before it is
  written, apart from the header, which is cleared, are the argument \<open>junk\<close>.
\<close>

section \<open>The query\<close>

text \<open>\<^verbatim>\<open>for (p = name; *p; p++)\<close>: a backslash and what follows it count as one.\<close>

fun name_count :: "byte list \<Rightarrow> nat" where
  "name_count [] = 0"
| "name_count [c] = 1"
| "name_count (c # d # p) = (if c = BSLASH then 1 + name_count p else 1 + name_count (d # p))"

text \<open>The bytes of the first label, up to a period.\<close>

fun label_count :: "byte list \<Rightarrow> nat" where
  "label_count [] = 0"
| "label_count [c] = (if c = DOT then 0 else 1)"
| "label_count (c # d # p) =
     (if c = DOT then 0
      else if c = BSLASH then 1 + label_count p else 1 + label_count (d # p))"

fun copy_query_label :: "buffer \<Rightarrow> nat \<Rightarrow> byte list \<Rightarrow> (buffer \<times> nat \<times> byte list) option" where
  "copy_query_label buf q [] = Some (buf, q, [])"
| "copy_query_label buf q [c] =
     (if c = DOT then Some (buf, q, [c])
      else do { buf \<leftarrow> wr buf q c; Some (buf, q + 1, []) })"
| "copy_query_label buf q (c # d # p) =
     (if c = DOT then Some (buf, q, c # d # p)
      else if c = BSLASH
      then do { buf \<leftarrow> wr buf q d; copy_query_label buf (q + 1) p }
      else do { buf \<leftarrow> wr buf q c; copy_query_label buf (q + 1) (d # p) })"

lemma copy_query_label_shorter:
  "copy_query_label buf q p = Some (buf', q', p') \<Longrightarrow> length p' \<le> length p"
  by (induction buf q p rule: copy_query_label.induct)
    (auto split: if_splits Option.bind_splits)

function write_name :: "buffer \<Rightarrow> nat \<Rightarrow> byte list \<Rightarrow> (buffer \<times> (nat + ares_status)) option" where
  "write_name buf q name =
     (if name = [] then Some (buf, Inl q)
      else if hd name = DOT then Some (buf, Inr ARES_EBADNAME)
      else let len = label_count name
           in if len > MAXLABEL then Some (buf, Inr ARES_EBADNAME)
              else (case Option.bind (wr buf q (of_nat len)) (\<lambda>buf. copy_query_label buf (q + 1) name) of
                      None \<Rightarrow> None
                    | Some (buf, q, []) \<Rightarrow> Some (buf, Inl q)
                    | Some (buf, q, _ # name) \<Rightarrow> write_name buf q name))"
  by pat_completeness auto
termination
  by (relation "measure (\<lambda>(buf, q, name). length name)")
    (auto split: Option.bind_splits dest!: copy_query_label_shorter)

declare write_name.simps [simp del]

definition query_length :: "byte list \<Rightarrow> nat" where
  "query_length name =
     (let len = 1 + name_count name
      in if name \<noteq> [] \<and> last name \<noteq> DOT then len + 1 else len)"

definition query_header :: "buffer \<Rightarrow> int \<Rightarrow> bool \<Rightarrow> buffer option" where
  "query_header buf qid recurse = do {
     buf \<leftarrow> DNS_HEADER_SET_QID buf 0 qid;
     buf \<leftarrow> DNS_HEADER_SET_OPCODE buf 0 0;
     buf \<leftarrow> (if recurse then DNS_HEADER_SET_RD buf 0 1 else DNS_HEADER_SET_RD buf 0 0);
     DNS_HEADER_SET_QDCOUNT buf 0 1
   }"

definition query_end :: "buffer \<Rightarrow> nat \<Rightarrow> int \<Rightarrow> int \<Rightarrow> buffer option" where
  "query_end buf q type dnsclass = do {
     buf \<leftarrow> wr buf q 0;
     buf \<leftarrow> DNS_QUESTION_SET_TYPE buf (q + 1) type;
     DNS_QUESTION_SET_CLASS buf (q + 1) dnsclass
   }"

definition ares_mkquery ::
    "bool \<Rightarrow> (nat \<Rightarrow> byte) \<Rightarrow> byte list \<Rightarrow> int \<Rightarrow> int \<Rightarrow> int \<Rightarrow> bool \<Rightarrow>
     (ares_status \<times> buffer option \<times> nat) option" where
  "ares_mkquery ok junk name dnsclass type qid recurse =
     (let len = query_length name
      in if len > MAXCDNAME then Some (ARES_EBADNAME, None, 0)
         else
           let buflen = len + HFIXEDSZ + QFIXEDSZ
           in if \<not> ok then Some (ARES_ENOMEM, None, buflen)
              else do {
                buf \<leftarrow> query_header (replicate HFIXEDSZ 0 @ map junk [HFIXEDSZ..<buflen]) qid recurse;
                (buf, r) \<leftarrow> write_name buf HFIXEDSZ (if name = [DOT] then [] else name);
                case r of
                  Inr st \<Rightarrow> Some (st, Some buf, buflen)
                | Inl q \<Rightarrow> do {
                    buf \<leftarrow> query_end buf q type dnsclass;
                    Some (ARES_SUCCESS, Some buf, buflen)
                  }
              })"

section \<open>Labels of a name\<close>

fun label_bytes :: "byte list \<Rightarrow> byte list" where
  "label_bytes [] = []"
| "label_bytes [c] = (if c = DOT then [] else [c])"
| "label_bytes (c # d # p) =
     (if c = DOT then [] else if c = BSLASH then d # label_bytes p else c # label_bytes (d # p))"

fun label_rest :: "byte list \<Rightarrow> byte list" where
  "label_rest [] = []"
| "label_rest [c] = (if c = DOT then [c] else [])"
| "label_rest (c # d # p) =
     (if c = DOT then c # d # p else if c = BSLASH then label_rest p else label_rest (d # p))"

fun ends_dot :: "byte list \<Rightarrow> bool" where
  "ends_dot [] = False"
| "ends_dot [c] = (c = DOT)"
| "ends_dot (c # d # p) = (if c = BSLASH then ends_dot p else ends_dot (d # p))"

lemma label_rest_cases: "label_rest p = [] \<or> (\<exists>p'. label_rest p = DOT # p')"
  by (induction p rule: label_rest.induct) auto

lemma label_rest_shorter: "length (label_rest p) \<le> length p"
  by (induction p rule: label_rest.induct) auto

lemma length_label_bytes [simp]: "length (label_bytes p) = label_count p"
  by (induction p rule: label_bytes.induct) auto

lemma name_count_label: "name_count p = label_count p + name_count (label_rest p)"
  by (induction p rule: label_rest.induct) auto

lemma name_count_DOT: "name_count (DOT # p) = 1 + name_count p"
  by (cases p) simp_all

lemma ends_dot_DOT: "ends_dot (DOT # p) \<longleftrightarrow> p = [] \<or> ends_dot p"
  by (cases p) simp_all

lemma ends_dot_rest: "ends_dot (label_rest p) = ends_dot p"
  by (induction p rule: label_rest.induct) auto

text \<open>The labels of a name, \<open>None\<close> when the code finds it bad.\<close>

function split_name :: "byte list \<Rightarrow> byte list list option" where
  "split_name name =
     (if name = [] then Some []
      else if hd name = DOT \<or> label_count name > MAXLABEL then None
      else case label_rest name of
             [] \<Rightarrow> Some [label_bytes name]
           | _ # name' \<Rightarrow> map_option ((#) (label_bytes name)) (split_name name'))"
  by pat_completeness auto
termination
proof (relation "measure length")
  fix name x21 name' assume "label_rest name = x21 # name'"
  with label_rest_shorter [of name] show "(name', name) \<in> measure length" by simp
qed simp

declare split_name.simps [simp del]

definition label_codes :: "byte list list \<Rightarrow> byte list" where
  "label_codes ls = concat (map (\<lambda>l. of_nat (length l) # l) ls)"

lemma label_codes_simps [simp]:
  "label_codes [] = []" "label_codes (l # ls) = of_nat (length l) # l @ label_codes ls"
  by (simp_all add: label_codes_def)

lemma encode_label_codes: "encode_name ls = label_codes ls @ [0]"
  by (induction ls) simp_all

text \<open>What the label loop needs.\<close>

definition room :: "byte list \<Rightarrow> nat" where
  "room name = (if name = [] then 0 else name_count name + (if ends_dot name then 0 else 1))"

lemma room_Nil [simp]: "room [] = 0"
  by (simp add: room_def)

lemma room_step:
  assumes "name \<noteq> []"
  shows "room name = 1 + label_count name + (case label_rest name of [] \<Rightarrow> 0 | _ # name' \<Rightarrow> room name')"
  using assms name_count_label [of name] ends_dot_rest [of name] label_rest_cases [of name]
  by (auto simp: room_def name_count_DOT ends_dot_DOT)

lemma split_name_Nil [simp]: "split_name [] = Some []"
  by (simp add: split_name.simps)

lemma split_room: "split_name name = Some ls \<Longrightarrow> length (label_codes ls) = room name"
proof (induction name arbitrary: ls rule: split_name.induct)
  case (1 name)
  show ?case
  proof (cases "name = []")
    case False
    with 1(2) have ok: "\<not> (hd name = DOT \<or> label_count name > MAXLABEL)"
      by (simp add: split_name.simps [of name] split: if_splits)
    with 1 False show ?thesis
      by (auto simp: split_name.simps [of name] room_step split: list.splits)
  qed (use 1(2) in simp)
qed

section \<open>Writing\<close>

definition overwrite :: "nat \<Rightarrow> byte list \<Rightarrow> buffer \<Rightarrow> buffer" where
  "overwrite q xs buf = take q buf @ xs @ drop (q + length xs) buf"

lemma wr_splice: "q < length buf \<Longrightarrow> wr buf q b = Some (overwrite q [b] buf)"
  by (simp add: wr_def overwrite_def upd_conv_take_nth_drop)

lemma length_splice [simp]: "q + length xs \<le> length buf \<Longrightarrow> length (overwrite q xs buf) = length buf"
  by (simp add: overwrite_def)

lemma overwrite_overwrite:
  "q + length xs \<le> length buf \<Longrightarrow>
   overwrite (q + length xs) ys (overwrite q xs buf) = overwrite q (xs @ ys) buf"
  by (simp add: overwrite_def add_ac)

lemma splice_Nil [simp]: "overwrite q [] buf = buf"
  by (simp add: overwrite_def)

lemma overwrite_next:
  "q < length buf \<Longrightarrow> overwrite (Suc q) xs (overwrite q [b] buf) = overwrite q (b # xs) buf"
  using overwrite_overwrite [of q "[b]" buf xs] by simp

lemma copy_query_label_splice:
  "q + label_count p \<le> length buf \<Longrightarrow>
   copy_query_label buf q p = Some (overwrite q (label_bytes p) buf, q + label_count p, label_rest p)"
  by (induction buf q p rule: copy_query_label.induct) (auto simp: wr_splice overwrite_next)

lemma write_name_splice:
  assumes "q + room name \<le> length buf"
  shows "case split_name name of
      Some ls \<Rightarrow> write_name buf q name = Some (overwrite q (label_codes ls) buf, Inl (q + room name))
    | None \<Rightarrow> \<exists>buf'. write_name buf q name = Some (buf', Inr ARES_EBADNAME)"
  using assms
proof (induction name arbitrary: buf q rule: split_name.induct)
  case (1 name)
  show ?case
  proof (cases "name = [] \<or> hd name = DOT \<or> label_count name > MAXLABEL")
    case True
    then show ?thesis
      by (cases "name = []") (auto simp: split_name.simps [of name] write_name.simps [of buf q])
  next
    case False
    then have ne: "name \<noteq> []" and ok: "\<not> (hd name = DOT \<or> label_count name > MAXLABEL)" by simp_all
    let ?x = "of_nat (label_count name) # label_bytes name" and ?q = "q + 1 + label_count name"
    have fits: "q + 1 + label_count name \<le> length buf" using 1(2) room_step [OF ne] by simp
    then have copy: "Option.bind (wr buf q (of_nat (label_count name))) (\<lambda>buf. copy_query_label buf (q + 1) name) =
        Some (overwrite q ?x buf, ?q, label_rest name)"
      by (simp add: wr_splice copy_query_label_splice overwrite_next)
    show ?thesis
    proof (cases "label_rest name")
      case Nil
      with ne ok copy show ?thesis
        by (simp add: split_name.simps [of name] write_name.simps [of buf q name] room_step Let_def)
    next
      case (Cons c name')
      have "?q + room name' \<le> length (overwrite q ?x buf)"
        using 1(2) room_step [OF ne] Cons fits by simp
      from 1(1) [OF ne ok Cons this] show ?thesis
        using ne ok copy Cons fits overwrite_overwrite [of q ?x buf]
        by (auto simp: split_name.simps [of name] write_name.simps [of buf q name] room_step add.assoc Let_def
            split: option.splits)
    qed
  qed
qed

definition dns_header :: "int \<Rightarrow> bool \<Rightarrow> byte list" where
  "dns_header qid recurse = word16 qid @ [if recurse then 1 else 0, 0, 0, 1, 0, 0, 0, 0, 0, 0]"

lemma of_int_and_255: "(of_int (v AND 255) :: byte) = of_int v"
proof -
  have "255 = (mask 8 :: int)" by (simp add: mask_eq_exp_minus_1)
  then show ?thesis by (auto simp: bit_eq_iff bit_word_of_int_iff bit_and_iff bit_mask_iff)
qed

lemma header_splice:
  "query_header (replicate HFIXEDSZ 0 @ xs) qid recurse = Some (dns_header qid recurse @ xs)"
  by (simp add: query_header_def DNS_HEADER_SET_QID_def DNS_HEADER_SET_OPCODE_def DNS_HEADER_SET_RD_def
      DNS_HEADER_SET_QDCOUNT_def DNS__SET16BIT_def wr_def rd_def HFIXEDSZ_def dns_header_def word16_def
      eval_nat_numeral of_int_and_255)

lemma set16_overwrite:
  "q + 2 \<le> length buf \<Longrightarrow> DNS__SET16BIT buf q v = Some (overwrite q (word16 v) buf)"
  by (simp add: DNS__SET16BIT_def wr_splice overwrite_next of_int_and_255 word16_def)

lemma query_end_overwrite:
  assumes "q + 5 \<le> length buf"
  shows "query_end buf q type dnsclass = Some (overwrite q (0 # word16 type @ word16 dnsclass) buf)"
proof -
  have "length (word16 v) = 2" for v by (simp add: word16_def)
  with assms show ?thesis
    using overwrite_overwrite [of q "[0]" buf "word16 type"]
      overwrite_overwrite [of q "0 # word16 type" buf "word16 dnsclass"]
    by (simp add: numeral_3_eq_3 query_end_def DNS_QUESTION_SET_TYPE_def DNS_QUESTION_SET_CLASS_def wr_splice
        set16_overwrite)
qed

text \<open>The whole function, in terms of the labels.  A name that ends with an escaped period
  gets no byte for the length of its last label: the buffer is then one byte short.\<close>

definition qname :: "byte list \<Rightarrow> byte list" where
  "qname name = (if name = [DOT] then [] else name)"

definition escaped_end :: "byte list \<Rightarrow> bool" where
  "escaped_end name \<longleftrightarrow> name \<noteq> [] \<and> last name = DOT \<and> \<not> ends_dot name"

lemma ends_dot_last: "ends_dot name \<Longrightarrow> last name = DOT"
  by (induction name rule: ends_dot.induct) (auto split: if_splits)

lemma query_length_room:
  "name \<noteq> [DOT] \<Longrightarrow> query_length name + (if escaped_end name then 1 else 0) = room name + 1"
  "room (qname name) \<le> query_length name"
  using ends_dot_last [of name]
  by (auto simp: query_length_def room_def qname_def escaped_end_def Let_def)

lemma query_end_short: "length buf \<le> q + 4 \<Longrightarrow> query_end buf q type dnsclass = None"
  by (auto simp: query_end_def DNS_QUESTION_SET_TYPE_def DNS_QUESTION_SET_CLASS_def DNS__SET16BIT_def
      wr_def split: Option.bind_splits if_splits)

lemma mkquery_run:
  fixes name junk type dnsclass qid recurse
  assumes "query_length name \<le> MAXCDNAME"
  defines "buflen \<equiv> query_length name + HFIXEDSZ + QFIXEDSZ"
  shows "case split_name (qname name) of
      Some ls \<Rightarrow> ares_mkquery True junk name dnsclass type qid recurse =
        (if escaped_end name then None
         else Some (ARES_SUCCESS, Some (overwrite HFIXEDSZ (encode_name ls @ word16 type @ word16 dnsclass)
          (dns_header qid recurse @ map junk [HFIXEDSZ..<buflen])), buflen))
    | None \<Rightarrow> \<exists>buf. ares_mkquery True junk name dnsclass type qid recurse =
        Some (ARES_EBADNAME, Some buf, buflen)"
proof -
  let ?buf = "dns_header qid recurse @ map junk [HFIXEDSZ..<buflen]"
  let ?q = "HFIXEDSZ + room (qname name)"
  have len: "length ?buf = buflen" by (simp add: dns_header_def word16_def buflen_def HFIXEDSZ_def)
  then have fits: "?q \<le> length ?buf"
    using query_length_room(2) [of name] by (simp add: buflen_def)
  have start: "ares_mkquery True junk name dnsclass type qid recurse =
      (do { (buf, r) \<leftarrow> write_name ?buf HFIXEDSZ (qname name);
            case r of
              Inr st \<Rightarrow> Some (st, Some buf, buflen)
            | Inl q \<Rightarrow> do {
                buf \<leftarrow> query_end buf q type dnsclass;
                Some (ARES_SUCCESS, Some buf, buflen) } })"
    unfolding buflen_def qname_def using assms(1) by (simp add: ares_mkquery_def header_splice Let_def)
  note w = write_name_splice [OF fits]
  show ?thesis
  proof (cases "split_name (qname name)")
    case None
    with w start show ?thesis by auto
  next
    case (Some ls)
    have l: "length (label_codes ls) = room (qname name)" using split_room [OF Some] .
    have "query_end (overwrite HFIXEDSZ (label_codes ls) ?buf) ?q type dnsclass =
        (if escaped_end name then None
         else Some (overwrite HFIXEDSZ (encode_name ls @ word16 type @ word16 dnsclass) ?buf))"
    proof (cases "escaped_end name")
      case True
      then have "name \<noteq> [DOT]" by (auto simp: escaped_end_def)
      with True query_length_room(1) [of name] have "length ?buf \<le> ?q + 4"
        unfolding len by (simp add: buflen_def qname_def QFIXEDSZ_def)
      with True show ?thesis using fits l query_end_short by simp
    next
      case False
      with query_length_room(1) [of name] have "?q + 5 \<le> length ?buf"
        unfolding len
        by (cases "name = [DOT]") (simp_all add: buflen_def qname_def QFIXEDSZ_def query_length_def)
      with False show ?thesis
        using overwrite_overwrite [of HFIXEDSZ "label_codes ls" ?buf] fits l
        by (simp add: query_end_overwrite encode_label_codes)
    qed
    with Some w start show ?thesis by simp
  qed
qed

section \<open>Names that come from labels\<close>

lemma label_first:
  "label_bytes (DOT # p) = []" "label_rest (DOT # p) = DOT # p"
  "\<not> escaped c \<Longrightarrow> label_bytes (c # p) = c # label_bytes p"
  "\<not> escaped c \<Longrightarrow> label_rest (c # p) = label_rest p"
  by (cases p; simp add: escaped_def)+

lemma label_of_escaped:
  assumes "r = [] \<or> hd r = DOT"
  shows "label_bytes (escape_label l @ r) = l" "label_rest (escape_label l @ r) = r"
    "label_count (escape_label l @ r) = length l"
proof -
  show b: "label_bytes (escape_label l @ r) = l"
  proof (induction l)
    case Nil
    then show ?case using assms by (cases r) (simp_all add: label_first)
  next
    case (Cons c l)
    then show ?case by (simp add: label_first)
  qed
  show "label_rest (escape_label l @ r) = r"
  proof (induction l)
    case Nil
    then show ?case using assms by (cases r) (simp_all add: label_first)
  next
    case (Cons c l)
    then show ?case by (simp add: label_first)
  qed
  show "label_count (escape_label l @ r) = length l"
    using length_label_bytes [of "escape_label l @ r"] b by simp
qed

lemma dotted_simps:
  "dotted [] = []" "dotted [l] = escape_label l"
  "dotted (l # m # ls) = escape_label l @ DOT # dotted (m # ls)"
  by (simp_all add: dotted_def dots_def butlast_append)

lemma escape_label_hd: "l \<noteq> [] \<Longrightarrow> hd (escape_label l @ r) \<noteq> DOT"
  by (cases l) (auto simp: escaped_def)

lemma split_name_dotted:
  "\<forall>l \<in> set ls. label_ok l \<Longrightarrow> split_name (dotted ls) = Some ls"
proof (induction ls rule: induct_list012)
  case 1
  then show ?case by (simp add: dotted_simps)
next
  case (2 l)
  then have l: "l \<noteq> []" "length l \<le> MAXLABEL" by (simp_all add: label_ok_def)
  with label_of_escaped [of "[]" l] escape_label_hd [of l "[]"] show ?case
    by (simp add: dotted_simps split_name.simps [of "escape_label l"])
next
  case (3 l m ls)
  then have l: "l \<noteq> []" "length l \<le> MAXLABEL" by (simp_all add: label_ok_def)
  with 3 label_of_escaped [of "DOT # dotted (m # ls)" l] escape_label_hd [of l "DOT # dotted (m # ls)"]
  show ?case by (simp add: dotted_simps split_name.simps [of "escape_label l @ DOT # dotted (m # ls)"])
qed

lemma last_escape_label: "l \<noteq> [] \<Longrightarrow> last (escape_label l) = last l"
  by (induction l) auto

lemma last_dotted:
  "ls \<noteq> [] \<Longrightarrow> \<forall>l \<in> set ls. l \<noteq> [] \<Longrightarrow> dotted ls \<noteq> [] \<and> last (dotted ls) = last (last ls)"
  by (induction ls rule: induct_list012) (auto simp: dotted_simps last_escape_label)

lemma dotted_length:
  assumes "\<forall>l \<in> set ls. label_ok l" "ls = [] \<or> last (last ls) \<noteq> DOT"
  shows "\<not> escaped_end (dotted ls)" "query_length (dotted ls) = length (encode_name ls)"
    "qname (dotted ls) = dotted ls"
proof -
  have s: "split_name (dotted ls) = Some ls" using split_name_dotted [OF assms(1)] .
  have nd: "dotted ls \<noteq> [DOT]" using s by (auto simp: split_name.simps)
  show ne: "\<not> escaped_end (dotted ls)"
    using assms last_dotted [of ls]
    by (cases "ls = []") (auto simp: escaped_end_def dotted_simps label_ok_def)
  show "query_length (dotted ls) = length (encode_name ls)"
    using query_length_room(1) [OF nd] ne split_room [OF s] by (simp add: encode_label_codes)
  show "qname (dotted ls) = dotted ls" using nd by (simp add: qname_def)
qed

section \<open>Properties\<close>

text \<open>
  C38: the query is written inside its buffer, except for one byte of a name that ends with
  an escaped period.
\<close>

theorem mkquery_bounds:
  "ares_mkquery ok junk name dnsclass type qid recurse = None \<longleftrightarrow>
     ok \<and> query_length name \<le> MAXCDNAME \<and> escaped_end name \<and> split_name name \<noteq> None"
proof (cases "ok \<and> query_length name \<le> MAXCDNAME")
  case True
  have "qname name = name" if "escaped_end name"
    using that by (auto simp: qname_def escaped_end_def)
  with True mkquery_run [of name junk dnsclass type qid recurse] show ?thesis
    by (cases "escaped_end name") (auto split: option.splits)
next
  case False
  then show ?thesis by (auto simp: ares_mkquery_def Let_def)
qed

lemma mkquery_dotted:
  fixes junk :: "nat \<Rightarrow> byte"
  assumes "\<forall>l \<in> set ls. label_ok l" "ls = [] \<or> last (last ls) \<noteq> DOT"
    and "length (encode_name ls) \<le> MAXCDNAME"
  defines "buf qid recurse type dnsclass \<equiv> dns_header qid recurse @ encode_name ls @ word16 type @ word16 dnsclass"
  shows "ares_mkquery True junk (dotted ls) dnsclass type qid recurse =
      Some (ARES_SUCCESS, Some (buf qid recurse type dnsclass), length (buf qid recurse type dnsclass))"
proof -
  let ?n = "encode_name ls" and ?x = "word16 type @ word16 dnsclass"
  have h: "length (dns_header qid recurse) = HFIXEDSZ" by (simp add: dns_header_def word16_def HFIXEDSZ_def)
  have x: "length ?x = QFIXEDSZ" by (simp add: word16_def QFIXEDSZ_def)
  have "overwrite HFIXEDSZ (?n @ ?x) (dns_header qid recurse @ map junk [HFIXEDSZ..<length ?n + HFIXEDSZ + QFIXEDSZ])
      = dns_header qid recurse @ ?n @ ?x"
    using h x by (simp add: overwrite_def)
  moreover have "length (dns_header qid recurse @ ?n @ ?x) = length ?n + HFIXEDSZ + QFIXEDSZ"
    using h x by simp
  ultimately show ?thesis
    using mkquery_run [of "dotted ls" junk dnsclass type qid recurse] dotted_length [OF assms(1,2)]
      split_name_dotted [OF assms(1)] assms(3) by (simp add: buf_def)
qed

text \<open>
  C15: query and expansion are inverse: for any labels of 1 to 63 bytes, 255 with their
  lengths, the last not ending with a period, the query for the name that joins them, with
  periods and backslashes escaped, is built without an error, it starts with the header that
  was asked for, and \<^verbatim>\<open>ares_expand_name\<close> reads the same name back from it.
\<close>

theorem mkquery_roundtrip:
  assumes "\<forall>l \<in> set ls. label_ok l" "ls = [] \<or> last (last ls) \<noteq> DOT"
    and "length (encode_name ls) \<le> MAXCDNAME"
  shows "\<exists>buf. ares_mkquery True junk (dotted ls) dnsclass type qid recurse =
      Some (ARES_SUCCESS, Some buf, length buf) \<and>
    buf = dns_header qid recurse @ encode_name ls @ word16 type @ word16 dnsclass \<and>
    ares_expand_name True buf HFIXEDSZ = ret (dotted ls, length (encode_name ls))"
proof -
  have h: "length (dns_header qid recurse) = HFIXEDSZ" by (simp add: dns_header_def word16_def HFIXEDSZ_def)
  then have "ares_expand_name True (dns_header qid recurse @ encode_name ls @ word16 type @ word16 dnsclass) HFIXEDSZ =
      ret (dotted ls, length (encode_name ls))"
    using expand_encoded [of HFIXEDSZ _ ls "word16 type @ word16 dnsclass"] assms(1) by simp
  with mkquery_dotted [OF assms] show ?thesis by simp
qed

lemma mkquery_roundtrip_witness:
  "\<exists>buf. ares_mkquery True (\<lambda>_. 7) (bytes ''a.b'') 1 1 258 True =
      Some (ARES_SUCCESS, Some buf, length buf) \<and>
    buf = [1, 2, 1, 0, 0, 1, 0, 0, 0, 0, 0, 0, 1, 97, 1, 98, 0, 0, 1, 0, 1] \<and>
    ares_expand_name True buf HFIXEDSZ = ret (bytes ''a.b'', 5)"
  using mkquery_roundtrip [of "[[97], [98]]" "\<lambda>_. 7" 1 1 258 True]
  by (simp add: label_ok_def MAXLABEL_def MAXCDNAME_def dotted_simps escaped_def dns_header_def word16_def)

end
