(* ===== verification/Ares_Ident.thy ===== *)
theory Ares_Ident
  imports Ares_Session Ares_Query "HOL-Library.Multiset"
begin

text \<open>
  Queries by name: the identifiers of \<^verbatim>\<open>ares_query.c\<close>, made with the stream cipher RC4, whose key is
  set up in \<^verbatim>\<open>ares_init.c\<close>, and \<^verbatim>\<open>ares_query\<close> with its callback.  The order of the bytes of a
  number in memory is a parameter.
\<close>

section \<open>RC4\<close>

record rc4_key =
  k_state :: "byte list"
  k_x :: byte
  k_y :: byte

definition ARES_SWAP_BYTE :: "byte \<Rightarrow> byte \<Rightarrow> byte list \<Rightarrow> byte list" where
  "ARES_SWAP_BYTE a b s = (let swapByte = s ! unat a; s = s[unat a := s ! unat b] in s[unat b := swapByte])"

definition rc4_step :: "rc4_key \<Rightarrow> byte \<Rightarrow> byte \<times> rc4_key" where
  "rc4_step key b =
     (let x = k_x key + 1;
          y = k_state key ! unat x + k_y key;
          state = ARES_SWAP_BYTE x y (k_state key);
          xorIndex = state ! unat x + state ! unat y
      in (b XOR state ! unat xorIndex, \<lparr>k_state = state, k_x = x, k_y = y\<rparr>))"

primrec ares__rc4 :: "rc4_key \<Rightarrow> byte list \<Rightarrow> byte list \<times> rc4_key" where
  "ares__rc4 key [] = ([], key)"
| "ares__rc4 key (b # bs) =
     (let (c, key) = rc4_step key b; (cs, key) = ares__rc4 key bs in (c # cs, key))"

text \<open>The number of two bytes in memory.\<close>

definition number_of :: "bool \<Rightarrow> byte \<Rightarrow> byte \<Rightarrow> nat" where
  "number_of little a b = (if little then unat a + 256 * unat b else 256 * unat a + unat b)"

definition ares__generate_new_id :: "bool \<Rightarrow> rc4_key \<Rightarrow> nat \<times> rc4_key" where
  "ares__generate_new_id little key =
     (let (r, key) = ares__rc4 key [0, 0] in (number_of little (r ! 0) (r ! 1), key))"

section \<open>The key\<close>

definition ARES_ID_KEY_LEN :: nat where "ARES_ID_KEY_LEN = 31"

text \<open>The bytes that the random file gives, and \<^verbatim>\<open>rand\<close> for the rest.\<close>

definition randomize_key :: "byte list \<Rightarrow> (nat \<Rightarrow> nat) \<Rightarrow> nat \<Rightarrow> byte list \<Rightarrow> byte list" where
  "randomize_key file rand n key =
     (let got = take n file
      in got @ map (\<lambda>i. of_nat (rand i mod 256)) [length got..<n] @ drop n key)"

primrec key_loop :: "byte list \<Rightarrow> nat list \<Rightarrow> byte list \<Rightarrow> nat \<Rightarrow> byte \<Rightarrow> byte list" where
  "key_loop key_data [] state index1 index2 = state"
| "key_loop key_data (counter # cs) state index1 index2 =
     (let index2 = key_data ! index1 + state ! counter + index2
      in key_loop key_data cs (ARES_SWAP_BYTE (of_nat counter) index2 state)
           ((index1 + 1) mod length key_data) index2)"

definition init_id_key :: "bool \<Rightarrow> byte list \<Rightarrow> (nat \<Rightarrow> nat) \<Rightarrow> rc4_key option" where
  "init_id_key ok file rand =
     (if \<not> ok then None
      else let key_data = replicate ARES_ID_KEY_LEN 0;
               state = map of_nat [0..<256];
               state = randomize_key file rand ARES_ID_KEY_LEN state
           in Some \<lparr>k_state = key_loop key_data [0..<256] state 0 0, k_x = 0, k_y = 0\<rparr>)"

section \<open>Identifiers\<close>

text \<open>\<^verbatim>\<open>DNS_HEADER_SET_QID\<close> on the bytes of a number, which is then read as a number.\<close>

definition swapped_id :: "bool \<Rightarrow> nat \<Rightarrow> nat" where
  "swapped_id little qid = number_of little (of_nat (qid div 256)) (of_nat qid)"

primrec find_in :: "(address \<Rightarrow> query option) \<Rightarrow> nat \<Rightarrow> address list \<Rightarrow> address option option" where
  "find_in heap qid [] = Some None"
| "find_in heap qid (q # qs) = do {
     x \<leftarrow> heap q;
     if q_qid x = qid then Some (Some q) else find_in heap qid qs
   }"

definition find_query_by_id :: "bool \<Rightarrow> channel \<Rightarrow> nat \<Rightarrow> address option option" where
  "find_query_by_id little c i =
     (let qid = swapped_id little i in find_in (c_heap c) qid (c_queries_by_qid c (qid_bucket qid)))"

partial_function (option) generate_unique_id :: "bool \<Rightarrow> channel \<Rightarrow> rc4_key \<Rightarrow> (nat \<times> rc4_key) option" where
  "generate_unique_id little c key =
     (case ares__generate_new_id little key of (i, key) \<Rightarrow> do {
        found \<leftarrow> find_query_by_id little c i;
        if found = None then Some (i, key) else generate_unique_id little c key
      })"

declare generate_unique_id.simps [code]

section \<open>Queries by name\<close>

text \<open>A channel with its identifiers.\<close>

record resolver =
  v_channel :: channel
  v_next_id :: nat
  v_id_key :: rc4_key

definition ARES_FLAG_NORECURSE :: nat where "ARES_FLAG_NORECURSE = 8"

definition ares_query ::
  "world \<Rightarrow> bool \<Rightarrow> (nat \<Rightarrow> byte) \<Rightarrow> timeval \<Rightarrow> byte list \<Rightarrow> int \<Rightarrow> int \<Rightarrow> nat \<Rightarrow> resolver \<Rightarrow> resolver option" where
  "ares_query w little junk now name dnsclass type a v = do {
     let c = v_channel v;
     let ok = w_alloc w (c_ticks c);
     (status, qbuf, qlen) \<leftarrow> ares_mkquery ok junk name dnsclass type (int (v_next_id v))
       (\<not> has_flag c ARES_FLAG_NORECURSE);
     let c = tick c;
     if status \<noteq> ARES_SUCCESS then Some (v\<lparr>v_channel := log_event (Refused a status) c\<rparr>)
     else do {
       (i, key) \<leftarrow> generate_unique_id little c (v_id_key v);
       let v = v\<lparr>v_next_id := i, v_id_key := key\<rparr>;
       if \<not> w_alloc w (c_ticks c) then Some (v\<lparr>v_channel := log_event (Refused a ARES_ENOMEM) (tick c)\<rparr>)
       else do {
         qbuf \<leftarrow> qbuf;
         qbuf \<leftarrow> (if qlen \<le> length qbuf then Some (take qlen qbuf) else None);
         c \<leftarrow> ares_send w now qbuf a (tick c);
         Some (v\<lparr>v_channel := c\<rparr>)
       }
     }
   }"

text \<open>The status that the callback of \<^verbatim>\<open>ares_query\<close> hands on.\<close>

definition qcallback :: "ares_status \<Rightarrow> buffer \<Rightarrow> ares_status option" where
  "qcallback status abuf =
     (if status \<noteq> ARES_SUCCESS then Some status
      else do {
        rcode \<leftarrow> DNS_HEADER_RCODE abuf 0;
        ancount \<leftarrow> DNS_HEADER_ANCOUNT abuf 0;
        Some (if rcode = 0 then (if ancount > 0 then ARES_SUCCESS else ARES_ENODATA)
          else if rcode = 1 then ARES_EFORMERR
          else if rcode = 2 then ARES_ESERVFAIL
          else if rcode = 3 then ARES_ENOTFOUND
          else if rcode = 4 then ARES_ENOTIMP
          else if rcode = 5 then ARES_EREFUSED
          else status)
      })"

section \<open>The state of the cipher\<close>

lemma swap_byte_mset:
  "length s = 256 \<Longrightarrow> mset (ARES_SWAP_BYTE a b s) = mset s" "length (ARES_SWAP_BYTE a b s) = length s"
proof -
  assume "length s = 256"
  moreover have "unat a < 256" "unat b < 256" using unat_lt_power [of a] unat_lt_power [of b] by simp_all
  ultimately show "mset (ARES_SWAP_BYTE a b s) = mset s"
    using mset_swap [of "unat b" s "unat a"] by (cases "unat a = unat b") (auto simp: ARES_SWAP_BYTE_def Let_def)
qed (simp add: ARES_SWAP_BYTE_def Let_def)

text \<open>One step of the cipher.\<close>

lemma rc4_step_key:
  "length (k_state key) = 256 \<Longrightarrow> mset (k_state (snd (rc4_step key b))) = mset (k_state key)"
  "snd (rc4_step key b) = snd (rc4_step key c)"
  "fst (rc4_step key (fst (rc4_step key b))) = b"
  by (simp_all add: rc4_step_def Let_def swap_byte_mset xor.assoc)

lemma mset_length: "mset xs = mset ys \<Longrightarrow> length xs = length ys"
  by (metis size_mset)

lemma rc4_mset:
  "length (k_state key) = 256 \<Longrightarrow> mset (k_state (snd (ares__rc4 key bs))) = mset (k_state key)"
proof (induction bs arbitrary: key)
  case (Cons b bs)
  obtain c k where s: "rc4_step key b = (c, k)" by force
  then have m: "mset (k_state k) = mset (k_state key)" using rc4_step_key(1) [OF Cons.prems, of b] by simp
  then have "length (k_state k) = 256" using mset_length [OF m] Cons.prems by simp
  with Cons.IH [of k] m s show ?case by (simp add: split_beta)
qed simp

lemma rc4_twice: "fst (ares__rc4 key (fst (ares__rc4 key bs))) = bs"
proof (induction bs arbitrary: key)
  case (Cons b bs)
  obtain c k where s: "rc4_step key b = (c, k)" by force
  have "rc4_step key c = (b, k)"
    using rc4_step_key(2) [of key b c] rc4_step_key(3) [of key b] s by (simp add: prod_eq_iff)
  with s Cons.IH [of k] show ?case by (simp add: split_beta)
qed simp

lemma key_loop_mset:
  "length state = 256 \<Longrightarrow> mset (key_loop key_data cs state i j) = mset state"
proof (induction cs arbitrary: state i j)
  case (Cons c cs)
  let ?j = "key_data ! i + state ! c + j"
  let ?s = "ARES_SWAP_BYTE (of_nat c) ?j state"
  have "mset ?s = mset state" "length ?s = 256" using swap_byte_mset Cons.prems by simp_all
  with Cons.IH [of ?s "(i + 1) mod length key_data" ?j] show ?case by (simp add: Let_def)
qed simp

text \<open>The random bytes that \<^verbatim>\<open>randomize_key\<close> writes.\<close>

definition random_bytes :: "byte list \<Rightarrow> (nat \<Rightarrow> nat) \<Rightarrow> byte list" where
  "random_bytes file rand = take ARES_ID_KEY_LEN (randomize_key file rand ARES_ID_KEY_LEN [])"

lemma randomize_state:
  "randomize_key file rand ARES_ID_KEY_LEN s = random_bytes file rand @ drop ARES_ID_KEY_LEN s"
  "length (random_bytes file rand) = ARES_ID_KEY_LEN"
  by (simp_all add: randomize_key_def random_bytes_def Let_def min_def)

text \<open>
  C29: Setting up the key overwrites the first 31 bytes of the state of the cipher with the random
  bytes, instead of the key: the state is a permutation of all bytes, as RC4 needs it, only if the
  random bytes happen to be a permutation of the numbers 0 to 30.
\<close>

theorem init_key_state:
  assumes "init_id_key True file rand = Some key"
  shows "mset (k_state key) = mset (random_bytes file rand) + mset (map of_nat [31..<256]) \<and>
    (distinct (k_state key) \<longleftrightarrow> mset (random_bytes file rand) = mset (map of_nat [0..<31]))"
proof -
  let ?r = "random_bytes file rand" and ?all = "map of_nat [0..<256] :: byte list"
  have "length (?r @ drop ARES_ID_KEY_LEN ?all) = 256" by (simp add: randomize_state(2) ARES_ID_KEY_LEN_def)
  with assms key_loop_mset have m: "mset (k_state key) = mset (?r @ drop ARES_ID_KEY_LEN ?all)"
    by (auto simp: init_id_key_def Let_def randomize_state(1))
  have rest: "drop ARES_ID_KEY_LEN ?all = map of_nat [31..<256]" by (simp add: drop_map ARES_ID_KEY_LEN_def)
  have "[0..<256] = [0..<31] @ [31..<256]" using upt_add_eq_append [of 0 31 225] by (simp only: le0 add_0 numeral_plus_numeral add_num_simps)
  then have split: "mset ?all = mset (map of_nat [0..<31]) + mset (map of_nat [31..<256])"
    by (simp only: map_append mset_append)
  have "unat (of_nat n :: byte) = n" if "n \<in> set [0..<256]" for n
    using that by (intro unat_of_nat_small) simp
  then have "inj_on (of_nat :: nat \<Rightarrow> byte) (set [0..<256])" by (rule inj_on_inverseI)
  then have all: "distinct ?all" by (simp only: distinct_map distinct_upt simp_thms)
  have len: "length (k_state key) = 256" "card (UNIV :: byte set) = 256"
    using mset_length [OF m] by (simp_all add: randomize_state(2) ARES_ID_KEY_LEN_def card_word)
  have univ: "mset xs = mset_set UNIV" if "distinct xs" "length xs = 256" for xs :: "byte list"
  proof -
    have "set xs = UNIV"
      using that len(2) by (intro card_subset_eq) (simp_all add: distinct_card)
    then show ?thesis using mset_set_set [OF that(1)] by simp
  qed
  have "distinct (k_state key) \<longleftrightarrow> mset (k_state key) = mset ?all"
    using univ [of "k_state key"] univ [OF all] len(1) all mset_eq_imp_distinct_iff [of "k_state key" ?all] by auto
  then show ?thesis unfolding m split rest by (simp only: mset_append add_right_cancel simp_thms)
qed

section \<open>Looking for an identifier\<close>

lemma find_in_some:
  assumes "set qs \<subseteq> dom heap"
  shows "\<exists>r. find_in heap qid qs = Some r \<and> (r \<noteq> None \<longleftrightarrow> (\<exists>q \<in> set qs. \<exists>x. heap q = Some x \<and> q_qid x = qid))"
  using assms by (induction qs) (auto, metis domD option.inject)

text \<open>
  C28: The look-up that keeps identifiers unique writes the identifier with its bytes in the order of
  the network and reads them in that of the machine: on a little-endian machine it finds a query
  under way with the bytes of the identifier swapped, and not one with the identifier itself.
\<close>

theorem id_in_use:
  assumes "channel_at c" "i < 2 ^ 16"
  shows "\<exists>r. find_query_by_id little c i = Some r \<and>
    (r \<noteq> None \<longleftrightarrow> (\<exists>q x. c_heap c q = Some x \<and>
       q_qid x = (if little then 256 * (i mod 256) + i div 256 else i)))"
proof -
  have ids: "unat (of_nat (i div 256) :: byte) = i div 256" "unat (of_nat i :: byte) = i mod 256"
    using assms(2) by (simp_all add: unsigned_of_nat take_bit_eq_mod less_mult_imp_div_less)
  have n: "swapped_id little i = (if little then 256 * (i mod 256) + i div 256 else i)"
    by (auto simp: swapped_id_def number_of_def ids)
  have qids: "qids_ok (c_heap c) (c_queries_by_qid c)" using channel_at_ok [OF assms(1)] by (simp add: chan_ok_def)
  then have "set (c_queries_by_qid c b) \<subseteq> dom (c_heap c)" for b by (auto simp: qids_ok_def)
  from find_in_some [OF this, of "swapped_id little i" "qid_bucket (swapped_id little i)"] qids
  show ?thesis by (fastforce simp: find_query_by_id_def n [symmetric] Let_def qids_ok_def)
qed

section \<open>A query by name\<close>

text \<open>
  C10: The query that \<^verbatim>\<open>ares_query\<close> sends for a name is recognised in its replies: it is looked for by
  the identifier in its header, and a message with one question is an answer to it exactly when the
  question is the one asked, in any case of letters.
\<close>

theorem query_recognised:
  assumes "channel_at (v_channel v)" "c_last_timeout_processed (v_channel v) \<le> tv_sec now"
    and "v_next_id v < 2 ^ 16" "\<forall>l \<in> set ls. label_ok l" "ls = [] \<or> last (last ls) \<noteq> DOT"
    and "length (encode_name ls) \<le> MAXCDNAME" "type < 2 ^ 16" "dnsclass < 2 ^ 16"
    and "ares_query w little junk now (dotted ls) (int dnsclass) (int type) a v = Some u"
    and "c_heap (v_channel u) (c_free (v_channel v)) = Some x"
    and "length flags = 2" "length nums = 6" "question_ok (ls', type', dnsclass')"
  shows "q_qid x = v_next_id v \<and>
    same_questions (\<lambda>_ _. True) (q_qbuf x)
      (encode_message (word16 (int (v_next_id v)) @ flags) nums [(ls', type', dnsclass')] rest) =
    Some (same_question (ls, type, dnsclass) (ls', type', dnsclass'))"
proof -
  let ?c = "v_channel v"
  let ?rec = "\<not> has_flag ?c ARES_FLAG_NORECURSE" and ?id = "int (v_next_id v)"
  let ?buf = "dns_header ?id ?rec @ encode_name ls @ word16 (int type) @ word16 (int dnsclass)"
  have ok: "chan_ok {} ?c" by (rule channel_at_ok [OF assms(1)])
  then have none: "c_heap ?c (c_free ?c) = None"
    by (cases "c_heap ?c (c_free ?c)") (auto simp: chan_ok_def heap_ok_def)
  note q = mkquery_dotted [OF assms(4-6), of junk "int dnsclass" "int type" ?id ?rec]
  have alloc: "w_alloc w (c_ticks ?c)"
  proof (rule ccontr)
    assume "\<not> w_alloc w (c_ticks ?c)"
    then have "v_channel u = log_event (Refused a ARES_ENOMEM) (tick ?c)"
      using assms(9) dotted_length [OF assms(4,5)] assms(6) by (auto simp: ares_query_def ares_mkquery_def Let_def)
    then show False using assms(10) none by simp
  qed
  obtain i key where i: "generate_unique_id little (tick ?c) (v_id_key v) = Some (i, key)"
    using assms(9) alloc q by (auto simp: ares_query_def Let_def split: bind_splits)
  have alloc2: "w_alloc w (c_ticks (tick ?c))"
    using assms(9,10) alloc q i none by (auto simp: ares_query_def Let_def split: if_splits)
  let ?d = "tick (tick ?c)"
  have "chan_ok {} ?d" "c_last_timeout_processed ?d \<le> tv_sec now" using ok assms(2) by (simp_all add: tick_def)
  from ares_send_carries [OF this, of w ?buf a] obtain d
    where d: "ares_send w now ?buf a ?d = Some d" "carries ?buf (c_heap d (c_free ?d))"
    by (auto simp: no_crash_def)
  have "v_channel u = d" using assms(9) alloc alloc2 q i d(1) by (auto simp: ares_query_def Let_def)
  then have x: "q_qbuf x = ?buf" "DNS_HEADER_QID ?buf 0 = Some (q_qid x)"
    using assms(10) d(2) by (simp_all add: carries_def tick_def)
  have buf: "?buf = encode_message (word16 ?id @ [if ?rec then 1 else 0, 0]) (replicate 6 0) [(ls, type, dnsclass)] []"
    by (simp add: dns_header_def encode_message_def encode_question_def word16_def numeral_eq_Suc)
  have "q_qid x = v_next_id v"
    using x(2) assms(3) read_word16 [of 0 ?buf "v_next_id v"] by (simp add: DNS_HEADER_QID_def dns_header_def)
  moreover have "length (word16 ?id @ [if ?rec then 1 else 0, 0]) = 4" "length (word16 ?id @ flags) = 4"
    "question_ok (ls, type, dnsclass)"
    using assms(4,7,8,11) by (simp_all add: word16_def question_ok_def)
  ultimately show ?thesis
    using same_questions_encoded [of "word16 ?id @ [if ?rec then 1 else 0, 0]" "replicate 6 0" "[(ls, type, dnsclass)]"
        "word16 ?id @ flags" nums "[(ls', type', dnsclass')]" "[]" rest] assms(12,13)
    unfolding x(1) buf by simp
qed

section \<open>Examples\<close>

definition sample_key :: rc4_key where
  "sample_key = \<lparr>k_state = map of_nat [0..<256], k_x = 0, k_y = 0\<rparr>"

definition sample_resolver :: resolver where
  "sample_resolver = \<lparr>v_channel = sample_channel 0, v_next_id = 7, v_id_key = sample_key\<rparr>"

lemma init_key_state_witness:
  "\<exists>key. init_id_key True [] (\<lambda>_. 4) = Some key \<and> \<not> distinct (k_state key)"
proof -
  obtain key where key: "init_id_key True [] (\<lambda>_. 4) = Some key" by (simp add: init_id_key_def Let_def)
  have "random_bytes [] (\<lambda>_. 4) = replicate 31 4"
    by (simp add: random_bytes_def randomize_key_def Let_def ARES_ID_KEY_LEN_def map_replicate_const)
  then have "0 \<notin># mset (random_bytes [] (\<lambda>_. 4))" by simp
  moreover have "(0 :: byte) \<in># mset (map of_nat [0..<31])"
    by (simp add: image_iff) (rule bexI [of _ 0], simp_all)
  ultimately have "mset (random_bytes [] (\<lambda>_. 4)) \<noteq> mset (map of_nat [0..<31])" by metis
  with init_key_state [OF key] key show ?thesis by simp
qed

lemma id_in_use_witness:
  "find_query_by_id True sample_waiting 7 = Some None \<and> find_query_by_id False sample_waiting 7 \<noteq> Some None"
  using id_in_use [OF sample_waiting_at(1), of 7 True] id_in_use [OF sample_waiting_at(1), of 7 False]
  by (auto simp: sample_waiting_fields split: if_splits)

lemma query_recognised_witness:
  "\<exists>u x. ares_query sample_world True (\<lambda>_. 9) (sample_time 2) [97] 1 1 5 sample_resolver = Some u \<and>
    c_heap (v_channel u) 0 = Some x \<and> q_qid x = 7 \<and>
    same_questions (\<lambda>_ _. True) (q_qbuf x) (encode_message [0, 7, 129, 128] [0, 1, 0, 0, 0, 0] [([[65]], 1, 1)] []) =
      Some True"
proof -
  have dot: "dotted [[97]] = [97]" by (simp add: dotted_simps escaped_def)
  have name: "\<forall>l \<in> set [[97 :: byte]]. label_ok l" "[[97 :: byte]] = [] \<or> last (last [[97 :: byte]]) \<noteq> DOT"
    "length (encode_name [[97]]) \<le> MAXCDNAME"
    by (simp_all add: label_ok_def MAXLABEL_def MAXCDNAME_def)
  have buf: "dns_header 7 True @ encode_name [[97]] @ word16 1 @ word16 1 = sample_query"
    by (simp add: dns_header_def word16_def sample_query_def)
  have q: "ares_mkquery True (\<lambda>_. 9) [97] 1 1 7 True = Some (ARES_SUCCESS, Some sample_query, 19)"
    using mkquery_dotted [OF name, of "\<lambda>_. 9" 1 1 7 True] unfolding dot buf by (simp add: sample_query_def)
  have qid: "generate_unique_id True c key = Some (ares__generate_new_id True key)"
    if "c_queries_by_qid c = (\<lambda>_. [])" for c key
    using that by (subst generate_unique_id.simps) (simp add: find_query_by_id_def Let_def split_beta)
  let ?s = "ares_send sample_world (sample_time 2) sample_query 5 (tick (tick (sample_channel 0)))"
  have sent: "\<exists>d x. ?s = Some d \<and> c_heap d 0 = Some x"
    by (simp add: sample_defs sending_defs Let_def)
  then obtain d x where d: "?s = Some d" "c_heap d 0 = Some x" by blast
  have "\<exists>u. ares_query sample_world True (\<lambda>_. 9) (sample_time 2) [97] 1 1 5 sample_resolver = Some u \<and> v_channel u = d"
    using q d(1) by (simp add: ares_query_def sample_resolver_def Let_def)
      (simp add: sample_defs has_flag_def tick_def qid split_beta)
  then obtain u where u: "ares_query sample_world True (\<lambda>_. 9) (sample_time 2) [97] 1 1 5 sample_resolver = Some u"
    "v_channel u = d" by blast
  have s: "v_channel sample_resolver = sample_channel 0" "c_free (sample_channel 0) = 0" "v_next_id sample_resolver = 7"
    "c_last_timeout_processed (sample_channel 0) = 2"
    by (simp_all add: sample_resolver_def sample_defs)
  have "question_ok ([[65]], 1, 1)" by (simp add: question_ok_def label_ok_def MAXLABEL_def)
  from query_recognised [OF _ _ _ name _ _ _ _ _ _ this, of sample_resolver "sample_time 2" 1 1 sample_world True "\<lambda>_. 9" 5
      u x "[129, 128]" "[0, 1, 0, 0, 0, 0]" "[]"] u d(2)
  show ?thesis
    by (simp add: s dot sample_at sample_time_def word16_def same_question_def dotted_simps escaped_def cstr_def
        tolower_def ISUPPER_def)
qed

end
