(* ===== verification/Ares_Nameinfo.thy ===== *)
theory Ares_Nameinfo
  imports Ares_Lookup Ares_Ident
begin

text \<open>
  Names for socket addresses: \<^verbatim>\<open>ares_getnameinfo.c\<close>.  A socket address is the list of its bytes, as is
  the memory of a query, which is fresh when it is allocated.  The services, the names of network
  interfaces and of the machine, and where strings lie in memory are parameters.
\<close>

section \<open>Flags and socket addresses\<close>

type_synonym flags = "32 word"

definition ARES_NI_NOFQDN :: flags where "ARES_NI_NOFQDN = 1"
definition ARES_NI_NUMERICHOST :: flags where "ARES_NI_NUMERICHOST = 2"
definition ARES_NI_NAMEREQD :: flags where "ARES_NI_NAMEREQD = 4"
definition ARES_NI_NUMERICSERV :: flags where "ARES_NI_NUMERICSERV = 8"
definition ARES_NI_UDP :: flags where "ARES_NI_UDP = 16"
definition ARES_NI_SCTP :: flags where "ARES_NI_SCTP = 32"
definition ARES_NI_DCCP :: flags where "ARES_NI_DCCP = 64"
definition ARES_NI_NUMERICSCOPE :: flags where "ARES_NI_NUMERICSCOPE = 128"
definition ARES_NI_LOOKUPHOST :: flags where "ARES_NI_LOOKUPHOST = 256"
definition ARES_NI_LOOKUPSERVICE :: flags where "ARES_NI_LOOKUPSERVICE = 512"

abbreviation has :: "flags \<Rightarrow> flags \<Rightarrow> bool" where "has f c \<equiv> f AND c \<noteq> 0"

text \<open>The fields of \<^verbatim>\<open>struct sockaddr_in\<close> and \<^verbatim>\<open>struct sockaddr_in6\<close>.\<close>

definition sa_family :: "bool \<Rightarrow> byte list \<Rightarrow> int" where
  "sa_family little sa = int (number_of little (sa ! 0) (sa ! 1))"

definition sin_port :: "byte list \<Rightarrow> byte list" where "sin_port sa = segment 2 4 sa"
definition sin_addr :: "byte list \<Rightarrow> byte list" where "sin_addr sa = segment 4 8 sa"
definition sin6_addr :: "byte list \<Rightarrow> byte list" where "sin6_addr sa = segment 8 24 sa"

definition sin6_scope_id :: "bool \<Rightarrow> byte list \<Rightarrow> nat" where
  "sin6_scope_id little sa =
     (if little then number_of True (sa ! 24) (sa ! 25) + 65536 * number_of True (sa ! 26) (sa ! 27)
      else 65536 * number_of False (sa ! 24) (sa ! 25) + number_of False (sa ! 26) (sa ! 27))"

definition SOCKADDR_IN :: nat where "SOCKADDR_IN = 16"
definition SOCKADDR_IN6 :: nat where "SOCKADDR_IN6 = 28"
definition IF_NAMESIZE :: nat where "IF_NAMESIZE = 16"
definition IPBUFSIZ :: nat where "IPBUFSIZ = 46 + IF_NAMESIZE"

record system =
  y_little :: bool
  y_service :: "byte list \<Rightarrow> byte list \<Rightarrow> byte list option"
  y_ifname :: "nat \<Rightarrow> byte list option"
  y_hostname :: "byte list"
  y_junk :: "nat \<Rightarrow> byte"
  y_at :: "nat \<times> nat"

section \<open>Parts of a name\<close>

text \<open>The service of a port, in a buffer of \<open>buflen\<close> bytes.\<close>

definition lookup_service :: "system \<Rightarrow> byte list \<Rightarrow> flags \<Rightarrow> nat \<Rightarrow> byte list option" where
  "lookup_service y port flags buflen =
     (if port \<noteq> [0, 0] then
        let proto = (if has flags ARES_NI_UDP then bytes ''udp''
                     else if has flags ARES_NI_SCTP then bytes ''sctp''
                     else if has flags ARES_NI_DCCP then bytes ''dccp''
                     else bytes ''tcp'');
            sep = (if has flags ARES_NI_NUMERICSERV then None else y_service y port proto);
            tmpbuf = (case sep of Some name \<Rightarrow> name | None \<Rightarrow> dec (number_of False (port ! 0) (port ! 1)))
        in Some (if length tmpbuf < buflen then tmpbuf else [])
      else None)"

definition append_scopeid :: "system \<Rightarrow> byte list \<Rightarrow> flags \<Rightarrow> byte list \<Rightarrow> nat \<Rightarrow> byte list" where
  "append_scopeid y addr6 flags buf buflen =
     (let a = sin6_addr addr6; scope = sin6_scope_id (y_little y) addr6;
          is_ll = (a ! 0 = 0xfe \<and> a ! 1 AND 0xc0 = 0x80);
          is_mcll = (a ! 0 = 0xff \<and> a ! 1 AND 0xf = 2);
          name = (if has flags ARES_NI_NUMERICSCOPE \<or> \<not> is_ll \<and> \<not> is_mcll then dec scope
                  else case y_ifname y scope of None \<Rightarrow> dec scope | Some n \<Rightarrow> n);
          tmpbuf = take (IF_NAMESIZE + 1) (chr CHR ''%'' # name)
      in if length buf + length tmpbuf < buflen then buf @ tmpbuf else buf)"

text \<open>The text of an address of either family, in a buffer of \<^verbatim>\<open>IPBUFSIZ\<close> bytes; what the buffer holds
  when there is none.\<close>

definition address_text :: "int \<Rightarrow> byte list \<Rightarrow> byte list \<Rightarrow> byte list option" where
  "address_text family addr ipbuf = do {
     r \<leftarrow> ares_inet_ntop family addr IPBUFSIZ;
     Some (case r of Inl _ \<Rightarrow> ipbuf | Inr s \<Rightarrow> s)
   }"

text \<open>Whether \<open>s1\<close> at address \<open>p1\<close> ends with \<open>s2\<close> at address \<open>p2\<close>: the place where it does.  The loop
  leaves both pointers behind the strings.\<close>

definition ares_striendstr :: "nat \<Rightarrow> byte list \<Rightarrow> nat \<Rightarrow> byte list \<Rightarrow> nat option" where
  "ares_striendstr p1 s1 p2 s2 =
     (if length s2 > length s1 then None
      else if map tolower (drop (length s1 - length s2) s1) \<noteq> map tolower s2 then None
      else
        let c1 = p1 + length s1; c2 = p2 + length s2
        in if c2 = c1 \<and> c2 = 0 then Some (length s1 - length s2) else None)"

section \<open>Names\<close>

record nameinfo_query =
  nq_addr :: "byte list"
  nq_family :: int
  nq_flags :: flags
  nq_timeouts :: int

type_synonym nameinfo = "ares_status \<times> int \<times> byte list option \<times> byte list option"

definition nameinfo_callback :: "system \<Rightarrow> host_outcome \<Rightarrow> nameinfo_query \<Rightarrow> nameinfo option" where
  "nameinfo_callback y r nq = (case r of (status, timeouts, host) \<Rightarrow>
     let timeouts = nq_timeouts nq + timeouts; flags = nq_flags nq;
         service = (if has flags ARES_NI_LOOKUPSERVICE
                    then lookup_service y (sin_port (nq_addr nq)) flags 33 else None)
     in if status = ARES_SUCCESS then do {
          h \<leftarrow> host;
          let domain = dropWhile (\<lambda>c. c \<noteq> DOT) (take 254 (y_hostname y));
          let name = (if has flags ARES_NI_NOFQDN \<and> domain \<noteq> [] then
                        case ares_striendstr (fst (y_at y)) (h_name h) (snd (y_at y)) domain of
                          None \<Rightarrow> h_name h | Some e \<Rightarrow> take e (h_name h)
                      else h_name h);
          Some (ARES_SUCCESS, timeouts, Some name, service)
        }
        else if status = ARES_ENOTFOUND \<and> \<not> has flags ARES_NI_NAMEREQD then do {
          ipbuf \<leftarrow> (if nq_family nq = AF_INET then address_text AF_INET (sin_addr (nq_addr nq)) []
                    else do {
                      s \<leftarrow> address_text AF_INET6 (sin6_addr (nq_addr nq)) [];
                      Some (append_scopeid y (nq_addr nq) flags s IPBUFSIZ)
                    });
          Some (ARES_SUCCESS, timeouts, Some ipbuf, service)
        }
        else Some (status, timeouts, None, None))"

definition ares_getnameinfo ::
  "system \<Rightarrow> bool \<Rightarrow> (byte list \<Rightarrow> int \<Rightarrow> host_outcome option) \<Rightarrow> byte list \<Rightarrow> nat \<Rightarrow> flags \<Rightarrow> nameinfo option" where
  "ares_getnameinfo y ok gethostbyaddr sa salen flags =
     (let family = sa_family (y_little y) sa
      in if \<not> (family = AF_INET \<and> salen = SOCKADDR_IN \<or> family = AF_INET6 \<and> salen = SOCKADDR_IN6)
         then Some (ARES_ENOTIMP, 0, None, None)
         else
           let port = sin_port sa;
               flags = (if \<not> has flags ARES_NI_LOOKUPSERVICE \<and> \<not> has flags ARES_NI_LOOKUPHOST
                        then flags OR ARES_NI_LOOKUPHOST else flags)
           in if has flags ARES_NI_LOOKUPSERVICE \<and> \<not> has flags ARES_NI_LOOKUPHOST
              then Some (ARES_SUCCESS, 0, None, lookup_service y port flags 33)
              else if has flags ARES_NI_NUMERICHOST then
                if has flags ARES_NI_NAMEREQD then Some (ARES_EBADFLAGS, 0, None, None)
                else do {
                  ipbuf \<leftarrow> (if salen = SOCKADDR_IN6 then do {
                      s \<leftarrow> address_text AF_INET6 (sin6_addr sa) [];
                      Some (append_scopeid y sa flags s IPBUFSIZ)
                    }
                    else address_text AF_INET (sin_addr sa) []);
                  Some (ARES_SUCCESS, 0, Some ipbuf,
                    if has flags ARES_NI_LOOKUPSERVICE then lookup_service y port flags 33 else None)
                }
              else if \<not> ok then Some (ARES_ENOMEM, 0, None, None)
              else
                let fresh = map (y_junk y) [0..<SOCKADDR_IN6];
                    n = (if family = AF_INET then 4 else 16);
                    nq = \<lparr>nq_addr = take n sa @ drop n fresh, nq_family = family, nq_flags = flags, nq_timeouts = 0\<rparr>
                in do {
                  r \<leftarrow> gethostbyaddr (if family = AF_INET then sin_addr sa else sin6_addr sa) family;
                  nameinfo_callback y r nq
                })"

section \<open>Properties\<close>

lemma address_text4: "length a = 4 \<Longrightarrow> address_text AF_INET a buf = Some (dotted_quad a)"
  using ntop4_result [of a IPBUFSIZ] dotted_quad_length [of a]
  by (simp add: address_text_def ares_inet_ntop_def IPBUFSIZ_def)

lemma striendstr_never: "p2 \<noteq> 0 \<Longrightarrow> ares_striendstr p1 s1 p2 s2 = None"
  by (simp add: ares_striendstr_def Let_def)

lemma other_flag: "c AND d = 0 \<Longrightarrow> (f OR c) AND d = f AND (d :: flags)"
  by (simp add: bit.conj_disj_distrib2)

lemma nofqdn_other:
  "(f OR ARES_NI_NOFQDN) AND ARES_NI_LOOKUPSERVICE = f AND ARES_NI_LOOKUPSERVICE"
  "(f OR ARES_NI_NOFQDN) AND ARES_NI_NAMEREQD = f AND ARES_NI_NAMEREQD"
  "(f OR ARES_NI_NOFQDN) AND ARES_NI_NUMERICSERV = f AND ARES_NI_NUMERICSERV"
  "(f OR ARES_NI_NOFQDN) AND ARES_NI_UDP = f AND ARES_NI_UDP"
  "(f OR ARES_NI_NOFQDN) AND ARES_NI_SCTP = f AND ARES_NI_SCTP"
  "(f OR ARES_NI_NOFQDN) AND ARES_NI_DCCP = f AND ARES_NI_DCCP"
  "(f OR ARES_NI_NOFQDN) AND ARES_NI_NUMERICSCOPE = f AND ARES_NI_NUMERICSCOPE"
  by (rule other_flag, simp add: ARES_NI_NOFQDN_def ARES_NI_LOOKUPSERVICE_def ARES_NI_NAMEREQD_def
      ARES_NI_NUMERICSERV_def ARES_NI_UDP_def ARES_NI_SCTP_def ARES_NI_DCCP_def ARES_NI_NUMERICSCOPE_def)+

text \<open>
  C30: For the socket address of a version 4 host, the text that is asked for as a number is the
  address, and reads back as it; but when the host is asked for and not found, the text is that of
  four bytes of fresh memory instead: the query keeps only the first four bytes of the socket
  address, its family and port.
\<close>

theorem nameinfo_address:
  assumes "length sa = 16" "sa_family (y_little y) sa = AF_INET" "has flags ARES_NI_LOOKUPHOST"
    and "\<not> has flags ARES_NI_NAMEREQD" "gethostbyaddr (sin_addr sa) AF_INET = Some (ARES_ENOTFOUND, t, None)"
  shows "if has flags ARES_NI_NUMERICHOST
    then \<exists>s service. ares_getnameinfo y True gethostbyaddr sa 16 flags = Some (ARES_SUCCESS, 0, Some s, service) \<and>
      ares_inet_pton AF_INET s = Some (1, sin_addr sa)
    else \<exists>service. ares_getnameinfo y True gethostbyaddr sa 16 flags =
      Some (ARES_SUCCESS, t, Some (dotted_quad (map (y_junk y) [4..<8])), service)"
proof -
  have len: "length (sin_addr sa) = 4" using assms(1) by (simp add: sin_addr_def segment_def)
  have pton: "ares_inet_pton AF_INET (dotted_quad (sin_addr sa)) = Some (1, sin_addr sa)"
    using read_dotted_quad [OF len] by (simp add: inet_pton4 code_of_def)
  have "sin_addr (take 4 sa @ drop 4 (map (y_junk y) [0..<SOCKADDR_IN6])) = map (y_junk y) [4..<8]"
    using assms(1) by (simp add: sin_addr_def segment_def SOCKADDR_IN6_def upt_rec numeral_eq_Suc)
  with address_text4 [of "map (y_junk y) [4..<8]"] address_text4 [OF len] pton assms show ?thesis
    by (auto simp: ares_getnameinfo_def nameinfo_callback_def Let_def SOCKADDR_IN_def SOCKADDR_IN6_def families)
qed

text \<open>
  The flag that is to leave out the domain of the machine does nothing: the comparison that
  finds it ends with a test for a null pointer that never holds.
\<close>

lemma nofqdn_ignored:
  assumes "snd (y_at y) \<noteq> 0"
  shows "nameinfo_callback y r (nq\<lparr>nq_flags := f OR ARES_NI_NOFQDN\<rparr>) = nameinfo_callback y r (nq\<lparr>nq_flags := f\<rparr>)"
proof -
  have service: "lookup_service y p (f OR ARES_NI_NOFQDN) n = lookup_service y p f n" for p n
    unfolding lookup_service_def nofqdn_other ..
  have scope: "append_scopeid y a (f OR ARES_NI_NOFQDN) s n = append_scopeid y a f s n" for a s n
    unfolding append_scopeid_def nofqdn_other ..
  show ?thesis
    by (simp add: nameinfo_callback_def Let_def nofqdn_other service scope striendstr_never [OF assms]
        cong: if_cong split: prod.split)
qed

definition sample_system :: system where
  "sample_system =
     \<lparr>y_little = True, y_service = (\<lambda>_ _. None), y_ifname = (\<lambda>_. None), y_hostname = bytes ''a.b'',
      y_junk = (\<lambda>_. 7), y_at = (1000, 2000)\<rparr>"

lemma nameinfo_address_witness:
  "\<exists>service. ares_getnameinfo sample_system True (\<lambda>_ _. Some (ARES_ENOTFOUND, 3, None))
      [2, 0, 0, 80, 10, 0, 0, 1, 0, 0, 0, 0, 0, 0, 0, 0] 16 ARES_NI_LOOKUPHOST =
    Some (ARES_SUCCESS, 3, Some (dotted_quad [7, 7, 7, 7]), service)"
proof -
  have "\<not> has ARES_NI_LOOKUPHOST ARES_NI_NUMERICHOST" "has ARES_NI_LOOKUPHOST ARES_NI_LOOKUPHOST"
    "\<not> has ARES_NI_LOOKUPHOST ARES_NI_NAMEREQD"
    by (simp_all add: ARES_NI_LOOKUPHOST_def ARES_NI_NUMERICHOST_def ARES_NI_NAMEREQD_def)
  moreover have "map (y_junk sample_system) [4..<8] = [7, 7, 7, 7]" by code_simp
  ultimately show ?thesis
    using nameinfo_address [of "[2, 0, 0, 80, 10, 0, 0, 1, 0, 0, 0, 0, 0, 0, 0, 0]" sample_system ARES_NI_LOOKUPHOST
        "\<lambda>_ _. Some (ARES_ENOTFOUND, 3, None)" 3]
    by (simp add: sa_family_def number_of_def sample_system_def AF_INET_def)
qed

end
