(* ===== verification/Ares_Waiting.thy ===== *)
theory Ares_Waiting
  imports Ares_Session
begin

text \<open>
  What a client waits for: \<^verbatim>\<open>ares_timeout.c\<close>, \<^verbatim>\<open>ares_getsock.c\<close> and \<^verbatim>\<open>ares_fds.c\<close>.
\<close>

section \<open>The time to wait\<close>

primrec min_offset :: "timeval \<Rightarrow> (address \<Rightarrow> query option) \<Rightarrow> address list \<Rightarrow> int \<Rightarrow> int option" where
  "min_offset now heap [] m = Some m"
| "min_offset now heap (q # qs) m = do {
     x \<leftarrow> heap q;
     if tv_sec (q_timeout x) = 0 then min_offset now heap qs m
     else
       let offset = ares__timeoffset now (q_timeout x);
           offset = (if offset < 0 then 0 else offset)
       in min_offset now heap qs (if m = -1 \<or> offset < m then offset else m)
   }"

definition ares_timeout :: "timeval \<Rightarrow> timeval option \<Rightarrow> channel \<Rightarrow> timeval option option" where
  "ares_timeout now maxtv c =
     (if c_all_queries c = [] then Some maxtv
      else do {
        m \<leftarrow> min_offset now (c_heap c) (c_all_queries c) (-1);
        let nextstop = \<lparr>tv_sec = m sdiv 1000, tv_usec = (m smod 1000) * 1000\<rparr>;
        if m \<noteq> -1 \<and> (case maxtv of None \<Rightarrow> True | Some t \<Rightarrow> ares__timedout t nextstop)
        then Some (Some nextstop) else Some maxtv
      })"

section \<open>The sockets to wait for\<close>

definition ARES_GETSOCK_MAXNUM :: nat where "ARES_GETSOCK_MAXNUM = 16"

text \<open>A shift by the width of a number or more is undefined.\<close>

definition ARES_GETSOCK_READABLE :: "32 word \<Rightarrow> nat \<Rightarrow> 32 word option" where
  "ARES_GETSOCK_READABLE bits num = (if num < 32 then Some (bits AND push_bit num 1) else None)"

definition ARES_GETSOCK_WRITABLE :: "32 word \<Rightarrow> nat \<Rightarrow> 32 word option" where
  "ARES_GETSOCK_WRITABLE bits num = (if num + 16 < 32 then Some (bits AND push_bit (num + 16) 1) else None)"

text \<open>The loop over the servers: the sockets found so far and the bitmap.  Each of the two parts of
  its body may leave it.\<close>

definition getsock_udp ::
  "nat \<Rightarrow> bool \<Rightarrow> server_state \<Rightarrow> sock list \<times> 32 word \<Rightarrow> (bool \<times> sock list \<times> 32 word) option" where
  "getsock_udp n active s r = (case r of (socks, bitmap) \<Rightarrow>
     (case s_udp_socket s of
        Some k \<Rightarrow>
          if \<not> active then Some (False, r)
          else if length socks \<ge> n then Some (True, r)
          else do {
            b \<leftarrow> ARES_GETSOCK_READABLE (- 1) (length socks);
            Some (False, socks @ [k], bitmap OR b)
          }
      | None \<Rightarrow> Some (False, r)))"

definition getsock_tcp ::
  "nat \<Rightarrow> bool \<Rightarrow> server_state \<Rightarrow> sock list \<times> 32 word \<Rightarrow> (bool \<times> sock list \<times> 32 word) option" where
  "getsock_tcp n active s r = (case r of (socks, bitmap) \<Rightarrow>
     (case s_tcp_socket s of
        Some k \<Rightarrow>
          if length socks \<ge> n then Some (True, r)
          else do {
            b \<leftarrow> ARES_GETSOCK_READABLE (- 1) (length socks);
            w \<leftarrow> (if s_queue s \<noteq> [] \<and> active then ARES_GETSOCK_WRITABLE (- 1) (length socks) else Some 0);
            Some (False, socks @ [k], (bitmap OR b) OR w)
          }
      | None \<Rightarrow> Some (False, r)))"

primrec getsock_loop ::
  "nat \<Rightarrow> bool \<Rightarrow> server_state list \<Rightarrow> sock list \<times> 32 word \<Rightarrow> (sock list \<times> 32 word) option" where
  "getsock_loop n active [] r = Some r"
| "getsock_loop n active (s # ss) r =
     (if length (fst r) \<ge> ARES_GETSOCK_MAXNUM then Some r
      else do {
        (over, r) \<leftarrow> getsock_udp n active s r;
        if over then Some r
        else do {
          (over, r) \<leftarrow> getsock_tcp n active s r;
          if over then Some r else getsock_loop n active ss r
        }
      })"

definition ares_getsock :: "nat \<Rightarrow> channel \<Rightarrow> (sock list \<times> 32 word) option" where
  "ares_getsock n c = getsock_loop n (c_all_queries c \<noteq> []) (c_servers c) ([], 0)"

text \<open>The sets of sockets to read from and to write to, and one more than the largest of them.\<close>

fun fds_loop :: "bool \<Rightarrow> server_state list \<Rightarrow> sock set \<Rightarrow> sock set \<Rightarrow> nat \<Rightarrow> sock set \<times> sock set \<times> nat" where
  "fds_loop active [] rs ws nfds = (rs, ws, nfds)"
| "fds_loop active (s # ss) rs ws nfds =
     (let (rs, nfds) =
        (case (if active then s_udp_socket s else None) of
           None \<Rightarrow> (rs, nfds)
         | Some k \<Rightarrow> (insert k rs, if k \<ge> nfds then k + 1 else nfds))
      in case s_tcp_socket s of
           None \<Rightarrow> fds_loop active ss rs ws nfds
         | Some k \<Rightarrow> fds_loop active ss (insert k rs) (if s_queue s \<noteq> [] then insert k ws else ws)
             (if k \<ge> nfds then k + 1 else nfds))"

definition ares_fds :: "sock set \<Rightarrow> sock set \<Rightarrow> channel \<Rightarrow> sock set \<times> sock set \<times> nat" where
  "ares_fds rs ws c = fds_loop (c_all_queries c \<noteq> []) (c_servers c) rs ws 0"

section \<open>How long a client waits\<close>

definition micros :: "timeval \<Rightarrow> int" where
  "micros t = tv_sec t * 1000000 + tv_usec t"

text \<open>The microseconds that a query still has.\<close>

definition left :: "timeval \<Rightarrow> query \<Rightarrow> int" where
  "left now x = max 0 (micros (q_timeout x) - micros now)"

lemma sdiv_1000: "\<bar>1000 * (a sdiv 1000) - a\<bar> < 1000" for a :: int
proof -
  have "1000 * (\<bar>a\<bar> div 1000) = \<bar>a\<bar> - \<bar>a\<bar> mod 1000" by (rule minus_mod_eq_mult_div [symmetric])
  moreover have "0 \<le> \<bar>a\<bar> mod 1000" "\<bar>a\<bar> mod 1000 < 1000" by simp_all
  moreover have "a sdiv 1000 = (if a < 0 then - (\<bar>a\<bar> div 1000) else \<bar>a\<bar> div 1000)"
    by (simp add: signed_divide_int_def sgn_if)
  ultimately show ?thesis by (auto simp: abs_if split: if_splits)
qed

lemma offset_left:
  fixes now x
  defines "d \<equiv> ares__timeoffset now (q_timeout x)"
  shows "\<bar>1000 * (if d < 0 then 0 else d) - left now x\<bar> < 1000"
  using sdiv_1000 [of "tv_usec (q_timeout x) - tv_usec now"]
  by (simp add: d_def ares__timeoffset_def left_def micros_def max_def abs_if split: if_splits)

text \<open>The offset that counts for a query.\<close>

definition offset :: "timeval \<Rightarrow> query \<Rightarrow> int" where
  "offset now x = (let d = ares__timeoffset now (q_timeout x) in if d < 0 then 0 else d)"

lemma min_offset_ok:
  assumes "\<forall>q \<in> set qs. \<exists>x. heap q = Some x \<and> tv_sec (q_timeout x) \<noteq> 0" "-1 \<le> m"
  shows "\<exists>r. min_offset now heap qs m = Some r \<and> (r = -1 \<longleftrightarrow> m = -1 \<and> qs = []) \<and> -1 \<le> r \<and> (m \<noteq> -1 \<longrightarrow> r \<le> m) \<and>
    (\<forall>q \<in> set qs. \<forall>x. heap q = Some x \<longrightarrow> r \<le> offset now x) \<and>
    (r = m \<or> (\<exists>q \<in> set qs. \<exists>x. heap q = Some x \<and> r = offset now x))"
  using assms
proof (induction qs arbitrary: m)
  case (Cons q qs)
  then obtain x where x: "heap q = Some x" "tv_sec (q_timeout x) \<noteq> 0" by auto
  let ?m = "if m = -1 \<or> offset now x < m then offset now x else m"
  have m: "-1 \<le> ?m" "?m \<noteq> -1" using Cons.prems(2) by (auto simp: offset_def Let_def)
  have "min_offset now heap (q # qs) m = min_offset now heap qs ?m"
    using x by (simp add: offset_def Let_def)
  moreover from Cons.IH [of ?m] Cons.prems(1) m obtain r where "min_offset now heap qs ?m = Some r"
    "r \<noteq> -1" "-1 \<le> r" "r \<le> ?m" "\<forall>q \<in> set qs. \<forall>x. heap q = Some x \<longrightarrow> r \<le> offset now x"
    "r = ?m \<or> (\<exists>q \<in> set qs. \<exists>x. heap q = Some x \<and> r = offset now x)"
    by auto
  ultimately show ?case using x(1) by (auto split: if_splits)
qed simp

text \<open>The time of a number of milliseconds, compared with one that is given.\<close>

lemma nextstop_micros: "0 \<le> m \<Longrightarrow> micros \<lparr>tv_sec = m sdiv 1000, tv_usec = (m smod 1000) * 1000\<rparr> = 1000 * m"
proof -
  assume "0 \<le> m"
  then have "m sdiv 1000 = m div 1000" "m smod 1000 = m mod 1000"
    by (cases "m = 0"; simp add: signed_divide_int_def signed_modulo_int_def)+
  moreover have "m div 1000 * 1000 + m mod 1000 = m" by (rule div_mult_mod_eq)
  ultimately show ?thesis unfolding micros_def timeval.select_convs by linarith
qed

lemma nextstop_usec: "0 \<le> m \<Longrightarrow> 0 \<le> (m smod 1000) * 1000 \<and> (m smod 1000) * 1000 < 1000000" for m :: int
  by (cases "m = 0") (simp_all add: signed_divide_int_def signed_modulo_int_def)

lemma timedout_micros:
  assumes "0 \<le> tv_usec a" "tv_usec a < 1000000" "0 \<le> tv_usec b" "tv_usec b < 1000000"
  shows "ares__timedout a b \<longleftrightarrow> micros b \<le> micros a"
  using assms by (auto simp: ares__timedout_def micros_def Let_def)

text \<open>
  C25: A client that waits as long as \<^verbatim>\<open>ares_timeout\<close> says does not sleep over the time of a query
  by a millisecond, nor over the time it gave itself; and it waits until one of them, again to the
  millisecond.
\<close>

theorem timeout_bounds:
  assumes "channel_at c" "\<forall>m. maxtv = Some m \<longrightarrow> 0 \<le> tv_usec m \<and> tv_usec m < 1000000"
  shows "\<exists>r. ares_timeout now maxtv c = Some r \<and> (r = None \<longleftrightarrow> maxtv = None \<and> c_all_queries c = []) \<and>
    (\<forall>t. r = Some t \<longrightarrow>
       (\<forall>q x. c_heap c q = Some x \<longrightarrow> micros t < left now x + 1000) \<and>
       (\<forall>m. maxtv = Some m \<longrightarrow> micros t \<le> micros m) \<and>
       (maxtv = Some t \<or> (\<exists>q x. c_heap c q = Some x \<and> left now x < micros t + 1000)))"
proof (cases "c_all_queries c = []")
  case True
  then have "c_heap c q = None" for q
    using channel_at_ok [OF assms(1)] by (auto simp: chan_ok_def heap_ok_def dom_def)
  with True show ?thesis by (simp add: ares_timeout_def)
next
  case False
  let ?qs = "c_all_queries c"
  have ok: "chan_ok {} c" by (rule channel_at_ok [OF assms(1)])
  then have dom: "set ?qs = dom (c_heap c)" by (simp add: chan_ok_def heap_ok_def)
  have "\<exists>x. c_heap c q = Some x \<and> tv_sec (q_timeout x) \<noteq> 0" if "q \<in> set ?qs" for q
    using that ok dom by (fastforce simp: chan_ok_def timers_ok_def config_ok_def)
  then have "\<forall>q \<in> set ?qs. \<exists>x. c_heap c q = Some x \<and> tv_sec (q_timeout x) \<noteq> 0" by blast
  from min_offset_ok [OF this, of "-1" now] False obtain m where m: "min_offset now (c_heap c) ?qs (-1) = Some m"
    "m \<noteq> -1" "-1 \<le> m" "\<forall>q \<in> set ?qs. \<forall>x. c_heap c q = Some x \<longrightarrow> m \<le> offset now x"
    "\<exists>q \<in> set ?qs. \<exists>x. c_heap c q = Some x \<and> m = offset now x"
    by auto
  have pos: "0 \<le> m" using m(2,3) by simp
  define next_stop where "next_stop = \<lparr>tv_sec = m sdiv 1000, tv_usec = (m smod 1000) * 1000\<rparr>"
  have n: "micros next_stop = 1000 * m" "0 \<le> tv_usec next_stop" "tv_usec next_stop < 1000000"
    using nextstop_micros [OF pos] nextstop_usec [OF pos] by (simp_all add: next_stop_def)
  have le: "1000 * m < left now x + 1000" if "c_heap c q = Some x" for q x
    using m(4) that dom offset_left [of now x] by (fastforce simp: offset_def Let_def abs_less_iff)
  obtain q x where x: "c_heap c q = Some x" "m = offset now x" using m(5) by blast
  then have x: "c_heap c q = Some x" "left now x < 1000 * m + 1000"
    using offset_left [of now x] by (auto simp: offset_def Let_def abs_less_iff)
  let ?use = "case maxtv of None \<Rightarrow> True | Some t \<Rightarrow> ares__timedout t next_stop"
  have run: "ares_timeout now maxtv c = Some (if ?use then Some next_stop else maxtv)"
    using False m(1,2) unfolding ares_timeout_def next_stop_def Let_def by simp
  show ?thesis
  proof (cases maxtv)
    case None
    then show ?thesis using run False le x n(1) by auto
  next
    case (Some t)
    then have "ares__timedout t next_stop \<longleftrightarrow> 1000 * m \<le> micros t"
      using timedout_micros [of t next_stop] assms(2) n by simp
    with Some run False le x n(1) show ?thesis by (cases "1000 * m \<le> micros t") fastforce+
  qed
qed

lemma timeout_bounds_witness:
  "ares_timeout (sample_time 3) (Some (sample_time 1)) sample_waiting = Some (Some (sample_time 1)) \<or>
   (\<exists>t. ares_timeout (sample_time 3) (Some (sample_time 1)) sample_waiting = Some (Some t) \<and> micros t \<le> 1000000)"
  using timeout_bounds [OF sample_waiting_at(1), of "Some (sample_time 1)" "sample_time 3"]
  by (auto simp: sample_time_def micros_def)

section \<open>Which sockets a client waits for\<close>

text \<open>The sockets of a server that matter, and whether something is to be written.\<close>

definition wanted :: "bool \<Rightarrow> server_state \<Rightarrow> (sock \<times> bool) list" where
  "wanted active s =
     (case s_udp_socket s of Some k \<Rightarrow> if active then [(k, False)] else [] | None \<Rightarrow> []) @
     (case s_tcp_socket s of Some k \<Rightarrow> [(k, s_queue s \<noteq> [])] | None \<Rightarrow> [])"

definition wanted_by :: "channel \<Rightarrow> (sock \<times> bool) list" where
  "wanted_by c = concat (map (wanted (c_all_queries c \<noteq> [])) (c_servers c))"

text \<open>The sockets and the bitmap that stand for such a list.\<close>

definition bitmap_of :: "bool \<Rightarrow> (sock \<times> bool) list \<Rightarrow> sock list \<times> 32 word \<Rightarrow> bool" where
  "bitmap_of active ws r \<longleftrightarrow>
     fst r = map fst ws \<and>
     (\<forall>i < 32. bit (snd r) i \<longleftrightarrow>
        (if i < 16 then i < length ws else i - 16 < length ws \<and> active \<and> snd (ws ! (i - 16))))"

lemma readable_bit: "n < 32 \<Longrightarrow> ARES_GETSOCK_READABLE (- 1) n = Some (push_bit n 1)"
  and writable_bit: "n < 16 \<Longrightarrow> ARES_GETSOCK_WRITABLE (- 1) n = Some (push_bit (n + 16) 1)"
  by (simp_all add: ARES_GETSOCK_READABLE_def ARES_GETSOCK_WRITABLE_def)

lemma bit_single: "bit (push_bit n 1 :: 32 word) i \<longleftrightarrow> i = n \<and> n < 32"
  by (auto simp: bit_exp_iff)

text \<open>A socket is added, unless there is no room.\<close>

lemma bitmap_add:
  assumes "bitmap_of active ws (socks, b)" "length ws < 16"
  shows "bitmap_of active (ws @ [(k, w)]) (socks @ [k], (b OR push_bit (length ws) 1) OR
    (if w \<and> active then push_bit (length ws + 16) 1 else 0))"
proof -
  define p where "p = (push_bit (length ws) 1 :: 32 word)"
  define q where "q = (if w \<and> active then push_bit (length ws + 16) 1 else 0 :: 32 word)"
  have "bit p i \<longleftrightarrow> i = length ws" "bit q i \<longleftrightarrow> i = length ws + 16 \<and> w \<and> active" for i
    using assms(2) bit_single [of "length ws" i] bit_single [of "length ws + 16" i]
    by (auto simp: p_def q_def simp del: push_bit_of_1)
  then show ?thesis
    using assms unfolding bitmap_of_def fst_conv snd_conv bit_or_iff p_def [symmetric] q_def [symmetric]
    by (auto simp: nth_append)
qed

definition added :: "nat \<Rightarrow> bool \<Rightarrow> (sock \<times> bool) list \<Rightarrow> (sock \<times> bool) list \<Rightarrow> bool \<times> sock list \<times> 32 word \<Rightarrow> bool" where
  "added n active ws us x \<longleftrightarrow>
     (\<exists>vs. bitmap_of active vs (snd x) \<and> length vs \<le> n \<and>
        (if fst x then vs = ws \<and> length ws = n \<and> us \<noteq> [] else vs = ws @ us))"

lemma added_None: "bitmap_of active ws r \<Longrightarrow> length ws \<le> n \<Longrightarrow> added n active ws [] (False, r)"
  and added_full: "bitmap_of active ws r \<Longrightarrow> length ws = n \<Longrightarrow> us \<noteq> [] \<Longrightarrow> added n active ws us (True, r)"
  and added_one: "bitmap_of active (ws @ [u]) r \<Longrightarrow> length ws < n \<Longrightarrow> added n active ws [u] (False, r)"
  by (auto simp: added_def)

lemma getsock_udp_ok:
  assumes "bitmap_of active ws r" "length ws \<le> n" "n \<le> 16"
  shows "\<exists>x. getsock_udp n active s r = Some x \<and>
    added n active ws (case s_udp_socket s of Some k \<Rightarrow> if active then [(k, False)] else [] | None \<Rightarrow> []) x"
proof -
  obtain socks b where r: "r = (socks, b)" by (cases r)
  with assms(1) have socks: "length socks = length ws" by (simp add: bitmap_of_def)
  consider "s_udp_socket s = None" | k where "s_udp_socket s = Some k" "\<not> active"
    | k where "s_udp_socket s = Some k" active "length ws = n"
    | k where "s_udp_socket s = Some k" active "length ws < n"
    using assms(2) by (cases "s_udp_socket s") force+
  then show ?thesis
  proof cases
    case 4
    have "bitmap_of active (ws @ [(k, False)]) (socks @ [k], b OR push_bit (length ws) 1)"
      using bitmap_add [of active ws socks b k False] assms 4(3) by (simp add: r del: push_bit_of_1)
    with 4 assms(3) socks show ?thesis
      by (simp add: getsock_udp_def r readable_bit added_one del: push_bit_of_1)
  qed (use assms socks in \<open>simp_all add: getsock_udp_def r added_None added_full\<close>)
qed

lemma getsock_tcp_ok:
  assumes "bitmap_of active ws r" "length ws \<le> n" "n \<le> 16"
  shows "\<exists>x. getsock_tcp n active s r = Some x \<and>
    added n active ws (case s_tcp_socket s of Some k \<Rightarrow> [(k, s_queue s \<noteq> [])] | None \<Rightarrow> []) x"
proof -
  obtain socks b where r: "r = (socks, b)" by (cases r)
  with assms(1) have socks: "length socks = length ws" by (simp add: bitmap_of_def)
  consider "s_tcp_socket s = None" | k where "s_tcp_socket s = Some k" "length ws = n"
    | k where "s_tcp_socket s = Some k" "length ws < n"
    using assms(2) by (cases "s_tcp_socket s") force+
  then show ?thesis
  proof cases
    case 3
    let ?w = "s_queue s \<noteq> []"
    have b: "bitmap_of active (ws @ [(k, ?w)]) (socks @ [k], (b OR push_bit (length ws) 1) OR
        (if ?w \<and> active then push_bit (length ws + 16) 1 else 0))"
      using bitmap_add [of active ws socks b k ?w] assms 3(2) by (simp add: r)
    show ?thesis
    proof (cases "?w \<and> active")
      case True
      with b 3 assms(3) socks show ?thesis
        by (simp add: getsock_tcp_def r readable_bit writable_bit added_one del: push_bit_of_1)
    next
      case False
      with b 3 assms(3) socks show ?thesis
        by (cases "s_queue s = []") (simp_all add: getsock_tcp_def r readable_bit added_one del: push_bit_of_1)
    qed
  qed (use assms socks in \<open>simp_all add: getsock_tcp_def r added_None added_full\<close>)
qed

lemma getsock_loop_ok:
  assumes "bitmap_of active ws r" "length ws \<le> n" "n \<le> 16"
  shows "\<exists>r'. getsock_loop n active ss r = Some r' \<and>
    bitmap_of active (take n (ws @ concat (map (wanted active) ss))) r'"
  using assms(1,2)
proof (induction ss arbitrary: ws r)
  case Nil
  then show ?case by simp
next
  case (Cons s ss)
  show ?case
  proof (cases "length (fst r) \<ge> ARES_GETSOCK_MAXNUM")
    case True
    then have "length ws = n" using Cons.prems assms(3) by (simp add: bitmap_of_def ARES_GETSOCK_MAXNUM_def)
    with True Cons.prems show ?thesis by simp
  next
    case False
    let ?us = "case s_udp_socket s of Some k \<Rightarrow> if active then [(k, False)] else [] | None \<Rightarrow> []"
    let ?ts = "case s_tcp_socket s of Some k \<Rightarrow> [(k, s_queue s \<noteq> [])] | None \<Rightarrow> []"
    from getsock_udp_ok [OF Cons.prems assms(3), of s] obtain over r1
      where u: "getsock_udp n active s r = Some (over, r1)" "added n active ws ?us (over, r1)" by auto
    show ?thesis
    proof (cases over)
      case True
      with u False show ?thesis by (auto simp: added_def)
    next
      case u_on: False
      with u have b: "bitmap_of active (ws @ ?us) r1" "length (ws @ ?us) \<le> n" by (auto simp: added_def)
      from getsock_tcp_ok [OF b assms(3), of s] obtain over' r2
        where t: "getsock_tcp n active s r1 = Some (over', r2)" "added n active (ws @ ?us) ?ts (over', r2)" by auto
      show ?thesis
      proof (cases over')
        case True
        with t u u_on False show ?thesis by (auto simp: added_def wanted_def)
      next
        case t_on: False
        with t have "bitmap_of active ((ws @ ?us) @ ?ts) r2" "length ((ws @ ?us) @ ?ts) \<le> n"
          by (auto simp: added_def)
        from Cons.IH [OF this] t(1) u(1) t_on u_on False show ?thesis by (simp add: wanted_def)
      qed
    qed
  qed
qed

lemma fds_step:
  "fds_loop active (s # ss) rs ws n =
     fds_loop active ss (rs \<union> fst ` set (wanted active s)) (ws \<union> fst ` set (filter snd (wanted active s)))
       (foldl max n (map (Suc \<circ> fst) (wanted active s)))"
proof -
  have "(if k \<ge> n then k + 1 else n) = max n (Suc k)" for k n :: nat by simp
  then show ?thesis
    by (cases "s_udp_socket s"; cases "s_tcp_socket s"; cases active) (simp_all add: wanted_def insert_commute)
qed

lemma fds_loop_eq:
  "fds_loop active ss rs ws n =
     (rs \<union> fst ` set (concat (map (wanted active) ss)),
      ws \<union> fst ` set (filter snd (concat (map (wanted active) ss))),
      foldl max n (map (Suc \<circ> fst) (concat (map (wanted active) ss))))"
  by (induction ss arbitrary: rs ws n)
    (simp_all add: fds_step image_Un Un_assoc del: fds_loop.simps(2) set_filter set_concat)

lemma foldl_max: "foldl max n ks = Max (insert n (set ks))" for n :: nat
  using Max.set_eq_fold [of n ks] by (simp add: foldl_conv_fold max.commute)

text \<open>
  C26: The sockets that a client is told to wait for are the UDP sockets, while there are queries, and
  the TCP sockets of the servers, in their order.  \<^verbatim>\<open>ares_fds\<close> adds all of them to the set to read, and
  to the set to write the TCP sockets of the servers for which something is queued.  \<^verbatim>\<open>ares_getsock\<close>,
  with an array of at most 16, the number that its bitmap is for, gives as many of them as there is
  room for; the bitmap marks each to be read, and to be written a TCP socket for which something is
  queued, but only while there are queries.
\<close>

theorem waits_for_wanted:
  assumes "n \<le> 16"
  shows "(\<exists>r. ares_getsock n c = Some r \<and> bitmap_of (c_all_queries c \<noteq> []) (take n (wanted_by c)) r) \<and>
    ares_fds rs ws c = (rs \<union> fst ` set (wanted_by c), ws \<union> fst ` set (filter snd (wanted_by c)),
      Max (insert 0 ((Suc \<circ> fst) ` set (wanted_by c))))"
proof
  have "bitmap_of (c_all_queries c \<noteq> []) [] ([], 0)" by (simp add: bitmap_of_def)
  from getsock_loop_ok [OF this _ assms, of "c_servers c"]
  show "\<exists>r. ares_getsock n c = Some r \<and> bitmap_of (c_all_queries c \<noteq> []) (take n (wanted_by c)) r"
    by (simp add: ares_getsock_def wanted_by_def)
  show "ares_fds rs ws c = (rs \<union> fst ` set (wanted_by c), ws \<union> fst ` set (filter snd (wanted_by c)),
      Max (insert 0 ((Suc \<circ> fst) ` set (wanted_by c))))"
    unfolding ares_fds_def fds_loop_eq foldl_max wanted_by_def by (simp only: list.set_map)
qed

lemma waits_for_wanted_witness:
  "\<exists>r. ares_getsock 16 sample_queued = Some r \<and> fst r = [3] \<and> bit (snd r) 0 \<and> bit (snd r) 16 \<and> \<not> bit (snd r) 1"
proof -
  have w: "c_all_queries sample_queued \<noteq> []" "wanted_by sample_queued = [(3, True)]"
    by (simp_all add: sample_queued_def sample_defs sending_defs Let_def wanted_by_def wanted_def)
  from waits_for_wanted [of 16 sample_queued "{}" "{}"] obtain r
    where "ares_getsock 16 sample_queued = Some r" "bitmap_of True [(3, True)] r"
    using w by auto
  moreover from this(2) have "\<forall>i < 32. bit (snd r) i \<longleftrightarrow> i = 0 \<or> i = 16"
    by (auto simp: bitmap_of_def less_Suc_eq)
  ultimately show ?thesis by (auto simp: bitmap_of_def)
qed

end
