(* ===== verification/Ares_Llist.thy ===== *)
theory Ares_Llist
  imports Ares_Base
begin

text \<open>
  The linked lists of c-ares, \<^verbatim>\<open>ares_llist.c\<close>: circular lists through nodes on a heap, with a head
  that carries no data.  Every access goes through the heap, in the order of the code, so that nodes
  may be the same; an access through a null pointer or to no node is \<open>None\<close>.  A ring of nodes
  represents a list, and the operations on nodes are those on lists.
\<close>

section \<open>Nodes\<close>

type_synonym node = nat

record list_node =
  n_prev :: "node option"
  n_next :: "node option"
  n_data :: "nat option"

type_synonym nodes = "node \<Rightarrow> list_node option"

text \<open>Writing through a pointer.\<close>

definition set_prev :: "node option \<Rightarrow> node option \<Rightarrow> nodes \<Rightarrow> nodes option" where
  "set_prev p v h = do { p \<leftarrow> p; n \<leftarrow> h p; Some (h(p \<mapsto> n\<lparr>n_prev := v\<rparr>)) }"

definition set_next :: "node option \<Rightarrow> node option \<Rightarrow> nodes \<Rightarrow> nodes option" where
  "set_next p v h = do { p \<leftarrow> p; n \<leftarrow> h p; Some (h(p \<mapsto> n\<lparr>n_next := v\<rparr>)) }"

definition set_data :: "node option \<Rightarrow> nat option \<Rightarrow> nodes \<Rightarrow> nodes option" where
  "set_data p v h = do { p \<leftarrow> p; n \<leftarrow> h p; Some (h(p \<mapsto> n\<lparr>n_data := v\<rparr>)) }"

section \<open>Operations\<close>

definition ares__init_list_head :: "node \<Rightarrow> nodes \<Rightarrow> nodes option" where
  "ares__init_list_head head h = do {
     h \<leftarrow> set_prev (Some head) (Some head) h;
     h \<leftarrow> set_next (Some head) (Some head) h;
     set_data (Some head) None h
   }"

definition ares__init_list_node :: "node \<Rightarrow> nat option \<Rightarrow> nodes \<Rightarrow> nodes option" where
  "ares__init_list_node node d h = do {
     h \<leftarrow> set_prev (Some node) None h;
     h \<leftarrow> set_next (Some node) None h;
     set_data (Some node) d h
   }"

definition ares__is_list_empty :: "node \<Rightarrow> nodes \<Rightarrow> bool option" where
  "ares__is_list_empty head h = do {
     n \<leftarrow> h head;
     Some (n_next n = Some head \<and> n_prev n = Some head)
   }"

definition ares__insert_in_list :: "node \<Rightarrow> node \<Rightarrow> nodes \<Rightarrow> nodes option" where
  "ares__insert_in_list new_node old_node h = do {
     h \<leftarrow> set_next (Some new_node) (Some old_node) h;
     old \<leftarrow> h old_node;
     h \<leftarrow> set_prev (Some new_node) (n_prev old) h;
     old \<leftarrow> h old_node;
     h \<leftarrow> set_next (n_prev old) (Some new_node) h;
     set_prev (Some old_node) (Some new_node) h
   }"

definition ares__remove_from_list :: "node \<Rightarrow> nodes \<Rightarrow> nodes option" where
  "ares__remove_from_list node h = do {
     n \<leftarrow> h node;
     if n_next n \<noteq> None then do {
       h \<leftarrow> set_next (n_prev n) (n_next n) h;
       n \<leftarrow> h node;
       h \<leftarrow> set_prev (n_next n) (n_prev n) h;
       h \<leftarrow> set_prev (Some node) None h;
       set_next (Some node) None h
     } else Some h
   }"

definition move_list :: "bool \<Rightarrow> list_node \<Rightarrow> node \<Rightarrow> nodes \<Rightarrow> nodes option" where
  "move_list is_empty old head h =
     (if is_empty then ares__init_list_head head h
      else do {
        h \<leftarrow> (if h head = None then None else Some (h(head \<mapsto> old)));
        h \<leftarrow> set_prev (n_next old) (Some head) h;
        set_next (n_prev old) (Some head) h
      })"

definition ares__swap_lists :: "node \<Rightarrow> node \<Rightarrow> nodes \<Rightarrow> nodes option" where
  "ares__swap_lists head_a head_b h = do {
     is_a_empty \<leftarrow> ares__is_list_empty head_a h;
     is_b_empty \<leftarrow> ares__is_list_empty head_b h;
     old_a \<leftarrow> h head_a;
     old_b \<leftarrow> h head_b;
     h \<leftarrow> move_list is_a_empty old_a head_b h;
     move_list is_b_empty old_b head_a h
   }"

section \<open>Rings\<close>

text \<open>The links of a heap, from one node over the others.\<close>

definition nx :: "nodes \<Rightarrow> node \<Rightarrow> node option" where
  "nx h p = Option.bind (h p) n_next"

definition pv :: "nodes \<Rightarrow> node \<Rightarrow> node option" where
  "pv h p = Option.bind (h p) n_prev"

fun chain :: "(node \<Rightarrow> node option) \<Rightarrow> (node \<Rightarrow> node option) \<Rightarrow> node \<Rightarrow> node list \<Rightarrow> bool" where
  "chain f g a [] = True"
| "chain f g a (b # bs) \<longleftrightarrow> f a = Some b \<and> g b = Some a \<and> chain f g b bs"

definition ring :: "nodes \<Rightarrow> node \<Rightarrow> node list \<Rightarrow> bool" where
  "ring h head xs \<longleftrightarrow> distinct (head # xs) \<and> chain (nx h) (pv h) head (xs @ [head])"

lemma chain_append: "chain f g a (bs @ cs) \<longleftrightarrow> chain f g a bs \<and> chain f g (last (a # bs)) cs"
  by (induction bs arbitrary: a) auto

text \<open>A chain looks at the next pointers of all its nodes but the last and at the previous pointers
  of all but the first.\<close>

lemma chain_cong:
  assumes "\<And>p. p \<in> set (butlast (a # bs)) \<Longrightarrow> f' p = f p" "\<And>p. p \<in> set bs \<Longrightarrow> g' p = g p"
  shows "chain f' g' a bs = chain f g a bs"
  using assms by (induction bs arbitrary: a) (auto split: if_splits)

lemma set_Some_simps [simp]:
  "set_prev (Some p) v h = (case h p of None \<Rightarrow> None | Some n \<Rightarrow> Some (h(p \<mapsto> n\<lparr>n_prev := v\<rparr>)))"
  "set_next (Some p) v h = (case h p of None \<Rightarrow> None | Some n \<Rightarrow> Some (h(p \<mapsto> n\<lparr>n_next := v\<rparr>)))"
  "set_data (Some p) d h = (case h p of None \<Rightarrow> None | Some n \<Rightarrow> Some (h(p \<mapsto> n\<lparr>n_data := d\<rparr>)))"
  by (auto simp: set_prev_def set_next_def set_data_def split: option.split)

text \<open>What an operation leaves: the same nodes with the same data.\<close>

definition same_nodes :: "nodes \<Rightarrow> nodes \<Rightarrow> bool" where
  "same_nodes h h' \<longleftrightarrow> (\<forall>p. map_option n_data (h' p) = map_option n_data (h p))"

lemma ring_alloc:
  assumes "ring h head xs" "p \<in> insert head (set xs)"
  shows "\<exists>n. h p = Some n"
proof -
  have "chain (nx h) (pv h) a bs \<Longrightarrow> q \<in> set bs \<Longrightarrow> pv h q \<noteq> None" for a bs q
    by (induction bs arbitrary: a) auto
  then have "pv h p \<noteq> None" using assms by (auto simp: ring_def)
  then show ?thesis by (auto simp: pv_def split: bind_splits)
qed

text \<open>The effect of an operation on the links.\<close>

lemma insert_links:
  assumes new: "h new = Some m" and old: "h old = Some n" "n_prev n = Some p" and p: "h p = Some k"
    and ne: "new \<noteq> old" "new \<noteq> p"
  obtains h' where "ares__insert_in_list new old h = Some h'" "same_nodes h h'"
    "nx h' = (nx h)(new := Some old, p := Some new)" "pv h' = (pv h)(new := Some p, old := Some new)"
proof
  let ?h = "h(new \<mapsto> m\<lparr>n_next := Some old, n_prev := Some p\<rparr>)"
  let ?h' = "(?h(p \<mapsto> (the (?h p))\<lparr>n_next := Some new\<rparr>))"
  let ?g = "?h'(old \<mapsto> (the (?h' old))\<lparr>n_prev := Some new\<rparr>)"
  show "ares__insert_in_list new old h = Some ?g"
    using assms by (auto simp: ares__insert_in_list_def fun_eq_iff)
  show "same_nodes h ?g" using assms by (auto simp: same_nodes_def)
  show "nx ?g = (nx h)(new := Some old, p := Some new)"
    using assms by (auto simp: nx_def fun_eq_iff)
  show "pv ?g = (pv h)(new := Some p, old := Some new)"
    using assms by (auto simp: pv_def fun_eq_iff)
qed

lemma remove_links:
  assumes x: "h x = Some m" "n_prev m = Some p" "n_next m = Some k" and p: "h p = Some n" "h k = Some l"
    and ne: "x \<noteq> p" "x \<noteq> k"
  obtains h' where "ares__remove_from_list x h = Some h'" "same_nodes h h'"
    "nx h' = (nx h)(p := Some k, x := None)" "pv h' = (pv h)(k := Some p, x := None)"
proof
  let ?h = "h(p \<mapsto> n\<lparr>n_next := Some k\<rparr>)"
  let ?h' = "?h(k \<mapsto> (the (?h k))\<lparr>n_prev := Some p\<rparr>)"
  let ?g = "?h'(x \<mapsto> m\<lparr>n_prev := None, n_next := None\<rparr>)"
  show "ares__remove_from_list x h = Some ?g"
    using assms by (auto simp: ares__remove_from_list_def fun_eq_iff)
  show "same_nodes h ?g" using assms by (auto simp: same_nodes_def)
  show "nx ?g = (nx h)(p := Some k, x := None)" using assms by (auto simp: nx_def fun_eq_iff)
  show "pv ?g = (pv h)(k := Some p, x := None)" using assms by (auto simp: pv_def fun_eq_iff)
qed

text \<open>Where a node is in a ring.\<close>

lemma ring_split:
  assumes "ring h head (us @ x # vs)"
  obtains m p k rest where "h x = Some m" "n_prev m = Some p" "n_next m = Some k"
    "p = last (head # us)" "vs @ [head] = k # rest" "chain (nx h) (pv h) head us" "chain (nx h) (pv h) k rest"
    "nx h p = Some x" "pv h k = Some x" "x \<noteq> p" "x \<noteq> k"
proof -
  obtain k rest where k: "vs @ [head] = k # rest" by (cases "vs @ [head]") auto
  from assms obtain m where m: "h x = Some m" using ring_alloc by fastforce
  have c: "chain (nx h) (pv h) head us" "nx h (last (head # us)) = Some x" "pv h x = Some (last (head # us))"
    "nx h x = Some k" "pv h k = Some x" "chain (nx h) (pv h) k rest"
    using assms k by (auto simp: ring_def chain_append)
  have "last (head # us) \<in> set (head # us)" by (rule last_in_set) simp
  then have p: "x \<noteq> last (head # us)" using assms by (auto simp: ring_def)
  have "k \<in> set (vs @ [head])" using k by simp
  then have "x \<noteq> k" using assms by (auto simp: ring_def)
  with that [OF m _ _ refl k c(1) c(6) c(2) c(5) p] c(3,4) m show thesis
    by (simp add: nx_def pv_def)
qed

lemma last_notin_butlast: "distinct xs \<Longrightarrow> q \<in> set (butlast xs) \<Longrightarrow> q \<in> set xs \<and> q \<noteq> last xs"
  by (cases xs rule: rev_cases) auto

text \<open>What a ring with a gap at the nodes \<open>p\<close> and \<open>k\<close> is made of.\<close>

lemma gap_facts:
  assumes d: "distinct (head # us @ vs)" and p: "p = last (head # us)" and k: "vs @ [head] = k # rest"
  shows "p \<in> set (head # us)" "k \<in> set (head # vs)" "k \<notin> set us" "k \<notin> set rest" "set rest \<subseteq> set (head # vs)"
    "q \<in> set (butlast (head # us)) \<Longrightarrow> q \<in> set (head # us) \<and> q \<noteq> p"
    "q \<in> set (butlast (k # rest)) \<Longrightarrow> q \<in> set vs \<and> q \<noteq> p"
proof -
  show pin: "p \<in> set (head # us)" unfolding p by (rule last_in_set) simp
  have "set (k # rest) = set (vs @ [head])" by (simp only: k)
  then show "k \<in> set (head # vs)" "set rest \<subseteq> set (head # vs)" by auto
  show "k \<notin> set us" "k \<notin> set rest" using d k by (cases vs; auto)+
  show "q \<in> set (butlast (head # us)) \<Longrightarrow> q \<in> set (head # us) \<and> q \<noteq> p"
    unfolding p using d by (intro last_notin_butlast) auto
  have "butlast (k # rest) = vs" by (metis butlast_snoc k)
  then show "q \<in> set (butlast (k # rest)) \<Longrightarrow> q \<in> set vs \<and> q \<noteq> p" using pin d by auto
qed

text \<open>Removing a node of a ring.\<close>

lemma remove_ring:
  assumes r: "ring h head (us @ x # vs)"
  obtains h' where "ares__remove_from_list x h = Some h'" "same_nodes h h'" "ring h' head (us @ vs)"
    "nx h' x = None" "\<And>q. q \<notin> set (head # us @ x # vs) \<Longrightarrow> nx h' q = nx h q \<and> pv h' q = pv h q"
proof -
  from ring_split [OF r] obtain m p k rest where s: "h x = Some m" "n_prev m = Some p" "n_next m = Some k"
    "p = last (head # us)" "vs @ [head] = k # rest" "chain (nx h) (pv h) head us" "chain (nx h) (pv h) k rest"
    "nx h p = Some x" "pv h k = Some x" "x \<noteq> p" "x \<noteq> k" .
  have d: "distinct (head # us @ vs)" "x \<notin> set (head # us @ vs)" using r by (auto simp: ring_def)
  note g = gap_facts [OF d(1) s(4,5)]
  have "\<exists>n. h p = Some n" "\<exists>l. h k = Some l"
    using ring_alloc [OF r, of p] ring_alloc [OF r, of k] g(1,2) by auto
  then obtain n l where "h p = Some n" "h k = Some l" by blast
  from remove_links [OF s(1-3) this s(10,11)] obtain h' where h': "ares__remove_from_list x h = Some h'"
    "same_nodes h h'" "nx h' = (nx h)(p := Some k, x := None)" "pv h' = (pv h)(k := Some p, x := None)" .
  have "chain (nx h') (pv h') head us"
    by (subst chain_cong [where f = "nx h" and g = "pv h"]) (use g(1-6) d(2) h'(3,4) s(6) in auto)
  moreover have "chain (nx h') (pv h') k rest"
    by (subst chain_cong [where f = "nx h" and g = "pv h"]) (use g d(2) h'(3,4) s(7) in auto)
  ultimately have "ring h' head (us @ vs)"
    using d(1) s(4,5,10,11) h'(3,4) by (simp add: ring_def chain_append)
  moreover have "nx h' q = nx h q \<and> pv h' q = pv h q" if "q \<notin> set (head # us @ x # vs)" for q
    using that g(1,2) h'(3,4) by auto
  ultimately show thesis using that [OF h'(1,2)] h'(3) by simp
qed

text \<open>Inserting a node before another of a ring, or at its end, before the head.\<close>

lemma insert_ring:
  assumes r: "ring h head (us @ vs)" and old: "old = hd (vs @ [head])"
    and new: "h new = Some m" "new \<notin> set (head # us @ vs)"
  obtains h' where "ares__insert_in_list new old h = Some h'" "same_nodes h h'" "ring h' head (us @ new # vs)"
    "\<And>q. q \<notin> set (head # us @ new # vs) \<Longrightarrow> nx h' q = nx h q \<and> pv h' q = pv h q"
proof -
  define p where "p = last (head # us)"
  obtain k rest where k: "vs @ [head] = k # rest" by (cases "vs @ [head]") auto
  then have old: "old = k" using old by simp
  have d: "distinct (head # us @ vs)" using r by (simp add: ring_def)
  note g = gap_facts [OF d p_def k]
  have c: "chain (nx h) (pv h) head us" "nx h p = Some k" "pv h k = Some p" "chain (nx h) (pv h) k rest"
    using r k by (simp_all add: ring_def chain_append p_def)
  have "\<exists>n. h p = Some n" "\<exists>l. h k = Some l"
    using ring_alloc [OF r, of p] ring_alloc [OF r, of k] g(1,2) by auto
  then obtain n l where nl: "h p = Some n" "h k = Some l" by blast
  then have "n_prev l = Some p" using c(3) by (simp add: pv_def)
  moreover have "new \<noteq> k" "new \<noteq> p" using new(2) g(1,2) by auto
  ultimately obtain h' where h': "ares__insert_in_list new k h = Some h'" "same_nodes h h'"
    "nx h' = (nx h)(new := Some k, p := Some new)" "pv h' = (pv h)(new := Some p, k := Some new)"
    using insert_links [OF new(1) nl(2) _ nl(1)] by metis
  have "chain (nx h') (pv h') head us"
    by (subst chain_cong [where f = "nx h" and g = "pv h"]) (use g(1-6) new(2) h'(3,4) c(1) in auto)
  moreover have "chain (nx h') (pv h') k rest"
    by (subst chain_cong [where f = "nx h" and g = "pv h"]) (use g new(2) h'(3,4) c(4) in auto)
  ultimately have "ring h' head (us @ new # vs)"
    using d new(2) k p_def \<open>new \<noteq> k\<close> \<open>new \<noteq> p\<close> h'(3,4) by (auto simp: ring_def chain_append)
  moreover have "nx h' q = nx h q \<and> pv h' q = pv h q" if "q \<notin> set (head # us @ new # vs)" for q
    using that g(1,2) h'(3,4) by auto
  ultimately show thesis using that [of h'] h'(1,2) old by simp
qed

section \<open>The operations on lists\<close>

lemma ring_frame:
  "ring h head xs \<Longrightarrow> \<forall>q \<in> set (head # xs). nx h' q = nx h q \<and> pv h' q = pv h q \<Longrightarrow> ring h' head xs"
  unfolding ring_def
  by (subst chain_cong [where f = "nx h" and g = "pv h"]) (auto dest: in_set_butlastD)

text \<open>An operation on the nodes of \<open>S\<close> keeps the data of all nodes, and the other rings.\<close>

definition keeps_others :: "node set \<Rightarrow> nodes \<Rightarrow> nodes \<Rightarrow> bool" where
  "keeps_others S h h' \<longleftrightarrow>
     (\<forall>r zs. ring h r zs \<and> set (r # zs) \<inter> S = {} \<longrightarrow> ring h' r zs)"

lemma keeps_othersI:
  "(\<And>q. q \<notin> S \<Longrightarrow> nx h' q = nx h q \<and> pv h' q = pv h q) \<Longrightarrow> keeps_others S h h'"
  unfolding keeps_others_def by (blast intro: ring_frame)

lemma empty_ring: "ring h head xs \<Longrightarrow> ares__is_list_empty head h = Some (xs = [])"
  using ring_alloc [of h head xs head]
  by (cases xs) (auto simp: ring_def ares__is_list_empty_def nx_def pv_def)

lemma init_ring: "h head = Some n \<Longrightarrow> \<exists>h'. ares__init_list_head head h = Some h' \<and> ring h' head [] \<and> (\<forall>q. q \<noteq> head \<longrightarrow> h' q = h q)"
  by (simp add: ares__init_list_head_def ring_def nx_def pv_def)

text \<open>The nodes behind the head \<open>a\<close> get the head \<open>b\<close>.\<close>

lemma move_ring:
  assumes r: "ring h a xs" and old: "h a = Some old" and same: "\<forall>q \<in> set xs. h1 q = h q"
    and b: "b \<notin> set xs" "h1 b = Some n"
  shows "\<exists>h2. move_list (xs = []) old b h1 = Some h2 \<and> ring h2 b xs \<and>
    (\<forall>q. q \<notin> insert b (set xs) \<longrightarrow> h2 q = h1 q) \<and>
    (\<forall>q \<in> set xs. map_option n_data (h2 q) = map_option n_data (h q))"
proof (cases xs)
  case Nil
  then show ?thesis using init_ring [of h1 b n] b by (auto simp: move_list_def)
next
  case (Cons x xs')
  define l where "l = last (x # xs')"
  have c: "nx h a = Some x" "chain (nx h) (pv h) x xs'" "pv h a = Some l" "nx h l = Some a"
    using r Cons by (simp_all add: ring_def chain_append l_def)
  have d: "distinct (x # xs')" "b \<notin> set (x # xs')" using r b(1) Cons by (simp_all add: ring_def)
  have l: "l \<in> set (x # xs')" unfolding l_def by (rule last_in_set) simp
  have links: "n_next old = Some x" "n_prev old = Some l" using c(1,3) old by (simp_all add: nx_def pv_def)
  obtain m k where m: "h1 x = Some m" "h1 l = Some k"
    using ring_alloc [OF r, of x] ring_alloc [OF r, of l] same l Cons by auto
  define g where "g = h1(b \<mapsto> old, x \<mapsto> m\<lparr>n_prev := Some b\<rparr>)"
  define h2 where "h2 = g(l \<mapsto> (the (g l))\<lparr>n_next := Some b\<rparr>)"
  note h2 = h2_def g_def
  have run: "move_list (xs = []) old b h1 = Some h2"
    using links m b(2) d(2) l Cons by (auto simp: move_list_def h2)
  have n2: "nx h2 = (nx h1)(b := Some x, l := Some b)" "pv h2 = (pv h1)(b := Some l, x := Some b)"
    using links m d(2) l by (auto simp: nx_def pv_def fun_eq_iff h2)
  have rest: "\<forall>q. q \<notin> insert b (set xs) \<longrightarrow> h2 q = h1 q" using l Cons by (auto simp: h2)
  have "map_option n_data (h2 q) = map_option n_data (h1 q)" if "q \<noteq> b" for q
    using m that by (auto simp: h2)
  then have data: "\<forall>q \<in> set xs. map_option n_data (h2 q) = map_option n_data (h q)"
    using same b(1) by metis
  have same': "nx h1 q = nx h q" "pv h1 q = pv h q" if "q \<in> set (x # xs')" for q
  proof -
    have "h1 q = h q" using same that Cons by blast
    then show "nx h1 q = nx h q" "pv h1 q = pv h q" by (simp_all add: nx_def pv_def)
  qed
  have "chain (nx h2) (pv h2) x xs'"
  proof (subst chain_cong [where f = "nx h" and g = "pv h"])
    fix q assume "q \<in> set (butlast (x # xs'))"
    then have "q \<in> set (x # xs')" "q \<noteq> l" using last_notin_butlast [OF d(1)] by (simp_all add: l_def)
    then show "nx h2 q = nx h q" using d(2) same' by (auto simp: n2)
  next
    fix q assume "q \<in> set xs'"
    then show "pv h2 q = pv h q" using d same' by (auto simp: n2)
  qed (rule c(2))
  then have "ring h2 b xs"
    using d b(1) l Cons unfolding ring_def n2 by (cases "xs' = []") (auto simp: chain_append l_def)
  with run rest data show ?thesis by blast
qed

lemma swap_rings:
  assumes a: "ring h a xs" and b: "ring h b ys" and disj: "set (a # xs) \<inter> set (b # ys) = {}"
  shows "\<exists>h'. ares__swap_lists a b h = Some h' \<and> ring h' a ys \<and> ring h' b xs \<and>
    keeps_others (set (a # xs @ b # ys)) h h' \<and>
    (\<forall>q \<in> set (xs @ ys). map_option n_data (h' q) = map_option n_data (h q))"
proof -
  obtain m n where m: "h a = Some m" and n: "h b = Some n"
    using ring_alloc [OF a, of a] ring_alloc [OF b, of b] by auto
  have ne: "b \<notin> set xs" "a \<notin> set ys" "a \<noteq> b" using disj by auto
  have "\<forall>q \<in> set xs. h q = h q" by simp
  from move_ring [OF a m this ne(1) n] obtain h1 where
    h1: "move_list (xs = []) m b h = Some h1" "ring h1 b xs" "\<forall>q. q \<notin> insert b (set xs) \<longrightarrow> h1 q = h q"
      "\<forall>q \<in> set xs. map_option n_data (h1 q) = map_option n_data (h q)" by blast
  have same: "\<forall>q \<in> set ys. h1 q = h q" "h1 a = Some m"
    using h1(3) disj b a m by (auto simp: ring_def)
  from move_ring [OF b n same(1) ne(2) same(2)] obtain h2 where
    h2: "move_list (ys = []) n a h1 = Some h2" "ring h2 a ys" "\<forall>q. q \<notin> insert a (set ys) \<longrightarrow> h2 q = h1 q"
      "\<forall>q \<in> set ys. map_option n_data (h2 q) = map_option n_data (h q)" by blast
  have eq: "h2 q = h1 q" if "q \<in> set (b # xs)" for q
  proof -
    have "a \<notin> set xs" "b \<notin> set ys" using a b by (simp_all add: ring_def)
    with h2(3) disj that show ?thesis by auto
  qed
  have "ring h2 b xs" by (rule ring_frame [OF h1(2)]) (simp add: eq nx_def pv_def)
  moreover have "keeps_others (set (a # xs @ b # ys)) h h2"
    by (rule keeps_othersI) (use h1(3) h2(3) in \<open>simp add: nx_def pv_def\<close>)
  moreover have "ares__swap_lists a b h = Some h2"
    using h1(1) h2(1) m n empty_ring [OF a] empty_ring [OF b] by (simp add: ares__swap_lists_def)
  ultimately show ?thesis using h2(2,4) h1(4) eq by auto
qed

text \<open>
  C9: The operations on circular, doubly linked lists are those on lists: a node is appended at the
  end or taken out, two lists change their heads, a list is empty when it has no node; data and
  all other lists stay as they are.
\<close>

theorem linked_lists_refine:
  assumes "ring h head xs"
  shows "ares__is_list_empty head h = Some (xs = []) \<and>
    (\<forall>new. h new \<noteq> None \<and> new \<notin> set (head # xs) \<longrightarrow>
      (\<exists>h'. ares__insert_in_list new head h = Some h' \<and> ring h' head (xs @ [new]) \<and>
        same_nodes h h' \<and> keeps_others (set (head # new # xs)) h h')) \<and>
    (\<forall>x \<in> set xs. \<exists>h'. ares__remove_from_list x h = Some h' \<and> ring h' head (removeAll x xs) \<and>
        same_nodes h h' \<and> nx h' x = None \<and> keeps_others (set (head # xs)) h h') \<and>
    (\<forall>x n. h x = Some n \<and> n_next n = None \<longrightarrow> ares__remove_from_list x h = Some h) \<and>
    (\<forall>b ys. ring h b ys \<and> set (head # xs) \<inter> set (b # ys) = {} \<longrightarrow>
      (\<exists>h'. ares__swap_lists head b h = Some h' \<and> ring h' head ys \<and> ring h' b xs \<and>
        keeps_others (set (head # xs @ b # ys)) h h'))"
proof (intro conjI allI ballI impI)
  show "ares__is_list_empty head h = Some (xs = [])" by (rule empty_ring [OF assms])
next
  fix new assume new: "h new \<noteq> None \<and> new \<notin> set (head # xs)"
  then obtain m where m: "h new = Some m" by blast
  have "ring h head (xs @ [])" "head = hd ([] @ [head])" "new \<notin> set (head # xs @ [])" using assms new by simp_all
  from insert_ring [OF this(1,2) m this(3)] obtain h' where
    "ares__insert_in_list new head h = Some h'" "same_nodes h h'" "ring h' head (xs @ [new])"
    "\<And>q. q \<notin> set (head # xs @ [new]) \<Longrightarrow> nx h' q = nx h q \<and> pv h' q = pv h q" by auto
  then show "\<exists>h'. ares__insert_in_list new head h = Some h' \<and> ring h' head (xs @ [new]) \<and>
      same_nodes h h' \<and> keeps_others (set (head # new # xs)) h h'"
    by (auto intro: keeps_othersI)
next
  fix x assume "x \<in> set xs"
  then obtain us vs where xs: "xs = us @ x # vs" by (meson split_list)
  from remove_ring [OF assms [unfolded xs]] obtain h' where
    "ares__remove_from_list x h = Some h'" "same_nodes h h'" "ring h' head (us @ vs)" "nx h' x = None"
    "\<And>q. q \<notin> set (head # us @ x # vs) \<Longrightarrow> nx h' q = nx h q \<and> pv h' q = pv h q" by auto
  moreover have "removeAll x xs = us @ vs" using assms xs by (auto simp: ring_def)
  ultimately show "\<exists>h'. ares__remove_from_list x h = Some h' \<and> ring h' head (removeAll x xs) \<and>
      same_nodes h h' \<and> nx h' x = None \<and> keeps_others (set (head # xs)) h h'"
    using xs by (auto intro: keeps_othersI)
next
  fix b ys assume "ring h b ys \<and> set (head # xs) \<inter> set (b # ys) = {}"
  then show "\<exists>h'. ares__swap_lists head b h = Some h' \<and> ring h' head ys \<and> ring h' b xs \<and>
      keeps_others (set (head # xs @ b # ys)) h h'"
    using swap_rings [OF assms] by blast
qed (simp add: ares__remove_from_list_def)

text \<open>A list of one node and an empty list.\<close>

definition sample_nodes :: nodes where
  "sample_nodes = [0 \<mapsto> \<lparr>n_prev = Some 1, n_next = Some 1, n_data = None\<rparr>,
     1 \<mapsto> \<lparr>n_prev = Some 0, n_next = Some 0, n_data = Some 5\<rparr>,
     2 \<mapsto> \<lparr>n_prev = Some 2, n_next = Some 2, n_data = None\<rparr>,
     3 \<mapsto> \<lparr>n_prev = None, n_next = None, n_data = Some 6\<rparr>]"

lemma linked_lists_refine_witness:
  "(\<exists>h. ares__insert_in_list 3 0 sample_nodes = Some h \<and> ring h 0 [1, 3]) \<and>
   (\<exists>h. ares__remove_from_list 1 sample_nodes = Some h \<and> ring h 0 []) \<and>
   (\<exists>h. ares__swap_lists 0 2 sample_nodes = Some h \<and> ring h 0 [] \<and> ring h 2 [1])"
proof -
  have r: "ring sample_nodes 0 [1]" "ring sample_nodes 2 []"
    by (simp_all add: ring_def sample_nodes_def nx_def pv_def)
  have "sample_nodes 3 \<noteq> None" by (simp add: sample_nodes_def)
  with linked_lists_refine [OF r(1)] r(2) show ?thesis by fastforce
qed

end
