(* ===== verification/Http_Types.thy ===== *)
theory Http_Types
  imports Prelude
begin

text \<open>
  The data of \<^verbatim>\<open>deps/http_parser/http_parser.h\<close> and the constant tables at the top of
  \<^verbatim>\<open>http_parser.c\<close>: the enumerations (methods, parser types, flags, errors, states, header
  states), the method names, the token, hexadecimal and URL character tables, and the
  character class macros.  The two build variants of \<^verbatim>\<open>HTTP_PARSER_STRICT\<close> are a Boolean
  parameter of the definitions that depend on it.
\<close>

section \<open>Enumerations of the header file\<close>

datatype http_method =
    HTTP_DELETE | HTTP_GET | HTTP_HEAD | HTTP_POST | HTTP_PUT
  | HTTP_CONNECT | HTTP_OPTIONS | HTTP_TRACE
  | HTTP_COPY | HTTP_LOCK | HTTP_MKCOL | HTTP_MOVE | HTTP_PROPFIND | HTTP_PROPPATCH | HTTP_UNLOCK
  | HTTP_REPORT | HTTP_MKACTIVITY | HTTP_CHECKOUT | HTTP_MERGE
  | HTTP_MSEARCH | HTTP_NOTIFY | HTTP_SUBSCRIBE | HTTP_UNSUBSCRIBE
  | HTTP_PATCH

datatype http_parser_type = HTTP_REQUEST | HTTP_RESPONSE | HTTP_BOTH

text \<open>The flags are the bits of the 6-bit field \<open>flags\<close>.\<close>

type_synonym flagset = "6 word"

definition F_CHUNKED :: flagset where "F_CHUNKED = push_bit 0 1"
definition F_CONNECTION_KEEP_ALIVE :: flagset where "F_CONNECTION_KEEP_ALIVE = push_bit 1 1"
definition F_CONNECTION_CLOSE :: flagset where "F_CONNECTION_CLOSE = push_bit 2 1"
definition F_TRAILING :: flagset where "F_TRAILING = push_bit 3 1"
definition F_UPGRADE :: flagset where "F_UPGRADE = push_bit 4 1"
definition F_SKIPBODY :: flagset where "F_SKIPBODY = push_bit 5 1"

datatype http_errno =
    HPE_OK
  | HPE_CB_message_begin | HPE_CB_path | HPE_CB_query_string | HPE_CB_url | HPE_CB_fragment
  | HPE_CB_header_field | HPE_CB_header_value | HPE_CB_headers_complete | HPE_CB_body
  | HPE_CB_message_complete
  | HPE_INVALID_EOF_STATE | HPE_HEADER_OVERFLOW | HPE_CLOSED_CONNECTION | HPE_INVALID_VERSION
  | HPE_INVALID_STATUS | HPE_INVALID_METHOD | HPE_INVALID_URL | HPE_INVALID_HOST
  | HPE_INVALID_PORT | HPE_INVALID_PATH | HPE_INVALID_QUERY_STRING | HPE_INVALID_FRAGMENT
  | HPE_LF_EXPECTED | HPE_INVALID_HEADER_TOKEN | HPE_INVALID_CONTENT_LENGTH
  | HPE_INVALID_CHUNK_SIZE | HPE_INVALID_CONSTANT | HPE_INVALID_INTERNAL_STATE
  | HPE_STRICT | HPE_UNKNOWN

definition HTTP_MAX_HEADER_SIZE :: nat where "HTTP_MAX_HEADER_SIZE = 80 * 1024"

section \<open>States\<close>

datatype state =
    s_dead
  | s_start_req_or_res | s_res_or_resp_H | s_start_res
  | s_res_H | s_res_HT | s_res_HTT | s_res_HTTP
  | s_res_first_http_major | s_res_http_major | s_res_first_http_minor | s_res_http_minor
  | s_res_first_status_code | s_res_status_code | s_res_status | s_res_line_almost_done
  | s_start_req
  | s_req_method | s_req_spaces_before_url
  | s_req_schema | s_req_schema_slash | s_req_schema_slash_slash | s_req_host | s_req_port
  | s_req_path | s_req_query_string_start | s_req_query_string
  | s_req_fragment_start | s_req_fragment
  | s_req_http_start | s_req_http_H | s_req_http_HT | s_req_http_HTT | s_req_http_HTTP
  | s_req_first_http_major | s_req_http_major | s_req_first_http_minor | s_req_http_minor
  | s_req_line_almost_done
  | s_header_field_start | s_header_field | s_header_value_start | s_header_value
  | s_header_value_lws
  | s_header_almost_done
  | s_chunk_size_start | s_chunk_size | s_chunk_parameters | s_chunk_size_almost_done
  | s_headers_almost_done
  | s_chunk_data | s_chunk_data_almost_done | s_chunk_data_done
  | s_body_identity | s_body_identity_eof

text \<open>The C enumeration starts at 1 and counts up in the order above; comparisons of states
  are comparisons of these numbers.\<close>

definition all_states :: "state list" where
  "all_states =
    [s_dead, s_start_req_or_res, s_res_or_resp_H, s_start_res, s_res_H, s_res_HT, s_res_HTT,
     s_res_HTTP, s_res_first_http_major, s_res_http_major, s_res_first_http_minor,
     s_res_http_minor, s_res_first_status_code, s_res_status_code, s_res_status,
     s_res_line_almost_done, s_start_req, s_req_method, s_req_spaces_before_url, s_req_schema,
     s_req_schema_slash, s_req_schema_slash_slash, s_req_host, s_req_port, s_req_path,
     s_req_query_string_start, s_req_query_string, s_req_fragment_start, s_req_fragment,
     s_req_http_start, s_req_http_H, s_req_http_HT, s_req_http_HTT, s_req_http_HTTP,
     s_req_first_http_major, s_req_http_major, s_req_first_http_minor, s_req_http_minor,
     s_req_line_almost_done, s_header_field_start, s_header_field, s_header_value_start,
     s_header_value, s_header_value_lws, s_header_almost_done, s_chunk_size_start, s_chunk_size,
     s_chunk_parameters, s_chunk_size_almost_done, s_headers_almost_done, s_chunk_data,
     s_chunk_data_almost_done, s_chunk_data_done, s_body_identity, s_body_identity_eof]"

fun position :: "'a list \<Rightarrow> 'a \<Rightarrow> nat" where
  "position [] x = 0"
| "position (y # ys) x = (if x = y then 0 else Suc (position ys x))"

definition state_num :: "state \<Rightarrow> nat" where
  "state_num s = Suc (position all_states s)"

lemma position_inj: "x \<in> set xs \<Longrightarrow> position xs x = position xs y \<Longrightarrow> x = y"
  by (induction xs) (auto split: if_splits)

lemma all_states_complete: "s \<in> set all_states"
  by (cases s) (simp_all add: all_states_def)

lemma state_num_inj: "state_num s = state_num t \<Longrightarrow> s = t"
  using position_inj [OF all_states_complete] by (simp add: state_num_def)

instantiation state :: linorder
begin

definition less_eq_state :: "state \<Rightarrow> state \<Rightarrow> bool" where
  "s \<le> t \<longleftrightarrow> state_num s \<le> state_num t"

definition less_state :: "state \<Rightarrow> state \<Rightarrow> bool" where
  "s < t \<longleftrightarrow> state_num s < state_num t"

instance
  by standard (auto simp: less_eq_state_def less_state_def state_num_inj)

end

definition PARSING_HEADER :: "state \<Rightarrow> bool" where
  "PARSING_HEADER s \<longleftrightarrow> s \<le> s_headers_almost_done"

text \<open>The states past the headers are exactly the body states.\<close>

lemma PARSING_HEADER_iff:
  "PARSING_HEADER s \<longleftrightarrow>
     s \<notin> {s_chunk_data, s_chunk_data_almost_done, s_chunk_data_done,
           s_body_identity, s_body_identity_eof}"
  by (cases s) (simp_all add: PARSING_HEADER_def less_eq_state_def state_num_def all_states_def)

datatype header_states =
    h_general | h_C | h_CO | h_CON
  | h_matching_connection | h_matching_proxy_connection | h_matching_content_length
  | h_matching_transfer_encoding | h_matching_upgrade
  | h_connection | h_content_length | h_transfer_encoding | h_upgrade
  | h_matching_transfer_encoding_chunked | h_matching_connection_keep_alive
  | h_matching_connection_close
  | h_transfer_encoding_chunked | h_connection_keep_alive | h_connection_close

end
