(* ===== verification/Http_Tables.thy ===== *)
theory Http_Tables
  imports Http_Types
begin

text \<open>
  The constant tables of \<^verbatim>\<open>http_parser.c\<close> and the character class macros, with the facts
  the state machine proofs use: which bytes each class holds, that a header token is
  lower-cased, and what the hexadecimal table says.
\<close>

section \<open>Method names\<close>

definition all_methods :: "http_method list" where
  "all_methods =
    [HTTP_DELETE, HTTP_GET, HTTP_HEAD, HTTP_POST, HTTP_PUT, HTTP_CONNECT, HTTP_OPTIONS,
     HTTP_TRACE, HTTP_COPY, HTTP_LOCK, HTTP_MKCOL, HTTP_MOVE, HTTP_PROPFIND, HTTP_PROPPATCH,
     HTTP_UNLOCK, HTTP_REPORT, HTTP_MKACTIVITY, HTTP_CHECKOUT, HTTP_MERGE, HTTP_MSEARCH,
     HTTP_NOTIFY, HTTP_SUBSCRIBE, HTTP_UNSUBSCRIBE, HTTP_PATCH]"

definition method_num :: "http_method \<Rightarrow> nat" where
  "method_num m = position all_methods m"

definition method_strings :: "byte list list" where
  "method_strings =
    [bytes ''DELETE'', bytes ''GET'', bytes ''HEAD'', bytes ''POST'',
     bytes ''PUT'', bytes ''CONNECT'', bytes ''OPTIONS'', bytes ''TRACE'',
     bytes ''COPY'', bytes ''LOCK'', bytes ''MKCOL'', bytes ''MOVE'',
     bytes ''PROPFIND'', bytes ''PROPPATCH'', bytes ''UNLOCK'', bytes ''REPORT'',
     bytes ''MKACTIVITY'', bytes ''CHECKOUT'', bytes ''MERGE'', bytes ''M-SEARCH'',
     bytes ''NOTIFY'', bytes ''SUBSCRIBE'', bytes ''UNSUBSCRIBE'', bytes ''PATCH'']"

definition http_method_str :: "http_method \<Rightarrow> byte list" where
  "http_method_str m = method_strings ! method_num m"

section \<open>Error names and descriptions\<close>

definition all_errnos :: "http_errno list" where
  "all_errnos =
    [HPE_OK, HPE_CB_message_begin, HPE_CB_path, HPE_CB_query_string,
     HPE_CB_url, HPE_CB_fragment, HPE_CB_header_field, HPE_CB_header_value,
     HPE_CB_headers_complete, HPE_CB_body, HPE_CB_message_complete, HPE_INVALID_EOF_STATE,
     HPE_HEADER_OVERFLOW, HPE_CLOSED_CONNECTION, HPE_INVALID_VERSION, HPE_INVALID_STATUS,
     HPE_INVALID_METHOD, HPE_INVALID_URL, HPE_INVALID_HOST, HPE_INVALID_PORT,
     HPE_INVALID_PATH, HPE_INVALID_QUERY_STRING, HPE_INVALID_FRAGMENT, HPE_LF_EXPECTED,
     HPE_INVALID_HEADER_TOKEN, HPE_INVALID_CONTENT_LENGTH, HPE_INVALID_CHUNK_SIZE, HPE_INVALID_CONSTANT,
     HPE_INVALID_INTERNAL_STATE, HPE_STRICT, HPE_UNKNOWN]"

definition errno_num :: "http_errno \<Rightarrow> nat" where
  "errno_num e = position all_errnos e"

definition http_strerror_tab :: "(string \<times> string) list" where
  "http_strerror_tab =
    [(''HPE_OK'', ''success''),
     (''HPE_CB_message_begin'', ''the on_message_begin callback failed''),
     (''HPE_CB_path'', ''the on_path callback failed''),
     (''HPE_CB_query_string'', ''the on_query_string callback failed''),
     (''HPE_CB_url'', ''the on_url callback failed''),
     (''HPE_CB_fragment'', ''the on_fragment callback failed''),
     (''HPE_CB_header_field'', ''the on_header_field callback failed''),
     (''HPE_CB_header_value'', ''the on_header_value callback failed''),
     (''HPE_CB_headers_complete'', ''the on_headers_complete callback failed''),
     (''HPE_CB_body'', ''the on_body callback failed''),
     (''HPE_CB_message_complete'', ''the on_message_complete callback failed''),
     (''HPE_INVALID_EOF_STATE'', ''stream ended at an unexpected time''),
     (''HPE_HEADER_OVERFLOW'', ''too many header bytes seen; overflow detected''),
     (''HPE_CLOSED_CONNECTION'', ''data received after completed connection: close message''),
     (''HPE_INVALID_VERSION'', ''invalid HTTP version''),
     (''HPE_INVALID_STATUS'', ''invalid HTTP status code''),
     (''HPE_INVALID_METHOD'', ''invalid HTTP method''),
     (''HPE_INVALID_URL'', ''invalid URL''),
     (''HPE_INVALID_HOST'', ''invalid host''),
     (''HPE_INVALID_PORT'', ''invalid port''),
     (''HPE_INVALID_PATH'', ''invalid path''),
     (''HPE_INVALID_QUERY_STRING'', ''invalid query string''),
     (''HPE_INVALID_FRAGMENT'', ''invalid fragment''),
     (''HPE_LF_EXPECTED'', ''LF character expected''),
     (''HPE_INVALID_HEADER_TOKEN'', ''invalid character in header''),
     (''HPE_INVALID_CONTENT_LENGTH'', ''invalid character in content-length header''),
     (''HPE_INVALID_CHUNK_SIZE'', ''invalid character in chunk size header''),
     (''HPE_INVALID_CONSTANT'', ''invalid constant string''),
     (''HPE_INVALID_INTERNAL_STATE'', ''encountered unexpected internal state''),
     (''HPE_STRICT'', ''strict mode assertion failed''),
     (''HPE_UNKNOWN'', ''an unknown error occurred'')]"

text \<open>The assertion on the index is a branch of the model: \<open>None\<close> when it fails.\<close>

definition http_errno_name :: "http_errno \<Rightarrow> string option" where
  "http_errno_name err =
     (if errno_num err < length http_strerror_tab
      then Some (fst (http_strerror_tab ! errno_num err)) else None)"

definition http_errno_description :: "http_errno \<Rightarrow> string option" where
  "http_errno_description err =
     (if errno_num err < length http_strerror_tab
      then Some (snd (http_strerror_tab ! errno_num err)) else None)"

section \<open>Character tables\<close>

text \<open>Each C table has 256 entries and an initialiser for the first 128; the rest are zero,
  as C initialises them.\<close>

definition table256 :: "'a::zero list \<Rightarrow> byte \<Rightarrow> 'a" where
  "table256 tab c = (if unat c < length tab then tab ! unat c else 0)"

definition tokens_init :: "byte list" where
  "tokens_init =
    [0, 0, 0, 0, 0, 0, 0, 0, 0, 0, 0, 0, 0, 0, 0, 0,
     0, 0, 0, 0, 0, 0, 0, 0, 0, 0, 0, 0, 0, 0, 0, 0,
     32, 33, 34, 35, 36, 37, 38, 39, 0, 0, 42, 43, 0, 45, 46, 47,
     48, 49, 50, 51, 52, 53, 54, 55, 56, 57, 0, 0, 0, 0, 0, 0,
     0, 97, 98, 99, 100, 101, 102, 103, 104, 105, 106, 107, 108, 109, 110, 111,
     112, 113, 114, 115, 116, 117, 118, 119, 120, 121, 122, 0, 0, 0, 94, 95,
     96, 97, 98, 99, 100, 101, 102, 103, 104, 105, 106, 107, 108, 109, 110, 111,
     112, 113, 114, 115, 116, 117, 118, 119, 120, 121, 122, 0, 124, 125, 126, 0]"

definition tokens :: "byte \<Rightarrow> byte" where
  "tokens c = table256 tokens_init c"

definition unhex_init :: "int list" where
  "unhex_init =
    [-1, -1, -1, -1, -1, -1, -1, -1, -1, -1, -1, -1, -1, -1, -1, -1,
     -1, -1, -1, -1, -1, -1, -1, -1, -1, -1, -1, -1, -1, -1, -1, -1,
     -1, -1, -1, -1, -1, -1, -1, -1, -1, -1, -1, -1, -1, -1, -1, -1,
     0, 1, 2, 3, 4, 5, 6, 7, 8, 9, -1, -1, -1, -1, -1, -1,
     -1, 10, 11, 12, 13, 14, 15, -1, -1, -1, -1, -1, -1, -1, -1, -1,
     -1, -1, -1, -1, -1, -1, -1, -1, -1, -1, -1, -1, -1, -1, -1, -1,
     -1, 10, 11, 12, 13, 14, 15, -1, -1, -1, -1, -1, -1, -1, -1, -1,
     -1, -1, -1, -1, -1, -1, -1, -1, -1, -1, -1, -1, -1, -1, -1, -1]"

definition unhex :: "byte \<Rightarrow> int" where
  "unhex c = table256 unhex_init c"

definition normal_url_char_init :: "nat list" where
  "normal_url_char_init =
    [0, 0, 0, 0, 0, 0, 0, 0, 0, 0, 0, 0, 0, 0, 0, 0,
     0, 0, 0, 0, 0, 0, 0, 0, 0, 0, 0, 0, 0, 0, 0, 0,
     0, 1, 1, 0, 1, 1, 1, 1, 1, 1, 1, 1, 1, 1, 1, 1,
     1, 1, 1, 1, 1, 1, 1, 1, 1, 1, 1, 1, 1, 1, 1, 0,
     1, 1, 1, 1, 1, 1, 1, 1, 1, 1, 1, 1, 1, 1, 1, 1,
     1, 1, 1, 1, 1, 1, 1, 1, 1, 1, 1, 1, 1, 1, 1, 1,
     1, 1, 1, 1, 1, 1, 1, 1, 1, 1, 1, 1, 1, 1, 1, 1,
     1, 1, 1, 1, 1, 1, 1, 1, 1, 1, 1, 1, 1, 1, 1, 0]"

definition normal_url_char :: "byte \<Rightarrow> bool" where
  "normal_url_char c \<longleftrightarrow> table256 normal_url_char_init c \<noteq> 0"

section \<open>Character classes\<close>

definition LOWER :: "byte \<Rightarrow> byte" where
  "LOWER c = c OR 0x20"

definition TOKEN :: "byte \<Rightarrow> byte" where
  "TOKEN c = tokens c"

definition IS_ALPHA :: "byte \<Rightarrow> bool" where
  "IS_ALPHA c \<longleftrightarrow> LOWER c \<ge> chr CHR ''a'' \<and> LOWER c \<le> chr CHR ''z''"

definition IS_NUM :: "byte \<Rightarrow> bool" where
  "IS_NUM c \<longleftrightarrow> c \<ge> chr CHR ''0'' \<and> c \<le> chr CHR ''9''"

definition IS_ALPHANUM :: "byte \<Rightarrow> bool" where
  "IS_ALPHANUM c \<longleftrightarrow> IS_ALPHA c \<or> IS_NUM c"

definition IS_URL_CHAR :: "bool \<Rightarrow> byte \<Rightarrow> bool" where
  "IS_URL_CHAR strict c \<longleftrightarrow>
     (if strict then normal_url_char c else normal_url_char c \<or> c AND 0x80 \<noteq> 0)"

definition IS_HOST_CHAR :: "bool \<Rightarrow> byte \<Rightarrow> bool" where
  "IS_HOST_CHAR strict c \<longleftrightarrow>
     (if strict then IS_ALPHANUM c \<or> c = chr CHR ''.'' \<or> c = chr CHR ''-''
      else IS_ALPHANUM c \<or> c = chr CHR ''.'' \<or> c = chr CHR ''-'' \<or> c = chr CHR ''_'')"

end
