(* ===== verification/Http_Core.thy ===== *)
theory Http_Core
  imports Http_Tables
begin

text \<open>
  The state of the HTTP parser and the control structure of its main loop.
  \<open>http_parser\<close> is \<^verbatim>\<open>struct http_parser\<close> (the \<open>data\<close> pointer belongs to the caller and is
  never read); arithmetic on the signed \<^verbatim>\<open>content_length\<close> wraps around as on the machines node runs
  on, where C leaves an overflow undefined, and is not counted as a crash; \<open>locals\<close> holds the local variables of \<^verbatim>\<open>http_parser_execute\<close>.  The callbacks
  are code of the client: functions of the parser, the bytes they are given and a client
  environment \<open>'e\<close>, which they return updated together with their integer result.  They
  cannot write the parser, whose fields the header file declares private or read-only.

  A handler runs the body of one \<^verbatim>\<open>case\<close> and ends in a \<open>ctl\<close> value: \<open>Break\<close> goes on with
  the next byte, \<open>Done n\<close> returns \<open>n\<close> from \<^verbatim>\<open>http_parser_execute\<close>, and \<open>Crash\<close> is a failed
  \<^verbatim>\<open>assert\<close> or a read outside an array.
\<close>

section \<open>The parser and its settings\<close>

record http_parser =
  hp_type :: http_parser_type
  hp_flags :: flagset
  hp_state :: state
  hp_header_state :: header_states
  hp_index :: "8 word"
  hp_nread :: "32 word"
  hp_content_length :: "64 word" \<comment> \<open>an \<^verbatim>\<open>int64_t\<close>, read with \<open>sint\<close>; overflow wraps around\<close>
  hp_http_major :: "16 word"
  hp_http_minor :: "16 word"
  hp_status_code :: "16 word"
  hp_method :: http_method
  hp_http_errno :: http_errno
  hp_upgrade :: bool

type_synonym 'e http_cb = "http_parser \<Rightarrow> 'e \<Rightarrow> int \<times> 'e"
type_synonym 'e http_data_cb = "http_parser \<Rightarrow> byte list \<Rightarrow> 'e \<Rightarrow> int \<times> 'e"

record 'e http_parser_settings =
  on_message_begin :: "'e http_cb option"
  on_url :: "'e http_data_cb option"
  on_header_field :: "'e http_data_cb option"
  on_header_value :: "'e http_data_cb option"
  on_headers_complete :: "'e http_cb option"
  on_body :: "'e http_data_cb option"
  on_message_complete :: "'e http_cb option"

text \<open>The arguments of a call that stay fixed while it runs, with the build option.\<close>

record 'e call =
  strict :: bool
  settings :: "'e http_parser_settings"
  data :: "byte list"

record 'e locals =
  parser :: http_parser
  env :: 'e
  state :: state
  header_state :: header_states
  index :: nat
  nread :: nat
  header_field_mark :: "nat option"
  header_value_mark :: "nat option"
  url_mark :: "nat option"
  pos :: nat

datatype 'e ctl = Break "'e locals" | Done nat "'e locals" | Crash

type_synonym 'e handler = "'e call \<Rightarrow> byte \<Rightarrow> 'e locals \<Rightarrow> 'e ctl"

section \<open>Errors\<close>

definition SET_ERRNO :: "http_errno \<Rightarrow> 'e locals \<Rightarrow> 'e locals" where
  "SET_ERRNO e l = l\<lparr>parser := parser l\<lparr>hp_http_errno := e\<rparr>\<rparr>"

text \<open>The code after the label \<open>error\<close>.\<close>

definition goto_error :: "'e locals \<Rightarrow> 'e ctl" where
  "goto_error l =
     Done (pos l)
       (if hp_http_errno (parser l) = HPE_OK then SET_ERRNO HPE_UNKNOWN l else l)"

definition STRICT_CHECK :: "'e call \<Rightarrow> bool \<Rightarrow> 'e locals \<Rightarrow> ('e locals \<Rightarrow> 'e ctl) \<Rightarrow> 'e ctl" where
  "STRICT_CHECK C cond l k =
     (if strict C \<and> cond then goto_error (SET_ERRNO HPE_STRICT l) else k l)"

definition assert_that :: "bool \<Rightarrow> 'e locals \<Rightarrow> ('e locals \<Rightarrow> 'e ctl) \<Rightarrow> 'e ctl" where
  "assert_that cond l k = (if cond then k l else Crash)"

section \<open>Callbacks\<close>

definition CALLBACK2 ::
  "'e http_cb option \<Rightarrow> http_errno \<Rightarrow> 'e locals \<Rightarrow> ('e locals \<Rightarrow> 'e ctl) \<Rightarrow> 'e ctl" where
  "CALLBACK2 on_FOR err l k =
     (case on_FOR of
        None \<Rightarrow> k l
      | Some f \<Rightarrow>
          (let (r, v) = f (parser l) (env l); l = l\<lparr>env := v\<rparr>
           in if r \<noteq> 0 then Done (pos l) (SET_ERRNO err l) else k l))"

definition CALLBACK ::
  "'e call \<Rightarrow> 'e http_data_cb option \<Rightarrow> http_errno \<Rightarrow> ('e locals \<Rightarrow> nat option) \<Rightarrow>
   ('e locals \<Rightarrow> 'e locals) \<Rightarrow> 'e locals \<Rightarrow> ('e locals \<Rightarrow> 'e ctl) \<Rightarrow> 'e ctl" where
  "CALLBACK C on_FOR err FOR_mark clear l k =
     (case FOR_mark l of
        None \<Rightarrow> k l
      | Some m \<Rightarrow>
          (case on_FOR of
             None \<Rightarrow> k (clear l)
           | Some f \<Rightarrow>
               (let (r, v) = f (parser l) (segment m (pos l) (data C)) (env l); l = l\<lparr>env := v\<rparr>
                in if r \<noteq> 0 then Done (pos l) (SET_ERRNO err l) else k (clear l))))"

definition CALLBACK_header_field :: "'e call \<Rightarrow> 'e locals \<Rightarrow> ('e locals \<Rightarrow> 'e ctl) \<Rightarrow> 'e ctl" where
  "CALLBACK_header_field C =
     CALLBACK C (on_header_field (settings C)) HPE_CB_header_field header_field_mark
       (\<lambda>l. l\<lparr>header_field_mark := None\<rparr>)"

definition CALLBACK_header_value :: "'e call \<Rightarrow> 'e locals \<Rightarrow> ('e locals \<Rightarrow> 'e ctl) \<Rightarrow> 'e ctl" where
  "CALLBACK_header_value C =
     CALLBACK C (on_header_value (settings C)) HPE_CB_header_value header_value_mark
       (\<lambda>l. l\<lparr>header_value_mark := None\<rparr>)"

definition CALLBACK_url :: "'e call \<Rightarrow> 'e locals \<Rightarrow> ('e locals \<Rightarrow> 'e ctl) \<Rightarrow> 'e ctl" where
  "CALLBACK_url C =
     CALLBACK C (on_url (settings C)) HPE_CB_url url_mark (\<lambda>l. l\<lparr>url_mark := None\<rparr>)"

definition CALLBACK2_message_begin :: "'e call \<Rightarrow> 'e locals \<Rightarrow> ('e locals \<Rightarrow> 'e ctl) \<Rightarrow> 'e ctl" where
  "CALLBACK2_message_begin C = CALLBACK2 (on_message_begin (settings C)) HPE_CB_message_begin"

definition CALLBACK2_message_complete ::
  "'e call \<Rightarrow> 'e locals \<Rightarrow> ('e locals \<Rightarrow> 'e ctl) \<Rightarrow> 'e ctl" where
  "CALLBACK2_message_complete C =
     CALLBACK2 (on_message_complete (settings C)) HPE_CB_message_complete"

text \<open>\<open>if (settings->on_body) settings->on_body(parser, p, n)\<close>: the result is ignored.\<close>

definition call_on_body :: "'e call \<Rightarrow> int \<Rightarrow> 'e locals \<Rightarrow> 'e locals" where
  "call_on_body C n l =
     (case on_body (settings C) of
        None \<Rightarrow> l
      | Some f \<Rightarrow>
          l\<lparr>env := snd (f (parser l) (segment (pos l) (pos l + nat n) (data C)) (env l))\<rparr>)"

section \<open>Keep-alive, initialisation\<close>

definition has_flag :: "http_parser \<Rightarrow> flagset \<Rightarrow> bool" where
  "has_flag P F \<longleftrightarrow> hp_flags P AND F \<noteq> 0"

lemma has_flag_simps [simp]:
  "has_flag (P\<lparr>hp_content_length := n\<rparr>) F = has_flag P F"
  "has_flag (P\<lparr>hp_upgrade := b\<rparr>) F = has_flag P F"
  "has_flag (P\<lparr>hp_http_errno := e\<rparr>) F = has_flag P F"
  by (simp_all add: has_flag_def)

definition http_should_keep_alive :: "http_parser \<Rightarrow> bool" where
  "http_should_keep_alive P =
     (if hp_http_major P > 0 \<and> hp_http_minor P > 0 then
        (if has_flag P F_CONNECTION_CLOSE then False
         else if hp_type P = HTTP_RESPONSE then
           (if hp_status_code P div 100 = 1 \<or> hp_status_code P = 204
               \<or> hp_status_code P = 304 \<or> has_flag P F_SKIPBODY then True
            else if \<not> has_flag P F_CHUNKED \<and> hp_content_length P = -1 then False
            else True)
         else True)
      else if has_flag P F_CONNECTION_KEEP_ALIVE then True else False)"

definition start_state :: "http_parser \<Rightarrow> state" where
  "start_state P = (if hp_type P = HTTP_REQUEST then s_start_req else s_start_res)"

definition NEW_MESSAGE :: "'e call \<Rightarrow> http_parser \<Rightarrow> state" where
  "NEW_MESSAGE C P =
     (if strict C then (if http_should_keep_alive P then start_state P else s_dead)
      else start_state P)"

definition http_parser_init :: "http_parser \<Rightarrow> http_parser_type \<Rightarrow> http_parser" where
  "http_parser_init P t =
     P\<lparr>hp_type := t,
       hp_state := (if t = HTTP_REQUEST then s_start_req
                    else if t = HTTP_RESPONSE then s_start_res else s_start_req_or_res),
       hp_nread := 0, hp_upgrade := False, hp_flags := 0, hp_method := HTTP_DELETE,
       hp_http_errno := HPE_OK\<rparr>"

section \<open>Abbreviations for the handlers\<close>

abbreviation set_parser :: "(http_parser \<Rightarrow> http_parser) \<Rightarrow> 'e locals \<Rightarrow> 'e locals" where
  "set_parser f l \<equiv> l\<lparr>parser := f (parser l)\<rparr>"

abbreviation add_flag :: "flagset \<Rightarrow> 'e locals \<Rightarrow> 'e locals" where
  "add_flag F \<equiv> set_parser (\<lambda>P. P\<lparr>hp_flags := hp_flags P OR F\<rparr>)"

abbreviation goto_state :: "state \<Rightarrow> 'e locals \<Rightarrow> 'e ctl" where
  "goto_state s l \<equiv> Break (l\<lparr>state := s\<rparr>)"

abbreviation fail_with :: "http_errno \<Rightarrow> 'e locals \<Rightarrow> 'e ctl" where
  "fail_with e l \<equiv> goto_error (SET_ERRNO e l)"

section \<open>Weakest preconditions of the control combinators\<close>

text \<open>
  \<open>ctl_all X Q E c\<close>: if \<open>c\<close> breaks, \<open>Q\<close> holds of the locals; if it returns \<open>n\<close>, \<open>E n\<close> does;
  and it crashes only if \<open>X\<close>.  The rules in \<open>ctl_wp\<close> reduce it over a handler's body.
\<close>

fun ctl_all :: "bool \<Rightarrow> ('e locals \<Rightarrow> bool) \<Rightarrow> (nat \<Rightarrow> 'e locals \<Rightarrow> bool) \<Rightarrow> 'e ctl \<Rightarrow> bool" where
  "ctl_all X Q E (Break l) = Q l"
| "ctl_all X Q E (Done n l) = E n l"
| "ctl_all X Q E Crash = X"

lemma wp_if [ctl_wp]:
  "(b \<Longrightarrow> ctl_all X Q E x) \<Longrightarrow> (\<not> b \<Longrightarrow> ctl_all X Q E y) \<Longrightarrow> ctl_all X Q E (if b then x else y)"
  by simp

lemma wp_Let [ctl_wp]: "ctl_all X Q E (f a) \<Longrightarrow> ctl_all X Q E (let x = a in f x)"
  by simp

lemma wp_error [ctl_wp]:
  "(\<And>e. e \<noteq> HPE_OK \<Longrightarrow> E (pos l) (SET_ERRNO e l)) \<Longrightarrow>
   (hp_http_errno (parser l) \<noteq> HPE_OK \<Longrightarrow> E (pos l) l) \<Longrightarrow> ctl_all X Q E (goto_error l)"
  by (simp add: goto_error_def)

lemma wp_STRICT_CHECK [ctl_wp]:
  assumes "\<And>e. e \<noteq> HPE_OK \<Longrightarrow> E (pos l) (SET_ERRNO e l)"
    and "\<not> (strict C \<and> cond) \<Longrightarrow> ctl_all X Q E (k l)"
  shows "ctl_all X Q E (STRICT_CHECK C cond l k)"
  using assms by (simp add: STRICT_CHECK_def goto_error_def SET_ERRNO_def)

lemma wp_assert_that [ctl_wp]:
  "(cond \<Longrightarrow> ctl_all X Q E (k l)) \<Longrightarrow> (\<not> cond \<Longrightarrow> X) \<Longrightarrow> ctl_all X Q E (assert_that cond l k)"
  by (simp add: assert_that_def)

lemma wp_CALLBACK2:
  assumes "\<And>v. ctl_all X Q E (k (l\<lparr>env := v\<rparr>))"
    and "\<And>v. E (pos l) (SET_ERRNO e (l\<lparr>env := v\<rparr>))"
  shows "ctl_all X Q E (CALLBACK2 f e l k)"
  using assms(1) [of "env l"] assms
  by (simp add: CALLBACK2_def Let_def split: option.split prod.split)

lemma wp_CALLBACK:
  assumes "m l = None \<Longrightarrow> ctl_all X Q E (k l)"
    and "\<And>i v. m l = Some i \<Longrightarrow> ctl_all X Q E (k (clear (l\<lparr>env := v\<rparr>)))"
    and "\<And>v. E (pos l) (SET_ERRNO e (l\<lparr>env := v\<rparr>))"
  shows "ctl_all X Q E (CALLBACK C f e m clear l k)"
  using assms(1) assms(2) [of _ "env l"] assms(2,3)
  by (simp add: CALLBACK_def Let_def split: option.split prod.split)

lemma wp_message_begin [ctl_wp]:
  assumes "\<And>v. ctl_all X Q E (k (l\<lparr>env := v\<rparr>))"
    and "\<And>e v. e \<noteq> HPE_OK \<Longrightarrow> E (pos l) (SET_ERRNO e (l\<lparr>env := v\<rparr>))"
  shows "ctl_all X Q E (CALLBACK2_message_begin C l k)"
  unfolding CALLBACK2_message_begin_def by (rule wp_CALLBACK2) (simp_all add: assms)

lemma wp_message_complete [ctl_wp]:
  assumes "\<And>v. ctl_all X Q E (k (l\<lparr>env := v\<rparr>))"
    and "\<And>e v. e \<noteq> HPE_OK \<Longrightarrow> E (pos l) (SET_ERRNO e (l\<lparr>env := v\<rparr>))"
  shows "ctl_all X Q E (CALLBACK2_message_complete C l k)"
  unfolding CALLBACK2_message_complete_def by (rule wp_CALLBACK2) (simp_all add: assms)

lemma no_mark:
  assumes "m l = None"
  shows "CALLBACK C f e m clear l k = k l"
  using assms by (simp add: CALLBACK_def)

lemma clear_mark_id:
  "header_field_mark l = None \<Longrightarrow> l\<lparr>header_field_mark := None\<rparr> = l"
  "header_value_mark l = None \<Longrightarrow> l\<lparr>header_value_mark := None\<rparr> = l"
  "url_mark l = None \<Longrightarrow> l\<lparr>url_mark := None\<rparr> = l"
  by (cases l; simp)+

lemma wp_header_field [ctl_wp]:
  assumes "\<And>v. ctl_all X Q E (k (l\<lparr>env := v, header_field_mark := None\<rparr>))"
    and "\<And>e v. e \<noteq> HPE_OK \<Longrightarrow> E (pos l) (SET_ERRNO e (l\<lparr>env := v\<rparr>))"
  shows "ctl_all X Q E (CALLBACK_header_field C l k)"
  unfolding CALLBACK_header_field_def
  by (rule wp_CALLBACK) (use assms assms(1) [of "env l"] in \<open>simp_all add: clear_mark_id\<close>)

lemma wp_header_value [ctl_wp]:
  assumes "\<And>v. ctl_all X Q E (k (l\<lparr>env := v, header_value_mark := None\<rparr>))"
    and "\<And>e v. e \<noteq> HPE_OK \<Longrightarrow> E (pos l) (SET_ERRNO e (l\<lparr>env := v\<rparr>))"
  shows "ctl_all X Q E (CALLBACK_header_value C l k)"
  unfolding CALLBACK_header_value_def
  by (rule wp_CALLBACK) (use assms assms(1) [of "env l"] in \<open>simp_all add: clear_mark_id\<close>)

lemma wp_url [ctl_wp]:
  assumes "\<And>v. ctl_all X Q E (k (l\<lparr>env := v, url_mark := None\<rparr>))"
    and "\<And>e v. e \<noteq> HPE_OK \<Longrightarrow> E (pos l) (SET_ERRNO e (l\<lparr>env := v\<rparr>))"
  shows "ctl_all X Q E (CALLBACK_url C l k)"
  unfolding CALLBACK_url_def
  by (rule wp_CALLBACK) (use assms assms(1) [of "env l"] in \<open>simp_all add: clear_mark_id\<close>)

lemma wp_case_option [ctl_wp]:
  assumes "x = None \<Longrightarrow> ctl_all X Q E a" and "\<And>y. x = Some y \<Longrightarrow> ctl_all X Q E (b y)"
  shows "ctl_all X Q E (case x of None \<Rightarrow> a | Some y \<Rightarrow> b y)"
  using assms by (cases x) simp_all

lemma wp_case_prod [ctl_wp]:
  assumes "\<And>y z. x = (y, z) \<Longrightarrow> ctl_all X Q E (b y z)"
  shows "ctl_all X Q E (case x of (y, z) \<Rightarrow> b y z)"
  using assms by (cases x) simp

lemma wp_case_header_states [ctl_wp]:
  assumes "h = h_general \<Longrightarrow> ctl_all X Q E f0"
    and "h = h_C \<Longrightarrow> ctl_all X Q E f1"
    and "h = h_CO \<Longrightarrow> ctl_all X Q E f2"
    and "h = h_CON \<Longrightarrow> ctl_all X Q E f3"
    and "h = h_matching_connection \<Longrightarrow> ctl_all X Q E f4"
    and "h = h_matching_proxy_connection \<Longrightarrow> ctl_all X Q E f5"
    and "h = h_matching_content_length \<Longrightarrow> ctl_all X Q E f6"
    and "h = h_matching_transfer_encoding \<Longrightarrow> ctl_all X Q E f7"
    and "h = h_matching_upgrade \<Longrightarrow> ctl_all X Q E f8"
    and "h = h_connection \<Longrightarrow> ctl_all X Q E f9"
    and "h = h_content_length \<Longrightarrow> ctl_all X Q E f10"
    and "h = h_transfer_encoding \<Longrightarrow> ctl_all X Q E f11"
    and "h = h_upgrade \<Longrightarrow> ctl_all X Q E f12"
    and "h = h_matching_transfer_encoding_chunked \<Longrightarrow> ctl_all X Q E f13"
    and "h = h_matching_connection_keep_alive \<Longrightarrow> ctl_all X Q E f14"
    and "h = h_matching_connection_close \<Longrightarrow> ctl_all X Q E f15"
    and "h = h_transfer_encoding_chunked \<Longrightarrow> ctl_all X Q E f16"
    and "h = h_connection_keep_alive \<Longrightarrow> ctl_all X Q E f17"
    and "h = h_connection_close \<Longrightarrow> ctl_all X Q E f18"
  shows "ctl_all X Q E (case h of h_general \<Rightarrow> f0
    | h_C \<Rightarrow> f1
    | h_CO \<Rightarrow> f2
    | h_CON \<Rightarrow> f3
    | h_matching_connection \<Rightarrow> f4
    | h_matching_proxy_connection \<Rightarrow> f5
    | h_matching_content_length \<Rightarrow> f6
    | h_matching_transfer_encoding \<Rightarrow> f7
    | h_matching_upgrade \<Rightarrow> f8
    | h_connection \<Rightarrow> f9
    | h_content_length \<Rightarrow> f10
    | h_transfer_encoding \<Rightarrow> f11
    | h_upgrade \<Rightarrow> f12
    | h_matching_transfer_encoding_chunked \<Rightarrow> f13
    | h_matching_connection_keep_alive \<Rightarrow> f14
    | h_matching_connection_close \<Rightarrow> f15
    | h_transfer_encoding_chunked \<Rightarrow> f16
    | h_connection_keep_alive \<Rightarrow> f17
    | h_connection_close \<Rightarrow> f18)"
  using assms by (cases h) simp_all

lemma ctl_all_mono:
  assumes "ctl_all X Q E c" and "\<And>l. Q l \<Longrightarrow> Q' l" and "\<And>n l. E n l \<Longrightarrow> E' n l" and "X \<Longrightarrow> X'"
  shows "ctl_all X' Q' E' c"
  using assms by (cases c) simp_all

text \<open>What the body callback leaves alone: everything but the client's environment.\<close>

lemma call_on_body_simps [simp]:
  "parser (call_on_body C n l) = parser l" "state (call_on_body C n l) = state l"
  "header_state (call_on_body C n l) = header_state l" "index (call_on_body C n l) = index l"
  "nread (call_on_body C n l) = nread l" "pos (call_on_body C n l) = pos l"
  "header_field_mark (call_on_body C n l) = header_field_mark l"
  "header_value_mark (call_on_body C n l) = header_value_mark l"
  "url_mark (call_on_body C n l) = url_mark l"
  by (simp_all add: call_on_body_def split: option.split)

lemma SET_ERRNO_simps [simp]:
  "state (SET_ERRNO e l) = state l" "pos (SET_ERRNO e l) = pos l" "env (SET_ERRNO e l) = env l"
  "parser (SET_ERRNO e l) = parser l\<lparr>hp_http_errno := e\<rparr>"
  by (simp_all add: SET_ERRNO_def)

end
