(* ===== verification/Http_Startline.thy ===== *)
theory Http_Startline
  imports Http_Core
begin

text \<open>
  The handlers of \<^verbatim>\<open>http_parser_execute\<close> for the first line of a message: the states
  \<^verbatim>\<open>s_dead\<close> to \<^verbatim>\<open>s_res_line_almost_done\<close> (status line) and \<^verbatim>\<open>s_start_req\<close> to
  \<^verbatim>\<open>s_req_line_almost_done\<close> (request line), one definition per \<^verbatim>\<open>case\<close>.
\<close>

text \<open>\<open>ch - '0'\<close> assigned to an \<^verbatim>\<open>unsigned short\<close>.\<close>

definition digit16 :: "byte \<Rightarrow> 16 word" where
  "digit16 ch = ucast ch - 48"

section \<open>Before a message\<close>

definition do_dead :: "'e handler" where
  "do_dead C ch l =
     (if ch = CR \<or> ch = LF then Break l else fail_with HPE_CLOSED_CONNECTION l)"

definition start_message :: "'e locals \<Rightarrow> 'e locals" where
  "start_message = set_parser (\<lambda>P. P\<lparr>hp_flags := 0, hp_content_length := -1\<rparr>)"

text \<open>The code after the label \<open>start_req_method_assign\<close>.\<close>

definition first_letter_method :: "byte \<Rightarrow> http_method option" where
  "first_letter_method ch =
     (if ch = chr CHR ''C'' then Some HTTP_CONNECT
      else if ch = chr CHR ''D'' then Some HTTP_DELETE
      else if ch = chr CHR ''G'' then Some HTTP_GET
      else if ch = chr CHR ''H'' then Some HTTP_HEAD
      else if ch = chr CHR ''L'' then Some HTTP_LOCK
      else if ch = chr CHR ''M'' then Some HTTP_MKCOL
      else if ch = chr CHR ''N'' then Some HTTP_NOTIFY
      else if ch = chr CHR ''O'' then Some HTTP_OPTIONS
      else if ch = chr CHR ''P'' then Some HTTP_POST
      else if ch = chr CHR ''R'' then Some HTTP_REPORT
      else if ch = chr CHR ''S'' then Some HTTP_SUBSCRIBE
      else if ch = chr CHR ''T'' then Some HTTP_TRACE
      else if ch = chr CHR ''U'' then Some HTTP_UNLOCK
      else None)"

definition start_req_method_assign :: "byte \<Rightarrow> 'e locals \<Rightarrow> 'e ctl" where
  "start_req_method_assign ch l =
     (let l = set_parser (\<lambda>P. P\<lparr>hp_method := HTTP_DELETE\<rparr>) l\<lparr>index := 1\<rparr>
      in case first_letter_method ch of
           None \<Rightarrow> fail_with HPE_INVALID_METHOD l
         | Some m \<Rightarrow> goto_state s_req_method (set_parser (\<lambda>P. P\<lparr>hp_method := m\<rparr>) l))"

definition do_start_req_or_res :: "'e handler" where
  "do_start_req_or_res C ch l =
     (if ch = CR \<or> ch = LF then Break l
      else CALLBACK2_message_begin C (start_message l)
        (\<lambda>l. if ch = chr CHR ''H'' then goto_state s_res_or_resp_H l
             else start_req_method_assign ch (set_parser (\<lambda>P. P\<lparr>hp_type := HTTP_REQUEST\<rparr>) l)))"

definition do_res_or_resp_H :: "'e handler" where
  "do_res_or_resp_H C ch l =
     (if ch = chr CHR ''T'' then
        goto_state s_res_HT (set_parser (\<lambda>P. P\<lparr>hp_type := HTTP_RESPONSE\<rparr>) l)
      else if ch \<noteq> chr CHR ''E'' then fail_with HPE_INVALID_CONSTANT l
      else goto_state s_req_method
        (set_parser (\<lambda>P. P\<lparr>hp_type := HTTP_REQUEST, hp_method := HTTP_HEAD\<rparr>) l\<lparr>index := 2\<rparr>))"

section \<open>Status line\<close>

definition do_start_res :: "'e handler" where
  "do_start_res C ch l =
     CALLBACK2_message_begin C (start_message l)
       (\<lambda>l. if ch = chr CHR ''H'' then goto_state s_res_H l
            else if ch = CR \<or> ch = LF then Break l
            else fail_with HPE_INVALID_CONSTANT l)"

definition do_res_H :: "'e handler" where
  "do_res_H C ch l = STRICT_CHECK C (ch \<noteq> chr CHR ''T'') l (goto_state s_res_HT)"

definition do_res_HT :: "'e handler" where
  "do_res_HT C ch l = STRICT_CHECK C (ch \<noteq> chr CHR ''T'') l (goto_state s_res_HTT)"

definition do_res_HTT :: "'e handler" where
  "do_res_HTT C ch l = STRICT_CHECK C (ch \<noteq> chr CHR ''P'') l (goto_state s_res_HTTP)"

definition do_res_HTTP :: "'e handler" where
  "do_res_HTTP C ch l = STRICT_CHECK C (ch \<noteq> chr CHR ''/'') l (goto_state s_res_first_http_major)"

definition do_res_first_http_major :: "'e handler" where
  "do_res_first_http_major C ch l =
     (if ch < chr CHR ''0'' \<or> ch > chr CHR ''9'' then fail_with HPE_INVALID_VERSION l
      else goto_state s_res_http_major (set_parser (\<lambda>P. P\<lparr>hp_http_major := digit16 ch\<rparr>) l))"

text \<open>\<open>x *= 10; x += ch - '0'\<close> on the version and status fields, and the check that follows.\<close>

definition push_major :: "byte \<Rightarrow> 'e locals \<Rightarrow> 'e ctl" where
  "push_major ch l =
     (let l = set_parser (\<lambda>P. P\<lparr>hp_http_major := hp_http_major P * 10 + digit16 ch\<rparr>) l
      in if hp_http_major (parser l) > 999 then fail_with HPE_INVALID_VERSION l else Break l)"

definition push_minor :: "byte \<Rightarrow> 'e locals \<Rightarrow> 'e ctl" where
  "push_minor ch l =
     (let l = set_parser (\<lambda>P. P\<lparr>hp_http_minor := hp_http_minor P * 10 + digit16 ch\<rparr>) l
      in if hp_http_minor (parser l) > 999 then fail_with HPE_INVALID_VERSION l else Break l)"

definition do_res_http_major :: "'e handler" where
  "do_res_http_major C ch l =
     (if ch = chr CHR ''.'' then goto_state s_res_first_http_minor l
      else if \<not> IS_NUM ch then fail_with HPE_INVALID_VERSION l
      else push_major ch l)"

definition do_res_first_http_minor :: "'e handler" where
  "do_res_first_http_minor C ch l =
     (if \<not> IS_NUM ch then fail_with HPE_INVALID_VERSION l
      else goto_state s_res_http_minor (set_parser (\<lambda>P. P\<lparr>hp_http_minor := digit16 ch\<rparr>) l))"

definition do_res_http_minor :: "'e handler" where
  "do_res_http_minor C ch l =
     (if ch = SP then goto_state s_res_first_status_code l
      else if \<not> IS_NUM ch then fail_with HPE_INVALID_VERSION l
      else push_minor ch l)"

definition do_res_first_status_code :: "'e handler" where
  "do_res_first_status_code C ch l =
     (if \<not> IS_NUM ch then
        (if ch = SP then Break l else fail_with HPE_INVALID_STATUS l)
      else goto_state s_res_status_code (set_parser (\<lambda>P. P\<lparr>hp_status_code := digit16 ch\<rparr>) l))"

definition do_res_status_code :: "'e handler" where
  "do_res_status_code C ch l =
     (if \<not> IS_NUM ch then
        (if ch = SP then goto_state s_res_status l
         else if ch = CR then goto_state s_res_line_almost_done l
         else if ch = LF then goto_state s_header_field_start l
         else fail_with HPE_INVALID_STATUS l)
      else
        (let l = set_parser (\<lambda>P. P\<lparr>hp_status_code := hp_status_code P * 10 + digit16 ch\<rparr>) l
         in if hp_status_code (parser l) > 999 then fail_with HPE_INVALID_STATUS l else Break l))"

definition do_res_status :: "'e handler" where
  "do_res_status C ch l =
     (if ch = CR then goto_state s_res_line_almost_done l
      else if ch = LF then goto_state s_header_field_start l
      else Break l)"

definition do_res_line_almost_done :: "'e handler" where
  "do_res_line_almost_done C ch l =
     STRICT_CHECK C (ch \<noteq> LF) l (goto_state s_header_field_start)"

section \<open>Request line: the method\<close>

definition do_start_req :: "'e handler" where
  "do_start_req C ch l =
     (if ch = CR \<or> ch = LF then Break l
      else CALLBACK2_message_begin C (start_message l)
        (\<lambda>l. if \<not> IS_ALPHA ch then fail_with HPE_INVALID_METHOD l
             else start_req_method_assign ch l))"

text \<open>The chain of \<^verbatim>\<open>else if\<close> that moves to a longer method name: the new method, or how
  the chain fails (\<open>goto error\<close> alone, or with \<open>HPE_INVALID_METHOD\<close>).\<close>

datatype method_switch = Switch http_method | Bad | Bad_method

definition switch_method :: "http_method \<Rightarrow> nat \<Rightarrow> byte \<Rightarrow> method_switch" where
  "switch_method m i ch =
     (if m = HTTP_CONNECT then
        (if i = 1 \<and> ch = chr CHR ''H'' then Switch HTTP_CHECKOUT
         else if i = 2 \<and> ch = chr CHR ''P'' then Switch HTTP_COPY
         else Bad)
      else if m = HTTP_MKCOL then
        (if i = 1 \<and> ch = chr CHR ''O'' then Switch HTTP_MOVE
         else if i = 1 \<and> ch = chr CHR ''E'' then Switch HTTP_MERGE
         else if i = 1 \<and> ch = chr CHR ''-'' then Switch HTTP_MSEARCH
         else if i = 2 \<and> ch = chr CHR ''A'' then Switch HTTP_MKACTIVITY
         else Bad)
      else if i = 1 \<and> m = HTTP_POST then
        (if ch = chr CHR ''R'' then Switch HTTP_PROPFIND
         else if ch = chr CHR ''U'' then Switch HTTP_PUT
         else if ch = chr CHR ''A'' then Switch HTTP_PATCH
         else Bad)
      else if i = 2 \<and> m = HTTP_UNLOCK \<and> ch = chr CHR ''S'' then Switch HTTP_UNSUBSCRIBE
      else if i = 4 \<and> m = HTTP_PROPFIND \<and> ch = chr CHR ''P'' then Switch HTTP_PROPPATCH
      else Bad_method)"

definition do_req_method :: "'e handler" where
  "do_req_method C ch l =
     (if ch = 0 then fail_with HPE_INVALID_METHOD l
      else case cstr_at (http_method_str (hp_method (parser l))) (index l) of
             None \<Rightarrow> Crash
           | Some m \<Rightarrow>
               if ch = SP \<and> m = 0 then
                 Break (l\<lparr>state := s_req_spaces_before_url, index := Suc (index l)\<rparr>)
               else if ch = m then Break (l\<lparr>index := Suc (index l)\<rparr>)
               else case switch_method (hp_method (parser l)) (index l) ch of
                      Switch m' \<Rightarrow>
                        Break (set_parser (\<lambda>P. P\<lparr>hp_method := m'\<rparr>) l\<lparr>index := Suc (index l)\<rparr>)
                    | Bad \<Rightarrow> goto_error l
                    | Bad_method \<Rightarrow> fail_with HPE_INVALID_METHOD l)"

section \<open>Request line: the URL\<close>

definition do_req_spaces_before_url :: "'e handler" where
  "do_req_spaces_before_url C ch l =
     (if ch = SP then Break l
      else if ch = chr CHR ''/'' \<or> ch = chr CHR ''*'' then
        Break (l\<lparr>url_mark := Some (pos l), state := s_req_path\<rparr>)
      else if IS_ALPHA ch \<or> hp_method (parser l) = HTTP_CONNECT \<and> IS_NUM ch then
        Break (l\<lparr>url_mark := Some (pos l),
                 state := (if hp_method (parser l) = HTTP_CONNECT then s_req_host
                           else s_req_schema)\<rparr>)
      else fail_with HPE_INVALID_URL l)"

definition do_req_schema :: "'e handler" where
  "do_req_schema C ch l =
     (if IS_ALPHA ch then Break l
      else if ch = chr CHR '':'' then goto_state s_req_schema_slash l
      else fail_with HPE_INVALID_URL l)"

definition do_req_schema_slash :: "'e handler" where
  "do_req_schema_slash C ch l =
     STRICT_CHECK C (ch \<noteq> chr CHR ''/'') l (goto_state s_req_schema_slash_slash)"

definition do_req_schema_slash_slash :: "'e handler" where
  "do_req_schema_slash_slash C ch l =
     STRICT_CHECK C (ch \<noteq> chr CHR ''/'') l (goto_state s_req_host)"

definition do_req_host :: "'e handler" where
  "do_req_host C ch l =
     (if IS_HOST_CHAR (strict C) ch then Break l
      else if ch = chr CHR '':'' then goto_state s_req_port l
      else if ch = chr CHR ''/'' then goto_state s_req_path l
      else if ch = SP then CALLBACK_url C l (goto_state s_req_http_start)
      else if ch = chr CHR ''?'' then goto_state s_req_query_string_start l
      else fail_with HPE_INVALID_HOST l)"

definition do_req_port :: "'e handler" where
  "do_req_port C ch l =
     (if IS_NUM ch then Break l
      else if ch = chr CHR ''/'' then goto_state s_req_path l
      else if ch = SP then CALLBACK_url C l (goto_state s_req_http_start)
      else if ch = chr CHR ''?'' then goto_state s_req_query_string_start l
      else fail_with HPE_INVALID_PORT l)"

text \<open>\<open>http_major = 0; http_minor = 9\<close>: a request line that ends after the URL.\<close>

definition http_0_9 :: "state \<Rightarrow> 'e locals \<Rightarrow> 'e ctl" where
  "http_0_9 s l = goto_state s (set_parser (\<lambda>P. P\<lparr>hp_http_major := 0, hp_http_minor := 9\<rparr>) l)"

definition do_req_path :: "'e handler" where
  "do_req_path C ch l =
     (if IS_URL_CHAR (strict C) ch then Break l
      else if ch = SP then CALLBACK_url C l (goto_state s_req_http_start)
      else if ch = CR then CALLBACK_url C l (http_0_9 s_req_line_almost_done)
      else if ch = LF then CALLBACK_url C l (http_0_9 s_header_field_start)
      else if ch = chr CHR ''?'' then goto_state s_req_query_string_start l
      else if ch = chr CHR ''#'' then goto_state s_req_fragment_start l
      else fail_with HPE_INVALID_PATH l)"

definition do_req_query_string_start :: "'e handler" where
  "do_req_query_string_start C ch l =
     (if IS_URL_CHAR (strict C) ch then goto_state s_req_query_string l
      else if ch = chr CHR ''?'' then Break l
      else if ch = SP then CALLBACK_url C l (goto_state s_req_http_start)
      else if ch = CR then CALLBACK_url C l (http_0_9 s_req_line_almost_done)
      else if ch = LF then CALLBACK_url C l (http_0_9 s_header_field_start)
      else if ch = chr CHR ''#'' then goto_state s_req_fragment_start l
      else fail_with HPE_INVALID_QUERY_STRING l)"

definition do_req_query_string :: "'e handler" where
  "do_req_query_string C ch l =
     (if IS_URL_CHAR (strict C) ch then Break l
      else if ch = chr CHR ''?'' then Break l
      else if ch = SP then CALLBACK_url C l (goto_state s_req_http_start)
      else if ch = CR then CALLBACK_url C l (http_0_9 s_req_line_almost_done)
      else if ch = LF then CALLBACK_url C l (http_0_9 s_header_field_start)
      else if ch = chr CHR ''#'' then goto_state s_req_fragment_start l
      else fail_with HPE_INVALID_QUERY_STRING l)"

definition do_req_fragment_start :: "'e handler" where
  "do_req_fragment_start C ch l =
     (if IS_URL_CHAR (strict C) ch then goto_state s_req_fragment l
      else if ch = SP then CALLBACK_url C l (goto_state s_req_http_start)
      else if ch = CR then CALLBACK_url C l (http_0_9 s_req_line_almost_done)
      else if ch = LF then CALLBACK_url C l (http_0_9 s_header_field_start)
      else if ch = chr CHR ''?'' then goto_state s_req_fragment l
      else if ch = chr CHR ''#'' then Break l
      else fail_with HPE_INVALID_FRAGMENT l)"

definition do_req_fragment :: "'e handler" where
  "do_req_fragment C ch l =
     (if IS_URL_CHAR (strict C) ch then Break l
      else if ch = SP then CALLBACK_url C l (goto_state s_req_http_start)
      else if ch = CR then CALLBACK_url C l (http_0_9 s_req_line_almost_done)
      else if ch = LF then CALLBACK_url C l (http_0_9 s_header_field_start)
      else if ch = chr CHR ''?'' \<or> ch = chr CHR ''#'' then Break l
      else fail_with HPE_INVALID_FRAGMENT l)"

section \<open>Request line: the protocol version\<close>

definition do_req_http_start :: "'e handler" where
  "do_req_http_start C ch l =
     (if ch = chr CHR ''H'' then goto_state s_req_http_H l
      else if ch = SP then Break l
      else fail_with HPE_INVALID_CONSTANT l)"

definition do_req_http_H :: "'e handler" where
  "do_req_http_H C ch l = STRICT_CHECK C (ch \<noteq> chr CHR ''T'') l (goto_state s_req_http_HT)"

definition do_req_http_HT :: "'e handler" where
  "do_req_http_HT C ch l = STRICT_CHECK C (ch \<noteq> chr CHR ''T'') l (goto_state s_req_http_HTT)"

definition do_req_http_HTT :: "'e handler" where
  "do_req_http_HTT C ch l = STRICT_CHECK C (ch \<noteq> chr CHR ''P'') l (goto_state s_req_http_HTTP)"

definition do_req_http_HTTP :: "'e handler" where
  "do_req_http_HTTP C ch l =
     STRICT_CHECK C (ch \<noteq> chr CHR ''/'') l (goto_state s_req_first_http_major)"

definition do_req_first_http_major :: "'e handler" where
  "do_req_first_http_major C ch l =
     (if ch < chr CHR ''1'' \<or> ch > chr CHR ''9'' then fail_with HPE_INVALID_VERSION l
      else goto_state s_req_http_major (set_parser (\<lambda>P. P\<lparr>hp_http_major := digit16 ch\<rparr>) l))"

definition do_req_http_major :: "'e handler" where
  "do_req_http_major C ch l =
     (if ch = chr CHR ''.'' then goto_state s_req_first_http_minor l
      else if \<not> IS_NUM ch then fail_with HPE_INVALID_VERSION l
      else push_major ch l)"

definition do_req_first_http_minor :: "'e handler" where
  "do_req_first_http_minor C ch l =
     (if \<not> IS_NUM ch then fail_with HPE_INVALID_VERSION l
      else goto_state s_req_http_minor (set_parser (\<lambda>P. P\<lparr>hp_http_minor := digit16 ch\<rparr>) l))"

definition do_req_http_minor :: "'e handler" where
  "do_req_http_minor C ch l =
     (if ch = CR then goto_state s_req_line_almost_done l
      else if ch = LF then goto_state s_header_field_start l
      else if \<not> IS_NUM ch then fail_with HPE_INVALID_VERSION l
      else push_minor ch l)"

definition do_req_line_almost_done :: "'e handler" where
  "do_req_line_almost_done C ch l =
     (if ch \<noteq> LF then fail_with HPE_LF_EXPECTED l else goto_state s_header_field_start l)"

lemma wp_case_method_switch [ctl_wp]:
  assumes "\<And>m. x = Switch m \<Longrightarrow> ctl_all X Q E (f m)"
    and "x = Bad \<Longrightarrow> ctl_all X Q E g" and "x = Bad_method \<Longrightarrow> ctl_all X Q E h"
  shows "ctl_all X Q E (case x of Switch m \<Rightarrow> f m | Bad \<Rightarrow> g | Bad_method \<Rightarrow> h)"
  using assms by (cases x) simp_all

lemmas startline_defs [handler_defs] =
  do_dead_def do_start_req_or_res_def do_res_or_resp_H_def do_start_res_def do_res_H_def
  do_res_HT_def do_res_HTT_def do_res_HTTP_def do_res_first_http_major_def do_res_http_major_def
  do_res_first_http_minor_def do_res_http_minor_def do_res_first_status_code_def
  do_res_status_code_def do_res_status_def do_res_line_almost_done_def do_start_req_def
  do_req_spaces_before_url_def do_req_schema_def do_req_schema_slash_def
  do_req_schema_slash_slash_def do_req_host_def do_req_port_def do_req_path_def
  do_req_query_string_start_def do_req_query_string_def do_req_fragment_start_def
  do_req_fragment_def do_req_http_start_def do_req_http_H_def do_req_http_HT_def
  do_req_http_HTT_def do_req_http_HTTP_def do_req_first_http_major_def do_req_http_major_def
  do_req_first_http_minor_def do_req_http_minor_def do_req_line_almost_done_def
  push_major_def push_minor_def start_message_def

lemma wp_http_0_9 [ctl_wp]:
  "Q (set_parser (\<lambda>P. P\<lparr>hp_http_major := 0, hp_http_minor := 9\<rparr>) l\<lparr>state := s\<rparr>) \<Longrightarrow>
   ctl_all X Q E (http_0_9 s l)"
  by (simp add: http_0_9_def)

end
