(* ===== verification/Http_Headers.thy ===== *)
theory Http_Headers
  imports Http_Core
begin

text \<open>
  The handlers of \<^verbatim>\<open>http_parser_execute\<close> for header fields and values: the states
  \<^verbatim>\<open>s_header_field_start\<close> to \<^verbatim>\<open>s_headers_almost_done\<close>.  The labels the C code jumps to
  (\<open>header_field_start\<close>, \<open>header_almost_done\<close>, \<open>headers_almost_done\<close>) are the definitions of
  the cases they open.
\<close>

section \<open>Constant strings\<close>

definition PROXY_CONNECTION :: "byte list" where "PROXY_CONNECTION = bytes ''proxy-connection''"
definition CONNECTION :: "byte list" where "CONNECTION = bytes ''connection''"
definition CONTENT_LENGTH :: "byte list" where "CONTENT_LENGTH = bytes ''content-length''"
definition TRANSFER_ENCODING :: "byte list" where "TRANSFER_ENCODING = bytes ''transfer-encoding''"
definition UPGRADE :: "byte list" where "UPGRADE = bytes ''upgrade''"
definition CHUNKED :: "byte list" where "CHUNKED = bytes ''chunked''"
definition KEEP_ALIVE :: "byte list" where "KEEP_ALIVE = bytes ''keep-alive''"
definition CLOSE :: "byte list" where "CLOSE = bytes ''close''"

lemmas const_string_defs =
  PROXY_CONNECTION_def CONNECTION_def CONTENT_LENGTH_def TRANSFER_ENCODING_def UPGRADE_def
  CHUNKED_def KEEP_ALIVE_def CLOSE_def

text \<open>
  The matching step that the code writes out once per constant string \<open>W\<close>:
  \<open>index++\<close>, then compare \<open>c\<close> with \<open>W[index]\<close>, where \<open>sizeof(W)\<close> counts the NUL.
\<close>

definition match_next :: "byte list \<Rightarrow> header_states \<Rightarrow> byte \<Rightarrow> 'e locals \<Rightarrow> 'e ctl" where
  "match_next W final c l =
     (let l = l\<lparr>index := Suc (index l)\<rparr>
      in if index l > length W then Break (l\<lparr>header_state := h_general\<rparr>)
         else case cstr_at W (index l) of
                None \<Rightarrow> Crash
              | Some w \<Rightarrow>
                  if c \<noteq> w then Break (l\<lparr>header_state := h_general\<rparr>)
                  else if index l = length W - 1 then Break (l\<lparr>header_state := final\<rparr>)
                  else Break l)"

section \<open>End of the headers\<close>

definition NEW_MESSAGE_state :: "'e call \<Rightarrow> 'e locals \<Rightarrow> 'e ctl" where
  "NEW_MESSAGE_state C l = goto_state (NEW_MESSAGE C (parser l)) l"

text \<open>After the headers, when the message has no upgrade: which body follows.\<close>

definition body_state :: "'e handler" where
  "body_state C ch l =
     (if has_flag (parser l) F_SKIPBODY then
        CALLBACK2_message_complete C l (NEW_MESSAGE_state C)
      else if has_flag (parser l) F_CHUNKED then goto_state s_chunk_size_start l
      else if hp_content_length (parser l) = 0 then
        CALLBACK2_message_complete C l (NEW_MESSAGE_state C)
      else if sint (hp_content_length (parser l)) > 0 then goto_state s_body_identity l
      else if hp_type (parser l) = HTTP_REQUEST \<or> http_should_keep_alive (parser l) then
        CALLBACK2_message_complete C l (NEW_MESSAGE_state C)
      else goto_state s_body_identity_eof l)"

text \<open>
  The \<open>on_headers_complete\<close> callback: 1 means that no body follows; any other non-zero
  result is an error, which stores the state before it returns.
\<close>

definition call_on_headers_complete ::
  "'e call \<Rightarrow> 'e locals \<Rightarrow> ('e locals \<Rightarrow> 'e ctl) \<Rightarrow> 'e ctl" where
  "call_on_headers_complete C l k =
     (case on_headers_complete (settings C) of
        None \<Rightarrow> k l
      | Some f \<Rightarrow>
          (let (r, v) = f (parser l) (env l); l = l\<lparr>env := v\<rparr>
           in if r = 0 then k l
              else if r = 1 then k (add_flag F_SKIPBODY l)
              else Done (pos l)
                (SET_ERRNO HPE_CB_headers_complete (set_parser (\<lambda>P. P\<lparr>hp_state := state l\<rparr>) l))))"

lemma wp_call_on_headers_complete [ctl_wp]:
  assumes "\<And>v. ctl_all X Q E (k (l\<lparr>env := v\<rparr>))"
    and "\<And>v. ctl_all X Q E (k (add_flag F_SKIPBODY (l\<lparr>env := v\<rparr>)))"
    and "\<And>v e. e \<noteq> HPE_OK \<Longrightarrow>
           E (pos l) (SET_ERRNO e (set_parser (\<lambda>P. P\<lparr>hp_state := state l\<rparr>) (l\<lparr>env := v\<rparr>)))"
  shows "ctl_all X Q E (call_on_headers_complete C l k)"
  using assms assms(1) [of "env l"]
  by (simp add: call_on_headers_complete_def Let_def split: option.split prod.split)

text \<open>\<open>if (flags & F_UPGRADE || method == HTTP_CONNECT) upgrade = 1\<close>\<close>

definition set_upgrade :: "'e locals \<Rightarrow> 'e locals" where
  "set_upgrade l =
     (if has_flag (parser l) F_UPGRADE \<or> hp_method (parser l) = HTTP_CONNECT
      then set_parser (\<lambda>P. P\<lparr>hp_upgrade := True\<rparr>) l else l)"

definition do_headers_almost_done :: "'e handler" where
  "do_headers_almost_done C ch l =
     STRICT_CHECK C (ch \<noteq> LF) l
       (\<lambda>l. if has_flag (parser l) F_TRAILING then
              CALLBACK2_message_complete C l (NEW_MESSAGE_state C)
            else
              call_on_headers_complete C (set_upgrade (l\<lparr>nread := 0\<rparr>))
                (\<lambda>l. if hp_upgrade (parser l) then
                       CALLBACK2_message_complete C l (\<lambda>l. Done (pos l + 1) l)
                     else body_state C ch l))"

section \<open>Header fields\<close>

definition first_header_state :: "byte \<Rightarrow> header_states" where
  "first_header_state c =
     (if c = chr CHR ''c'' then h_C
      else if c = chr CHR ''p'' then h_matching_proxy_connection
      else if c = chr CHR ''t'' then h_matching_transfer_encoding
      else if c = chr CHR ''u'' then h_matching_upgrade
      else h_general)"

definition do_header_field_start :: "'e handler" where
  "do_header_field_start C ch l =
     (if ch = CR then goto_state s_headers_almost_done l
      else if ch = LF then do_headers_almost_done C ch (l\<lparr>state := s_headers_almost_done\<rparr>)
      else if TOKEN ch = 0 then fail_with HPE_INVALID_HEADER_TOKEN l
      else Break (l\<lparr>header_field_mark := Some (pos l), index := 0, state := s_header_field,
                    header_state := first_header_state (TOKEN ch)\<rparr>))"

text \<open>The inner \<^verbatim>\<open>switch (header_state)\<close> for a token character \<open>c\<close> of a header name.\<close>

definition header_field_token :: "byte \<Rightarrow> byte \<Rightarrow> 'e locals \<Rightarrow> 'e ctl" where
  "header_field_token ch c l =
     (case header_state l of
        h_general \<Rightarrow> Break l
      | h_C \<Rightarrow> Break (l\<lparr>index := Suc (index l),
                        header_state := (if c = chr CHR ''o'' then h_CO else h_general)\<rparr>)
      | h_CO \<Rightarrow> Break (l\<lparr>index := Suc (index l),
                         header_state := (if c = chr CHR ''n'' then h_CON else h_general)\<rparr>)
      | h_CON \<Rightarrow> Break (l\<lparr>index := Suc (index l),
                          header_state := (if c = chr CHR ''n'' then h_matching_connection
                                           else if c = chr CHR ''t'' then h_matching_content_length
                                           else h_general)\<rparr>)
      | h_matching_connection \<Rightarrow> match_next CONNECTION h_connection c l
      | h_matching_proxy_connection \<Rightarrow> match_next PROXY_CONNECTION h_connection c l
      | h_matching_content_length \<Rightarrow> match_next CONTENT_LENGTH h_content_length c l
      | h_matching_transfer_encoding \<Rightarrow> match_next TRANSFER_ENCODING h_transfer_encoding c l
      | h_matching_upgrade \<Rightarrow> match_next UPGRADE h_upgrade c l
      | h_connection \<Rightarrow> Break (if ch \<noteq> SP then l\<lparr>header_state := h_general\<rparr> else l)
      | h_content_length \<Rightarrow> Break (if ch \<noteq> SP then l\<lparr>header_state := h_general\<rparr> else l)
      | h_transfer_encoding \<Rightarrow> Break (if ch \<noteq> SP then l\<lparr>header_state := h_general\<rparr> else l)
      | h_upgrade \<Rightarrow> Break (if ch \<noteq> SP then l\<lparr>header_state := h_general\<rparr> else l)
      | _ \<Rightarrow> Crash)"

definition do_header_field :: "'e handler" where
  "do_header_field C ch l =
     (if TOKEN ch \<noteq> 0 then header_field_token ch (TOKEN ch) l
      else if ch = chr CHR '':'' then
        CALLBACK_header_field C l (goto_state s_header_value_start)
      else if ch = CR then CALLBACK_header_field C (l\<lparr>state := s_header_almost_done\<rparr>) Break
      else if ch = LF then CALLBACK_header_field C l (goto_state s_header_field_start)
      else fail_with HPE_INVALID_HEADER_TOKEN l)"

section \<open>Header values\<close>

text \<open>The \<^verbatim>\<open>switch (header_state)\<close> on the first character of a value.\<close>

definition header_value_first :: "byte \<Rightarrow> 'e locals \<Rightarrow> 'e ctl" where
  "header_value_first ch l =
     (let c = LOWER ch in
      case header_state l of
        h_upgrade \<Rightarrow> Break (add_flag F_UPGRADE l\<lparr>header_state := h_general\<rparr>)
      | h_transfer_encoding \<Rightarrow>
          Break (l\<lparr>header_state :=
            (if c = chr CHR ''c'' then h_matching_transfer_encoding_chunked else h_general)\<rparr>)
      | h_content_length \<Rightarrow>
          (if \<not> IS_NUM ch then fail_with HPE_INVALID_CONTENT_LENGTH l
           else Break (set_parser (\<lambda>P. P\<lparr>hp_content_length := ucast ch - 48\<rparr>) l))
      | h_connection \<Rightarrow>
          Break (l\<lparr>header_state :=
            (if c = chr CHR ''k'' then h_matching_connection_keep_alive
             else if c = chr CHR ''c'' then h_matching_connection_close
             else h_general)\<rparr>)
      | _ \<Rightarrow> Break (l\<lparr>header_state := h_general\<rparr>))"

definition do_header_value_start :: "'e handler" where
  "do_header_value_start C ch l =
     (if ch = SP \<or> ch = TAB then Break l
      else
        (let l = l\<lparr>header_value_mark := Some (pos l), state := s_header_value, index := 0\<rparr>
         in if ch = CR then
              CALLBACK_header_value C l
                (\<lambda>l. Break (l\<lparr>header_state := h_general, state := s_header_almost_done\<rparr>))
            else if ch = LF then CALLBACK_header_value C l (goto_state s_header_field_start)
            else header_value_first ch l))"

definition do_header_almost_done :: "'e handler" where
  "do_header_almost_done C ch l =
     STRICT_CHECK C (ch \<noteq> LF) l
       (\<lambda>l. let l = l\<lparr>state := s_header_value_lws\<rparr> in
            case header_state l of
              h_connection_keep_alive \<Rightarrow> Break (add_flag F_CONNECTION_KEEP_ALIVE l)
            | h_connection_close \<Rightarrow> Break (add_flag F_CONNECTION_CLOSE l)
            | h_transfer_encoding_chunked \<Rightarrow> Break (add_flag F_CHUNKED l)
            | _ \<Rightarrow> Break l)"

text \<open>The \<^verbatim>\<open>switch (header_state)\<close> on a later character of a value.\<close>

definition header_value_char :: "byte \<Rightarrow> 'e locals \<Rightarrow> 'e ctl" where
  "header_value_char ch l =
     (let c = LOWER ch in
      case header_state l of
        h_general \<Rightarrow> Break l
      | h_connection \<Rightarrow> Crash
      | h_transfer_encoding \<Rightarrow> Crash
      | h_content_length \<Rightarrow>
          (if ch = SP then Break l
           else if \<not> IS_NUM ch then fail_with HPE_INVALID_CONTENT_LENGTH l
           else Break (set_parser
             (\<lambda>P. P\<lparr>hp_content_length := hp_content_length P * 10 + (ucast ch - 48)\<rparr>) l))
      | h_matching_transfer_encoding_chunked \<Rightarrow> match_next CHUNKED h_transfer_encoding_chunked c l
      | h_matching_connection_keep_alive \<Rightarrow> match_next KEEP_ALIVE h_connection_keep_alive c l
      | h_matching_connection_close \<Rightarrow> match_next CLOSE h_connection_close c l
      | h_transfer_encoding_chunked \<Rightarrow> Break (if ch \<noteq> SP then l\<lparr>header_state := h_general\<rparr> else l)
      | h_connection_keep_alive \<Rightarrow> Break (if ch \<noteq> SP then l\<lparr>header_state := h_general\<rparr> else l)
      | h_connection_close \<Rightarrow> Break (if ch \<noteq> SP then l\<lparr>header_state := h_general\<rparr> else l)
      | _ \<Rightarrow> Break (l\<lparr>state := s_header_value, header_state := h_general\<rparr>))"

definition do_header_value :: "'e handler" where
  "do_header_value C ch l =
     (if ch = CR then CALLBACK_header_value C l (goto_state s_header_almost_done)
      else if ch = LF then CALLBACK_header_value C l (do_header_almost_done C ch)
      else header_value_char ch l)"

definition do_header_value_lws :: "'e handler" where
  "do_header_value_lws C ch l =
     (if ch = SP \<or> ch = TAB then goto_state s_header_value_start l
      else do_header_field_start C ch (l\<lparr>state := s_header_field_start\<rparr>))"

lemmas headers_defs =
  do_header_field_def header_field_token_def do_header_value_start_def header_value_first_def
  do_header_value_def header_value_char_def match_next_def

lemmas header_value_lws_def [handler_defs] = do_header_value_lws_def

lemma wp_NEW_MESSAGE_state [ctl_wp]:
  "Q (l\<lparr>state := NEW_MESSAGE C (parser l)\<rparr>) \<Longrightarrow> ctl_all X Q E (NEW_MESSAGE_state C l)"
  by (simp add: NEW_MESSAGE_state_def)

end
