(* ===== verification/Http_Body.thy ===== *)
theory Http_Body
  imports Http_Core
begin

text \<open>
  The handlers of \<^verbatim>\<open>http_parser_execute\<close> for message bodies: bodies of known length, bodies
  that end with the connection, and the chunked transfer coding.  \<open>content_length\<close> is a
  signed 64-bit value whose additions wrap around, as the compiled code's do.
\<close>

text \<open>\<open>MIN(pe - p, (int64_t)parser->content_length)\<close>\<close>

definition body_to_read :: "'e call \<Rightarrow> 'e locals \<Rightarrow> int" where
  "body_to_read C l =
     min (int (length (data C)) - int (pos l)) (sint (hp_content_length (parser l)))"

text \<open>\<open>p += to_read - 1\<close>\<close>

definition advance :: "int \<Rightarrow> 'e locals \<Rightarrow> 'e locals" where
  "advance n l = l\<lparr>pos := pos l + nat (n - 1)\<rparr>"

lemma advance_simps [simp]:
  "parser (advance n l) = parser l" "state (advance n l) = state l" "env (advance n l) = env l"
  "header_state (advance n l) = header_state l" "index (advance n l) = index l"
  "nread (advance n l) = nread l" "header_field_mark (advance n l) = header_field_mark l"
  "header_value_mark (advance n l) = header_value_mark l" "url_mark (advance n l) = url_mark l"
  "pos (advance n l) = pos l + nat (n - 1)"
  by (simp_all add: advance_def)

lemma body_to_read_bound:
  "pos l < length (data C) \<Longrightarrow> pos l + nat (body_to_read C l - 1) < length (data C)"
  by (simp add: body_to_read_def)

definition do_body_identity :: "'e handler" where
  "do_body_identity C ch l =
     (let to_read = body_to_read C l in
      if to_read > 0 then
        (let l = advance to_read (call_on_body C to_read l);
             l = set_parser
                   (\<lambda>P. P\<lparr>hp_content_length := hp_content_length P - word_of_int to_read\<rparr>) l
         in if hp_content_length (parser l) = 0 then
              CALLBACK2_message_complete C l (\<lambda>l. goto_state (NEW_MESSAGE C (parser l)) l)
            else Break l)
      else Break l)"

definition do_body_identity_eof :: "'e handler" where
  "do_body_identity_eof C ch l =
     (let to_read = int (length (data C)) - int (pos l) in
      if to_read > 0 then Break (advance to_read (call_on_body C to_read l)) else Break l)"

definition do_chunk_size_start :: "'e handler" where
  "do_chunk_size_start C ch l =
     assert_that (nread l = 1) l (\<lambda>l.
     assert_that (has_flag (parser l) F_CHUNKED) l (\<lambda>l.
       if unhex ch = -1 then fail_with HPE_INVALID_CHUNK_SIZE l
       else goto_state s_chunk_size
         (set_parser (\<lambda>P. P\<lparr>hp_content_length := word_of_int (unhex ch)\<rparr>) l)))"

definition do_chunk_size :: "'e handler" where
  "do_chunk_size C ch l =
     assert_that (has_flag (parser l) F_CHUNKED) l (\<lambda>l.
       if ch = CR then goto_state s_chunk_size_almost_done l
       else if unhex ch = -1 then
         (if ch = chr CHR '';'' \<or> ch = SP then goto_state s_chunk_parameters l
          else fail_with HPE_INVALID_CHUNK_SIZE l)
       else Break (set_parser
         (\<lambda>P. P\<lparr>hp_content_length := hp_content_length P * 16 + word_of_int (unhex ch)\<rparr>) l))"

definition do_chunk_parameters :: "'e handler" where
  "do_chunk_parameters C ch l =
     assert_that (has_flag (parser l) F_CHUNKED) l (\<lambda>l.
       if ch = CR then goto_state s_chunk_size_almost_done l else Break l)"

definition do_chunk_size_almost_done :: "'e handler" where
  "do_chunk_size_almost_done C ch l =
     assert_that (has_flag (parser l) F_CHUNKED) l (\<lambda>l.
     STRICT_CHECK C (ch \<noteq> LF) l (\<lambda>l.
       let l = l\<lparr>nread := 0\<rparr> in
       if hp_content_length (parser l) = 0 then
         goto_state s_header_field_start (add_flag F_TRAILING l)
       else goto_state s_chunk_data l))"

definition do_chunk_data :: "'e handler" where
  "do_chunk_data C ch l =
     assert_that (has_flag (parser l) F_CHUNKED) l (\<lambda>l.
       let to_read = body_to_read C l;
           l = (if to_read > 0 then advance to_read (call_on_body C to_read l) else l);
           l = (if to_read = sint (hp_content_length (parser l))
                then l\<lparr>state := s_chunk_data_almost_done\<rparr> else l)
       in Break (set_parser
            (\<lambda>P. P\<lparr>hp_content_length := hp_content_length P - word_of_int to_read\<rparr>) l))"

definition do_chunk_data_almost_done :: "'e handler" where
  "do_chunk_data_almost_done C ch l =
     assert_that (has_flag (parser l) F_CHUNKED) l (\<lambda>l.
     STRICT_CHECK C (ch \<noteq> CR) l (goto_state s_chunk_data_done))"

definition do_chunk_data_done :: "'e handler" where
  "do_chunk_data_done C ch l =
     assert_that (has_flag (parser l) F_CHUNKED) l (\<lambda>l.
     STRICT_CHECK C (ch \<noteq> LF) l (goto_state s_chunk_size_start))"

lemmas body_defs [handler_defs] =
  do_chunk_size_start_def do_chunk_size_def do_chunk_parameters_def do_chunk_size_almost_done_def
  do_chunk_data_almost_done_def do_chunk_data_done_def

end
