(* ===== verification/Http_Execute.thy ===== *)
theory Http_Execute
  imports Http_Startline Http_Headers Http_Body
begin

text \<open>
  \<^verbatim>\<open>http_parser_execute\<close>: the dispatch on the state, the count of header bytes, the loop
  over the data, the callbacks for the strings still open when the data ends, and the
  treatment of an empty call (end of file).  The loop is a total function: every handler
  leaves the read position where it is or moves it forward.
\<close>

section \<open>One byte\<close>

primrec handler_of :: "state \<Rightarrow> 'e handler" where
  "handler_of s_dead = do_dead"
| "handler_of s_start_req_or_res = do_start_req_or_res"
| "handler_of s_res_or_resp_H = do_res_or_resp_H"
| "handler_of s_start_res = do_start_res"
| "handler_of s_res_H = do_res_H"
| "handler_of s_res_HT = do_res_HT"
| "handler_of s_res_HTT = do_res_HTT"
| "handler_of s_res_HTTP = do_res_HTTP"
| "handler_of s_res_first_http_major = do_res_first_http_major"
| "handler_of s_res_http_major = do_res_http_major"
| "handler_of s_res_first_http_minor = do_res_first_http_minor"
| "handler_of s_res_http_minor = do_res_http_minor"
| "handler_of s_res_first_status_code = do_res_first_status_code"
| "handler_of s_res_status_code = do_res_status_code"
| "handler_of s_res_status = do_res_status"
| "handler_of s_res_line_almost_done = do_res_line_almost_done"
| "handler_of s_start_req = do_start_req"
| "handler_of s_req_method = do_req_method"
| "handler_of s_req_spaces_before_url = do_req_spaces_before_url"
| "handler_of s_req_schema = do_req_schema"
| "handler_of s_req_schema_slash = do_req_schema_slash"
| "handler_of s_req_schema_slash_slash = do_req_schema_slash_slash"
| "handler_of s_req_host = do_req_host"
| "handler_of s_req_port = do_req_port"
| "handler_of s_req_path = do_req_path"
| "handler_of s_req_query_string_start = do_req_query_string_start"
| "handler_of s_req_query_string = do_req_query_string"
| "handler_of s_req_fragment_start = do_req_fragment_start"
| "handler_of s_req_fragment = do_req_fragment"
| "handler_of s_req_http_start = do_req_http_start"
| "handler_of s_req_http_H = do_req_http_H"
| "handler_of s_req_http_HT = do_req_http_HT"
| "handler_of s_req_http_HTT = do_req_http_HTT"
| "handler_of s_req_http_HTTP = do_req_http_HTTP"
| "handler_of s_req_first_http_major = do_req_first_http_major"
| "handler_of s_req_http_major = do_req_http_major"
| "handler_of s_req_first_http_minor = do_req_first_http_minor"
| "handler_of s_req_http_minor = do_req_http_minor"
| "handler_of s_req_line_almost_done = do_req_line_almost_done"
| "handler_of s_header_field_start = do_header_field_start"
| "handler_of s_header_field = do_header_field"
| "handler_of s_header_value_start = do_header_value_start"
| "handler_of s_header_value = do_header_value"
| "handler_of s_header_value_lws = do_header_value_lws"
| "handler_of s_header_almost_done = do_header_almost_done"
| "handler_of s_chunk_size_start = do_chunk_size_start"
| "handler_of s_chunk_size = do_chunk_size"
| "handler_of s_chunk_parameters = do_chunk_parameters"
| "handler_of s_chunk_size_almost_done = do_chunk_size_almost_done"
| "handler_of s_headers_almost_done = do_headers_almost_done"
| "handler_of s_chunk_data = do_chunk_data"
| "handler_of s_chunk_data_almost_done = do_chunk_data_almost_done"
| "handler_of s_chunk_data_done = do_chunk_data_done"
| "handler_of s_body_identity = do_body_identity"
| "handler_of s_body_identity_eof = do_body_identity_eof"

text \<open>The body of the loop, for the byte at \<open>pos\<close>; reading past the data is a crash.\<close>

definition count_header_byte :: "'e locals \<Rightarrow> 'e locals" where
  "count_header_byte l = (if PARSING_HEADER (state l) then l\<lparr>nread := Suc (nread l)\<rparr> else l)"

definition step :: "'e call \<Rightarrow> 'e locals \<Rightarrow> 'e ctl" where
  "step C l =
     (if pos l < length (data C) then
        (let ch = data C ! pos l; l = count_header_byte l
         in if PARSING_HEADER (state l) \<and> nread l > HTTP_MAX_HEADER_SIZE
            then fail_with HPE_HEADER_OVERFLOW l
            else handler_of (state l) C ch l)
      else Crash)"

section \<open>Progress\<close>

text \<open>The read position never moves backwards.\<close>

abbreviation pos_ge :: "nat \<Rightarrow> 'e ctl \<Rightarrow> bool" where
  "pos_ge n \<equiv> ctl_all True (\<lambda>l. n \<le> pos l) (\<lambda>_ _. True)"

lemma pos_ge_headers_almost_done: "n \<le> pos l \<Longrightarrow> pos_ge n (do_headers_almost_done C ch l)"
  unfolding do_headers_almost_done_def body_state_def by (intro ctl_wp; simp add: set_upgrade_def)

lemma pos_ge_header_almost_done: "n \<le> pos l \<Longrightarrow> pos_ge n (do_header_almost_done C ch l)"
  unfolding do_header_almost_done_def by (intro ctl_wp; simp)

lemma pos_ge_header_field_start: "n \<le> pos l \<Longrightarrow> pos_ge n (do_header_field_start C ch l)"
  unfolding do_header_field_start_def by (intro ctl_wp pos_ge_headers_almost_done; simp)

lemma pos_ge_method_assign: "n \<le> pos l \<Longrightarrow> pos_ge n (start_req_method_assign ch l)"
  unfolding start_req_method_assign_def by (intro ctl_wp; simp)

lemmas pos_ge_parts = pos_ge_headers_almost_done pos_ge_header_almost_done
  pos_ge_header_field_start pos_ge_method_assign

lemma pos_ge_handler: "n \<le> pos l \<Longrightarrow> pos_ge n (handler_of s C ch l)"
  by (cases s;
      simp only: handler_of.simps handler_defs headers_defs do_req_method_def do_body_identity_def
        do_body_identity_eof_def do_chunk_data_def;
      intro ctl_wp pos_ge_parts; simp)

lemma step_pos:
  assumes "step C l = Break l'"
  shows "pos l < length (data C)" and "pos l \<le> pos l'"
proof -
  show len: "pos l < length (data C)"
    using assms by (auto simp: step_def split: if_splits)
  have "pos_ge (pos l) (step C l)"
    unfolding step_def count_header_byte_def
    by (intro ctl_wp pos_ge_handler) (simp_all split: if_splits)
  with assms show "pos l \<le> pos l'" by simp
qed

section \<open>The loop\<close>

text \<open>
  \<open>for (p = data, pe = data + len; p != pe; p++)\<close>.  When the data ends the open strings
  are handed to their callbacks and the local variables are stored back in the parser.
\<close>

definition store_locals :: "'e call \<Rightarrow> 'e locals \<Rightarrow> 'e ctl" where
  "store_locals C l =
     Done (length (data C))
       (set_parser (\<lambda>P. P\<lparr>hp_state := state l, hp_header_state := header_state l,
                          hp_index := of_nat (index l), hp_nread := of_nat (nread l)\<rparr>) l)"

definition end_of_data :: "'e call \<Rightarrow> 'e locals \<Rightarrow> 'e ctl" where
  "end_of_data C l =
     CALLBACK_header_field C l (\<lambda>l.
     CALLBACK_header_value C l (\<lambda>l.
     CALLBACK_url C l (store_locals C)))"

function execute_loop :: "'e call \<Rightarrow> 'e locals \<Rightarrow> 'e ctl" where
  "execute_loop C l =
     (if pos l = length (data C) then end_of_data C l
      else case step C l of
             Break l' \<Rightarrow> execute_loop C (l'\<lparr>pos := Suc (pos l')\<rparr>)
           | Done n l' \<Rightarrow> Done n l'
           | Crash \<Rightarrow> Crash)"
  by pat_completeness auto
termination
proof (relation "measure (\<lambda>(C, l). length (data C) - pos l)")
  show "wf (measure (\<lambda>(C :: 'a call, l :: 'a locals). length (data C) - pos l))" by simp
next
  fix C :: "'a call" and l l' :: "'a locals"
  assume "step C l = Break l'"
  from step_pos [OF this]
  show "((C, l'\<lparr>pos := Suc (pos l')\<rparr>), C, l) \<in> measure (\<lambda>(C, l). length (data C) - pos l)"
    by simp
qed

declare execute_loop.simps [simp del]

lemma loop_Break:
  "pos l \<noteq> length (data C) \<Longrightarrow> step C l = Break l' \<Longrightarrow>
   execute_loop C l = execute_loop C (l'\<lparr>pos := Suc (pos l')\<rparr>)"
  by (simp add: execute_loop.simps [of C l])

lemma loop_Done:
  "pos l \<noteq> length (data C) \<Longrightarrow> step C l = Done n l' \<Longrightarrow> execute_loop C l = Done n l'"
  by (simp add: execute_loop.simps [of C l])

lemma loop_end: "pos l = length (data C) \<Longrightarrow> execute_loop C l = end_of_data C l"
  by (simp add: execute_loop.simps [of C l])

section \<open>The entry point\<close>

definition url_states :: "state set" where
  "url_states =
     {s_req_path, s_req_schema, s_req_schema_slash, s_req_schema_slash_slash, s_req_port,
      s_req_query_string_start, s_req_query_string, s_req_host, s_req_fragment_start,
      s_req_fragment}"

definition load_locals :: "http_parser \<Rightarrow> 'e \<Rightarrow> 'e locals" where
  "load_locals P v =
     \<lparr>parser = P, env = v, state = hp_state P, header_state = hp_header_state P,
      index = unat (hp_index P), nread = unat (hp_nread P),
      header_field_mark = (if hp_state P = s_header_field then Some 0 else None),
      header_value_mark = (if hp_state P = s_header_value then Some 0 else None),
      url_mark = (if hp_state P \<in> url_states then Some 0 else None),
      pos = 0\<rparr>"

lemma pos_load [simp]: "pos (load_locals P v) = 0" "state (load_locals P v) = hp_state P"
  by (simp_all add: load_locals_def)

text \<open>A call with no data: end of file.\<close>

definition execute_eof :: "'e call \<Rightarrow> 'e locals \<Rightarrow> 'e ctl" where
  "execute_eof C l =
     (if state l = s_body_identity_eof then CALLBACK2_message_complete C l (Done 0)
      else if state l \<in> {s_dead, s_start_req_or_res, s_start_res, s_start_req} then Done 0 l
      else Done 1 (SET_ERRNO HPE_INVALID_EOF_STATE l))"

datatype 'e result = Returned nat http_parser 'e | Crashed

fun result_of :: "'e ctl \<Rightarrow> 'e result" where
  "result_of (Done n l) = Returned n (parser l) (env l)"
| "result_of (Break l) = Crashed"
| "result_of Crash = Crashed"

definition http_parser_execute ::
  "bool \<Rightarrow> http_parser \<Rightarrow> 'e http_parser_settings \<Rightarrow> byte list \<Rightarrow> 'e \<Rightarrow> 'e result" where
  "http_parser_execute strict_mode P S bs v =
     (let C = \<lparr>strict = strict_mode, settings = S, data = bs\<rparr>; l = load_locals P v in
      if hp_http_errno P \<noteq> HPE_OK then Returned 0 P v
      else if bs = [] then result_of (execute_eof C l)
      else result_of (execute_loop C l))"

end
