(* ===== verification/Http_Safety.thy ===== *)
theory Http_Safety
  imports Http_Execute
begin

text \<open>
  The invariant of the parser and its consequences: no call on a parser that satisfies it
  fails an assertion or reads outside a table, a method name or the data, every call
  returns, and the invariant holds again whenever the call ends without an error or an
  upgrade.  \<open>http_parser_init\<close> establishes it on any memory it is given.
\<close>

section \<open>Facts about the tables\<close>

lemma http_method_str_simps [simp]:
  "http_method_str HTTP_DELETE = bytes ''DELETE''" "http_method_str HTTP_GET = bytes ''GET''"
  "http_method_str HTTP_HEAD = bytes ''HEAD''" "http_method_str HTTP_POST = bytes ''POST''"
  "http_method_str HTTP_PUT = bytes ''PUT''" "http_method_str HTTP_CONNECT = bytes ''CONNECT''"
  "http_method_str HTTP_OPTIONS = bytes ''OPTIONS''" "http_method_str HTTP_TRACE = bytes ''TRACE''"
  "http_method_str HTTP_COPY = bytes ''COPY''" "http_method_str HTTP_LOCK = bytes ''LOCK''"
  "http_method_str HTTP_MKCOL = bytes ''MKCOL''" "http_method_str HTTP_MOVE = bytes ''MOVE''"
  "http_method_str HTTP_PROPFIND = bytes ''PROPFIND''"
  "http_method_str HTTP_PROPPATCH = bytes ''PROPPATCH''"
  "http_method_str HTTP_UNLOCK = bytes ''UNLOCK''" "http_method_str HTTP_REPORT = bytes ''REPORT''"
  "http_method_str HTTP_MKACTIVITY = bytes ''MKACTIVITY''"
  "http_method_str HTTP_CHECKOUT = bytes ''CHECKOUT''" "http_method_str HTTP_MERGE = bytes ''MERGE''"
  "http_method_str HTTP_MSEARCH = bytes ''M-SEARCH''" "http_method_str HTTP_NOTIFY = bytes ''NOTIFY''"
  "http_method_str HTTP_SUBSCRIBE = bytes ''SUBSCRIBE''"
  "http_method_str HTTP_UNSUBSCRIBE = bytes ''UNSUBSCRIBE''"
  "http_method_str HTTP_PATCH = bytes ''PATCH''"
  by (simp_all add: http_method_str_def method_strings_def method_num_def all_methods_def)

lemma method_str_length: "3 \<le> length (http_method_str m)" "length (http_method_str m) \<le> 11"
  by (cases m; simp)+

lemma switch_method_length:
  "switch_method m i ch = Switch m' \<Longrightarrow> Suc i \<le> length (http_method_str m')"
  by (auto simp: switch_method_def split: if_splits)

lemma LOWER_nonzero [simp]: "LOWER ch \<noteq> 0"
proof
  assume "LOWER ch = 0"
  then have "bit (LOWER ch) 5 = bit (0 :: byte) 5" by simp
  then show False by (simp add: LOWER_def bit_or_iff)
qed

section \<open>The invariant\<close>

text \<open>How far into its constant each matching header state can be.\<close>

fun header_bound :: "header_states \<Rightarrow> nat" where
  "header_bound h_C = 0"
| "header_bound h_CO = 1"
| "header_bound h_CON = 2"
| "header_bound h_matching_connection = length CONNECTION - 2"
| "header_bound h_matching_proxy_connection = length PROXY_CONNECTION - 2"
| "header_bound h_matching_content_length = length CONTENT_LENGTH - 2"
| "header_bound h_matching_transfer_encoding = length TRANSFER_ENCODING - 2"
| "header_bound h_matching_upgrade = length UPGRADE - 2"
| "header_bound h_matching_transfer_encoding_chunked = length CHUNKED - 2"
| "header_bound h_matching_connection_keep_alive = length KEEP_ALIVE - 2"
| "header_bound h_matching_connection_close = length CLOSE - 2"
| "header_bound _ = 20"

definition field_header_states :: "header_states set" where
  "field_header_states =
     {h_general, h_C, h_CO, h_CON, h_matching_connection, h_matching_proxy_connection,
      h_matching_content_length, h_matching_transfer_encoding, h_matching_upgrade,
      h_connection, h_content_length, h_transfer_encoding, h_upgrade}"

definition chunk_states :: "state set" where
  "chunk_states =
     {s_chunk_size_start, s_chunk_size, s_chunk_parameters, s_chunk_size_almost_done,
      s_chunk_data, s_chunk_data_almost_done, s_chunk_data_done}"

text \<open>
  What relates the control variables to each other.  The argument \<open>z\<close> is the number of
  header bytes seen at the start of a chunk size: 0 between bytes, 1 inside a handler,
  where the current byte is already counted.
\<close>

definition control_ok :: "nat \<Rightarrow> state \<Rightarrow> header_states \<Rightarrow> nat \<Rightarrow> nat \<Rightarrow> http_parser \<Rightarrow> bool" where
  "control_ok z s hs i n P \<longleftrightarrow>
     i < 256 \<and> n \<le> HTTP_MAX_HEADER_SIZE \<and>
     (s \<in> chunk_states \<longrightarrow> has_flag P F_CHUNKED) \<and>
     (s = s_chunk_size_start \<longrightarrow> n = z) \<and>
     (s \<in> {s_chunk_data, s_chunk_data_almost_done, s_chunk_data_done} \<longrightarrow> n = 0) \<and>
     (s = s_req_method \<longrightarrow> i \<le> length (http_method_str (hp_method P))) \<and>
     (s \<in> {s_header_field, s_header_value} \<longrightarrow> i \<le> header_bound hs) \<and>
     (s = s_header_field \<longrightarrow> hs \<in> field_header_states) \<and>
     (s = s_header_value \<longrightarrow> hs \<noteq> h_connection \<and> hs \<noteq> h_transfer_encoding)"

definition marks_ok :: "'e locals \<Rightarrow> bool" where
  "marks_ok l \<longleftrightarrow>
     (header_field_mark l = None \<longleftrightarrow> state l \<noteq> s_header_field) \<and>
     (header_value_mark l = None \<longleftrightarrow> state l \<noteq> s_header_value) \<and>
     (url_mark l = None \<longleftrightarrow> state l \<notin> url_states) \<and>
     (\<forall>m. header_field_mark l = Some m \<longrightarrow> m \<le> pos l) \<and>
     (\<forall>m. header_value_mark l = Some m \<longrightarrow> m \<le> pos l) \<and>
     (\<forall>m. url_mark l = Some m \<longrightarrow> m \<le> pos l)"

definition locals_ok :: "nat \<Rightarrow> 'e locals \<Rightarrow> bool" where
  "locals_ok z l \<longleftrightarrow>
     control_ok z (state l) (header_state l) (index l) (nread l) (parser l) \<and> marks_ok l \<and>
     hp_http_errno (parser l) = HPE_OK \<and> \<not> hp_upgrade (parser l)"

definition parser_ok :: "http_parser \<Rightarrow> bool" where
  "parser_ok P \<longleftrightarrow>
     control_ok 0 (hp_state P) (hp_header_state P) (unat (hp_index P)) (unat (hp_nread P)) P \<and>
     hp_http_errno P = HPE_OK \<and> \<not> hp_upgrade P"

text \<open>In most states only the bounds on the counters say anything.\<close>

fun plain_state :: "state \<Rightarrow> bool" where
  "plain_state s_chunk_size_start = False"
| "plain_state s_chunk_size = False"
| "plain_state s_chunk_parameters = False"
| "plain_state s_chunk_size_almost_done = False"
| "plain_state s_chunk_data = False"
| "plain_state s_chunk_data_almost_done = False"
| "plain_state s_chunk_data_done = False"
| "plain_state s_req_method = False"
| "plain_state s_header_field = False"
| "plain_state s_header_value = False"
| "plain_state _ = True"

lemma control_ok_plain [simp]:
  "plain_state s \<Longrightarrow> control_ok z s hs i n P \<longleftrightarrow> i < 256 \<and> n \<le> HTTP_MAX_HEADER_SIZE"
  by (cases s) (simp_all add: control_ok_def chunk_states_def)

lemma control_ok_bounds:
  "control_ok z s hs i n P \<Longrightarrow> i < 256" "control_ok z s hs i n P \<Longrightarrow> n \<le> HTTP_MAX_HEADER_SIZE"
  by (simp_all add: control_ok_def)

section \<open>Every handler keeps it\<close>

text \<open>What a handler may do with \<open>N\<close> bytes of data: stop in the data in a good state, or
  return a count within the data after an error or an upgrade.\<close>

abbreviation keeps_ok :: "nat \<Rightarrow> 'e ctl \<Rightarrow> bool" where
  "keeps_ok N \<equiv> ctl_all False (\<lambda>l. locals_ok 0 l \<and> pos l < N)
     (\<lambda>n l. n \<le> N \<and> (hp_http_errno (parser l) \<noteq> HPE_OK \<or> hp_upgrade (parser l)))"

lemmas ok_defs = locals_ok_def control_ok_def marks_ok_def url_states_def chunk_states_def
  field_header_states_def HTTP_MAX_HEADER_SIZE_def

lemma keeps_ok_match_next:
  assumes "c \<noteq> 0"
    and "Q (l\<lparr>index := Suc (index l), header_state := h_general\<rparr>)"
    and "Suc (index l) = length W - 1 \<Longrightarrow> Q (l\<lparr>index := Suc (index l), header_state := f\<rparr>)"
    and "Suc (index l) < length W - 1 \<Longrightarrow> Q (l\<lparr>index := Suc (index l)\<rparr>)"
  shows "ctl_all X Q E (match_next W f c l)"
  using assms by (auto simp: match_next_def Let_def cstr_at_def)

lemma keeps_ok_body_state:
  assumes "locals_ok 1 l" "state l = s_headers_almost_done" "pos l < N" "nread l = 0"
  shows "keeps_ok N (body_state C ch l)"
  unfolding body_state_def
  by (intro ctl_wp; use assms in \<open>simp add: ok_defs NEW_MESSAGE_def start_state_def\<close>)

lemma keeps_ok_headers_almost_done:
  assumes "locals_ok 1 l" "state l = s_headers_almost_done" "pos l < N"
  shows "keeps_ok N (do_headers_almost_done C ch l)"
  unfolding do_headers_almost_done_def
  by (intro ctl_wp keeps_ok_body_state;
      use assms in \<open>simp add: ok_defs NEW_MESSAGE_def start_state_def set_upgrade_def\<close>)

lemma keeps_ok_header_field_start:
  assumes "locals_ok 1 l" "state l = s_header_field_start" "pos l < N"
  shows "keeps_ok N (do_header_field_start C ch l)"
  unfolding do_header_field_start_def
  by (intro ctl_wp keeps_ok_headers_almost_done;
      use assms in \<open>simp add: ok_defs first_header_state_def\<close>)

lemma keeps_ok_header_almost_done:
  assumes "control_ok 1 (state l) (header_state l) (index l) (nread l) (parser l)"
    "hp_http_errno (parser l) = HPE_OK" "\<not> hp_upgrade (parser l)" "pos l < N"
    "header_field_mark l = None" "header_value_mark l = None" "url_mark l = None"
  shows "keeps_ok N (do_header_almost_done C ch l)"
  unfolding do_header_almost_done_def
  by (intro ctl_wp; use assms in \<open>simp add: ok_defs\<close>)

lemma cstr_at_SomeD: "cstr_at s i = Some c \<Longrightarrow> c \<noteq> 0 \<Longrightarrow> i < length s"
  by (auto simp: cstr_at_def split: if_splits)

lemma keeps_ok_req_method:
  assumes ok: "locals_ok 1 l" and st: "state l = s_req_method" and p: "pos l < N"
  shows "keeps_ok N (do_req_method C ch l)"
proof -
  let ?s = "http_method_str (hp_method (parser l))"
  have i: "index l \<le> length ?s" using ok st by (simp add: ok_defs)
  then have small: "index l < 255" using method_str_length(2) [of "hp_method (parser l)"] by simp
  from i have readable: "cstr_at ?s (index l) \<noteq> None" by (auto simp: cstr_at_def)
  have more: "Suc (index l) \<le> length ?s" if "cstr_at ?s (index l) = Some m" "m \<noteq> 0" for m
    using cstr_at_SomeD [OF that] by simp
  show ?thesis
    unfolding do_req_method_def
    by (intro ctl_wp;
        use ok st p small readable more switch_method_length in \<open>simp add: ok_defs\<close>)
qed

lemma keeps_ok_method_assign:
  assumes "locals_ok 1 l" "state l = s_start_req_or_res \<or> state l = s_start_req" "pos l < N"
  shows "keeps_ok N (start_req_method_assign ch l)"
proof -
  have one: "Suc 0 \<le> length (http_method_str m)" for m
    using method_str_length(1) [of m] by simp
  from assms(2) show ?thesis
    unfolding start_req_method_assign_def
    by (elim disjE; intro ctl_wp; use assms(1,3) one in \<open>simp add: ok_defs\<close>)
qed

lemma keeps_ok_chunk_data:
  assumes ok: "locals_ok 1 l" and st: "state l = s_chunk_data" and p: "pos l < length (data C)"
  shows "keeps_ok (length (data C)) (do_chunk_data C ch l)"
proof -
  have "has_flag (parser l) F_CHUNKED" using ok st by (simp add: ok_defs)
  with ok st p body_to_read_bound [OF p] show ?thesis
    by (auto simp add: do_chunk_data_def assert_that_def Let_def ok_defs)
qed

lemma keeps_ok_body_identity:
  assumes ok: "locals_ok 1 l" and st: "state l = s_body_identity" and p: "pos l < length (data C)"
  shows "keeps_ok (length (data C)) (do_body_identity C ch l)"
  unfolding do_body_identity_def
  by (intro ctl_wp;
      use ok st p body_to_read_bound [OF p] in
      \<open>auto simp add: ok_defs NEW_MESSAGE_def start_state_def intro!: ctl_wp\<close>)

lemma keeps_ok_body_identity_eof:
  assumes ok: "locals_ok 1 l" and st: "state l = s_body_identity_eof" and p: "pos l < length (data C)"
  shows "keeps_ok (length (data C)) (do_body_identity_eof C ch l)"
  unfolding do_body_identity_eof_def
  by (intro ctl_wp; use ok st p in \<open>auto simp add: ok_defs\<close>)

lemmas keeps_ok_parts = keeps_ok_match_next keeps_ok_header_almost_done
  keeps_ok_header_field_start keeps_ok_headers_almost_done keeps_ok_req_method
  keeps_ok_method_assign keeps_ok_chunk_data keeps_ok_body_identity keeps_ok_body_identity_eof

lemma keeps_ok_header_field:
  assumes "locals_ok 1 l" "state l = s_header_field" "pos l < N"
  shows "keeps_ok N (do_header_field C ch l)"
  unfolding do_header_field_def header_field_token_def
  by (intro ctl_wp keeps_ok_match_next; use assms in \<open>simp add: ok_defs const_string_defs\<close>)

lemma keeps_ok_header_value_start:
  assumes "locals_ok 1 l" "state l = s_header_value_start" "pos l < N"
  shows "keeps_ok N (do_header_value_start C ch l)"
  unfolding do_header_value_start_def header_value_first_def
  by (intro ctl_wp; use assms in \<open>simp add: ok_defs const_string_defs\<close>)

lemma keeps_ok_header_value:
  assumes "locals_ok 1 l" "state l = s_header_value" "pos l < N"
  shows "keeps_ok N (do_header_value C ch l)"
  unfolding do_header_value_def header_value_char_def
  by (intro ctl_wp keeps_ok_match_next keeps_ok_header_almost_done;
      use assms in \<open>simp add: ok_defs const_string_defs\<close>)

lemmas keeps_ok_headers =
  keeps_ok_header_field keeps_ok_header_value_start keeps_ok_header_value

lemma keeps_ok_handler:
  assumes "locals_ok 1 l" and "pos l < length (data C)"
  shows "keeps_ok (length (data C)) (handler_of (state l) C ch l)"
  by (cases "state l"; simp only: handler_of.simps handler_defs;
      intro keeps_ok_headers ctl_wp keeps_ok_parts;
      use assms in \<open>simp add: locals_ok_def marks_ok_def url_states_def\<close>;
      use assms in \<open>simp add: ok_defs\<close>)

section \<open>The loop and the calls\<close>

lemma control_ok_count:
  "control_ok 0 s hs i n P \<Longrightarrow> PARSING_HEADER s \<Longrightarrow> Suc n \<le> HTTP_MAX_HEADER_SIZE \<Longrightarrow>
   control_ok 1 s hs i (Suc n) P"
  unfolding control_ok_def PARSING_HEADER_iff by simp

lemma control_ok_no_count:
  "control_ok 0 s hs i n P \<Longrightarrow> \<not> PARSING_HEADER s \<Longrightarrow> control_ok 1 s hs i n P"
  unfolding control_ok_def PARSING_HEADER_iff by auto

lemma locals_ok_count:
  assumes "locals_ok 0 l"
    and "\<not> (PARSING_HEADER (state l) \<and> nread (count_header_byte l) > HTTP_MAX_HEADER_SIZE)"
  shows "locals_ok 1 (count_header_byte l)"
proof (cases "PARSING_HEADER (state l)")
  case True
  with assms(2) have "Suc (nread l) \<le> HTTP_MAX_HEADER_SIZE" by (simp add: count_header_byte_def)
  with True assms(1) control_ok_count show ?thesis
    by (simp add: count_header_byte_def locals_ok_def marks_ok_def)
next
  case False
  with assms(1) control_ok_no_count show ?thesis
    by (simp add: count_header_byte_def locals_ok_def)
qed

lemma count_header_byte_simps [simp]:
  "pos (count_header_byte l) = pos l" "state (count_header_byte l) = state l"
  "parser (count_header_byte l) = parser l" "env (count_header_byte l) = env l"
  "header_state (count_header_byte l) = header_state l" "index (count_header_byte l) = index l"
  "header_field_mark (count_header_byte l) = header_field_mark l"
  "header_value_mark (count_header_byte l) = header_value_mark l"
  "url_mark (count_header_byte l) = url_mark l"
  by (simp_all add: count_header_byte_def)

lemma keeps_ok_step:
  assumes ok: "locals_ok 0 l" and p: "pos l < length (data C)"
  shows "keeps_ok (length (data C)) (step C l)"
proof -
  let ?l = "count_header_byte l"
  show ?thesis
  proof (cases "PARSING_HEADER (state l) \<and> nread ?l > HTTP_MAX_HEADER_SIZE")
    case True
    with ok p show ?thesis by (simp add: step_def Let_def goto_error_def)
  next
    case False
    with ok have "locals_ok 1 ?l" by (rule locals_ok_count)
    then have "keeps_ok (length (data C)) (handler_of (state ?l) C (data C ! pos l) ?l)"
      using p by (intro keeps_ok_handler) simp_all
    moreover have "step C l = handler_of (state ?l) C (data C ! pos l) ?l"
      using False p by (auto simp: step_def Let_def)
    ultimately show ?thesis by simp
  qed
qed

text \<open>What a call may return on \<open>N\<close> bytes: an error or an upgrade after at most \<open>N\<close> of them,
  or all of them with the invariant restored.\<close>

definition call_ok :: "nat \<Rightarrow> nat \<Rightarrow> http_parser \<Rightarrow> bool" where
  "call_ok N n P \<longleftrightarrow>
     n \<le> N \<and> (hp_http_errno P = HPE_OK \<and> \<not> hp_upgrade P \<longrightarrow> n = N \<and> parser_ok P)"

abbreviation returns_ok :: "nat \<Rightarrow> 'e ctl \<Rightarrow> bool" where
  "returns_ok N \<equiv> ctl_all False (\<lambda>_. False) (\<lambda>n l. call_ok N n (parser l))"

lemma control_ok_parser [simp]:
  "control_ok z s hs i n (P\<lparr>hp_state := a, hp_header_state := b, hp_index := c, hp_nread := d\<rparr>) =
   control_ok z s hs i n P"
  by (simp add: control_ok_def has_flag_def)

lemma stored_ok:
  assumes "control_ok 0 (state l) (header_state l) (index l) (nread l) (parser l)"
    and "hp_http_errno (parser l) = HPE_OK" and "\<not> hp_upgrade (parser l)"
  shows "returns_ok (length (data C)) (store_locals C l)"
proof -
  have "unat (of_nat (index l) :: 8 word) = index l" "unat (of_nat (nread l) :: 32 word) = nread l"
    using control_ok_bounds [OF assms(1)]
    by (simp_all add: unat_of_nat_small HTTP_MAX_HEADER_SIZE_def)
  with assms show ?thesis by (simp add: store_locals_def call_ok_def parser_ok_def)
qed

lemma end_of_data_ok:
  assumes "locals_ok 0 l" and "pos l = length (data C)"
  shows "returns_ok (length (data C)) (end_of_data C l)"
  unfolding end_of_data_def
  by (intro ctl_wp stored_ok; use assms in \<open>simp add: locals_ok_def call_ok_def\<close>)

lemma locals_ok_advance: "locals_ok z l \<Longrightarrow> locals_ok z (l\<lparr>pos := Suc (pos l)\<rparr>)"
  by (auto simp: locals_ok_def marks_ok_def le_SucI)

lemma execute_loop_ok:
  "locals_ok 0 l \<Longrightarrow> pos l \<le> length (data C) \<Longrightarrow> returns_ok (length (data C)) (execute_loop C l)"
proof (induction C l rule: execute_loop.induct)
  case (1 C l)
  show ?case
  proof (cases "pos l = length (data C)")
    case True
    with 1 end_of_data_ok show ?thesis by (subst execute_loop.simps) simp
  next
    case False
    with "1.prems" have k: "keeps_ok (length (data C)) (step C l)"
      by (intro keeps_ok_step) simp_all
    show ?thesis
    proof (cases "step C l")
      case (Break l')
      with k have "returns_ok (length (data C)) (execute_loop C (l'\<lparr>pos := Suc (pos l')\<rparr>))"
        by (intro "1.IH" [OF False Break]) (simp_all add: locals_ok_advance)
      with False Break show ?thesis by (subst execute_loop.simps) simp
    next
      case (Done n l')
      with k False show ?thesis by (subst execute_loop.simps) (auto simp: call_ok_def)
    next
      case Crash
      with k show ?thesis by simp
    qed
  qed
qed

lemma load_locals_ok: "parser_ok P \<Longrightarrow> locals_ok 0 (load_locals P v)"
  by (auto simp: parser_ok_def locals_ok_def load_locals_def marks_ok_def url_states_def)

lemma init_parser_ok: "parser_ok (http_parser_init P t)"
  using unat_lt_power [of "hp_index P"]
  by (auto simp: parser_ok_def http_parser_init_def control_ok_def chunk_states_def)

lemma execute_ok:
  assumes "parser_ok P" and "bs \<noteq> []"
  shows "\<exists>n P' v'. http_parser_execute st P S bs v = Returned n P' v' \<and> call_ok (length bs) n P'"
proof -
  let ?C = "\<lparr>strict = st, settings = S, data = bs\<rparr>"
  have "returns_ok (length (data ?C)) (execute_loop ?C (load_locals P v))"
    by (intro execute_loop_ok load_locals_ok assms(1)) (simp add: load_locals_def)
  then show ?thesis
    using assms
    by (cases "execute_loop ?C (load_locals P v)")
      (simp_all add: http_parser_execute_def parser_ok_def Let_def)
qed

end
