(* ===== verification/Http_Stream.thy ===== *)
theory Http_Stream
  imports Http_Safety
begin

text \<open>
  The parser is a stream parser: where the data is cut into calls does not matter.  This
  theory compares a run on \<open>a @ b\<close> with a run on \<open>a\<close> followed by a run on \<open>b\<close>, for clients
  that take strings piecewise (the interface \<open>streaming_settings\<close>).  The first part is a
  lock-step argument on \<open>a\<close>; the second is a simulation on \<open>b\<close>, in which the client of the
  split run has already been handed the part of the open string that lies in \<open>a\<close>.
\<close>

section \<open>What the client promises\<close>

text \<open>The parser without its private control fields, which a client must not read.\<close>

definition public :: "http_parser \<Rightarrow> http_parser" where
  "public P = P\<lparr>hp_state := s_dead, hp_header_state := h_general, hp_index := 0, hp_nread := 0\<rparr>"

definition run_cb :: "'e http_cb option \<Rightarrow> http_parser \<Rightarrow> 'e \<Rightarrow> int \<times> 'e" where
  "run_cb f P v = (case f of None \<Rightarrow> (0, v) | Some g \<Rightarrow> g P v)"

definition run_data_cb :: "'e http_data_cb option \<Rightarrow> http_parser \<Rightarrow> byte list \<Rightarrow> 'e \<Rightarrow> int \<times> 'e" where
  "run_data_cb f P bs v = (case f of None \<Rightarrow> (0, v) | Some g \<Rightarrow> g P bs v)"

text \<open>
  The interface between the parser and its client: the string callbacks do not depend on the
  parser, and all but the one for the body succeed; the message callbacks read only the public
  part of the parser.
\<close>

locale string_settings =
  fixes S :: "'e http_parser_settings"
    and url field val body :: "byte list \<Rightarrow> 'e \<Rightarrow> 'e"
  assumes url_cb: "run_data_cb (on_url S) P bs v = (0, url bs v)"
    and field_cb: "run_data_cb (on_header_field S) P bs v = (0, field bs v)"
    and val_cb: "run_data_cb (on_header_value S) P bs v = (0, val bs v)"
    and body_cb: "snd (run_data_cb (on_body S) P bs v) = body bs v"
    and begin_public: "run_cb (on_message_begin S) P v = run_cb (on_message_begin S) (public P) v"
    and headers_public:
      "run_cb (on_headers_complete S) P v = run_cb (on_headers_complete S) (public P) v"
    and complete_public:
      "run_cb (on_message_complete S) P v = run_cb (on_message_complete S) (public P) v"

text \<open>Taking a string in two pieces is taking it whole.\<close>

locale streaming_settings = string_settings S url field val body
  for S :: "'e http_parser_settings" and url field val body :: "byte list \<Rightarrow> 'e \<Rightarrow> 'e" +
  assumes url_append: "url ys (url xs v) = url (xs @ ys) v"
    and field_append: "field ys (field xs v) = field (xs @ ys) v"
    and val_append: "val ys (val xs v) = val (xs @ ys) v"
    and body_append: "body ys (body xs v) = body (xs @ ys) v"

section \<open>Callbacks as functions of the client\<close>

lemma CALLBACK2_run:
  "CALLBACK2 f e l k =
     (let (r, v) = run_cb f (parser l) (env l); l = l\<lparr>env := v\<rparr>
      in if r \<noteq> 0 then Done (pos l) (SET_ERRNO e l) else k l)"
  by (cases f) (simp_all add: CALLBACK2_def run_cb_def Let_def)

lemma CALLBACK_run:
  assumes "clear (l\<lparr>env := env l\<rparr>) = clear l"
  shows "CALLBACK C f e m clear l k =
     (case m l of
        None \<Rightarrow> k l
      | Some i \<Rightarrow>
          (let (r, v) = run_data_cb f (parser l) (segment i (pos l) (data C)) (env l);
               l = l\<lparr>env := v\<rparr>
           in if r \<noteq> 0 then Done (pos l) (SET_ERRNO e l) else k (clear l)))"
  using assms by (cases f) (simp_all add: CALLBACK_def run_data_cb_def Let_def split: option.split)

lemma call_on_body_run:
  "call_on_body C n l =
     l\<lparr>env := snd (run_data_cb (on_body (settings C)) (parser l)
                   (segment (pos l) (pos l + nat n) (data C)) (env l))\<rparr>"
  by (simp add: call_on_body_def run_data_cb_def split: option.split)

lemma call_on_headers_complete_run:
  "call_on_headers_complete C l k =
     (let (r, v) = run_cb (on_headers_complete (settings C)) (parser l) (env l);
          l = l\<lparr>env := v\<rparr>
      in if r = 0 then k l
         else if r = 1 then k (add_flag F_SKIPBODY l)
         else Done (pos l)
           (SET_ERRNO HPE_CB_headers_complete (set_parser (\<lambda>P. P\<lparr>hp_state := state l\<rparr>) l)))"
  by (simp add: call_on_headers_complete_def run_cb_def Let_def split: option.split)

section \<open>Lock step on the common prefix\<close>

text \<open>Two calls with the same settings, one on \<open>a\<close>, the other on \<open>a @ b\<close>.\<close>

abbreviation call_on :: "bool \<Rightarrow> 'e http_parser_settings \<Rightarrow> byte list \<Rightarrow> 'e call" where
  "call_on st S bs \<equiv> \<lparr>strict = st, settings = S, data = bs\<rparr>"

definition reads_body :: "state \<Rightarrow> bool" where
  "reads_body s \<longleftrightarrow> s = s_body_identity \<or> s = s_body_identity_eof \<or> s = s_chunk_data"

lemma CALLBACK_prefix:
  "pos l \<le> length a \<Longrightarrow>
   CALLBACK (call_on st S (a @ b)) f e m clear l k = CALLBACK (call_on st S a) f e m clear l k"
  by (simp add: CALLBACK_def segment_appendL split: option.split)

lemma callbacks_prefix:
  assumes "pos l \<le> length a"
  shows "CALLBACK_url (call_on st S (a @ b)) l k = CALLBACK_url (call_on st S a) l k"
    and "CALLBACK_header_field (call_on st S (a @ b)) l k = CALLBACK_header_field (call_on st S a) l k"
    and "CALLBACK_header_value (call_on st S (a @ b)) l k = CALLBACK_header_value (call_on st S a) l k"
  using assms
  by (simp_all add: CALLBACK_url_def CALLBACK_header_field_def CALLBACK_header_value_def CALLBACK_prefix)

lemma combinators_data:
  "STRICT_CHECK (call_on st S x) = STRICT_CHECK (call_on st S y)"
  "CALLBACK2_message_begin (call_on st S x) = CALLBACK2_message_begin (call_on st S y)"
  "CALLBACK2_message_complete (call_on st S x) = CALLBACK2_message_complete (call_on st S y)"
  "call_on_headers_complete (call_on st S x) = call_on_headers_complete (call_on st S y)"
  "NEW_MESSAGE (call_on st S x) = NEW_MESSAGE (call_on st S y)"
  by (simp_all add: fun_eq_iff STRICT_CHECK_def CALLBACK2_message_begin_def
      CALLBACK2_message_complete_def call_on_headers_complete_def NEW_MESSAGE_def)

lemma NEW_MESSAGE_state_data:
  "NEW_MESSAGE_state (call_on st S x) = NEW_MESSAGE_state (call_on st S y)"
  by (simp add: fun_eq_iff NEW_MESSAGE_state_def combinators_data [of st S x y])

lemma body_state_data: "body_state (call_on st S x) = body_state (call_on st S y)"
  by (simp add: fun_eq_iff body_state_def combinators_data [of st S x y]
      NEW_MESSAGE_state_data [of st S x y])

lemma headers_almost_done_data:
  "do_headers_almost_done (call_on st S x) = do_headers_almost_done (call_on st S y)"
  by (simp add: fun_eq_iff do_headers_almost_done_def body_state_data [of st S x y]
      combinators_data [of st S x y] NEW_MESSAGE_state_data [of st S x y] cong: if_cong)

lemma header_ends_data:
  "do_headers_almost_done (call_on st S x) = do_headers_almost_done (call_on st S y)"
  "do_header_almost_done (call_on st S x) = do_header_almost_done (call_on st S y)"
  "do_header_field_start (call_on st S x) = do_header_field_start (call_on st S y)"
  by (simp_all add: fun_eq_iff headers_almost_done_data [of st S x y] do_header_almost_done_def
      do_header_field_start_def combinators_data [of st S x y])

lemma handler_prefix:
  assumes "pos l \<le> length a" and "\<not> reads_body s"
  shows "handler_of s (call_on st S (a @ b)) ch l = handler_of s (call_on st S a) ch l"
  using assms
  by (cases s)
    (simp_all add: reads_body_def handler_defs do_header_field_def do_header_value_start_def
      do_header_value_def do_req_method_def Let_def callbacks_prefix
      combinators_data [of st S "a @ b" a] header_ends_data [of st S "a @ b" a])

section \<open>Simulation on the rest\<close>

definition same_public :: "http_parser \<Rightarrow> http_parser \<Rightarrow> bool" where
  "same_public P Q \<longleftrightarrow>
     hp_type P = hp_type Q \<and> hp_flags P = hp_flags Q \<and>
     hp_content_length P = hp_content_length Q \<and> hp_http_major P = hp_http_major Q \<and>
     hp_http_minor P = hp_http_minor Q \<and> hp_status_code P = hp_status_code Q \<and>
     hp_method P = hp_method Q \<and> hp_http_errno P = hp_http_errno Q \<and>
     hp_upgrade P = hp_upgrade Q"

lemma same_public_iff: "same_public P Q \<longleftrightarrow> public P = public Q"
  by (cases P; cases Q) (auto simp: same_public_def public_def)

lemma same_public_flags: "same_public P Q \<Longrightarrow> has_flag P F = has_flag Q F"
  by (simp add: same_public_def has_flag_def)

lemma same_public_keep_alive: "same_public P Q \<Longrightarrow> http_should_keep_alive P = http_should_keep_alive Q"
  by (simp add: same_public_def http_should_keep_alive_def has_flag_def)

lemma same_public_new_message:
  "same_public P Q \<Longrightarrow> NEW_MESSAGE (call_on st S x) P = NEW_MESSAGE (call_on st S y) Q"
  by (simp add: NEW_MESSAGE_def same_public_keep_alive start_state_def)
    (simp add: same_public_def)

text \<open>Which string is open in a state.\<close>

datatype open_string = No_string | Url | Field | Val

definition open_of :: "state \<Rightarrow> open_string" where
  "open_of s = (if s = s_header_field then Field else if s = s_header_value then Val
                else if s \<in> url_states then Url else No_string)"

lemma open_of_simps [simp]:
  "open_of s_header_field = Field" "open_of s_header_value = Val"
  "s \<in> url_states \<Longrightarrow> open_of s = Url"
  by (auto simp: open_of_def url_states_def)

lemma open_of_None: "s \<notin> insert s_header_field (insert s_header_value url_states) \<Longrightarrow> open_of s = No_string"
  by (simp add: open_of_def)

text \<open>
  The client of the split run may be ahead: it holds the piece of the open string from the
  mark of the whole run up to where the mark of the split run points.
\<close>

definition ahead ::
  "byte list \<Rightarrow> byte list \<Rightarrow> (byte list \<Rightarrow> 'e \<Rightarrow> 'e) \<Rightarrow> nat option \<Rightarrow> nat option \<Rightarrow> nat \<Rightarrow> 'e \<Rightarrow> 'e \<Rightarrow> bool"
  where
  "ahead a b f m1 m2 p2 v1 v2 \<longleftrightarrow>
     (\<exists>i j. m1 = Some i \<and> m2 = Some j \<and> j \<le> p2 \<and>
        (i = length a + j \<and> v2 = v1 \<or>
         i \<le> length a + j \<and> v2 = f (segment i (length a + j) (a @ b)) v1))"

definition core_sim :: "byte list \<Rightarrow> 'e locals \<Rightarrow> 'e locals \<Rightarrow> bool" where
  "core_sim a l1 l2 \<longleftrightarrow>
     same_public (parser l1) (parser l2) \<and> state l1 = state l2 \<and>
     header_state l1 = header_state l2 \<and> index l1 = index l2 \<and> nread l1 = nread l2 \<and>
     pos l1 = length a + pos l2"

fun ctl_rel ::
  "('e locals \<Rightarrow> 'e locals \<Rightarrow> bool) \<Rightarrow> (nat \<Rightarrow> 'e locals \<Rightarrow> nat \<Rightarrow> 'e locals \<Rightarrow> bool) \<Rightarrow>
   'e ctl \<Rightarrow> 'e ctl \<Rightarrow> bool" where
  "ctl_rel Q E (Break l1) (Break l2) = Q l1 l2"
| "ctl_rel Q E (Done n1 l1) (Done n2 l2) = E n1 l1 n2 l2"
| "ctl_rel Q E Crash Crash = True"
| "ctl_rel Q E _ _ = False"

text \<open>How the returns of the two runs are related: the counts differ by the length of \<open>a\<close>,
  the public parsers agree, and without an error so do the clients.\<close>

definition done_rel :: "byte list \<Rightarrow> nat \<Rightarrow> 'e locals \<Rightarrow> nat \<Rightarrow> 'e locals \<Rightarrow> bool" where
  "done_rel a n1 l1 n2 l2 \<longleftrightarrow>
     n1 = length a + n2 \<and> same_public (parser l1) (parser l2) \<and>
     (hp_http_errno (parser l2) = HPE_OK \<longrightarrow>
        env l1 = env l2 \<and> (\<not> hp_upgrade (parser l2) \<longrightarrow> parser l1 = parser l2))"

named_theorems ctl_sim \<open>relational rules for the control combinators\<close>

lemma rel_if [ctl_sim]:
  "b1 = b2 \<Longrightarrow> (b1 \<Longrightarrow> b2 \<Longrightarrow> ctl_rel Q E x1 x2) \<Longrightarrow> (\<not> b1 \<Longrightarrow> \<not> b2 \<Longrightarrow> ctl_rel Q E y1 y2) \<Longrightarrow>
   ctl_rel Q E (if b1 then x1 else y1) (if b2 then x2 else y2)"
  by simp

lemma rel_Let [ctl_sim]:
  "ctl_rel Q E (f1 x1) (f2 x2) \<Longrightarrow> ctl_rel Q E (let x = x1 in f1 x) (let x = x2 in f2 x)"
  by simp

lemma rel_goto_error [ctl_sim]:
  "pos l1 = length a + pos l2 \<Longrightarrow> same_public (parser l1) (parser l2) \<Longrightarrow>
   ctl_rel Q (done_rel a) (goto_error l1) (goto_error l2)"
  by (simp add: goto_error_def done_rel_def same_public_def)

lemma rel_STRICT_CHECK [ctl_sim]:
  assumes "pos l1 = length a + pos l2" "same_public (parser l1) (parser l2)"
    and "ctl_rel Q (done_rel a) (k1 l1) (k2 l2)"
  shows "ctl_rel Q (done_rel a) (STRICT_CHECK (call_on st S x) c l1 k1)
           (STRICT_CHECK (call_on st S y) c l2 k2)"
  using assms by (simp add: STRICT_CHECK_def goto_error_def done_rel_def same_public_def)

lemma rel_assert_that [ctl_sim]:
  "c1 = c2 \<Longrightarrow> (c1 \<Longrightarrow> ctl_rel Q E (k1 l1) (k2 l2)) \<Longrightarrow>
   ctl_rel Q E (assert_that c1 l1 k1) (assert_that c2 l2 k2)"
  by (simp add: assert_that_def)

lemma rel_match_next [ctl_sim]:
  assumes "index l1 = index l2"
    and "Q (l1\<lparr>index := Suc (index l1), header_state := h_general\<rparr>)
           (l2\<lparr>index := Suc (index l2), header_state := h_general\<rparr>)"
    and "Q (l1\<lparr>index := Suc (index l1), header_state := f\<rparr>)
           (l2\<lparr>index := Suc (index l2), header_state := f\<rparr>)"
    and "Q (l1\<lparr>index := Suc (index l1)\<rparr>) (l2\<lparr>index := Suc (index l2)\<rparr>)"
  shows "ctl_rel Q E (match_next W f c l1) (match_next W f c l2)"
  by (cases "cstr_at W (Suc (index l2))"; use assms in \<open>auto simp: match_next_def Let_def\<close>)

lemma rel_case_header_states [ctl_sim]:
  assumes "h1 = h2"
    and "h2 = h_general \<Longrightarrow> ctl_rel Q E f0 g0"
    and "h2 = h_C \<Longrightarrow> ctl_rel Q E f1 g1"
    and "h2 = h_CO \<Longrightarrow> ctl_rel Q E f2 g2"
    and "h2 = h_CON \<Longrightarrow> ctl_rel Q E f3 g3"
    and "h2 = h_matching_connection \<Longrightarrow> ctl_rel Q E f4 g4"
    and "h2 = h_matching_proxy_connection \<Longrightarrow> ctl_rel Q E f5 g5"
    and "h2 = h_matching_content_length \<Longrightarrow> ctl_rel Q E f6 g6"
    and "h2 = h_matching_transfer_encoding \<Longrightarrow> ctl_rel Q E f7 g7"
    and "h2 = h_matching_upgrade \<Longrightarrow> ctl_rel Q E f8 g8"
    and "h2 = h_connection \<Longrightarrow> ctl_rel Q E f9 g9"
    and "h2 = h_content_length \<Longrightarrow> ctl_rel Q E f10 g10"
    and "h2 = h_transfer_encoding \<Longrightarrow> ctl_rel Q E f11 g11"
    and "h2 = h_upgrade \<Longrightarrow> ctl_rel Q E f12 g12"
    and "h2 = h_matching_transfer_encoding_chunked \<Longrightarrow> ctl_rel Q E f13 g13"
    and "h2 = h_matching_connection_keep_alive \<Longrightarrow> ctl_rel Q E f14 g14"
    and "h2 = h_matching_connection_close \<Longrightarrow> ctl_rel Q E f15 g15"
    and "h2 = h_transfer_encoding_chunked \<Longrightarrow> ctl_rel Q E f16 g16"
    and "h2 = h_connection_keep_alive \<Longrightarrow> ctl_rel Q E f17 g17"
    and "h2 = h_connection_close \<Longrightarrow> ctl_rel Q E f18 g18"
  shows "ctl_rel Q E (case h1 of h_general \<Rightarrow> f0
    | h_C \<Rightarrow> f1
    | h_CO \<Rightarrow> f2
    | h_CON \<Rightarrow> f3
    | h_matching_connection \<Rightarrow> f4
    | h_matching_proxy_connection \<Rightarrow> f5
    | h_matching_content_length \<Rightarrow> f6
    | h_matching_transfer_encoding \<Rightarrow> f7
    | h_matching_upgrade \<Rightarrow> f8
    | h_connection \<Rightarrow> f9
    | h_content_length \<Rightarrow> f10
    | h_transfer_encoding \<Rightarrow> f11
    | h_upgrade \<Rightarrow> f12
    | h_matching_transfer_encoding_chunked \<Rightarrow> f13
    | h_matching_connection_keep_alive \<Rightarrow> f14
    | h_matching_connection_close \<Rightarrow> f15
    | h_transfer_encoding_chunked \<Rightarrow> f16
    | h_connection_keep_alive \<Rightarrow> f17
    | h_connection_close \<Rightarrow> f18)
    (case h2 of h_general \<Rightarrow> g0
    | h_C \<Rightarrow> g1
    | h_CO \<Rightarrow> g2
    | h_CON \<Rightarrow> g3
    | h_matching_connection \<Rightarrow> g4
    | h_matching_proxy_connection \<Rightarrow> g5
    | h_matching_content_length \<Rightarrow> g6
    | h_matching_transfer_encoding \<Rightarrow> g7
    | h_matching_upgrade \<Rightarrow> g8
    | h_connection \<Rightarrow> g9
    | h_content_length \<Rightarrow> g10
    | h_transfer_encoding \<Rightarrow> g11
    | h_upgrade \<Rightarrow> g12
    | h_matching_transfer_encoding_chunked \<Rightarrow> g13
    | h_matching_connection_keep_alive \<Rightarrow> g14
    | h_matching_connection_close \<Rightarrow> g15
    | h_transfer_encoding_chunked \<Rightarrow> g16
    | h_connection_keep_alive \<Rightarrow> g17
    | h_connection_close \<Rightarrow> g18)"
  using assms by (cases h2) simp_all

lemma rel_case_option [ctl_sim]:
  assumes "x1 = x2" and "x2 = None \<Longrightarrow> ctl_rel Q E a1 a2"
    and "\<And>y. x2 = Some y \<Longrightarrow> ctl_rel Q E (b1 y) (b2 y)"
  shows "ctl_rel Q E (case x1 of None \<Rightarrow> a1 | Some y \<Rightarrow> b1 y) (case x2 of None \<Rightarrow> a2 | Some y \<Rightarrow> b2 y)"
  using assms by (cases x2) simp_all

lemma rel_case_method_switch [ctl_sim]:
  assumes "x1 = x2" and "\<And>m. x2 = Switch m \<Longrightarrow> ctl_rel Q E (f1 m) (f2 m)"
    and "x2 = Bad \<Longrightarrow> ctl_rel Q E g1 g2" and "x2 = Bad_method \<Longrightarrow> ctl_rel Q E h1 h2"
  shows "ctl_rel Q E (case x1 of Switch m \<Rightarrow> f1 m | Bad \<Rightarrow> g1 | Bad_method \<Rightarrow> h1)
           (case x2 of Switch m \<Rightarrow> f2 m | Bad \<Rightarrow> g2 | Bad_method \<Rightarrow> h2)"
  using assms by (cases x2) simp_all

lemma rel_http_0_9 [ctl_sim]:
  "Q (set_parser (\<lambda>P. P\<lparr>hp_http_major := 0, hp_http_minor := 9\<rparr>) l1\<lparr>state := s\<rparr>)
     (set_parser (\<lambda>P. P\<lparr>hp_http_major := 0, hp_http_minor := 9\<rparr>) l2\<lparr>state := s\<rparr>) \<Longrightarrow>
   ctl_rel Q E (http_0_9 s l1) (http_0_9 s l2)"
  by (simp add: http_0_9_def)

lemma rel_NEW_MESSAGE_state [ctl_sim]:
  assumes "same_public (parser l1) (parser l2)"
    and "\<And>s. s \<in> {s_start_req, s_start_res, s_dead} \<Longrightarrow> Q (l1\<lparr>state := s\<rparr>) (l2\<lparr>state := s\<rparr>)"
  shows "ctl_rel Q E (NEW_MESSAGE_state (call_on st S x) l1) (NEW_MESSAGE_state (call_on st S y) l2)"
proof -
  obtain s where s: "NEW_MESSAGE (call_on st S y) (parser l2) = s" by blast
  then have "s \<in> {s_start_req, s_start_res, s_dead}"
    unfolding s [symmetric] NEW_MESSAGE_def start_state_def by simp
  moreover have "NEW_MESSAGE (call_on st S x) (parser l1) = s"
    using same_public_new_message [OF assms(1), of st S x y] s by simp
  ultimately show ?thesis
    using assms(2) s by (simp add: NEW_MESSAGE_state_def)
qed

context streaming_settings
begin

text \<open>The two clients agree, or the one of the split run is ahead in the open string.\<close>

definition client_sim :: "byte list \<Rightarrow> byte list \<Rightarrow> open_string \<Rightarrow> 'e locals \<Rightarrow> 'e locals \<Rightarrow> bool" where
  "client_sim a b k l1 l2 \<longleftrightarrow>
     (if k = Url then ahead a b url (url_mark l1) (url_mark l2) (pos l2) (env l1) (env l2)
      else url_mark l1 = None \<and> url_mark l2 = None) \<and>
     (if k = Field
      then ahead a b field (header_field_mark l1) (header_field_mark l2) (pos l2) (env l1) (env l2)
      else header_field_mark l1 = None \<and> header_field_mark l2 = None) \<and>
     (if k = Val
      then ahead a b val (header_value_mark l1) (header_value_mark l2) (pos l2) (env l1) (env l2)
      else header_value_mark l1 = None \<and> header_value_mark l2 = None) \<and>
     (k = No_string \<longrightarrow> env l1 = env l2)"

definition sim :: "byte list \<Rightarrow> byte list \<Rightarrow> open_string \<Rightarrow> 'e locals \<Rightarrow> 'e locals \<Rightarrow> bool" where
  "sim a b k l1 l2 \<longleftrightarrow> core_sim a l1 l2 \<and> client_sim a b k l1 l2"

text \<open>Closing the open string brings the clients together.\<close>

lemma ahead_closed:
  assumes app: "\<And>xs ys v. f ys (f xs v) = f (xs @ ys) v"
    and ah: "ahead a b f m1 m2 p2 v1 v2" and p: "p2 \<le> length b"
  shows "\<exists>i j. m1 = Some i \<and> m2 = Some j \<and>
           f (segment i (length a + p2) (a @ b)) v1 = f (segment j p2 b) v2"
proof -
  from ah obtain i j where m: "m1 = Some i" "m2 = Some j" and j: "j \<le> p2"
    and v: "i = length a + j \<and> v2 = v1 \<or>
            i \<le> length a + j \<and> v2 = f (segment i (length a + j) (a @ b)) v1"
    by (auto simp: ahead_def)
  from v have "f (segment i (length a + p2) (a @ b)) v1 = f (segment j p2 b) v2"
  proof
    assume "i = length a + j \<and> v2 = v1"
    then show ?thesis by (simp add: segment_appendR)
  next
    assume i: "i \<le> length a + j \<and> v2 = f (segment i (length a + j) (a @ b)) v1"
    have "segment i (length a + p2) (a @ b) = segment i (length a + j) (a @ b) @ segment j p2 b"
      using i j segment_append_segment [of i "length a + j" "length a + p2" "a @ b"]
      by (simp add: segment_appendR)
    with i app show ?thesis by simp
  qed
  with m show ?thesis by blast
qed

lemma rel_close:
  assumes cb: "\<And>P bs v. run_data_cb f P bs v = (0, g bs v)"
    and app: "\<And>xs ys v. g ys (g xs v) = g (xs @ ys) v"
    and ah: "ahead a b g (m l1) (m l2) (pos l2) (env l1) (env l2)"
    and pos: "pos l1 = length a + pos l2" "pos l2 \<le> length b"
    and clear: "\<And>l v. clear (l\<lparr>env := env l\<rparr>) = clear l"
    and k: "\<And>v. ctl_rel Q E (k1 (clear (l1\<lparr>env := v\<rparr>))) (k2 (clear (l2\<lparr>env := v\<rparr>)))"
  shows "ctl_rel Q E (CALLBACK (call_on st S (a @ b)) f e m clear l1 k1)
           (CALLBACK (call_on st S b) f e m clear l2 k2)"
proof -
  from ahead_closed [OF app ah pos(2)] obtain i j where "m l1 = Some i" "m l2 = Some j"
    "g (segment i (length a + pos l2) (a @ b)) (env l1) = g (segment j (pos l2) b) (env l2)"
    by blast
  then show ?thesis
    using k by (simp add: CALLBACK_run [of clear, OF clear] cb pos(1))
qed

end

end
