(* ===== verification/Http_Resume.thy ===== *)
theory Http_Resume
  imports Http_Stream
begin

text \<open>
  The simulation of \<open>Http_Stream\<close> carried through the handlers, the loop and the entry
  point: a call on \<open>a @ b\<close> does what a call on \<open>a\<close> followed by a call on \<open>b\<close> does.
\<close>

context streaming_settings
begin

section \<open>Callbacks that bring the runs together or keep them so\<close>

lemma rel_CALLBACK2:
  assumes run: "run_cb f (parser l1) (env l1) = run_cb f (parser l2) (env l2)"
    and e: "e \<noteq> HPE_OK" and pos: "pos l1 = length a + pos l2"
    and pub: "same_public (parser l1) (parser l2)"
    and k: "\<And>v. ctl_rel Q (done_rel a) (k1 (l1\<lparr>env := v\<rparr>)) (k2 (l2\<lparr>env := v\<rparr>))"
  shows "ctl_rel Q (done_rel a) (CALLBACK2 f e l1 k1) (CALLBACK2 f e l2 k2)"
  using e pos pub k
  by (simp add: CALLBACK2_run run Let_def done_rel_def same_public_def split: prod.split)

lemma rel_message_begin [ctl_sim]:
  assumes "env l1 = env l2" "pos l1 = length a + pos l2" "same_public (parser l1) (parser l2)"
    and "\<And>v. ctl_rel Q (done_rel a) (k1 (l1\<lparr>env := v\<rparr>)) (k2 (l2\<lparr>env := v\<rparr>))"
  shows "ctl_rel Q (done_rel a) (CALLBACK2_message_begin (call_on st S x) l1 k1)
           (CALLBACK2_message_begin (call_on st S y) l2 k2)"
  unfolding CALLBACK2_message_begin_def call.simps
  by (rule rel_CALLBACK2)
    (use assms begin_public [of "parser l1"] begin_public [of "parser l2"] in
      \<open>simp_all add: same_public_iff\<close>)

lemma rel_message_complete [ctl_sim]:
  assumes "env l1 = env l2" "pos l1 = length a + pos l2" "same_public (parser l1) (parser l2)"
    and "\<And>v. ctl_rel Q (done_rel a) (k1 (l1\<lparr>env := v\<rparr>)) (k2 (l2\<lparr>env := v\<rparr>))"
  shows "ctl_rel Q (done_rel a) (CALLBACK2_message_complete (call_on st S x) l1 k1)
           (CALLBACK2_message_complete (call_on st S y) l2 k2)"
  unfolding CALLBACK2_message_complete_def call.simps
  by (rule rel_CALLBACK2)
    (use assms complete_public [of "parser l1"] complete_public [of "parser l2"] in
      \<open>simp_all add: same_public_iff\<close>)

lemma rel_headers_complete [ctl_sim]:
  assumes "env l1 = env l2" "pos l1 = length a + pos l2" "same_public (parser l1) (parser l2)"
    and "\<And>v. ctl_rel Q (done_rel a) (k1 (l1\<lparr>env := v\<rparr>)) (k2 (l2\<lparr>env := v\<rparr>))"
    and "\<And>v. ctl_rel Q (done_rel a) (k1 (add_flag F_SKIPBODY (l1\<lparr>env := v\<rparr>)))
           (k2 (add_flag F_SKIPBODY (l2\<lparr>env := v\<rparr>)))"
  shows "ctl_rel Q (done_rel a) (call_on_headers_complete (call_on st S x) l1 k1)
           (call_on_headers_complete (call_on st S y) l2 k2)"
proof -
  have "run_cb (on_headers_complete S) (parser l1) (env l1) =
        run_cb (on_headers_complete S) (parser l2) (env l2)"
    using assms(1,3) headers_public [of "parser l1"] headers_public [of "parser l2"]
    by (simp add: same_public_iff)
  with assms show ?thesis
    by (simp add: call_on_headers_complete_run Let_def done_rel_def same_public_def
        split: prod.split)
qed

lemmas sim_defs = sim_def core_sim_def client_sim_def

lemma rel_url [ctl_sim]:
  assumes "sim a b Url l1 l2" "pos l2 \<le> length b"
    and "\<And>v. ctl_rel Q E (k1 (l1\<lparr>env := v, url_mark := None\<rparr>)) (k2 (l2\<lparr>env := v, url_mark := None\<rparr>))"
  shows "ctl_rel Q E (CALLBACK_url (call_on st S (a @ b)) l1 k1)
           (CALLBACK_url (call_on st S b) l2 k2)"
  unfolding CALLBACK_url_def call.simps
  by (rule rel_close [OF _ url_append]) (use assms in \<open>simp_all add: sim_defs url_cb\<close>)

lemma rel_header_field [ctl_sim]:
  assumes "sim a b Field l1 l2" "pos l2 \<le> length b"
    and "\<And>v. ctl_rel Q E (k1 (l1\<lparr>env := v, header_field_mark := None\<rparr>))
                (k2 (l2\<lparr>env := v, header_field_mark := None\<rparr>))"
  shows "ctl_rel Q E (CALLBACK_header_field (call_on st S (a @ b)) l1 k1)
           (CALLBACK_header_field (call_on st S b) l2 k2)"
  unfolding CALLBACK_header_field_def call.simps
  by (rule rel_close [OF _ field_append]) (use assms in \<open>simp_all add: sim_defs field_cb\<close>)

lemma rel_header_value [ctl_sim]:
  assumes "sim a b Val l1 l2" "pos l2 \<le> length b"
    and "\<And>v. ctl_rel Q E (k1 (l1\<lparr>env := v, header_value_mark := None\<rparr>))
                (k2 (l2\<lparr>env := v, header_value_mark := None\<rparr>))"
  shows "ctl_rel Q E (CALLBACK_header_value (call_on st S (a @ b)) l1 k1)
           (CALLBACK_header_value (call_on st S b) l2 k2)"
  unfolding CALLBACK_header_value_def call.simps
  by (rule rel_close [OF _ val_append]) (use assms in \<open>simp_all add: sim_defs val_cb\<close>)

section \<open>The handlers\<close>

text \<open>After a handler the runs are related for the state it went to.\<close>

abbreviation keeps_sim :: "byte list \<Rightarrow> byte list \<Rightarrow> 'e ctl \<Rightarrow> 'e ctl \<Rightarrow> bool" where
  "keeps_sim a b \<equiv> ctl_rel (\<lambda>l1 l2. sim a b (open_of (state l1)) l1 l2) (done_rel a)"

lemma sim_parserD:
  assumes "sim a b k l1 l2"
  shows "same_public (parser l1) (parser l2)"
    "has_flag (parser l1) F = has_flag (parser l2) F"
    "http_should_keep_alive (parser l1) = http_should_keep_alive (parser l2)"
  using assms same_public_flags same_public_keep_alive by (auto simp: sim_defs)

lemmas open_simps = open_of_def url_states_def

lemmas sim_simps = sim_defs same_public_def has_flag_def open_simps ahead_def

lemma sim_body_state:
  assumes "sim a b No_string l1 l2"
  shows "keeps_sim a b (body_state (call_on st S (a @ b)) ch l1) (body_state (call_on st S b) ch l2)"
  unfolding body_state_def sim_parserD [OF assms]
  by (intro ctl_sim; use assms in \<open>auto simp add: sim_simps\<close>)

lemma sim_headers_almost_done:
  assumes "sim a b No_string l1 l2"
  shows "keeps_sim a b (do_headers_almost_done (call_on st S (a @ b)) ch l1)
           (do_headers_almost_done (call_on st S b) ch l2)"
  unfolding do_headers_almost_done_def
  by (intro ctl_sim sim_body_state; use assms in
      \<open>auto simp add: sim_simps done_rel_def set_upgrade_def\<close>)

lemma sim_header_field_start:
  assumes "sim a b No_string l1 l2"
  shows "keeps_sim a b (do_header_field_start (call_on st S (a @ b)) ch l1)
           (do_header_field_start (call_on st S b) ch l2)"
  unfolding do_header_field_start_def
  by (intro ctl_sim sim_headers_almost_done; use assms in \<open>simp add: sim_simps\<close>)

lemma sim_header_almost_done:
  assumes "sim a b No_string l1 l2"
  shows "keeps_sim a b (do_header_almost_done (call_on st S (a @ b)) ch l1)
           (do_header_almost_done (call_on st S b) ch l2)"
  unfolding do_header_almost_done_def
  by (intro ctl_sim; use assms in \<open>simp add: sim_simps\<close>)

lemma sim_method_assign:
  assumes "sim a b No_string l1 l2"
  shows "keeps_sim a b (start_req_method_assign ch l1) (start_req_method_assign ch l2)"
  unfolding start_req_method_assign_def
  by (intro ctl_sim; use assms in \<open>simp add: sim_simps\<close>)

lemma sim_header_field:
  assumes "sim a b Field l1 l2" "state l2 = s_header_field" "pos l2 < length b"
  shows "keeps_sim a b (do_header_field (call_on st S (a @ b)) ch l1)
           (do_header_field (call_on st S b) ch l2)"
  unfolding do_header_field_def header_field_token_def
  by (intro ctl_sim; use assms in \<open>simp add: sim_simps\<close>)

lemma sim_header_value_start:
  assumes "sim a b No_string l1 l2" "state l2 = s_header_value_start" "pos l2 < length b"
  shows "keeps_sim a b (do_header_value_start (call_on st S (a @ b)) ch l1)
           (do_header_value_start (call_on st S b) ch l2)"
  unfolding do_header_value_start_def header_value_first_def
  by (intro ctl_sim; use assms in \<open>simp add: sim_simps\<close>)

lemma sim_header_value:
  assumes "sim a b Val l1 l2" "state l2 = s_header_value" "pos l2 < length b"
  shows "keeps_sim a b (do_header_value (call_on st S (a @ b)) ch l1)
           (do_header_value (call_on st S b) ch l2)"
  unfolding do_header_value_def header_value_char_def
  by (intro ctl_sim sim_header_almost_done; use assms in \<open>simp add: sim_simps\<close>)

lemma sim_req_method:
  assumes "sim a b No_string l1 l2" "state l2 = s_req_method"
  shows "keeps_sim a b (do_req_method (call_on st S (a @ b)) ch l1)
           (do_req_method (call_on st S b) ch l2)"
  unfolding do_req_method_def
  by (intro ctl_sim; use assms in \<open>simp add: sim_simps\<close>)

text \<open>Bodies: both runs have the same bytes to read.\<close>

lemma sim_body_to_read:
  assumes "sim a b k l1 l2"
  shows "body_to_read (call_on st S (a @ b)) l1 = body_to_read (call_on st S b) l2"
  using assms by (simp add: body_to_read_def sim_defs same_public_def)

lemma sim_call_on_body:
  assumes "sim a b No_string l1 l2"
  shows "sim a b No_string (call_on_body (call_on st S (a @ b)) n l1)
           (call_on_body (call_on st S b) n l2)"
  using assms
  by (simp add: call_on_body_run sim_defs body_cb segment_appendR add.assoc)

lemma sim_advance: "sim a b No_string l1 l2 \<Longrightarrow> sim a b No_string (advance n l1) (advance n l2)"
  by (simp add: sim_defs)

lemma sim_body_identity:
  assumes "sim a b No_string l1 l2" "state l2 = s_body_identity"
  shows "keeps_sim a b (do_body_identity (call_on st S (a @ b)) ch l1)
           (do_body_identity (call_on st S b) ch l2)"
proof -
  let ?n = "body_to_read (call_on st S b) l2"
  have "sim a b No_string (advance ?n (call_on_body (call_on st S (a @ b)) ?n l1))
          (advance ?n (call_on_body (call_on st S b) ?n l2))"
    by (intro sim_advance sim_call_on_body assms(1))
  with assms(2) show ?thesis
    unfolding do_body_identity_def sim_body_to_read [OF assms(1)] NEW_MESSAGE_state_def [symmetric]
    by (intro ctl_sim; use assms in \<open>auto simp add: sim_simps\<close>)
qed

lemma sim_body_identity_eof:
  assumes "sim a b No_string l1 l2" "state l2 = s_body_identity_eof"
  shows "keeps_sim a b (do_body_identity_eof (call_on st S (a @ b)) ch l1)
           (do_body_identity_eof (call_on st S b) ch l2)"
proof -
  let ?n = "int (length b) - int (pos l2)"
  have "sim a b No_string (advance ?n (call_on_body (call_on st S (a @ b)) ?n l1))
          (advance ?n (call_on_body (call_on st S b) ?n l2))"
    by (intro sim_advance sim_call_on_body assms(1))
  moreover have n: "int (length (a @ b)) - int (pos l1) = ?n"
    using assms(1) by (simp add: sim_defs)
  moreover have "state l1 = s_body_identity_eof"
    using assms by (simp add: sim_defs)
  ultimately show ?thesis
    unfolding do_body_identity_eof_def Let_def call.simps n
    using assms by (simp add: open_simps)
qed

lemma sim_chunk_data:
  assumes "sim a b No_string l1 l2" "state l2 = s_chunk_data"
  shows "keeps_sim a b (do_chunk_data (call_on st S (a @ b)) ch l1)
           (do_chunk_data (call_on st S b) ch l2)"
  unfolding do_chunk_data_def Let_def
  by (intro ctl_sim;
      use assms sim_call_on_body [OF assms(1)] sim_body_to_read [OF assms(1)] in
      \<open>simp add: sim_simps cong: if_cong\<close>)

lemmas sim_parts = sim_header_field sim_header_value_start sim_header_value sim_req_method
  sim_body_identity sim_body_identity_eof sim_chunk_data sim_method_assign
  sim_headers_almost_done sim_header_field_start sim_header_almost_done

lemma sim_handler:
  assumes "sim a b (open_of (state l2)) l1 l2" "pos l2 < length b"
  shows "keeps_sim a b (handler_of (state l2) (call_on st S (a @ b)) ch l1)
           (handler_of (state l2) (call_on st S b) ch l2)"
  by (cases "state l2"; simp only: handler_of.simps handler_defs;
      intro sim_parts ctl_sim;
      use assms in \<open>simp add: sim_simps\<close>)

section \<open>The loop\<close>

lemma sim_count: "sim a b k l1 l2 \<Longrightarrow> sim a b k (count_header_byte l1) (count_header_byte l2)"
  by (simp add: sim_defs count_header_byte_def)

lemma sim_step:
  assumes "sim a b (open_of (state l2)) l1 l2" and p: "pos l2 < length b"
  shows "keeps_sim a b (step (call_on st S (a @ b)) l1) (step (call_on st S b) l2)"
proof -
  let ?l1 = "count_header_byte l1" and ?l2 = "count_header_byte l2"
  have eq: "pos l1 = length a + pos l2" "state l1 = state l2"
    using assms(1) by (simp_all add: sim_defs)
  have sim: "sim a b (open_of (state ?l2)) ?l1 ?l2"
    using sim_count [OF assms(1)] by simp
  then have "nread ?l1 = nread ?l2" "same_public (parser l1) (parser l2)"
    by (simp_all add: sim_defs)
  moreover have "keeps_sim a b (handler_of (state ?l2) (call_on st S (a @ b)) (b ! pos l2) ?l1)
      (handler_of (state ?l2) (call_on st S b) (b ! pos l2) ?l2)"
    using sim p by (intro sim_handler) simp_all
  ultimately show ?thesis
    using p eq by (simp add: step_def Let_def nth_append rel_goto_error same_public_def)
qed

lemma ahead_Suc: "ahead a b f m1 m2 p v1 v2 \<Longrightarrow> ahead a b f m1 m2 (Suc p) v1 v2"
  by (auto simp: ahead_def le_SucI)

lemma sim_next:
  "sim a b k l1 l2 \<Longrightarrow> sim a b k (l1\<lparr>pos := Suc (pos l1)\<rparr>) (l2\<lparr>pos := Suc (pos l2)\<rparr>)"
  by (simp add: sim_defs ahead_Suc)

lemma rel_store_locals:
  assumes "core_sim a l1 l2" and "env l1 = env l2"
  shows "ctl_rel (\<lambda>_ _. False) (done_rel a) (store_locals (call_on st S (a @ b)) l1)
           (store_locals (call_on st S b) l2)"
proof -
  have "parser l1\<lparr>hp_state := state l1, hp_header_state := header_state l1,
          hp_index := of_nat (index l1), hp_nread := of_nat (nread l1)\<rparr> =
        parser l2\<lparr>hp_state := state l2, hp_header_state := header_state l2,
          hp_index := of_nat (index l2), hp_nread := of_nat (nread l2)\<rparr>"
    using assms(1)
    by (cases "parser l1"; cases "parser l2") (simp add: core_sim_def same_public_def)
  with assms show ?thesis
    by (simp add: store_locals_def done_rel_def core_sim_def same_public_def)
qed

lemma rel_end_of_data:
  assumes "sim a b (open_of (state l2)) l1 l2" and "pos l2 = length b"
  shows "ctl_rel (\<lambda>_ _. False) (done_rel a) (end_of_data (call_on st S (a @ b)) l1)
           (end_of_data (call_on st S b) l2)"
proof (cases "open_of (state l2)")
  case No_string
  with assms show ?thesis
    by (simp add: end_of_data_def CALLBACK_header_field_def CALLBACK_header_value_def
        CALLBACK_url_def no_mark sim_defs rel_store_locals)
next
  case Url
  with assms have "sim a b Url l1 l2" by simp
  with Url assms show ?thesis
    by (simp add: end_of_data_def CALLBACK_header_field_def CALLBACK_header_value_def no_mark sim_defs)
      (intro rel_url rel_store_locals; simp add: sim_defs)
next
  case Field
  with assms have "sim a b Field l1 l2" by simp
  with Field assms show ?thesis
    unfolding end_of_data_def
    by (intro rel_header_field)
      (simp_all add: CALLBACK_header_value_def CALLBACK_url_def no_mark sim_defs rel_store_locals)
next
  case Val
  with assms have "sim a b Val l1 l2" by simp
  moreover from this have "CALLBACK_header_field C l1 k = k l1" "CALLBACK_header_field C l2 k = k l2"
    for C k by (simp_all add: CALLBACK_header_field_def no_mark sim_defs)
  ultimately show ?thesis
    using assms(2) unfolding end_of_data_def
    by (simp del: call.simps)
      (intro rel_header_value; simp add: CALLBACK_url_def no_mark sim_defs rel_store_locals)
qed

lemma sim_loop:
  assumes "sim a b (open_of (state l2)) l1 l2" "locals_ok 0 l2" "pos l2 \<le> length b"
  shows "ctl_rel (\<lambda>_ _. False) (done_rel a) (execute_loop (call_on st S (a @ b)) l1)
           (execute_loop (call_on st S b) l2)"
  using assms
proof (induction "call_on st S b" l2 arbitrary: l1 rule: execute_loop.induct)
  case (1 l2)
  have pos: "pos l1 = length a + pos l2" using "1.prems"(1) by (simp add: sim_defs)
  show ?case
  proof (cases "pos l2 = length b")
    case True
    with "1.prems" pos show ?thesis
      by (simp add: execute_loop.simps [of _ l1] execute_loop.simps [of _ l2] rel_end_of_data)
  next
    case False
    with "1.prems" have p: "pos l2 < length b" by simp
    have rel: "keeps_sim a b (step (call_on st S (a @ b)) l1) (step (call_on st S b) l2)"
      by (rule sim_step [OF "1.prems"(1) p])
    have ok: "keeps_ok (length b) (step (call_on st S b) l2)"
      using keeps_ok_step [OF "1.prems"(2), of "call_on st S b"] p by simp
    show ?thesis
    proof (cases "step (call_on st S b) l2")
      case (Break l2')
      with rel obtain l1' where l1': "step (call_on st S (a @ b)) l1 = Break l1'"
        "sim a b (open_of (state l1')) l1' l2'"
        by (cases "step (call_on st S (a @ b)) l1") simp_all
      from l1'(2) have "open_of (state l1') = open_of (state l2')" by (simp add: sim_defs)
      with l1'(2) Break ok False
      have "ctl_rel (\<lambda>_ _. False) (done_rel a)
        (execute_loop (call_on st S (a @ b)) (l1'\<lparr>pos := Suc (pos l1')\<rparr>))
        (execute_loop (call_on st S b) (l2'\<lparr>pos := Suc (pos l2')\<rparr>))"
        by (intro "1.hyps") (simp_all add: sim_next locals_ok_advance)
      with l1'(1) Break False pos show ?thesis
        by (simp add: execute_loop.simps [of _ l1] execute_loop.simps [of _ l2])
    next
      case (Done n l2')
      with rel False pos show ?thesis
        by (cases "step (call_on st S (a @ b)) l1")
          (simp_all add: execute_loop.simps [of _ l1] execute_loop.simps [of _ l2])
    next
      case Crash
      with ok show ?thesis by simp
    qed
  qed
qed

end

end
