(* ===== verification/Http_Split.thy ===== *)
theory Http_Split
  imports Http_Resume
begin

text \<open>
  What happens where the data is cut: the strings still open are handed over and taken up
  again by the next call, and a body that crosses the cut is read in two pieces.  The
  section at the end states the result for \<^verbatim>\<open>http_parser_execute\<close>: however the data is cut
  into calls, the client sees the same message.
\<close>

context streaming_settings
begin

section \<open>Between two calls\<close>

lemma CALLBACK_ok:
  assumes "\<And>P bs v. run_data_cb f P bs v = (0, g bs v)"
    and "\<And>l v. clear (l\<lparr>env := env l\<rparr>) = clear l"
    and "m l = Some i"
  shows "CALLBACK C f e m clear l k = k (clear (l\<lparr>env := g (segment i (pos l) (data C)) (env l)\<rparr>))"
  using assms(1,3) by (simp add: CALLBACK_run [of clear, OF assms(2)])

lemmas closing = CALLBACK_header_field_def CALLBACK_header_value_def CALLBACK_url_def
  no_mark CALLBACK_ok [OF field_cb] CALLBACK_ok [OF val_cb] CALLBACK_ok [OF url_cb]

lemma ahead_load:
  "i \<le> length a \<Longrightarrow> ahead a b f (Some i) (Some 0) 0 v (f (segment i (length a) a) v)"
  using segment_appendL [of "length a" a i b] by (simp add: ahead_def)

lemma sim_resume:
  assumes ok: "locals_ok 0 l" and p: "pos l = length a"
  obtains l' where "end_of_data (call_on st S a) l = Done (length a) l'"
    and "sim a b (open_of (state l)) l (load_locals (parser l') (env l'))"
    and "parser_ok (parser l')" and "hp_state (parser l') = state l"
proof -
  have c: "control_ok 0 (state l) (header_state l) (index l) (nread l) (parser l)"
    and m: "marks_ok l" and e: "hp_http_errno (parser l) = HPE_OK" "\<not> hp_upgrade (parser l)"
    using ok by (simp_all add: locals_ok_def)
  note defs = sim_defs same_public_def store_locals_def end_of_data_def parser_ok_def closing
  have idx: "unat (of_nat (index l) :: 8 word) = index l" "unat (of_nat (nread l) :: 32 word) = nread l"
    using control_ok_bounds [OF c] by (simp_all add: unat_of_nat_small HTTP_MAX_HEADER_SIZE_def)
  show thesis
  proof (cases "open_of (state l)")
    case No_string
    then have "header_field_mark l = None" "header_value_mark l = None" "url_mark l = None"
      "state l \<noteq> s_header_field" "state l \<noteq> s_header_value" "state l \<notin> url_states"
      using m by (auto simp: marks_ok_def open_of_def split: if_splits)
    with No_string c e p idx show thesis
      by (intro that) (auto simp: defs load_locals_def)
  next
    case Url
    then have s: "state l \<noteq> s_header_field" "state l \<noteq> s_header_value" "state l \<in> url_states"
      by (auto simp: open_of_def split: if_splits)
    with m obtain i where "header_field_mark l = None" "header_value_mark l = None"
      "url_mark l = Some i" "i \<le> pos l"
      by (auto simp: marks_ok_def)
    with Url s c e p idx show thesis
      by (intro that) (auto simp: defs load_locals_def intro!: ahead_load)
  next
    case Field
    then have s: "state l = s_header_field"
      by (auto simp: open_of_def split: if_splits)
    with m obtain i where "url_mark l = None" "header_value_mark l = None"
      "header_field_mark l = Some i" "i \<le> pos l"
      by (auto simp: marks_ok_def url_states_def)
    with Field s c e p idx show thesis
      by (intro that) (auto simp: defs load_locals_def url_states_def intro!: ahead_load)
  next
    case Val
    then have s: "state l = s_header_value"
      by (auto simp: open_of_def split: if_splits)
    with m obtain i where "url_mark l = None" "header_field_mark l = None"
      "header_value_mark l = Some i" "i \<le> pos l"
      by (auto simp: marks_ok_def url_states_def)
    with Val s c e p idx show thesis
      by (intro that) (auto simp: defs load_locals_def url_states_def intro!: ahead_load)
  qed
qed

section \<open>A body across the cut\<close>

lemma sint_minus_small:
  assumes "0 \<le> k" and "k \<le> sint (w :: 64 word)"
  shows "sint (w - word_of_int k) = sint w - k"
proof -
  have "sint w < 2 ^ 63" using sint_lt [of w] by simp
  with assms have "sint (word_of_int (sint w - k) :: 64 word) = sint w - k"
    by (subst signed_of_int) (simp add: signed_take_bit_int_eq_self)
  then show ?thesis by simp
qed

lemma step_body:
  assumes "reads_body (state l)" and "pos l < length (data C)"
  shows "step C l = handler_of (state l) C (data C ! pos l) l"
  using assms by (auto simp: step_def reads_body_def count_header_byte_def Let_def PARSING_HEADER_iff)

lemma body_segment:
  assumes "p < length a" and "n \<ge> int (length a) - int p"
  shows "segment p (p + nat n) (a @ b) =
         segment p (length a) a @ segment 0 (nat (n - (int (length a) - int p))) b"
proof -
  have "p + nat n = length a + nat (n - (int (length a) - int p))" using assms by simp
  then show ?thesis using assms(1) by (simp add: segment_append_cross)
qed

text \<open>
  \<open>k\<close> bytes of the body are left in \<open>a\<close> and the whole run reads \<open>m\<close> more: it then stands
  where the split run stands after reading \<open>m\<close> bytes of \<open>b\<close>.
\<close>

lemma sim_body_cross:
  assumes k: "k = int (length a) - int (pos l)" "pos l < length a" and m: "0 < m"
    and f: "f = (\<lambda>P. P\<lparr>hp_content_length := hp_content_length P - x\<rparr>)"
    and g: "g = (\<lambda>P. P\<lparr>hp_content_length := hp_content_length P - y\<rparr>)"
    and h: "h = (\<lambda>P. P\<lparr>hp_content_length := hp_content_length P - z\<rparr>)"
    and xyz: "y = x + z"
    and s: "sim a b No_string
              ((set_parser f (advance k (call_on_body (call_on st S a) k l)))\<lparr>pos := length a\<rparr>) l2"
  shows "sim a b No_string
           (set_parser g (advance (k + m) (call_on_body (call_on st S (a @ b)) (k + m) l)))
           (set_parser h (advance m (call_on_body (call_on st S b) m l2)))"
proof -
  have "pos l + nat k = length a" using k by simp
  with s have "env l2 = body (segment (pos l) (length a) a) (env l)" "pos l2 = 0"
    by (simp_all add: sim_defs call_on_body_run body_cb)
  moreover have "segment (pos l) (pos l + nat (k + m)) (a @ b) =
        segment (pos l) (length a) a @ segment 0 (nat m) b"
    using body_segment [of "pos l" a "k + m" b] k m by simp
  ultimately show ?thesis
    using s k m unfolding f g h xyz
    by (simp add: sim_defs same_public_def call_on_body_run body_cb body_append)
qed

definition cut_in_body :: "byte list \<Rightarrow> 'e locals \<Rightarrow> bool" where
  "cut_in_body a l \<longleftrightarrow>
     state l = s_body_identity_eof \<or> int (length a) - int (pos l) < sint (hp_content_length (parser l))"

lemma body_not_cut:
  assumes "reads_body (state l)" "pos l < length a" "\<not> cut_in_body a l"
  shows "step (call_on st S (a @ b)) l = step (call_on st S a) l"
proof -
  have n: "body_to_read (call_on st S (a @ b)) l = sint (hp_content_length (parser l))"
    "body_to_read (call_on st S a) l = sint (hp_content_length (parser l))"
    "sint (hp_content_length (parser l)) \<le> int (length a) - int (pos l)"
    using assms by (simp_all add: body_to_read_def cut_in_body_def)
  then have "call_on_body (call_on st S (a @ b)) (sint (hp_content_length (parser l))) l =
        call_on_body (call_on st S a) (sint (hp_content_length (parser l))) l"
    using assms(2) by (simp add: call_on_body_def segment_appendL split: option.split)
  moreover have "state l = s_body_identity \<or> state l = s_chunk_data"
    using assms by (auto simp: reads_body_def cut_in_body_def)
  ultimately show ?thesis
    using assms(1,2) n
    by (auto simp: step_body do_body_identity_def do_chunk_data_def Let_def assert_that_def
        combinators_data [of st S "a @ b" a])
qed

lemma no_update: "set_parser (\<lambda>P. P\<lparr>hp_content_length := hp_content_length P - 0\<rparr>) l = l"
  by simp

lemma cut_eof:
  assumes "state l = s_body_identity_eof" "pos l < length a" "b \<noteq> []"
    and "k = int (length a) - int (pos l)"
  shows "step (call_on st S a) l = Break (advance k (call_on_body (call_on st S a) k l))"
    and "sim a b No_string ((advance k (call_on_body (call_on st S a) k l))\<lparr>pos := length a\<rparr>) l2 \<Longrightarrow>
         keeps_sim a b (step (call_on st S (a @ b)) l) (step (call_on st S b) l2)"
proof -
  show "step (call_on st S a) l = Break (advance k (call_on_body (call_on st S a) k l))"
    using assms by (simp add: step_body reads_body_def do_body_identity_eof_def Let_def)
next
  let ?m = "int (length b)"
  assume s: "sim a b No_string ((advance k (call_on_body (call_on st S a) k l))\<lparr>pos := length a\<rparr>) l2"
  have s': "sim a b No_string
      (set_parser (\<lambda>P. P\<lparr>hp_content_length := hp_content_length P - 0\<rparr>)
        (advance (k + ?m) (call_on_body (call_on st S (a @ b)) (k + ?m) l)))
      (set_parser (\<lambda>P. P\<lparr>hp_content_length := hp_content_length P - 0\<rparr>)
        (advance ?m (call_on_body (call_on st S b) ?m l2)))"
    by (rule sim_body_cross [OF assms(4,2) _ refl refl refl, where x = 0])
      (use assms(3) s in \<open>simp_all add: sim_defs\<close>)
  then have "sim a b No_string (advance (k + ?m) (call_on_body (call_on st S (a @ b)) (k + ?m) l))
      (advance ?m (call_on_body (call_on st S b) ?m l2))"
    by (simp add: sim_defs)
  moreover have "int (length (a @ b)) - int (pos l) = k + ?m" "0 < k + ?m" "0 < ?m"
    "pos l < length (a @ b)" "pos l2 = 0" "state l2 = s_body_identity_eof" "pos l2 < length b"
    using assms s by (simp_all add: sim_defs)
  ultimately show "keeps_sim a b (step (call_on st S (a @ b)) l) (step (call_on st S b) l2)"
    using assms(1)
    by (simp add: step_body reads_body_def do_body_identity_eof_def Let_def open_simps
        del: length_append)
qed

lemma sim_body_end:
  assumes "sim a b No_string l1 l2" "state l2 = s_body_identity"
  shows "keeps_sim a b
    (if hp_content_length (parser l1) = 0
     then CALLBACK2_message_complete (call_on st S (a @ b)) l1 (NEW_MESSAGE_state (call_on st S (a @ b)))
     else Break l1)
    (if hp_content_length (parser l2) = 0
     then CALLBACK2_message_complete (call_on st S b) l2 (NEW_MESSAGE_state (call_on st S b))
     else Break l2)"
  by (intro ctl_sim; use assms in \<open>auto simp add: sim_simps\<close>)

lemma cut_known_length:
  assumes "state l = s_body_identity \<or> state l = s_chunk_data \<and> has_flag (parser l) F_CHUNKED"
    and "pos l < length a" "b \<noteq> []"
    and "k = int (length a) - int (pos l)" "k < sint (hp_content_length (parser l))"
    and f: "f = (\<lambda>P. P\<lparr>hp_content_length := hp_content_length P - word_of_int k\<rparr>)"
  shows "step (call_on st S a) l = Break (set_parser f (advance k (call_on_body (call_on st S a) k l)))"
    and "sim a b No_string
           ((set_parser f (advance k (call_on_body (call_on st S a) k l)))\<lparr>pos := length a\<rparr>) l2 \<Longrightarrow>
         keeps_sim a b (step (call_on st S (a @ b)) l) (step (call_on st S b) l2)"
proof -
  have r: "body_to_read (call_on st S a) l = k" "0 < k"
    using assms by (simp_all add: body_to_read_def)
  then have left: "sint (hp_content_length (parser l) - word_of_int k) =
      sint (hp_content_length (parser l)) - k"
    using assms by (intro sint_minus_small) simp_all
  then have ne: "hp_content_length (parser l) \<noteq> word_of_int k"
    using assms by auto
  show "step (call_on st S a) l = Break (set_parser f (advance k (call_on_body (call_on st S a) k l)))"
    using assms r ne
    by (auto simp: step_body reads_body_def do_body_identity_def do_chunk_data_def Let_def
        assert_that_def)
  let ?m = "body_to_read (call_on st S b) l2"
  assume s: "sim a b No_string
    ((set_parser f (advance k (call_on_body (call_on st S a) k l)))\<lparr>pos := length a\<rparr>) l2"
  then have l2: "pos l2 = 0" "state l2 = state l"
    "hp_content_length (parser l2) = hp_content_length (parser l) - word_of_int k"
    "hp_flags (parser l2) = hp_flags (parser l)"
    by (simp_all add: sim_defs same_public_def f)
  with left have left2: "sint (hp_content_length (parser l2)) = sint (hp_content_length (parser l)) - k"
    by simp
  have m: "0 < ?m" "body_to_read (call_on st S (a @ b)) l = k + ?m"
    using assms(2-5) l2(1) left2 by (auto simp: body_to_read_def)
  have eq: "k + ?m = sint (hp_content_length (parser l)) \<longleftrightarrow> ?m = sint (hp_content_length (parser l2))"
    "hp_content_length (parser l) - word_of_int (k + ?m) =
      hp_content_length (parser l2) - word_of_int ?m"
    using left2 l2 by auto
  let ?l1' = "set_parser (\<lambda>P. P\<lparr>hp_content_length := hp_content_length P - word_of_int (k + ?m)\<rparr>)
      (advance (k + ?m) (call_on_body (call_on st S (a @ b)) (k + ?m) l))"
  let ?l2' = "set_parser (\<lambda>P. P\<lparr>hp_content_length := hp_content_length P - word_of_int ?m\<rparr>)
      (advance ?m (call_on_body (call_on st S b) ?m l2))"
  have s': "sim a b No_string ?l1' ?l2'"
    by (rule sim_body_cross [OF assms(4,2) m(1) f refl refl _ s]) simp
  have new_message: "(\<lambda>l. goto_state (NEW_MESSAGE C (parser l)) l) = NEW_MESSAGE_state C"
    for C :: "'e call" by (simp add: fun_eq_iff NEW_MESSAGE_state_def)
  from assms(1) show "keeps_sim a b (step (call_on st S (a @ b)) l) (step (call_on st S b) l2)"
  proof
    assume st: "state l = s_body_identity"
    have "step (call_on st S (a @ b)) l =
        (if hp_content_length (parser ?l1') = 0
         then CALLBACK2_message_complete (call_on st S (a @ b)) ?l1' (NEW_MESSAGE_state (call_on st S (a @ b)))
         else Break ?l1')"
      using st assms(2) m r(2)
      by (simp add: step_body reads_body_def do_body_identity_def Let_def new_message
          del: of_int_add)
    moreover have "step (call_on st S b) l2 =
        (if hp_content_length (parser ?l2') = 0
         then CALLBACK2_message_complete (call_on st S b) ?l2' (NEW_MESSAGE_state (call_on st S b))
         else Break ?l2')"
      using st assms(3) l2(1,2) m(1)
      by (simp add: step_body reads_body_def do_body_identity_def Let_def new_message)
    moreover have "keeps_sim a b
        (if hp_content_length (parser ?l1') = 0
         then CALLBACK2_message_complete (call_on st S (a @ b)) ?l1' (NEW_MESSAGE_state (call_on st S (a @ b)))
         else Break ?l1')
        (if hp_content_length (parser ?l2') = 0
         then CALLBACK2_message_complete (call_on st S b) ?l2' (NEW_MESSAGE_state (call_on st S b))
         else Break ?l2')"
      by (rule sim_body_end [OF s']) (simp add: st l2(2))
    ultimately show ?thesis by (simp only:)
  next
    assume st: "state l = s_chunk_data \<and> has_flag (parser l) F_CHUNKED"
    let ?s = "if ?m = sint (hp_content_length (parser l2)) then s_chunk_data_almost_done else s_chunk_data"
    have "step (call_on st S (a @ b)) l = Break (?l1'\<lparr>state := ?s\<rparr>)"
      using st assms(2) m r(2) eq(1)
      by (simp add: step_body reads_body_def do_chunk_data_def assert_that_def Let_def
          del: of_int_add)
    moreover have "step (call_on st S b) l2 = Break (?l2'\<lparr>state := ?s\<rparr>)"
      using st assms(3) l2 m(1)
      by (simp add: step_body reads_body_def do_chunk_data_def assert_that_def has_flag_def Let_def)
    ultimately show ?thesis using s' by (simp add: sim_simps)
  qed
qed

lemma body_cut:
  assumes "reads_body (state l)" "pos l < length a" "cut_in_body a l" "locals_ok 0 l" "b \<noteq> []"
  obtains la where "step (call_on st S a) l = Break la" "Suc (pos la) = length a"
    "\<And>l2. sim a b (open_of (state la)) (la\<lparr>pos := length a\<rparr>) l2 \<Longrightarrow>
       keeps_sim a b (step (call_on st S (a @ b)) l) (step (call_on st S b) l2)"
proof (cases "state l = s_body_identity_eof")
  case True
  from cut_eof [OF True assms(2,5) refl, of st] that show thesis
    using True assms(2) by (simp add: open_simps)
next
  case False
  with assms have "state l = s_body_identity \<or> state l = s_chunk_data \<and> has_flag (parser l) F_CHUNKED"
    "int (length a) - int (pos l) < sint (hp_content_length (parser l))"
    by (auto simp: reads_body_def cut_in_body_def locals_ok_def control_ok_def chunk_states_def)
  from cut_known_length [OF this(1) assms(2,5) refl this(2) refl, of st] this that show thesis
    using assms(2) by (auto simp: open_simps)
qed

section \<open>The two runs\<close>

lemma step_prefix:
  assumes "pos l < length a" "\<not> (reads_body (state l) \<and> cut_in_body a l)"
  shows "step (call_on st S (a @ b)) l = step (call_on st S a) l"
proof (cases "reads_body (state l)")
  case True
  with assms show ?thesis by (simp add: body_not_cut)
next
  case False
  with assms(1) show ?thesis
    by (simp add: step_def Let_def nth_append handler_prefix)
qed

lemma sim_loop_from_step:
  assumes rel: "keeps_sim a b (step (call_on st S (a @ b)) l1) (step (call_on st S b) l2)"
    and "pos l1 < length (a @ b)" "pos l2 < length b" "locals_ok 0 l2"
  shows "ctl_rel (\<lambda>_ _. False) (done_rel a) (execute_loop (call_on st S (a @ b)) l1)
           (execute_loop (call_on st S b) l2)"
proof -
  have ok: "keeps_ok (length b) (step (call_on st S b) l2)"
    using keeps_ok_step [OF assms(4), of "call_on st S b"] assms(3) by simp
  show ?thesis
  proof (cases "step (call_on st S b) l2")
    case (Break l2')
    with rel obtain l1' where l1': "step (call_on st S (a @ b)) l1 = Break l1'"
      "sim a b (open_of (state l1')) l1' l2'"
      by (cases "step (call_on st S (a @ b)) l1") simp_all
    then have "open_of (state l1') = open_of (state l2')" by (simp add: sim_defs)
    with l1' Break ok show ?thesis
      using assms(2,3)
      by (simp add: loop_Break [OF _ l1'(1)] loop_Break [OF _ Break] sim_loop sim_next locals_ok_advance)
  next
    case (Done n l2')
    with rel obtain n1 l1' where "step (call_on st S (a @ b)) l1 = Done n1 l1'"
      "done_rel a n1 l1' n l2'"
      by (cases "step (call_on st S (a @ b)) l1") simp_all
    with Done assms(2,3) show ?thesis by (simp add: loop_Done)
  next
    case Crash
    with ok show ?thesis by simp
  qed
qed

text \<open>How a run on \<open>a @ b\<close> continues a run on \<open>a\<close>.\<close>

definition continues :: "bool \<Rightarrow> byte list \<Rightarrow> byte list \<Rightarrow> 'e ctl \<Rightarrow> 'e ctl \<Rightarrow> bool" where
  "continues st a b whole first \<longleftrightarrow>
     (case first of
        Done n l \<Rightarrow>
          (if hp_http_errno (parser l) \<noteq> HPE_OK \<or> hp_upgrade (parser l) then whole = Done n l
           else ctl_rel (\<lambda>_ _. False) (done_rel a) whole
                  (execute_loop (call_on st S b) (load_locals (parser l) (env l))))
      | _ \<Rightarrow> False)"

lemma split_loop:
  assumes "locals_ok 0 l" "pos l \<le> length a" "b \<noteq> []"
  shows "continues st a b (execute_loop (call_on st S (a @ b)) l) (execute_loop (call_on st S a) l)"
  using assms
proof (induction "call_on st S a" l rule: execute_loop.induct)
  case (1 l)
  note ok = "1.prems"(1) and b = "1.prems"(3)
  have ab: "pos l \<noteq> length (a @ b)" using "1.prems"(2) b by (cases b) simp_all
  show ?case
  proof (cases "pos l = length a")
    case True
    from sim_resume [OF ok True, where st = st and b = b] obtain l' where
      l': "end_of_data (call_on st S a) l = Done (length a) l'" and
      sim: "sim a b (open_of (state l)) l (load_locals (parser l') (env l'))" and
      p: "parser_ok (parser l')" "hp_state (parser l') = state l" .
    from sim p have "ctl_rel (\<lambda>_ _. False) (done_rel a) (execute_loop (call_on st S (a @ b)) l)
        (execute_loop (call_on st S b) (load_locals (parser l') (env l')))"
      by (intro sim_loop load_locals_ok) simp_all
    with l' p(1) True show ?thesis by (simp add: continues_def loop_end parser_ok_def)
  next
    case False
    with "1.prems"(2) have pos: "pos l < length a" by simp
    have k: "keeps_ok (length a) (step (call_on st S a) l)"
      using keeps_ok_step [OF ok, of "call_on st S a"] pos by simp
    show ?thesis
    proof (cases "reads_body (state l) \<and> cut_in_body a l")
      case True
      then obtain la where la: "step (call_on st S a) l = Break la" "Suc (pos la) = length a" and
        rel: "\<And>l2. sim a b (open_of (state la)) (la\<lparr>pos := length a\<rparr>) l2 \<Longrightarrow>
          keeps_sim a b (step (call_on st S (a @ b)) l) (step (call_on st S b) l2)"
        using body_cut [OF _ pos _ ok b] by blast
      from k la(1) have "locals_ok 0 la" by simp
      then have "locals_ok 0 (la\<lparr>pos := length a\<rparr>)"
        using locals_ok_advance [of 0 la] la(2) by simp
      from sim_resume [OF this, where st = st and b = b] obtain l' where
        l': "end_of_data (call_on st S a) (la\<lparr>pos := length a\<rparr>) = Done (length a) l'" and
        sim: "sim a b (open_of (state la)) (la\<lparr>pos := length a\<rparr>) (load_locals (parser l') (env l'))" and
        p: "parser_ok (parser l')" by auto
      have "ctl_rel (\<lambda>_ _. False) (done_rel a) (execute_loop (call_on st S (a @ b)) l)
        (execute_loop (call_on st S b) (load_locals (parser l') (env l')))"
        using pos b p by (intro sim_loop_from_step rel sim load_locals_ok) simp_all
      with l' p False show ?thesis
        by (simp add: continues_def loop_Break [OF _ la(1)] la(2) loop_end parser_ok_def)
    next
      case no_cut: False
      have eq: "step (call_on st S (a @ b)) l = step (call_on st S a) l"
        by (rule step_prefix [OF pos no_cut])
      show ?thesis
      proof (cases "step (call_on st S a) l")
        case (Break l')
        with k b False have "continues st a b
            (execute_loop (call_on st S (a @ b)) (l'\<lparr>pos := Suc (pos l')\<rparr>))
            (execute_loop (call_on st S a) (l'\<lparr>pos := Suc (pos l')\<rparr>))"
          by (intro "1.hyps") (simp_all add: locals_ok_advance)
        with Break eq False ab show ?thesis by (simp add: loop_Break)
      next
        case (Done n l')
        with k eq False ab show ?thesis by (simp add: continues_def loop_Done)
      next
        case Crash
        with k show ?thesis by simp
      qed
    qed
  qed
qed

end

section \<open>Calls on a stream\<close>

text \<open>
  Two outcomes that a client cannot tell apart: as many bytes taken, the same public parser
  and, unless there was an error, the same client; without an error or an upgrade the
  parsers are equal, so the stream can go on.
\<close>

fun same_outcome :: "'e result \<Rightarrow> 'e result \<Rightarrow> bool" where
  "same_outcome (Returned n P v) (Returned n' P' v') \<longleftrightarrow>
     n = n' \<and> same_public P P' \<and>
     (hp_http_errno P' = HPE_OK \<longrightarrow> v = v' \<and> (\<not> hp_upgrade P' \<longrightarrow> P = P'))"
| "same_outcome _ _ = False"

fun add_count :: "nat \<Rightarrow> 'e result \<Rightarrow> 'e result" where
  "add_count m (Returned n P v) = Returned (m + n) P v"
| "add_count m Crashed = Crashed"

text \<open>A caller that passes on the pieces it receives until an error or an upgrade.\<close>

fun feed :: "bool \<Rightarrow> 'e http_parser_settings \<Rightarrow> byte list list \<Rightarrow> http_parser \<Rightarrow> 'e \<Rightarrow> 'e result" where
  "feed st S [] P v = Returned 0 P v"
| "feed st S (bs # bss) P v =
     (case http_parser_execute st P S bs v of
        Crashed \<Rightarrow> Crashed
      | Returned n P' v' \<Rightarrow>
          if hp_http_errno P' \<noteq> HPE_OK \<or> hp_upgrade P' then Returned n P' v'
          else add_count n (feed st S bss P' v'))"

lemma same_outcome_refl: "same_outcome (Returned n P v) (Returned n P v)"
  by (simp add: same_public_iff)

lemma same_outcome_trans:
  "same_outcome x y \<Longrightarrow> same_outcome y z \<Longrightarrow> same_outcome x z"
  by (cases x; cases y; cases z) (auto simp: same_public_def)

lemma same_outcome_add: "same_outcome x y \<Longrightarrow> same_outcome (add_count n x) (add_count n y)"
  by (cases x; cases y) simp_all

lemma execute_parser_ok:
  "parser_ok P \<Longrightarrow> bs \<noteq> [] \<Longrightarrow>
   http_parser_execute st P S bs v =
     result_of (execute_loop \<lparr>strict = st, settings = S, data = bs\<rparr> (load_locals P v))"
  by (simp add: http_parser_execute_def parser_ok_def Let_def)

context streaming_settings
begin

lemma execute_append:
  assumes P: "parser_ok P" and a: "a \<noteq> []" and b: "b \<noteq> []"
  obtains n P1 v1 where "http_parser_execute st P S a v = Returned n P1 v1"
    and "hp_http_errno P1 \<noteq> HPE_OK \<or> hp_upgrade P1 \<Longrightarrow>
           http_parser_execute st P S (a @ b) v = Returned n P1 v1"
    and "\<not> (hp_http_errno P1 \<noteq> HPE_OK \<or> hp_upgrade P1) \<Longrightarrow>
           parser_ok P1 \<and> n = length a \<and>
           same_outcome (http_parser_execute st P S (a @ b) v)
             (add_count n (http_parser_execute st P1 S b v1))"
proof -
  have ab: "a @ b \<noteq> []" using b by simp
  from execute_ok [OF P a, of st S v] obtain n P1 v1 where
    r: "http_parser_execute st P S a v = Returned n P1 v1" and ok: "call_ok (length a) n P1"
    by blast
  then obtain l where l: "execute_loop (call_on st S a) (load_locals P v) = Done n l"
    "parser l = P1" "env l = v1"
    by (cases "execute_loop (call_on st S a) (load_locals P v)")
      (auto simp: execute_parser_ok [OF P a])
  have c: "continues st a b (execute_loop (call_on st S (a @ b)) (load_locals P v))
      (execute_loop (call_on st S a) (load_locals P v))"
    using load_locals_ok [OF P] b by (intro split_loop) simp_all
  show thesis
  proof (rule that [OF r])
    assume "hp_http_errno P1 \<noteq> HPE_OK \<or> hp_upgrade P1"
    with c l show "http_parser_execute st P S (a @ b) v = Returned n P1 v1"
      by (simp add: continues_def execute_parser_ok [OF P ab])
  next
    assume e: "\<not> (hp_http_errno P1 \<noteq> HPE_OK \<or> hp_upgrade P1)"
    with ok have P1: "parser_ok P1" "n = length a" by (simp_all add: call_ok_def)
    from c l e have "ctl_rel (\<lambda>_ _. False) (done_rel a)
        (execute_loop (call_on st S (a @ b)) (load_locals P v))
        (execute_loop (call_on st S b) (load_locals P1 v1))"
      by (simp add: continues_def)
    with P1 show "parser_ok P1 \<and> n = length a \<and>
        same_outcome (http_parser_execute st P S (a @ b) v)
          (add_count n (http_parser_execute st P1 S b v1))"
      using execute_ok [OF P ab, of st S v] execute_ok [OF P1(1) b, of st S v1]
      unfolding execute_parser_ok [OF P ab] execute_parser_ok [OF P1(1) b]
      by (cases "execute_loop (call_on st S (a @ b)) (load_locals P v)";
          cases "execute_loop (call_on st S b) (load_locals P1 v1)")
        (auto simp: done_rel_def)
  qed
qed

lemma feed_concat:
  assumes "parser_ok P" and "bss \<noteq> []" and "[] \<notin> set bss"
  shows "same_outcome (http_parser_execute st P S (concat bss) v) (feed st S bss P v)"
  using assms
proof (induction bss arbitrary: P v)
  case (Cons bs bss)
  then have bs: "bs \<noteq> []" by auto
  show ?case
  proof (cases "bss = []")
    case True
    from execute_ok [OF Cons.prems(1) bs, of st S v] True show ?thesis
      by (auto simp: same_public_iff)
  next
    case False
    with Cons.prems(3) have cat: "concat bss \<noteq> []" by (cases bss) auto
    show ?thesis
    proof (rule execute_append [OF Cons.prems(1) bs cat, where st = st and v = v])
      fix n P1 v1
      assume r: "http_parser_execute st P S bs v = Returned n P1 v1"
        and stop: "hp_http_errno P1 \<noteq> HPE_OK \<or> hp_upgrade P1 \<Longrightarrow>
          http_parser_execute st P S (bs @ concat bss) v = Returned n P1 v1"
        and go: "\<not> (hp_http_errno P1 \<noteq> HPE_OK \<or> hp_upgrade P1) \<Longrightarrow>
          parser_ok P1 \<and> n = length bs \<and>
          same_outcome (http_parser_execute st P S (bs @ concat bss) v)
            (add_count n (http_parser_execute st P1 S (concat bss) v1))"
      show ?thesis
      proof (cases "hp_http_errno P1 \<noteq> HPE_OK \<or> hp_upgrade P1")
        case True
        with r stop show ?thesis by (simp add: same_public_iff)
      next
        case e: False
        from go [OF e] have "same_outcome (add_count n (http_parser_execute st P1 S (concat bss) v1))
            (add_count n (feed st S bss P1 v1))"
          using Cons.IH [of P1 v1] False Cons.prems(3) by (intro same_outcome_add) simp_all
        with go [OF e] have "same_outcome (http_parser_execute st P S (bs @ concat bss) v)
            (add_count n (feed st S bss P1 v1))"
          using same_outcome_trans by blast
        with r e show ?thesis by simp
      qed
    qed
  qed
qed simp

end

end
