(* ===== verification/Node_Parser.thy ===== *)
theory Node_Parser
  imports Http_Split
begin

text \<open>
  The client of the HTTP parser inside node: the class \<^verbatim>\<open>Parser\<close> of \<^verbatim>\<open>node_http_parser.cc\<close>,
  which collects the URL and the headers of a message from the pieces it is given and hands
  them to JavaScript.  A \<^verbatim>\<open>StringPtr\<close> is modelled by the string it stands for (whether that
  string still lies in the caller's buffer or was copied to the heap is not visible).

  JavaScript itself is outside: it is any state machine, the parameter \<open>js\<close> over a type of
  states.  The functions that node looks up on the parser object may be missing, may throw, and
  may change the state; they do not call the parser themselves.  A slice of the caller's buffer
  stands for its bytes.  A failed \<^verbatim>\<open>assert\<close> or an index outside an array stops the client: its
  state is then \<open>None\<close>.
\<close>

section \<open>State\<close>

record message_info =
  mi_headers :: "(byte list \<times> byte list) list option"
  mi_url :: "byte list option"
  mi_method :: "http_method option"
  mi_status :: "16 word option"
  mi_major :: "16 word"
  mi_minor :: "16 word"
  mi_keep_alive :: bool
  mi_upgrade :: bool

text \<open>
  \<open>np_got_exception\<close> is \<^verbatim>\<open>got_exception_\<close>, which the callbacks set and never read.  Node clears it before each
  call of the parser and looks at it afterwards; here it is not cleared, so that after several calls
  it tells whether one of them has to report an exception.
\<close>

record 'j node_parser =
  np_fields :: "byte list list"
  np_values :: "byte list list"
  np_url :: "byte list"
  np_num_fields :: nat
  np_num_values :: nat
  np_have_flushed :: bool
  np_got_exception :: bool
  np_js :: 'j

text \<open>
  JavaScript: the functions that a state has, what a call of them gives in a state, and the
  state after it.  The result is whether the call throws; that of \<open>onHeadersComplete\<close> is
  \<open>None\<close> when it throws, and otherwise whether it returns \<^verbatim>\<open>true\<close>.
\<close>

record 'j js =
  onHeaders :: "'j \<Rightarrow> ((byte list \<times> byte list) list \<Rightarrow> byte list \<Rightarrow> 'j \<Rightarrow> bool \<times> 'j) option"
  onHeadersComplete :: "'j \<Rightarrow> (message_info \<Rightarrow> 'j \<Rightarrow> bool option \<times> 'j) option"
  onBody :: "'j \<Rightarrow> (byte list \<Rightarrow> 'j \<Rightarrow> bool \<times> 'j) option"
  onMessageComplete :: "'j \<Rightarrow> ('j \<Rightarrow> bool \<times> 'j) option"

definition ARRAY_SIZE :: nat where "ARRAY_SIZE = 32"

text \<open>The constructor's \<^verbatim>\<open>Init\<close>, apart from the parser.\<close>

definition node_init :: "'j \<Rightarrow> 'j node_parser" where
  "node_init j =
     \<lparr>np_fields = replicate ARRAY_SIZE [], np_values = replicate ARRAY_SIZE [], np_url = [],
      np_num_fields = 0, np_num_values = 0, np_have_flushed = False, np_got_exception = False,
      np_js = j\<rparr>"

section \<open>Calls to JavaScript\<close>

definition CreateHeaders :: "'j node_parser \<Rightarrow> (byte list \<times> byte list) list" where
  "CreateHeaders p = zip (take (np_num_values p) (np_fields p)) (take (np_num_values p) (np_values p))"

definition Flush :: "'j js \<Rightarrow> 'j node_parser \<Rightarrow> 'j node_parser" where
  "Flush J p =
     (case onHeaders J (np_js p) of
        None \<Rightarrow> p
      | Some cb \<Rightarrow>
          (case cb (CreateHeaders p) (np_url p) (np_js p) of (throws, j) \<Rightarrow>
             p\<lparr>np_js := j, np_got_exception := np_got_exception p \<or> throws,
               np_url := [], np_have_flushed := True\<rparr>))"

lemma Flush_simps [simp]:
  "np_fields (Flush J p) = np_fields p" "np_values (Flush J p) = np_values p"
  "np_num_fields (Flush J p) = np_num_fields p" "np_num_values (Flush J p) = np_num_values p"
  by (simp_all add: Flush_def split: option.split prod.split)

text \<open>Whether \<open>onBody\<close> throws, and the state after it.\<close>

definition call_body :: "'j js \<Rightarrow> byte list \<Rightarrow> 'j \<Rightarrow> bool \<times> 'j" where
  "call_body J bs j = (case onBody J j of None \<Rightarrow> (False, j) | Some cb \<Rightarrow> cb bs j)"

definition call_complete :: "'j js \<Rightarrow> 'j \<Rightarrow> bool \<times> 'j" where
  "call_complete J j = (case onMessageComplete J j of None \<Rightarrow> (False, j) | Some cb \<Rightarrow> cb j)"

section \<open>The callbacks\<close>

definition node_on_message_begin :: "'j node_parser option http_cb" where
  "node_on_message_begin P v =
     (0, map_option (\<lambda>p. p\<lparr>np_num_fields := 0, np_num_values := 0, np_url := []\<rparr>) v)"

definition node_on_url :: "byte list \<Rightarrow> 'j node_parser option \<Rightarrow> 'j node_parser option" where
  "node_on_url bs = map_option (\<lambda>p. p\<lparr>np_url := np_url p @ bs\<rparr>)"

definition append_at :: "nat \<Rightarrow> byte list \<Rightarrow> byte list list \<Rightarrow> byte list list" where
  "append_at i bs xs = xs[i := xs ! i @ bs]"

definition new_field :: "'j js \<Rightarrow> 'j node_parser \<Rightarrow> 'j node_parser" where
  "new_field J p =
     (let p = p\<lparr>np_num_fields := Suc (np_num_fields p)\<rparr>;
          p = (if np_num_fields p = ARRAY_SIZE
               then (Flush J p)\<lparr>np_num_fields := 1, np_num_values := 0\<rparr> else p)
      in p\<lparr>np_fields := (np_fields p)[np_num_fields p - 1 := []]\<rparr>)"

definition node_on_header_field :: "'j js \<Rightarrow> byte list \<Rightarrow> 'j node_parser option \<Rightarrow> 'j node_parser option" where
  "node_on_header_field J bs v =
     Option.bind v (\<lambda>p.
       let p = (if np_num_fields p = np_num_values p then new_field J p else p)
       in if np_num_fields p < ARRAY_SIZE \<and> np_num_fields p = np_num_values p + 1
          then Some (p\<lparr>np_fields := append_at (np_num_fields p - 1) bs (np_fields p)\<rparr>)
          else None)"

definition node_on_header_value :: "byte list \<Rightarrow> 'j node_parser option \<Rightarrow> 'j node_parser option" where
  "node_on_header_value bs v =
     Option.bind v (\<lambda>p.
       let p = (if np_num_values p \<noteq> np_num_fields p
                then p\<lparr>np_num_values := Suc (np_num_values p),
                       np_values := (np_values p)[np_num_values p := []]\<rparr> else p)
       in if np_num_values p < ARRAY_SIZE \<and> np_num_values p = np_num_fields p \<and> 0 < np_num_values p
          then Some (p\<lparr>np_values := append_at (np_num_values p - 1) bs (np_values p)\<rparr>)
          else None)"

definition headers_info :: "http_parser \<Rightarrow> 'j node_parser \<Rightarrow> message_info" where
  "headers_info P p =
     \<lparr>mi_headers = (if np_have_flushed p then None else Some (CreateHeaders p)),
      mi_url = (if \<not> np_have_flushed p \<and> hp_type P = HTTP_REQUEST then Some (np_url p) else None),
      mi_method = (if hp_type P = HTTP_REQUEST then Some (hp_method P) else None),
      mi_status = (if hp_type P = HTTP_RESPONSE then Some (hp_status_code P) else None),
      mi_major = hp_http_major P, mi_minor = hp_http_minor P,
      mi_keep_alive = http_should_keep_alive P, mi_upgrade = hp_upgrade P\<rparr>"

definition node_on_headers_complete :: "'j js \<Rightarrow> 'j node_parser option http_cb" where
  "node_on_headers_complete J P v =
     (case v of
        None \<Rightarrow> (0, None)
      | Some p \<Rightarrow>
          (case onHeadersComplete J (np_js p) of
             None \<Rightarrow> (0, Some p)
           | Some cb \<Rightarrow>
               (let info = headers_info P p;
                    p = (if np_have_flushed p then Flush J p else p);
                    p = p\<lparr>np_num_fields := 0, np_num_values := 0\<rparr>
                in case cb info (np_js p) of
                     (None, j) \<Rightarrow> (-1, Some (p\<lparr>np_js := j, np_got_exception := True\<rparr>))
                   | (Some skip, j) \<Rightarrow> (if skip then 1 else 0, Some (p\<lparr>np_js := j\<rparr>)))))"

text \<open>What \<^verbatim>\<open>on_body\<close> does, and what it returns, which the parser ignores.\<close>

definition node_on_body :: "'j js \<Rightarrow> byte list \<Rightarrow> 'j node_parser option \<Rightarrow> 'j node_parser option" where
  "node_on_body J bs =
     map_option (\<lambda>p. case call_body J bs (np_js p) of (throws, j) \<Rightarrow>
       p\<lparr>np_js := j, np_got_exception := np_got_exception p \<or> throws\<rparr>)"

definition body_result :: "'j js \<Rightarrow> byte list \<Rightarrow> 'j node_parser option \<Rightarrow> int" where
  "body_result J bs v =
     (case v of None \<Rightarrow> 0 | Some p \<Rightarrow> if fst (call_body J bs (np_js p)) then -1 else 0)"

definition node_on_message_complete :: "'j js \<Rightarrow> 'j node_parser option http_cb" where
  "node_on_message_complete J P v =
     (case v of
        None \<Rightarrow> (0, None)
      | Some p \<Rightarrow>
          (let p = (if np_num_fields p \<noteq> 0 then Flush J p else p)
           in case call_complete J (np_js p) of (throws, j) \<Rightarrow>
             if throws then (-1, Some (p\<lparr>np_js := j, np_got_exception := True\<rparr>))
             else (0, Some (p\<lparr>np_js := j\<rparr>))))"

definition node_settings :: "'j js \<Rightarrow> 'j node_parser option http_parser_settings" where
  "node_settings J =
     \<lparr>on_message_begin = Some node_on_message_begin,
      on_url = Some (\<lambda>P bs v. (0, node_on_url bs v)),
      on_header_field = Some (\<lambda>P bs v. (0, node_on_header_field J bs v)),
      on_header_value = Some (\<lambda>P bs v. (0, node_on_header_value bs v)),
      on_headers_complete = Some (node_on_headers_complete J),
      on_body = Some (\<lambda>P bs v. (body_result J bs v, node_on_body J bs v)),
      on_message_complete = Some (node_on_message_complete J)\<rparr>"

section \<open>The laws of the interface\<close>

lemma append_at_append: "append_at i ys (append_at i xs zs) = append_at i (xs @ ys) zs"
  by (cases "i < length zs") (simp_all add: append_at_def list_update_beyond not_less)

text \<open>JavaScript to which two slices of a body are what the slice of both is.\<close>

definition js_streams :: "'j js \<Rightarrow> bool" where
  "js_streams J \<longleftrightarrow>
     (\<forall>xs ys j. call_body J (xs @ ys) j =
        (case call_body J xs j of (t1, j1) \<Rightarrow> case call_body J ys j1 of (t2, j2) \<Rightarrow> (t1 \<or> t2, j2)))"

lemma new_field_nums:
  assumes "np_num_fields p = np_num_values p"
  shows "np_num_fields (new_field J p) = np_num_values (new_field J p) + 1"
  using assms by (simp add: new_field_def Let_def)

lemma node_url_append: "node_on_url ys (node_on_url xs v) = node_on_url (xs @ ys) v"
  by (cases v) (simp_all add: node_on_url_def)

lemma node_body_append:
  "js_streams J \<Longrightarrow> node_on_body J ys (node_on_body J xs v) = node_on_body J (xs @ ys) v"
  by (cases v) (auto simp: node_on_body_def js_streams_def split: prod.split)

lemma node_field_append:
  "node_on_header_field J ys (node_on_header_field J xs v) = node_on_header_field J (xs @ ys) v"
  by (cases v) (simp_all add: node_on_header_field_def Let_def append_at_append new_field_nums)

lemma node_value_append:
  "node_on_header_value ys (node_on_header_value xs v) = node_on_header_value (xs @ ys) v"
  by (cases v) (simp_all add: node_on_header_value_def Let_def append_at_append)

lemma headers_info_public: "headers_info (public P) p = headers_info P p"
  by (simp add: headers_info_def public_def http_should_keep_alive_def has_flag_def)

interpretation node: string_settings "node_settings J" node_on_url "node_on_header_field J"
    node_on_header_value "node_on_body J" for J
  by unfold_locales
    (simp_all add: node_settings_def run_data_cb_def run_cb_def node_on_message_begin_def
      node_on_headers_complete_def node_on_message_complete_def headers_info_public split: option.split)

lemma node_streaming:
  assumes "js_streams J"
  shows "streaming_settings (node_settings J) node_on_url (node_on_header_field J)
    node_on_header_value (node_on_body J)"
  using assms
  by unfold_locales (simp_all add: node_url_append node_field_append node_value_append node_body_append)

text \<open>JavaScript that puts the slices of a body together, and notes the other calls.\<close>

datatype js_event =
    OnHeaders "(byte list \<times> byte list) list" "byte list"
  | OnHeadersComplete message_info
  | OnBody "byte list"
  | OnMessageComplete

definition log_body :: "byte list \<Rightarrow> js_event list \<Rightarrow> js_event list" where
  "log_body bs es =
     (case rev es of OnBody xs # fs \<Rightarrow> rev fs @ [OnBody (xs @ bs)] | _ \<Rightarrow> es @ [OnBody bs])"

definition collecting_js :: "js_event list js" where
  "collecting_js =
     \<lparr>onHeaders = \<lambda>_. Some (\<lambda>hs url es. (False, es @ [OnHeaders hs url])),
      onHeadersComplete = \<lambda>_. Some (\<lambda>info es. (Some False, es @ [OnHeadersComplete info])),
      onBody = \<lambda>_. Some (\<lambda>bs es. (False, log_body bs es)),
      onMessageComplete = \<lambda>_. Some (\<lambda>es. (False, es @ [OnMessageComplete]))\<rparr>"

lemma log_body_append: "log_body ys (log_body xs es) = log_body (xs @ ys) es"
  by (auto simp: log_body_def split: list.split js_event.split)

lemma collecting_streams: "js_streams collecting_js"
  by (simp add: js_streams_def call_body_def collecting_js_def log_body_append)

interpretation collecting: streaming_settings "node_settings collecting_js" node_on_url
    "node_on_header_field collecting_js" node_on_header_value "node_on_body collecting_js"
  by (rule node_streaming [OF collecting_streams])

end
