(* ===== verification/Http_Protocol.thy ===== *)
theory Http_Protocol
  imports Http_Split
begin

text \<open>
  The order of the callbacks.  A message goes through phases, and every callback is called
  only in the phases in which the client may expect it: the URL before the headers, a value
  only after its field, the body after the headers, trailers after the body.
\<close>

section \<open>Phases\<close>

datatype phase = Idle | Begun | Headers | Body | Trailers

text \<open>The phases a message can be in, given the state of the parser and whether it is
  reading the trailers of a chunked body.\<close>

fun phases :: "state \<Rightarrow> bool \<Rightarrow> phase set" where
  "phases s_dead t = {Idle}"
| "phases s_start_req t = {Idle}"
| "phases s_start_req_or_res t = {Idle}"
| "phases s_start_res t = {Idle, Begun}"
| "phases s_header_field_start t = (if t then {Body, Trailers} else {Begun, Headers})"
| "phases s_header_field t = (if t then {Body, Trailers} else {Begun, Headers})"
| "phases s_headers_almost_done t = (if t then {Body, Trailers} else {Begun, Headers})"
| "phases s_header_value_start t = (if t then {Trailers} else {Headers})"
| "phases s_header_value t = (if t then {Trailers} else {Headers})"
| "phases s_header_value_lws t = (if t then {Trailers} else {Headers})"
| "phases s_header_almost_done t = (if t then {Trailers} else {Headers})"
| "phases s_chunk_size_start t = {Body}"
| "phases s_chunk_size t = {Body}"
| "phases s_chunk_parameters t = {Body}"
| "phases s_chunk_size_almost_done t = {Body}"
| "phases s_chunk_data t = {Body}"
| "phases s_chunk_data_almost_done t = {Body}"
| "phases s_chunk_data_done t = {Body}"
| "phases s_body_identity t = {Body}"
| "phases s_body_identity_eof t = {Body}"
| "phases s t = (if t then {} else {Begun})"

text \<open>
  The interface: \<open>Inv ph\<close> is what the client keeps true of itself in phase \<open>ph\<close>, and every
  callback, called in a phase where it is legal, moves it to the next phase.
\<close>

locale protocol_client =
  fixes S :: "'e http_parser_settings" and Inv :: "phase \<Rightarrow> 'e \<Rightarrow> bool"
  assumes begin_inv: "ph = Idle \<or> ph = Begun \<Longrightarrow> Inv ph v \<Longrightarrow>
        Inv Begun (snd (run_cb (on_message_begin S) P v))"
    and url_inv: "Inv Begun v \<Longrightarrow> Inv Begun (snd (run_data_cb (on_url S) P bs v))"
    and field_inv: "ph = Begun \<or> ph = Headers \<Longrightarrow> Inv ph v \<Longrightarrow>
        Inv Headers (snd (run_data_cb (on_header_field S) P bs v))"
    and trailer_field_inv: "ph = Body \<or> ph = Trailers \<Longrightarrow> Inv ph v \<Longrightarrow>
        Inv Trailers (snd (run_data_cb (on_header_field S) P bs v))"
    and value_inv: "ph = Headers \<or> ph = Trailers \<Longrightarrow> Inv ph v \<Longrightarrow>
        Inv ph (snd (run_data_cb (on_header_value S) P bs v))"
    and headers_inv: "ph = Begun \<or> ph = Headers \<Longrightarrow> Inv ph v \<Longrightarrow>
        Inv Body (snd (run_cb (on_headers_complete S) P v))"
    and body_inv: "Inv Body v \<Longrightarrow> Inv Body (snd (run_data_cb (on_body S) P bs v))"
    and complete_inv: "ph = Body \<or> ph = Trailers \<Longrightarrow> Inv ph v \<Longrightarrow>
        Inv Idle (snd (run_cb (on_message_complete S) P v))"

section \<open>Rules\<close>

lemmas plain_wp = wp_if wp_Let wp_error wp_STRICT_CHECK wp_assert_that wp_case_option wp_case_prod
  wp_case_header_states wp_case_method_switch wp_http_0_9 wp_NEW_MESSAGE_state

lemma wp_CALLBACK2_run:
  assumes "\<And>v. v = snd (run_cb f (parser l) (env l)) \<Longrightarrow> ctl_all X Q E (k (l\<lparr>env := v\<rparr>))"
    and "\<And>v. v = snd (run_cb f (parser l) (env l)) \<Longrightarrow> E (pos l) (SET_ERRNO e (l\<lparr>env := v\<rparr>))"
  shows "ctl_all X Q E (CALLBACK2 f e l k)"
  using assms by (cases "run_cb f (parser l) (env l)") (simp add: CALLBACK2_run Let_def)

lemma wp_CALLBACK_run:
  assumes "m l \<noteq> None"
    and "\<And>bs v. v = snd (run_data_cb f (parser l) bs (env l)) \<Longrightarrow>
          ctl_all X Q E (k (clear (l\<lparr>env := v\<rparr>)))"
    and "\<And>bs v. v = snd (run_data_cb f (parser l) bs (env l)) \<Longrightarrow>
          E (pos l) (SET_ERRNO e (l\<lparr>env := v\<rparr>))"
    and "\<And>l v. clear (l\<lparr>env := env l\<rparr>) = clear l"
  shows "ctl_all X Q E (CALLBACK C f e m clear l k)"
proof -
  obtain i where i: "m l = Some i" using assms(1) by blast
  obtain r v where rv: "run_data_cb f (parser l) (segment i (pos l) (data C)) (env l) = (r, v)"
    by fastforce
  from assms(2,3) [of v "segment i (pos l) (data C)"] rv i show ?thesis
    by (simp add: CALLBACK_run [of clear, OF assms(4)] Let_def)
qed

lemma wp_match_next_any:
  assumes "Q (l\<lparr>index := Suc (index l), header_state := h_general\<rparr>)"
    and "Q (l\<lparr>index := Suc (index l), header_state := f\<rparr>)"
    and "Q (l\<lparr>index := Suc (index l)\<rparr>)"
  shows "ctl_all True Q E (match_next W f c l)"
  using assms by (cases "cstr_at W (Suc (index l))") (auto simp: match_next_def Let_def)

abbreviation trailing :: "http_parser \<Rightarrow> bool" where
  "trailing P \<equiv> has_flag P F_TRAILING"

lemma trailing_or [simp]:
  "has_flag (P\<lparr>hp_flags := x OR y\<rparr>) F \<longleftrightarrow> has_flag (P\<lparr>hp_flags := x\<rparr>) F \<or> y AND F \<noteq> 0"
  by (auto simp: has_flag_def bit.conj_disj_distrib2 or_eq_0_iff)

lemma has_flag_updates [simp]:
  "has_flag (P\<lparr>hp_type := t\<rparr>) F = has_flag P F" "has_flag (P\<lparr>hp_method := m\<rparr>) F = has_flag P F"
  "has_flag (P\<lparr>hp_http_major := n\<rparr>) F = has_flag P F"
  "has_flag (P\<lparr>hp_http_minor := n\<rparr>) F = has_flag P F"
  "has_flag (P\<lparr>hp_status_code := n\<rparr>) F = has_flag P F"
  "has_flag (P\<lparr>hp_state := s\<rparr>) F = has_flag P F"
  "\<not> has_flag (P\<lparr>hp_flags := 0\<rparr>) F"
  by (simp_all add: has_flag_def)

lemma F_TRAILING_nonzero [simp]: "F_TRAILING \<noteq> 0"
  by (simp add: F_TRAILING_def)

context protocol_client
begin

definition client_ok :: "'e locals \<Rightarrow> bool" where
  "client_ok l \<longleftrightarrow> (\<exists>ph \<in> phases (state l) (trailing (parser l)). Inv ph (env l))"

abbreviation keeps_client :: "'e ctl \<Rightarrow> bool" where
  "keeps_client \<equiv> ctl_all True client_ok (\<lambda>_ l. \<exists>ph. Inv ph (env l))"

lemmas cb_inv = begin_inv [of Idle, simplified] begin_inv [of Begun, simplified] url_inv
  field_inv [of Begun, simplified] field_inv [of Headers, simplified]
  trailer_field_inv [of Body, simplified] trailer_field_inv [of Trailers, simplified]
  value_inv [of Headers, simplified] value_inv [of Trailers, simplified]
  headers_inv [of Begun, simplified] headers_inv [of Headers, simplified] body_inv
  complete_inv [of Body, simplified] complete_inv [of Trailers, simplified]

text \<open>A callback in a phase where it is legal.\<close>

lemma wp_client_begin:
  assumes "settings C = S" and "\<exists>ph. (ph = Idle \<or> ph = Begun) \<and> Inv ph (env l)"
    and "\<And>v. Inv Begun v \<Longrightarrow> ctl_all X Q E (k (l\<lparr>env := v\<rparr>))"
    and "\<And>v e. e \<noteq> HPE_OK \<Longrightarrow> Inv Begun v \<Longrightarrow> E (pos l) (SET_ERRNO e (l\<lparr>env := v\<rparr>))"
  shows "ctl_all X Q E (CALLBACK2_message_begin C l k)"
  unfolding CALLBACK2_message_begin_def
  by (rule wp_CALLBACK2_run) (use assms(2-) in \<open>auto simp: assms(1) intro: cb_inv\<close>)

lemma wp_client_complete:
  assumes "settings C = S" and "\<exists>ph. (ph = Body \<or> ph = Trailers) \<and> Inv ph (env l)"
    and "\<And>v. Inv Idle v \<Longrightarrow> ctl_all X Q E (k (l\<lparr>env := v\<rparr>))"
    and "\<And>v e. e \<noteq> HPE_OK \<Longrightarrow> Inv Idle v \<Longrightarrow> E (pos l) (SET_ERRNO e (l\<lparr>env := v\<rparr>))"
  shows "ctl_all X Q E (CALLBACK2_message_complete C l k)"
  unfolding CALLBACK2_message_complete_def
  by (rule wp_CALLBACK2_run) (use assms(2-) in \<open>auto simp: assms(1) intro: cb_inv\<close>)

lemma wp_client_headers_complete:
  assumes "settings C = S" and "\<exists>ph. (ph = Begun \<or> ph = Headers) \<and> Inv ph (env l)"
    and "\<And>v. Inv Body v \<Longrightarrow> ctl_all X Q E (k (l\<lparr>env := v\<rparr>))"
    and "\<And>v. Inv Body v \<Longrightarrow> ctl_all X Q E (k (add_flag F_SKIPBODY (l\<lparr>env := v\<rparr>)))"
    and "\<And>v e. e \<noteq> HPE_OK \<Longrightarrow> Inv Body v \<Longrightarrow>
           E (pos l) (SET_ERRNO e (set_parser (\<lambda>P. P\<lparr>hp_state := state l\<rparr>) (l\<lparr>env := v\<rparr>)))"
  shows "ctl_all X Q E (call_on_headers_complete C l k)"
proof -
  obtain r v where rv: "run_cb (on_headers_complete S) (parser l) (env l) = (r, v)"
    by fastforce
  then have "Inv Body v" using assms(2) cb_inv(10,11) [of "env l" "parser l"] by auto
  with assms(3-5) [where v = v] assms(1) rv show ?thesis
    by (simp add: call_on_headers_complete_run Let_def)
qed

lemma wp_client_url:
  assumes "settings C = S" and "Inv Begun (env l)" and "url_mark l \<noteq> None"
    and "\<And>v. Inv Begun v \<Longrightarrow> ctl_all X Q E (k (l\<lparr>env := v, url_mark := None\<rparr>))"
    and "\<And>v e. e \<noteq> HPE_OK \<Longrightarrow> Inv Begun v \<Longrightarrow> E (pos l) (SET_ERRNO e (l\<lparr>env := v\<rparr>))"
  shows "ctl_all X Q E (CALLBACK_url C l k)"
  unfolding CALLBACK_url_def
  by (rule wp_CALLBACK_run) (use assms(2-) in \<open>auto simp: assms(1) intro: cb_inv\<close>)

lemma wp_client_field:
  assumes "settings C = S" and "header_field_mark l \<noteq> None"
    and "\<exists>ph \<in> (if t then {Body, Trailers} else {Begun, Headers}). Inv ph (env l)"
    and "\<And>v. Inv (if t then Trailers else Headers) v \<Longrightarrow>
          ctl_all X Q E (k (l\<lparr>env := v, header_field_mark := None\<rparr>))"
    and "\<And>v e. e \<noteq> HPE_OK \<Longrightarrow> Inv (if t then Trailers else Headers) v \<Longrightarrow> E (pos l) (SET_ERRNO e (l\<lparr>env := v\<rparr>))"
  shows "ctl_all X Q E (CALLBACK_header_field C l k)"
proof -
  have "Inv (if t then Trailers else Headers)
      (snd (run_data_cb (on_header_field S) (parser l) bs (env l)))" for bs
    using assms(3) by (auto split: if_splits intro: cb_inv)
  with assms show ?thesis
    unfolding CALLBACK_header_field_def by (intro wp_CALLBACK_run) auto
qed

lemma wp_client_value:
  assumes "settings C = S" and "header_value_mark l \<noteq> None"
    and "Inv (if t then Trailers else Headers) (env l)"
    and "\<And>v. Inv (if t then Trailers else Headers) v \<Longrightarrow>
          ctl_all X Q E (k (l\<lparr>env := v, header_value_mark := None\<rparr>))"
    and "\<And>v e. e \<noteq> HPE_OK \<Longrightarrow> Inv (if t then Trailers else Headers) v \<Longrightarrow> E (pos l) (SET_ERRNO e (l\<lparr>env := v\<rparr>))"
  shows "ctl_all X Q E (CALLBACK_header_value C l k)"
proof -
  have "Inv (if t then Trailers else Headers)
      (snd (run_data_cb (on_header_value S) (parser l) bs (env l)))" for bs
    using assms(3) by (auto intro: cb_inv)
  with assms show ?thesis
    unfolding CALLBACK_header_value_def by (intro wp_CALLBACK_run) auto
qed

lemma client_body:
  "settings C = S \<Longrightarrow> Inv Body (env l) \<Longrightarrow> Inv Body (env (call_on_body C n l))"
  by (simp add: call_on_body_run body_inv)

lemmas client_wp = wp_client_begin wp_client_complete wp_client_headers_complete

section \<open>The handlers\<close>

lemma client_body_state:
  assumes "settings C = S" "Inv Body (env l)"
  shows "keeps_client (body_state C ch l)"
  unfolding body_state_def
  by (intro plain_wp client_wp;
      use assms in \<open>auto simp: client_ok_def NEW_MESSAGE_def start_state_def\<close>)

lemma client_headers_almost_done:
  assumes "settings C = S" "client_ok l" "state l = s_headers_almost_done"
  shows "keeps_client (do_headers_almost_done C ch l)"
  unfolding do_headers_almost_done_def
  by (intro plain_wp client_wp client_body_state;
      use assms in \<open>auto simp: client_ok_def NEW_MESSAGE_def start_state_def set_upgrade_def\<close>)

lemma client_header_field_start:
  assumes "settings C = S" "client_ok l" "state l = s_header_field_start"
  shows "keeps_client (do_header_field_start C ch l)"
  unfolding do_header_field_start_def
  by (intro plain_wp client_headers_almost_done; use assms in \<open>auto simp: client_ok_def\<close>)

lemma client_header_almost_done:
  assumes "settings C = S" "Inv (if trailing (parser l) then Trailers else Headers) (env l)"
  shows "keeps_client (do_header_almost_done C ch l)"
  unfolding do_header_almost_done_def
  by (intro plain_wp client_wp;
      use assms in \<open>auto simp: client_ok_def F_TRAILING_def F_CONNECTION_KEEP_ALIVE_def
        F_CONNECTION_CLOSE_def F_CHUNKED_def\<close>)

lemma client_header_value_lws:
  assumes "settings C = S" "client_ok l" "state l = s_header_value_lws"
  shows "keeps_client (do_header_value_lws C ch l)"
  unfolding do_header_value_lws_def
  by (intro plain_wp client_header_field_start; use assms in \<open>auto simp: client_ok_def split: if_splits\<close>)

lemma client_header_field:
  assumes "settings C = S" "client_ok l" "locals_ok 1 l" "state l = s_header_field"
  shows "keeps_client (do_header_field C ch l)"
proof -
  have "\<exists>ph \<in> (if trailing (parser l) then {Body, Trailers} else {Begun, Headers}). Inv ph (env l)"
    "header_field_mark l \<noteq> None"
    using assms by (auto simp: client_ok_def locals_ok_def marks_ok_def)
  then show ?thesis
    unfolding do_header_field_def header_field_token_def
    by (intro plain_wp wp_match_next_any wp_client_field [where t = "trailing (parser l)"];
        use assms in \<open>auto simp: client_ok_def split: if_splits\<close>)
qed

lemma client_header_value_start:
  assumes "settings C = S" "client_ok l" "state l = s_header_value_start"
  shows "keeps_client (do_header_value_start C ch l)"
proof -
  have "Inv (if trailing (parser l) then Trailers else Headers) (env l)"
    using assms by (auto simp: client_ok_def)
  then show ?thesis
    unfolding do_header_value_start_def header_value_first_def
    by (intro plain_wp wp_client_value [where t = "trailing (parser l)"];
        use assms in \<open>auto simp add: client_ok_def F_TRAILING_def F_UPGRADE_def split: if_splits\<close>)
qed

lemma client_header_value:
  assumes "settings C = S" "client_ok l" "locals_ok 1 l" "state l = s_header_value"
  shows "keeps_client (do_header_value C ch l)"
proof -
  have "Inv (if trailing (parser l) then Trailers else Headers) (env l)" "header_value_mark l \<noteq> None"
    using assms by (auto simp: client_ok_def locals_ok_def marks_ok_def)
  then show ?thesis
    unfolding do_header_value_def header_value_char_def
    by (intro plain_wp wp_match_next_any client_header_almost_done
          wp_client_value [where t = "trailing (parser l)"];
        use assms in \<open>auto simp: client_ok_def split: if_splits\<close>)
qed

lemma client_method_assign:
  assumes "Inv Begun (env l)" "\<not> trailing (parser l)"
  shows "keeps_client (start_req_method_assign ch l)"
  unfolding start_req_method_assign_def
  by (intro plain_wp; use assms in \<open>auto simp: client_ok_def has_flag_def\<close>)

lemma client_req_method:
  assumes "Inv Begun (env l)" "\<not> trailing (parser l)" "state l = s_req_method"
  shows "keeps_client (do_req_method C ch l)"
  unfolding do_req_method_def
  by (intro plain_wp; use assms in \<open>auto simp: client_ok_def has_flag_def\<close>)

lemma client_body_identity:
  assumes "settings C = S" "Inv Body (env l)" "state l = s_body_identity"
  shows "keeps_client (do_body_identity C ch l)"
  unfolding do_body_identity_def
  by (intro plain_wp client_wp;
      use assms in \<open>auto simp: client_ok_def NEW_MESSAGE_def start_state_def client_body\<close>)

lemma client_body_identity_eof:
  assumes "settings C = S" "Inv Body (env l)" "state l = s_body_identity_eof"
  shows "keeps_client (do_body_identity_eof C ch l)"
  unfolding do_body_identity_eof_def
  by (intro plain_wp; use assms in \<open>auto simp: client_ok_def client_body\<close>)

lemma client_chunk_data:
  assumes "settings C = S" "Inv Body (env l)" "state l = s_chunk_data"
  shows "keeps_client (do_chunk_data C ch l)"
  unfolding do_chunk_data_def
  by (intro plain_wp; use assms in \<open>auto simp: client_ok_def client_body Let_def\<close>)

lemmas client_parts = client_header_field client_header_value_start client_header_value
  client_header_value_lws client_header_field_start client_headers_almost_done
  client_header_almost_done client_method_assign client_req_method client_body_identity
  client_body_identity_eof client_chunk_data

lemma client_handler:
  assumes "settings C = S" "client_ok l" "locals_ok 1 l"
  shows "keeps_client (handler_of (state l) C ch l)"
proof -
  have marks: "url_mark l = None \<longleftrightarrow> state l \<notin> url_states"
    using assms(3) by (simp add: locals_ok_def marks_ok_def)
  show ?thesis
    by (cases "state l"; simp only: handler_of.simps handler_defs;
        (intro client_parts plain_wp client_wp wp_client_url;
         use assms marks in \<open>auto simp: client_ok_def url_states_def split: if_splits\<close>)?)
qed

section \<open>The loop and the calls\<close>

lemma client_step:
  assumes "settings C = S" "client_ok l" "locals_ok 0 l"
  shows "keeps_client (step C l)"
proof (cases "pos l < length (data C) \<and> \<not> (PARSING_HEADER (state l) \<and>
    nread (count_header_byte l) > HTTP_MAX_HEADER_SIZE)")
  case True
  then have "locals_ok 1 (count_header_byte l)" using locals_ok_count [OF assms(3)] by blast
  moreover have "client_ok (count_header_byte l)" using assms(2) by (simp add: client_ok_def)
  ultimately have "keeps_client (handler_of (state (count_header_byte l)) C (data C ! pos l)
      (count_header_byte l))"
    using assms(1) by (intro client_handler)
  with True show ?thesis by (auto simp: step_def Let_def)
next
  case False
  then show ?thesis
    using assms(2) by (auto simp: step_def Let_def goto_error_def client_ok_def)
qed

text \<open>After a call the client is in a phase of the stored state, unless the call failed.\<close>

definition parser_client_ok :: "http_parser \<Rightarrow> 'e \<Rightarrow> bool" where
  "parser_client_ok P v \<longleftrightarrow> (\<exists>ph \<in> phases (hp_state P) (trailing P). Inv ph v)"

abbreviation returns_client :: "'e ctl \<Rightarrow> bool" where
  "returns_client \<equiv> ctl_all True (\<lambda>_. False) (\<lambda>_ l. (\<exists>ph. Inv ph (env l)) \<and>
     (hp_http_errno (parser l) = HPE_OK \<and> \<not> hp_upgrade (parser l) \<longrightarrow>
        parser_client_ok (parser l) (env l)))"

lemma client_store_locals: "client_ok l \<Longrightarrow> returns_client (store_locals C l)"
  by (auto simp: store_locals_def parser_client_ok_def client_ok_def has_flag_def)

lemma client_end_of_data:
  assumes S: "settings C = S" and cl: "client_ok l" and ok: "locals_ok 0 l"
  shows "returns_client (end_of_data C l)"
proof -
  note m = ok [unfolded locals_ok_def marks_ok_def]
  note callbacks = CALLBACK_header_field_def CALLBACK_header_value_def CALLBACK_url_def
  consider (field) "state l = s_header_field" | (val) "state l = s_header_value"
    | (url) "state l \<in> url_states" | (none) "state l \<notin> {s_header_field, s_header_value} \<union> url_states"
    by blast
  then show ?thesis
  proof cases
    case field
    then have "\<exists>ph \<in> (if trailing (parser l) then {Body, Trailers} else {Begun, Headers}). Inv ph (env l)"
      using cl by (auto simp: client_ok_def)
    then show ?thesis
      using field m unfolding end_of_data_def
      by (intro wp_client_field [OF S, where t = "trailing (parser l)"])
        (auto simp: callbacks no_mark url_states_def intro!: client_store_locals simp: client_ok_def)
  next
    case val
    then have "Inv (if trailing (parser l) then Trailers else Headers) (env l)"
      using cl by (auto simp: client_ok_def)
    moreover have "CALLBACK_header_field C l k = k l" for k
      using val m by (simp add: CALLBACK_header_field_def no_mark)
    ultimately show ?thesis
      using val m unfolding end_of_data_def
      by simp (intro wp_client_value [OF S, where t = "trailing (parser l)"];
        auto simp: callbacks no_mark url_states_def client_ok_def intro!: client_store_locals)
  next
    case url
    then have "Inv Begun (env l)" "\<not> trailing (parser l)"
      using cl by (auto simp: client_ok_def url_states_def split: if_splits)
    moreover have "CALLBACK_header_field C l k = k l" "CALLBACK_header_value C l k = k l" for k
      using url m by (auto simp: callbacks no_mark url_states_def)
    ultimately show ?thesis
      using url m unfolding end_of_data_def
      by simp (intro wp_client_url [OF S];
        auto simp: url_states_def client_ok_def intro!: client_store_locals)
  next
    case none
    with m cl show ?thesis
      by (simp add: end_of_data_def callbacks no_mark client_store_locals)
  qed
qed

lemma client_ok_advance: "client_ok (l\<lparr>pos := n\<rparr>) = client_ok l"
  by (simp add: client_ok_def)

lemma client_loop:
  assumes "settings C = S" "client_ok l" "locals_ok 0 l" "pos l \<le> length (data C)"
  shows "returns_client (execute_loop C l)"
  using assms
proof (induction C l rule: execute_loop.induct)
  case (1 C l)
  show ?case
  proof (cases "pos l = length (data C)")
    case True
    with "1.prems" show ?thesis by (simp add: loop_end client_end_of_data)
  next
    case False
    have k: "keeps_client (step C l)" using "1.prems" by (intro client_step)
    have ok: "keeps_ok (length (data C)) (step C l)"
      using "1.prems" False by (intro keeps_ok_step) simp_all
    show ?thesis
    proof (cases "step C l")
      case (Break l')
      with k ok "1.prems"(1) have "returns_client (execute_loop C (l'\<lparr>pos := Suc (pos l')\<rparr>))"
        by (intro "1.IH" [OF False Break]) (simp_all add: locals_ok_advance client_ok_advance)
      with False Break show ?thesis by (simp add: loop_Break)
    next
      case (Done n l')
      with k ok False show ?thesis by (auto simp: loop_Done)
    next
      case Crash
      with ok show ?thesis by simp
    qed
  qed
qed

lemma client_execute:
  assumes "parser_ok P" "parser_client_ok P v" "bs \<noteq> []"
    and "http_parser_execute st P S bs v = Returned n P' v'"
  shows "\<exists>ph. Inv ph v'"
    and "hp_http_errno P' = HPE_OK \<Longrightarrow> \<not> hp_upgrade P' \<Longrightarrow> parser_client_ok P' v'"
proof -
  let ?C = "call_on st S bs"
  have "client_ok (load_locals P v)"
    using assms(2) by (simp add: client_ok_def parser_client_ok_def load_locals_def)
  then have r: "returns_client (execute_loop ?C (load_locals P v))"
    using assms(1) by (intro client_loop load_locals_ok) simp_all
  from assms(4) obtain l where l: "execute_loop ?C (load_locals P v) = Done n l" "parser l = P'"
    "env l = v'"
    unfolding execute_parser_ok [OF assms(1,3)]
    by (cases "execute_loop ?C (load_locals P v)") auto
  with r show "\<exists>ph. Inv ph v'" by auto
  assume "hp_http_errno P' = HPE_OK" "\<not> hp_upgrade P'"
  with l r show "parser_client_ok P' v'" by auto
qed

lemma client_init: "Inv Idle v \<Longrightarrow> parser_client_ok (http_parser_init P t) v"
  by (auto simp: parser_client_ok_def http_parser_init_def)

text \<open>At the end of file the message that lasts until then is complete.\<close>

lemma client_eof:
  assumes "parser_client_ok P v" "http_parser_execute st P S [] v = Returned n P' v'"
  shows "\<exists>ph. Inv ph v'"
proof -
  have "ctl_all True (\<lambda>_. False) (\<lambda>_ l. \<exists>ph. Inv ph (env l)) (execute_eof (call_on st S []) (load_locals P v))"
    unfolding execute_eof_def
    by (intro plain_wp client_wp; use assms(1) in
        \<open>auto simp: parser_client_ok_def load_locals_def split: if_splits\<close>)
  then show ?thesis
    using assms
    by (cases "execute_eof (call_on st S []) (load_locals P v)")
      (auto simp: http_parser_execute_def parser_client_ok_def Let_def split: if_splits)
qed

end

section \<open>A client that records the callbacks\<close>

datatype cb_event = Ev_begin | Ev_url | Ev_field | Ev_value | Ev_headers_complete | Ev_body
  | Ev_complete

text \<open>The automaton of the callbacks of a message, and its run on a list of them.\<close>

fun next_phase :: "phase \<Rightarrow> cb_event \<Rightarrow> phase option" where
  "next_phase Idle Ev_begin = Some Begun"
| "next_phase Begun Ev_begin = Some Begun"
| "next_phase Begun Ev_url = Some Begun"
| "next_phase Begun Ev_field = Some Headers"
| "next_phase Begun Ev_headers_complete = Some Body"
| "next_phase Headers Ev_field = Some Headers"
| "next_phase Headers Ev_value = Some Headers"
| "next_phase Headers Ev_headers_complete = Some Body"
| "next_phase Body Ev_body = Some Body"
| "next_phase Body Ev_field = Some Trailers"
| "next_phase Body Ev_complete = Some Idle"
| "next_phase Trailers Ev_field = Some Trailers"
| "next_phase Trailers Ev_value = Some Trailers"
| "next_phase Trailers Ev_complete = Some Idle"
| "next_phase _ _ = None"

fun run_phases :: "phase \<Rightarrow> cb_event list \<Rightarrow> phase option" where
  "run_phases ph [] = Some ph"
| "run_phases ph (e # es) = Option.bind (next_phase ph e) (\<lambda>ph'. run_phases ph' es)"

lemma run_phases_append:
  "run_phases ph (es @ fs) = Option.bind (run_phases ph es) (\<lambda>ph'. run_phases ph' fs)"
  by (induction es arbitrary: ph) (auto split: Option.bind_splits)

text \<open>The client: it writes the callbacks down, and returns whatever \<open>ret\<close> says.\<close>

definition record_event :: "(cb_event list \<Rightarrow> int) \<Rightarrow> cb_event \<Rightarrow> cb_event list \<Rightarrow> int \<times> cb_event list" where
  "record_event ret e tr = (ret (tr @ [e]), tr @ [e])"

definition recorder :: "(cb_event list \<Rightarrow> int) \<Rightarrow> cb_event list http_parser_settings" where
  "recorder ret =
     \<lparr>on_message_begin = Some (\<lambda>P. record_event ret Ev_begin),
      on_url = Some (\<lambda>P bs. record_event ret Ev_url),
      on_header_field = Some (\<lambda>P bs. record_event ret Ev_field),
      on_header_value = Some (\<lambda>P bs. record_event ret Ev_value),
      on_headers_complete = Some (\<lambda>P. record_event ret Ev_headers_complete),
      on_body = Some (\<lambda>P bs. record_event ret Ev_body),
      on_message_complete = Some (\<lambda>P. record_event ret Ev_complete)\<rparr>"

interpretation recorder: protocol_client "recorder ret" "\<lambda>ph tr. run_phases Idle tr = Some ph" for ret
  by unfold_locales
    (auto simp: recorder_def run_cb_def run_data_cb_def record_event_def run_phases_append)

end
