(* ===== verification/Http_Session.thy ===== *)
theory Http_Session
  imports Node_Parser Http_Protocol
begin

text \<open>
  What a caller of the HTTP parser may rely on over a whole connection: the parsers a
  session can reach, the properties of every call on them, and the properties of the node
  client that sits on top.
\<close>

section \<open>Sessions\<close>

text \<open>
  The parsers and clients a caller can hold who follows the header file: it initialises the
  parser (the client is then \<open>v0\<close>), and calls again only after a call that consumed data
  without an error or an upgrade.
\<close>

inductive session ::
  "bool \<Rightarrow> 'e http_parser_settings \<Rightarrow> 'e \<Rightarrow> http_parser \<Rightarrow> 'e \<Rightarrow> bool"
  for st :: bool and S :: "'e http_parser_settings" and v0 :: 'e
  where
    start: "session st S v0 (http_parser_init P t) v0"
  | call: "session st S v0 P v \<Longrightarrow> bs \<noteq> [] \<Longrightarrow>
      http_parser_execute st P S bs v = Returned n P' v' \<Longrightarrow>
      hp_http_errno P' = HPE_OK \<Longrightarrow> \<not> hp_upgrade P' \<Longrightarrow> session st S v0 P' v'"

inductive_cases session_cases: "session st S v0 P v"

lemma session_parser_ok: "session st S v0 P v \<Longrightarrow> parser_ok P"
proof (induction rule: session.induct)
  case (start P t)
  show ?case by (rule init_parser_ok)
next
  case (call P v bs n P' v')
  from execute_ok [OF call.IH call.hyps(2), of st S v] call.hyps(3-5) show ?case
    by (auto simp: call_ok_def)
qed

context protocol_client
begin

lemma session_client:
  "session st S v0 P v \<Longrightarrow> Inv Idle v0 \<Longrightarrow> parser_client_ok P v"
proof (induction rule: session.induct)
  case (start P t)
  then show ?case by (rule client_init)
next
  case (call P v bs n P' v')
  from client_execute(2) [OF session_parser_ok [OF call.hyps(1)] call.IH [OF call.prems]
      call.hyps(2,3,4,5)]
  show ?case .
qed

lemma session_execute:
  assumes "session st S v0 P v" "Inv Idle v0" "http_parser_execute st P S bs v = Returned n P' v'"
  shows "\<exists>ph. Inv ph v'"
proof (cases "bs = []")
  case True
  with assms show ?thesis using client_eof [OF session_client [OF assms(1,2)]] by blast
next
  case False
  with assms show ?thesis
    using client_execute(1) [OF session_parser_ok [OF assms(1)] session_client [OF assms(1,2)]]
    by blast
qed

end

lemmas node_eval = node_settings_def node_on_message_begin_def node_on_url_def
  node_on_header_field_def node_on_header_value_def node_on_headers_complete_def
  node_on_message_complete_def node_on_body_def call_body_def call_complete_def collecting_js_def new_field_def append_at_def node_init_def ARRAY_SIZE_def
  Flush_def CreateHeaders_def

section \<open>The node client keeps its arrays in bounds\<close>

definition node_ok :: "phase \<Rightarrow> 'j node_parser option \<Rightarrow> bool" where
  "node_ok ph v \<longleftrightarrow>
     (\<exists>p. v = Some p \<and> length (np_fields p) = ARRAY_SIZE \<and> length (np_values p) = ARRAY_SIZE \<and>
        np_num_fields p < ARRAY_SIZE \<and>
        (np_num_fields p = np_num_values p \<or> np_num_fields p = np_num_values p + 1) \<and>
        (ph = Headers \<or> ph = Trailers \<longrightarrow> 0 < np_num_fields p))"

lemma node_ok_init: "node_ok Idle (Some (node_init j))"
  by (simp add: node_ok_def node_init_def ARRAY_SIZE_def)

lemma node_ok_field:
  assumes "node_ok ph v" and "ph' = Headers \<or> ph' = Trailers"
  shows "node_ok ph' (node_on_header_field J bs v)"
  using assms
  by (auto simp: node_ok_def node_on_header_field_def new_field_def append_at_def
      ARRAY_SIZE_def Let_def)

lemma node_ok_value:
  assumes "node_ok ph v" and "ph = Headers \<or> ph = Trailers"
  shows "node_ok ph (node_on_header_value bs v)"
  using assms by (auto simp: node_ok_def node_on_header_value_def append_at_def Let_def)

lemma node_ok_headers:
  "node_ok ph v \<Longrightarrow> node_ok Body (snd (node_on_headers_complete J P v))"
  by (auto simp: node_ok_def node_on_headers_complete_def Let_def ARRAY_SIZE_def
      split: option.split prod.split)

lemma node_ok_complete:
  "node_ok ph v \<Longrightarrow> node_ok Idle (snd (node_on_message_complete J P v))"
  by (auto simp: node_ok_def node_on_message_complete_def Let_def split_beta)

interpretation node_protocol: protocol_client "node_settings J" node_ok for J
proof unfold_locales
  fix v and bs :: "byte list" and P
  show "node_ok Begun v \<Longrightarrow> node_ok Begun (snd (run_data_cb (on_url (node_settings J)) P bs v))"
    by (auto simp: node_settings_def run_data_cb_def node_on_url_def node_ok_def)
  show "node_ok Body v \<Longrightarrow> node_ok Body (snd (run_data_cb (on_body (node_settings J)) P bs v))"
    by (auto simp: node_settings_def run_data_cb_def node_on_body_def node_ok_def split_beta)
  fix ph
  show "node_ok ph v \<Longrightarrow> node_ok Begun (snd (run_cb (on_message_begin (node_settings J)) P v))"
    by (auto simp: node_settings_def run_cb_def node_on_message_begin_def node_ok_def ARRAY_SIZE_def)
qed (simp_all add: node_settings_def run_cb_def run_data_cb_def node_ok_field node_ok_value
      node_ok_headers node_ok_complete)

text \<open>The rules that run the parser on concrete bytes.\<close>

lemmas exec_eval = http_parser_execute_def http_parser_init_def load_locals_def
  execute_loop.simps step_def handler_defs headers_defs count_header_byte_def PARSING_HEADER_iff
  HTTP_MAX_HEADER_SIZE_def url_states_def do_req_method_def cstr_at_def
  start_req_method_assign_def first_letter_method_def switch_method_def
  IS_ALPHA_def IS_NUM_def IS_ALPHANUM_def LOWER_def TOKEN_def IS_URL_CHAR_def IS_HOST_CHAR_def
  tokens_def unhex_def normal_url_char_def table256_def tokens_init_def unhex_init_def normal_url_char_init_def
  CALLBACK_def CALLBACK2_def CALLBACK2_message_begin_def CALLBACK2_message_complete_def
  CALLBACK_header_field_def CALLBACK_header_value_def CALLBACK_url_def call_on_headers_complete_def
  call_on_body_def segment_def http_0_9_def do_headers_almost_done_def do_header_field_start_def
  do_header_almost_done_def set_upgrade_def body_state_def NEW_MESSAGE_state_def NEW_MESSAGE_def
  http_should_keep_alive_def start_state_def has_flag_def 
  F_CHUNKED_def F_CONNECTION_KEEP_ALIVE_def F_CONNECTION_CLOSE_def F_TRAILING_def F_UPGRADE_def F_SKIPBODY_def
  first_header_state_def const_string_defs end_of_data_def store_locals_def STRICT_CHECK_def assert_that_def
  SET_ERRNO_def goto_error_def digit16_def do_body_identity_def do_body_identity_eof_def do_chunk_data_def body_to_read_def advance_def execute_eof_def

text \<open>A client and a parser on which the properties are evaluated.\<close>

definition blank_parser :: http_parser where
  "blank_parser =
     \<lparr>hp_type = HTTP_BOTH, hp_flags = 0, hp_state = s_dead, hp_header_state = h_general,
      hp_index = 0, hp_nread = 0, hp_content_length = 0, hp_http_major = 0, hp_http_minor = 0,
      hp_status_code = 0, hp_method = HTTP_DELETE, hp_http_errno = HPE_OK, hp_upgrade = False\<rparr>"

definition no_settings :: "unit http_parser_settings" where
  "no_settings =
     \<lparr>on_message_begin = None, on_url = None, on_header_field = None, on_header_value = None,
      on_headers_complete = None, on_body = None, on_message_complete = None\<rparr>"

section \<open>Properties\<close>

text \<open>
  C1: no call a session can make crashes: whatever bytes arrive, \<^verbatim>\<open>http_parser_execute\<close>
  passes all its assertions, reads inside its tables, its method names and the data, and
  returns; it consumes at most the bytes it is given, and all of them when there is neither
  an error nor an upgrade, in which case the next call is safe as well.
\<close>

theorem session_safe:
  assumes "session st S v0 P v" and "bs \<noteq> []"
  shows "\<exists>n P' v'. http_parser_execute st P S bs v = Returned n P' v' \<and> n \<le> length bs \<and>
           (hp_http_errno P' = HPE_OK \<and> \<not> hp_upgrade P' \<longrightarrow> n = length bs \<and> session st S v0 P' v')"
proof -
  from execute_ok [OF session_parser_ok [OF assms(1)] assms(2), of st S v]
  obtain n P' v' where r: "http_parser_execute st P S bs v = Returned n P' v'"
    and ok: "call_ok (length bs) n P'" by blast
  with session.call [OF assms r] show ?thesis by (auto simp: call_ok_def)
qed

lemma session_safe_witness:
  "\<exists>n P' v'. http_parser_execute True (http_parser_init blank_parser HTTP_REQUEST) no_settings
      [71, 69, 84] () = Returned n P' v' \<and> n \<le> length [71, 69, 84 :: byte] \<and>
      (hp_http_errno P' = HPE_OK \<and> \<not> hp_upgrade P' \<longrightarrow>
       n = length [71, 69, 84 :: byte] \<and> session True no_settings () P' v')"
  by (rule session_safe [OF session.start]) simp

text \<open>
  C3: where the data is cut does not matter.  For node's client, and any JavaScript to which
  \<open>onBody\<close> for two slices is \<open>onBody\<close> for the slice of both (\<open>js_streams\<close>: whether one of the calls
  throws, and the state after them), feeding the pieces of a stream one call at a time gives what
  one call on the whole stream gives: as many bytes consumed, the same public parser and, unless
  there was an error, the same client with the same state of JavaScript; without an error or an
  upgrade even the parsers are equal.
\<close>

theorem node_stream_cuts:
  assumes "js_streams J"
    and "session st (node_settings J) v0 P v" and "bss \<noteq> []" and "[] \<notin> set bss"
  shows "same_outcome (http_parser_execute st P (node_settings J) (concat bss) v)
           (feed st (node_settings J) bss P v)"
  by (rule streaming_settings.feed_concat [OF node_streaming [OF assms(1)] session_parser_ok [OF assms(2)] assms(3,4)])

lemma node_stream_cuts_witness:
  "same_outcome
     (http_parser_execute True (http_parser_init blank_parser HTTP_REQUEST) (node_settings collecting_js)
        (bytes ''GET / HTTP/1.1'') (Some (node_init [])))
     (feed True (node_settings collecting_js) [bytes ''GE'', bytes ''T / HTTP/1.1'']
        (http_parser_init blank_parser HTTP_REQUEST) (Some (node_init [])))"
  using node_stream_cuts [OF collecting_streams session.start, where bss = "[bytes ''GE'', bytes ''T / HTTP/1.1'']" and
      st = True and v = "Some (node_init [])"]
  by simp

text \<open>
  C6: callbacks come in order.  Whatever the bytes and whatever the client's callbacks
  return, the callbacks of every call of a session form a run of the automaton
  \<open>next_phase\<close>: a message begins before its URL, values follow fields, the body follows the
  headers, trailers follow the body, and the message is complete last.
\<close>

theorem callbacks_in_order:
  assumes "session st (recorder ret) [] P tr"
    and "http_parser_execute st P (recorder ret) bs tr = Returned n P' tr'"
  shows "run_phases Idle tr' \<noteq> None"
  using recorder.session_execute [OF assms(1) _ assms(2)] by auto

lemma callbacks_in_order_witness:
  "case http_parser_execute True (http_parser_init blank_parser HTTP_REQUEST) (recorder (\<lambda>_. 0))
     [71, 69, 84, 32, 47, 10, 10] [] of
     Returned n P tr \<Rightarrow>
       n = 7 \<and> tr = [Ev_begin, Ev_url, Ev_headers_complete, Ev_complete] \<and>
       run_phases Idle tr \<noteq> None
   | Crashed \<Rightarrow> False"
proof (cases "http_parser_execute True (http_parser_init blank_parser HTTP_REQUEST)
    (recorder (\<lambda>_. 0)) [71, 69, 84, 32, 47, 10, 10] []")
  case (Returned n P tr)
  moreover from this have "n = 7 \<and> tr = [Ev_begin, Ev_url, Ev_headers_complete, Ev_complete]"
    by (simp add: exec_eval blank_parser_def recorder_def record_event_def)
  moreover have "run_phases Idle tr \<noteq> None"
    by (rule callbacks_in_order [OF session.start Returned])
  ultimately show ?thesis by simp
next
  case Crashed
  then show ?thesis by (simp add: exec_eval blank_parser_def recorder_def record_event_def)
qed

text \<open>
  C31: the node client never fails its assertions nor indexes outside \<^verbatim>\<open>fields_\<close> and
  \<^verbatim>\<open>values_\<close>: after every call of a session it is alive, with at most 31 fields and as many
  values, or one fewer.
\<close>

theorem node_never_aborts:
  assumes "session st (node_settings J) (Some (node_init j)) P v"
    and "http_parser_execute st P (node_settings J) bs v = Returned n P' v'"
  shows "\<exists>p. v' = Some p \<and> np_num_fields p < ARRAY_SIZE \<and>
           (np_num_fields p = np_num_values p \<or> np_num_fields p = np_num_values p + 1)"
  using node_protocol.session_execute [OF assms(1) node_ok_init assms(2)] by (auto simp: node_ok_def)

lemma node_never_aborts_witness:
  "case http_parser_execute True (http_parser_init blank_parser HTTP_REQUEST) (node_settings collecting_js)
     [71, 69, 84, 32, 47, 10, 97, 58, 98, 10, 10] (Some (node_init [])) of
     Returned n P v \<Rightarrow> n = 11 \<and> (\<exists>p. v = Some p \<and> np_num_fields p < ARRAY_SIZE)
   | Crashed \<Rightarrow> False"
proof (cases "http_parser_execute True (http_parser_init blank_parser HTTP_REQUEST)
    (node_settings collecting_js) [71, 69, 84, 32, 47, 10, 97, 58, 98, 10, 10] (Some (node_init []))")
  case (Returned n P v)
  moreover from this have "n = 11"
    by (simp add: exec_eval blank_parser_def collecting_js_def node_eval)
  moreover have "\<exists>p. v = Some p \<and> np_num_fields p < ARRAY_SIZE"
    using node_never_aborts [OF session.start Returned] by blast
  ultimately show ?thesis by simp
next
  case Crashed
  then show ?thesis by (simp add: exec_eval blank_parser_def collecting_js_def node_eval)
qed

end
