(* ===== verification/Http_Method.thy ===== *)
theory Http_Method
  imports Http_Session
begin

text \<open>
  The recogniser of request methods: a chain of \<^verbatim>\<open>else if\<close> that guesses a method from the
  first letter and changes its mind on later letters.  It recognises the 24 names of
  \<open>method_strings\<close> and nothing else.
\<close>

section \<open>Running the loop on a list\<close>

text \<open>One byte of the data: the loop goes on behind it.\<close>

lemma loop_byte:
  assumes "drop (pos l) (data C) = ch # bs"
    and "PARSING_HEADER (state l) \<Longrightarrow> nread l < HTTP_MAX_HEADER_SIZE"
    and "handler_of (state l) C ch (count_header_byte l) = Break l'"
  shows "execute_loop C l = execute_loop C (l'\<lparr>pos := Suc (pos l')\<rparr>)"
proof -
  have pos: "pos l < length (data C)" and ch: "data C ! pos l = ch"
    using assms(1) by (metis drop_eq_Nil list.distinct(1) not_le, metis nth_via_drop)
  with assms(2,3) have "step C l = Break l'"
    by (auto simp: step_def Let_def count_header_byte_def)
  with pos show ?thesis by (simp add: loop_Break)
qed

lemma drop_next: "drop n xs = ch # bs \<Longrightarrow> drop (Suc n) xs = bs"
  by (metis drop_Suc list.sel(3) tl_drop)

section \<open>Soundness\<close>

text \<open>A change of the guess keeps the letters read so far, and reads one more.\<close>

lemma switch_method_prefix:
  "switch_method m i ch = Switch m' \<Longrightarrow>
   take i (http_method_str m') = take i (http_method_str m) \<and> http_method_str m' ! i = ch"
  by (auto simp: switch_method_def split: if_splits)

lemma first_letter_prefix:
  "first_letter_method ch = Some m \<Longrightarrow> take 1 (http_method_str m) = [ch]"
  by (auto simp: first_letter_method_def split: if_splits)

text \<open>What the bytes read so far look like in the states around the method.\<close>

definition method_read :: "byte list \<Rightarrow> 'e locals \<Rightarrow> bool" where
  "method_read bs l \<longleftrightarrow>
     (state l = s_res_or_resp_H \<longrightarrow> (\<exists>xs. bs = xs @ [chr CHR ''H''])) \<and>
     (state l = s_req_method \<longrightarrow>
        index l \<le> length (http_method_str (hp_method (parser l))) \<and>
        (\<exists>xs. bs = xs @ take (index l) (http_method_str (hp_method (parser l))))) \<and>
     (state l = s_req_spaces_before_url \<longrightarrow>
        (\<exists>xs j. bs = xs @ http_method_str (hp_method (parser l)) @ replicate (Suc j) SP))"

definition method_states :: "state set" where
  "method_states = {s_res_or_resp_H, s_req_method, s_req_spaces_before_url}"

lemma method_read_other: "state l \<notin> method_states \<Longrightarrow> method_read bs l"
  by (simp add: method_read_def method_states_def)

abbreviation leaves_method :: "'e ctl \<Rightarrow> bool" where
  "leaves_method \<equiv> ctl_all True (\<lambda>l. state l \<notin> method_states) (\<lambda>_ _. True)"

lemma leaves_body_state: "leaves_method (body_state C ch l)"
  unfolding body_state_def
  by (intro ctl_wp; simp add: method_states_def NEW_MESSAGE_def start_state_def)

lemma leaves_headers_almost_done:
  "leaves_method (do_headers_almost_done C ch l)"
  unfolding do_headers_almost_done_def
  by (intro ctl_wp leaves_body_state; simp add: method_states_def NEW_MESSAGE_def start_state_def)

lemma leaves_header_field_start:
  "state l \<notin> method_states \<Longrightarrow> leaves_method (do_header_field_start C ch l)"
  unfolding do_header_field_start_def
  by (intro ctl_wp leaves_headers_almost_done; simp add: method_states_def)

lemma leaves_header_almost_done: "leaves_method (do_header_almost_done C ch l)"
  unfolding do_header_almost_done_def by (intro ctl_wp; simp add: method_states_def)

lemma leaves_match_next: "state l \<notin> method_states \<Longrightarrow> leaves_method (match_next W f c l)"
  by (cases "cstr_at W (Suc (index l))") (auto simp: match_next_def Let_def)

lemma leaves_method_handler:
  assumes "state l \<notin> method_states" "state l \<noteq> s_start_req" "state l \<noteq> s_start_req_or_res"
  shows "leaves_method (handler_of (state l) C ch l)"
  by (cases "state l";
      simp only: handler_of.simps handler_defs do_header_field_def header_field_token_def
        do_header_value_start_def header_value_first_def do_header_value_def header_value_char_def
        do_body_identity_def do_body_identity_eof_def do_chunk_data_def;
      (intro ctl_wp leaves_headers_almost_done leaves_header_field_start leaves_header_almost_done
         leaves_match_next)?;
      use assms in \<open>simp add: method_states_def NEW_MESSAGE_def start_state_def\<close>)

text \<open>One byte more, from each of the states around the method.\<close>

abbreviation reads_method :: "byte list \<Rightarrow> byte \<Rightarrow> 'e ctl \<Rightarrow> bool" where
  "reads_method bs ch \<equiv> ctl_all True (method_read (bs @ [ch])) (\<lambda>_ _. True)"

lemma take_1_append: "take 1 xs = [ch] \<Longrightarrow> \<exists>ys. bs @ [ch] = ys @ take (Suc 0) xs"
  by simp

lemma reads_method_assign: "reads_method bs ch (start_req_method_assign ch l)"
  unfolding start_req_method_assign_def
  using method_str_length(1)
  by (intro ctl_wp)
    (auto simp: method_read_def dest!: first_letter_prefix intro: Suc_leI
      simp: Suc_le_eq less_le_trans [OF _ method_str_length(1)])

lemma take_Suc_switch:
  assumes "take i xs = take i ys" "xs ! i = ch" "i < length xs"
  shows "take i ys @ [ch] = take (Suc i) xs"
  using assms by (simp add: take_Suc_conv_app_nth)

lemma reads_req_method:
  assumes "method_read bs l" "state l = s_req_method"
  shows "reads_method bs ch (do_req_method C ch l)"
proof -
  let ?m = "hp_method (parser l)" and ?i = "index l"
  obtain xs where bs: "bs = xs @ take ?i (http_method_str ?m)" and i: "?i \<le> length (http_method_str ?m)"
    using assms by (auto simp: method_read_def)
  have space: "\<exists>ys j. bs @ [SP] = ys @ http_method_str ?m @ replicate (Suc j) SP"
    if "cstr_at (http_method_str ?m) ?i = Some 0"
  proof -
    have "\<not> ?i < length (http_method_str ?m)"
    proof
      assume lt: "?i < length (http_method_str ?m)"
      with that have "http_method_str ?m ! ?i = 0" by (simp add: cstr_at_def)
      with nth_mem [OF lt] have "0 \<in> set (http_method_str ?m)" by simp
      then show False by (cases ?m) auto
    qed
    with i bs have "bs @ [SP] = xs @ http_method_str ?m @ replicate (Suc 0) SP" by simp
    then show ?thesis by blast
  qed
  have next_letter: "\<exists>ys. bs @ [ch] = ys @ take (Suc ?i) (http_method_str ?m)" "Suc ?i \<le> length (http_method_str ?m)"
    if "cstr_at (http_method_str ?m) ?i = Some ch" "ch \<noteq> 0"
  proof -
    have "?i < length (http_method_str ?m)" using cstr_at_SomeD [OF that] .
    with that bs show "\<exists>ys. bs @ [ch] = ys @ take (Suc ?i) (http_method_str ?m)"
      by (auto simp: take_Suc_conv_app_nth cstr_at_def)
    show "Suc ?i \<le> length (http_method_str ?m)" using \<open>?i < length _\<close> by simp
  qed
  have switch: "\<exists>ys. bs @ [ch] = ys @ take (Suc ?i) (http_method_str m')" "Suc ?i \<le> length (http_method_str m')"
    if "switch_method ?m ?i ch = Switch m'" for m'
    using switch_method_prefix [OF that] switch_method_length [OF that] bs
    by (auto simp: take_Suc_conv_app_nth Suc_le_eq)
  show ?thesis
    unfolding do_req_method_def
    by (intro ctl_wp; use space next_letter switch in \<open>auto simp: method_read_def assms(2)\<close>)
qed

lemma reads_res_or_resp_H:
  assumes "method_read bs l" "state l = s_res_or_resp_H"
  shows "reads_method bs ch (do_res_or_resp_H C ch l)"
  using assms unfolding do_res_or_resp_H_def
  by (intro ctl_wp) (auto simp: method_read_def)

lemma reads_spaces:
  assumes "method_read bs l" "state l = s_req_spaces_before_url"
  shows "reads_method bs ch (do_req_spaces_before_url C ch l)"
proof -
  obtain xs j where "bs = xs @ http_method_str (hp_method (parser l)) @ replicate (Suc j) SP"
    using assms by (auto simp: method_read_def)
  then have "bs @ [SP] = xs @ http_method_str (hp_method (parser l)) @ replicate (Suc (Suc j)) SP"
    by (simp add: replicate_append_same)
  then have "\<exists>xs j. bs @ [SP] = xs @ http_method_str (hp_method (parser l)) @ replicate (Suc j) SP"
    by blast
  then show ?thesis
    unfolding do_req_spaces_before_url_def
    by (intro ctl_wp) (auto simp: method_read_def assms(2))
qed

lemma reads_method_handler:
  assumes "method_read bs l"
  shows "reads_method bs ch (handler_of (state l) C ch l)"
proof -
  consider "state l = s_res_or_resp_H" | "state l = s_req_method" | "state l = s_req_spaces_before_url"
    | "state l = s_start_req" | "state l = s_start_req_or_res"
    | "state l \<notin> method_states" "state l \<noteq> s_start_req" "state l \<noteq> s_start_req_or_res"
    by (auto simp: method_states_def)
  then show ?thesis
  proof cases
    case 4
    then show ?thesis
      by (simp only: handler_of.simps do_start_req_def)
        (intro ctl_wp reads_method_assign; simp add: method_read_def start_message_def)
  next
    case 5
    then show ?thesis
      by (simp only: handler_of.simps do_start_req_or_res_def)
        (intro ctl_wp reads_method_assign; simp add: method_read_def start_message_def)
  next
    case 6
    from leaves_method_handler [OF this, of C ch] show ?thesis
      by (rule ctl_all_mono) (simp_all add: method_read_other)
  qed (use assms in \<open>simp_all add: reads_res_or_resp_H reads_req_method reads_spaces\<close>)
qed

lemma method_read_cong:
  "state l' = state l \<Longrightarrow> index l' = index l \<Longrightarrow> parser l' = parser l \<Longrightarrow>
   method_read bs l' = method_read bs l"
  by (simp add: method_read_def)

text \<open>A handler that goes to one of these states has moved by one byte.\<close>

abbreviation stays_at :: "nat \<Rightarrow> 'e ctl \<Rightarrow> bool" where
  "stays_at n \<equiv> ctl_all True (\<lambda>l. state l \<in> method_states \<longrightarrow> pos l = n) (\<lambda>_ _. True)"

lemma stays_at_handler: "pos l = n \<Longrightarrow> stays_at n (handler_of (state l) C ch l)"
proof -
  assume pos: "pos l = n"
  consider (m) "state l \<in> method_states \<union> {s_start_req, s_start_req_or_res}"
    | (o) "state l \<notin> method_states" "state l \<noteq> s_start_req" "state l \<noteq> s_start_req_or_res"
    by blast
  then show ?thesis
  proof cases
    case m
    then show ?thesis
      using pos
      by (auto simp: method_states_def do_res_or_resp_H_def do_req_method_def
          do_req_spaces_before_url_def do_start_req_def do_start_req_or_res_def
          start_req_method_assign_def start_message_def intro!: ctl_wp)
  next
    case o
    from leaves_method_handler [OF this, of C ch] show ?thesis
      by (rule ctl_all_mono) simp_all
  qed
qed

lemma method_read_loop:
  assumes "method_read (take (pos l) (data C)) l" "pos l \<le> length (data C)" "locals_ok 0 l"
    and "execute_loop C l = Done n l'" "hp_http_errno (parser l') = HPE_OK" "\<not> hp_upgrade (parser l')"
  shows "hp_state (parser l') = s_req_spaces_before_url \<longrightarrow>
    (\<exists>xs j. data C = xs @ http_method_str (hp_method (parser l')) @ replicate (Suc j) SP)"
  using assms
proof (induction C l rule: execute_loop.induct)
  case (1 C l)
  show ?case
  proof (cases "pos l = length (data C)")
    case True
    have "ctl_all True (\<lambda>_. False) (\<lambda>_ l'. hp_http_errno (parser l') = HPE_OK \<longrightarrow>
        hp_state (parser l') = state l \<and> hp_method (parser l') = hp_method (parser l))
        (end_of_data C l)"
      unfolding end_of_data_def by (intro ctl_wp) (simp_all add: store_locals_def)
    with True "1.prems" show ?thesis
      by (auto simp: loop_end method_read_def)
  next
    case False
    with "1.prems"(2) have pos: "pos l < length (data C)" by simp
    have ok: "keeps_ok (length (data C)) (step C l)"
      by (rule keeps_ok_step [OF "1.prems"(3) pos])
    show ?thesis
    proof (cases "step C l")
      case (Break l1)
      then have h: "handler_of (state l) C (data C ! pos l) (count_header_byte l) = Break l1"
        using pos by (auto simp: step_def Let_def goto_error_def split: if_splits)
      have "method_read (take (pos l) (data C)) (count_header_byte l)"
        using "1.prems"(1) by (simp add: method_read_cong [of "count_header_byte l" l])
      from reads_method_handler [OF this, of "data C ! pos l" C] h
      have "method_read (take (Suc (pos l)) (data C)) l1"
        using pos by (simp add: take_Suc_conv_app_nth)
      moreover have "state l1 \<in> method_states \<longrightarrow> pos l1 = pos l"
        using stays_at_handler [of "count_header_byte l" "pos l" C "data C ! pos l"] h by simp
      ultimately have "method_read (take (Suc (pos l1)) (data C)) (l1\<lparr>pos := Suc (pos l1)\<rparr>)"
        using method_read_cong [of "l1\<lparr>pos := Suc (pos l1)\<rparr>" l1]
        by (cases "state l1 \<in> method_states") (simp_all add: method_read_other)
      with Break ok "1.prems"(4-6) False show ?thesis
        by (intro "1.IH" [OF False Break]) (simp_all add: locals_ok_advance loop_Break)
    next
      case (Done m l1)
      with ok "1.prems"(4-6) False show ?thesis by (simp add: loop_Done)
    next
      case Crash
      with ok show ?thesis by simp
    qed
  qed
qed

section \<open>Properties\<close>

text \<open>
  Only method names are recognised: whenever a call on a parser that is not inside a
  method leaves it before a URL, the data ends with the name of the recorded method,
  followed by spaces.
\<close>

lemma method_sound:
  assumes "parser_ok P" and "hp_state P \<notin> method_states" and "bs \<noteq> []"
    and "http_parser_execute st P S bs v = Returned n P' v'"
    and "hp_http_errno P' = HPE_OK" and "hp_state P' = s_req_spaces_before_url"
  shows "hp_upgrade P' \<or>
    (\<exists>xs j. bs = xs @ http_method_str (hp_method P') @ replicate (Suc j) SP)"
proof -
  let ?C = "\<lparr>strict = st, settings = S, data = bs\<rparr>"
  obtain l where l: "execute_loop ?C (load_locals P v) = Done n l" "parser l = P'"
    using assms(4) unfolding execute_parser_ok [OF assms(1,3)]
    by (cases "execute_loop ?C (load_locals P v)") auto
  have "method_read [] (load_locals P v)" using assms(2) by (simp add: method_read_other)
  with method_read_loop [OF _ _ load_locals_ok [OF assms(1)] l(1)] l(2) assms(5,6) show ?thesis
    by auto
qed

text \<open>
  Every method is recognised: on a fresh request parser whose client accepts the
  message, each of the 24 names followed by a space is consumed without an error and
  recorded as the method.
\<close>

lemma method_complete:
  assumes "\<And>P v. fst (run_cb (on_message_begin S) P v) = 0"
  shows "\<exists>P' v'. http_parser_execute st (http_parser_init P HTTP_REQUEST) S
             (http_method_str m @ [SP]) v = Returned (Suc (length (http_method_str m))) P' v' \<and>
           hp_http_errno P' = HPE_OK \<and> hp_state P' = s_req_spaces_before_url \<and> hp_method P' = m"
proof -
  define b where "b = (\<lambda>P v. snd (run_cb (on_message_begin S) P v))"
  have "run_cb (on_message_begin S) P v = (0, b P v)" for P v
    using assms [of P v] by (simp add: prod_eq_iff b_def)
  then show ?thesis
    by (cases m) (simp_all add: exec_eval CALLBACK2_run Let_def del: CALLBACK2_def)
qed

text \<open>
  C34: exactly the method names are recognised.  On a fresh request parser whose client accepts
  the message, each of the 24 names followed by a space is consumed without an error and recorded
  as the method; and whenever a call on a parser that is not inside a method leaves it before a
  URL, the data ends with the name of the recorded method, followed by spaces.
\<close>

theorem method_recognised:
  assumes "\<And>P v. fst (run_cb (on_message_begin S) P v) = 0"
  shows "(\<exists>P' v'. http_parser_execute st (http_parser_init P HTTP_REQUEST) S
             (http_method_str m @ [SP]) v = Returned (Suc (length (http_method_str m))) P' v' \<and>
           hp_http_errno P' = HPE_OK \<and> hp_state P' = s_req_spaces_before_url \<and> hp_method P' = m) \<and>
    (\<forall>Q bs w n P' v'.
       parser_ok Q \<and> hp_state Q \<notin> method_states \<and> bs \<noteq> [] \<and>
       http_parser_execute st Q S bs w = Returned n P' v' \<and>
       hp_http_errno P' = HPE_OK \<and> hp_state P' = s_req_spaces_before_url \<longrightarrow>
       hp_upgrade P' \<or> (\<exists>xs j. bs = xs @ http_method_str (hp_method P') @ replicate (Suc j) SP))"
proof (intro conjI allI impI)
  show "\<exists>P' v'. http_parser_execute st (http_parser_init P HTTP_REQUEST) S
             (http_method_str m @ [SP]) v = Returned (Suc (length (http_method_str m))) P' v' \<and>
           hp_http_errno P' = HPE_OK \<and> hp_state P' = s_req_spaces_before_url \<and> hp_method P' = m"
    by (rule method_complete [OF assms])
qed (elim conjE, rule method_sound)

lemma method_recognised_witness:
  "(\<exists>P' v'. http_parser_execute True (http_parser_init blank_parser HTTP_REQUEST) no_settings
       (http_method_str HTTP_MSEARCH @ [SP]) () =
         Returned (Suc (length (http_method_str HTTP_MSEARCH))) P' v' \<and>
       hp_http_errno P' = HPE_OK \<and> hp_state P' = s_req_spaces_before_url \<and>
       hp_method P' = HTTP_MSEARCH) \<and>
   (case http_parser_execute True (http_parser_init blank_parser HTTP_REQUEST) no_settings [71, 69, 84, 32] () of
     Returned n P v \<Rightarrow> hp_state P = s_req_spaces_before_url \<and>
       (hp_upgrade P \<or> (\<exists>xs j. [71, 69, 84, 32] = xs @ http_method_str (hp_method P) @ replicate (Suc j) SP))
   | Crashed \<Rightarrow> False)"
proof -
  have accepts: "fst (run_cb (on_message_begin no_settings) P v) = 0" for P v
    by (simp add: no_settings_def run_cb_def)
  note both = method_recognised [of no_settings, OF accepts]
  show ?thesis
  proof (intro conjI)
    show "case http_parser_execute True (http_parser_init blank_parser HTTP_REQUEST) no_settings [71, 69, 84, 32] () of
       Returned n P v \<Rightarrow> hp_state P = s_req_spaces_before_url \<and>
         (hp_upgrade P \<or> (\<exists>xs j. [71, 69, 84, 32] = xs @ http_method_str (hp_method P) @ replicate (Suc j) SP))
     | Crashed \<Rightarrow> False"
    proof (cases "http_parser_execute True (http_parser_init blank_parser HTTP_REQUEST) no_settings [71, 69, 84, 32] ()")
      case (Returned n P v)
      moreover from this have P: "hp_state P = s_req_spaces_before_url" "hp_http_errno P = HPE_OK"
        by (auto simp: exec_eval blank_parser_def no_settings_def)
      moreover have "hp_state (http_parser_init blank_parser HTTP_REQUEST) \<notin> method_states"
        by (simp add: http_parser_init_def method_states_def)
      with both [THEN conjunct2, rule_format, of "http_parser_init blank_parser HTTP_REQUEST" "[71, 69, 84, 32]" True "()" n P v]
      have "hp_upgrade P \<or>
          (\<exists>xs j. [71, 69, 84, 32] = xs @ http_method_str (hp_method P) @ replicate (Suc j) SP)"
        using init_parser_ok Returned P by blast
      ultimately show ?thesis by simp
    next
      case Crashed
      then show ?thesis by (simp add: exec_eval blank_parser_def no_settings_def)
    qed
  qed (rule both [THEN conjunct1])
qed

end
