(* ===== verification/Http_Fields.thy ===== *)
theory Http_Fields
  imports Http_Method
begin

text \<open>
  The names of header fields.  The parser compares them letter by letter with the five
  names it knows, in the states \<open>h_C\<close> to \<open>h_matching_upgrade\<close>; the reference is a comparison
  of the whole name, in lower case and without the spaces that may follow it.
\<close>

section \<open>Names that can still become a known name\<close>

definition known_names :: "byte list list" where
  "known_names = [CONNECTION, PROXY_CONNECTION, CONTENT_LENGTH, TRANSFER_ENCODING, UPGRADE]"

text \<open>\<open>cs\<close> is a prefix of \<open>W\<close>, or \<open>W\<close> followed by spaces.\<close>

definition viable :: "byte list \<Rightarrow> byte list \<Rightarrow> bool" where
  "viable W cs \<longleftrightarrow> take (length cs) W = take (length W) cs \<and> (\<forall>c \<in> set (drop (length W) cs). c = SP)"

lemma viable_nth:
  assumes "viable W cs" "k < length W" "k < length cs"
  shows "cs ! k = W ! k"
proof -
  from assms(1) have "take (length cs) W ! k = take (length W) cs ! k" by (simp add: viable_def)
  with assms(2,3) show ?thesis by simp
qed

lemma viable_append: "viable W (cs @ ds) \<Longrightarrow> viable W cs"
  unfolding viable_def
proof (intro conjI)
  assume v: "take (length (cs @ ds)) W = take (length W) (cs @ ds) \<and>
    (\<forall>c\<in>set (drop (length W) (cs @ ds)). c = SP)"
  then have "take (length cs) (take (length (cs @ ds)) W) = take (length cs) (take (length W) (cs @ ds))"
    by simp
  then show "take (length cs) W = take (length W) cs"
    by (simp add: min_def take_Cons' split: if_splits)
  from v show "\<forall>c\<in>set (drop (length W) cs). c = SP" by auto
qed

lemma viable_spaces: "viable W (W @ replicate j SP)"
  by (simp add: viable_def)

lemma viable_whole:
  assumes "viable W cs" "length W \<le> length cs"
  shows "\<exists>j. cs = W @ replicate j SP"
proof -
  from assms have "W = take (length W) cs" by (simp add: viable_def)
  moreover have "drop (length W) cs = replicate (length cs - length W) SP"
    using assms by (simp add: viable_def list_eq_iff_nth_eq) (metis nth_mem length_drop nth_drop)
  ultimately have "cs = W @ replicate (length cs - length W) SP"
    by (metis append_take_drop_id)
  then show ?thesis by blast
qed

text \<open>What the header state and the index say of the letters read.\<close>

definition name_read :: "byte list \<Rightarrow> header_states \<Rightarrow> nat \<Rightarrow> bool" where
  "name_read cs hs i \<longleftrightarrow>
     (case hs of
        h_general \<Rightarrow> (\<forall>W \<in> set known_names. \<not> viable W cs)
      | h_C \<Rightarrow> cs = take 1 CONNECTION \<and> i = 0
      | h_CO \<Rightarrow> cs = take 2 CONNECTION \<and> i = 1
      | h_CON \<Rightarrow> cs = take 3 CONNECTION \<and> i = 2
      | h_matching_connection \<Rightarrow> cs = take (Suc i) CONNECTION \<and> 3 \<le> i \<and> Suc i < length CONNECTION
      | h_matching_proxy_connection \<Rightarrow> cs = take (Suc i) PROXY_CONNECTION \<and> Suc i < length PROXY_CONNECTION
      | h_matching_content_length \<Rightarrow> cs = take (Suc i) CONTENT_LENGTH \<and> 3 \<le> i \<and> Suc i < length CONTENT_LENGTH
      | h_matching_transfer_encoding \<Rightarrow> cs = take (Suc i) TRANSFER_ENCODING \<and> Suc i < length TRANSFER_ENCODING
      | h_matching_upgrade \<Rightarrow> cs = take (Suc i) UPGRADE \<and> Suc i < length UPGRADE
      | h_connection \<Rightarrow> (\<exists>j. cs = CONNECTION @ replicate j SP \<or> cs = PROXY_CONNECTION @ replicate j SP)
      | h_content_length \<Rightarrow> (\<exists>j. cs = CONTENT_LENGTH @ replicate j SP)
      | h_transfer_encoding \<Rightarrow> (\<exists>j. cs = TRANSFER_ENCODING @ replicate j SP)
      | h_upgrade \<Rightarrow> (\<exists>j. cs = UPGRADE @ replicate j SP)
      | _ \<Rightarrow> False)"

lemma TOKEN_SP: "TOKEN ch = SP \<longleftrightarrow> ch = SP"
proof -
  have "list_all (\<lambda>n. tokens_init ! n = 32 \<longrightarrow> n = 32) [0..<128]"
    by (simp add: tokens_init_def upt_rec)
  then have "unat ch < 128 \<Longrightarrow> tokens_init ! unat ch = 32 \<Longrightarrow> unat ch = 32"
    by (simp add: list_all_iff)
  moreover have "length tokens_init = 128" by (simp add: tokens_init_def)
  ultimately have "TOKEN ch = 32 \<Longrightarrow> unat ch = 32"
    by (auto simp: TOKEN_def tokens_def table256_def split: if_splits)
  moreover have "TOKEN 32 = 32" by (simp add: TOKEN_def tokens_def table256_def tokens_init_def)
  moreover have "unat ch = 32 \<Longrightarrow> ch = 32" by (simp add: word_unat_eq_iff)
  ultimately show ?thesis by auto
qed

text \<open>Two known names differ in their first letter, or are the two that share \<open>con\<close>.\<close>

definition diverge :: "byte list \<Rightarrow> byte list \<Rightarrow> nat" where
  "diverge W W' = (if W!0 = W'!0 then 3 else 0)"

lemma name_letters:
  "CONNECTION ! 0 = 99" "PROXY_CONNECTION ! 0 = 112" "CONTENT_LENGTH ! 0 = 99"
  "TRANSFER_ENCODING ! 0 = 116" "UPGRADE ! 0 = 117" "CONNECTION ! 3 = 110" "CONTENT_LENGTH ! 3 = 116"
  by (simp_all add: const_string_defs)

lemma name_lengths:
  "length CONNECTION = 10" "length PROXY_CONNECTION = 16" "length CONTENT_LENGTH = 14"
  "length TRANSFER_ENCODING = 17" "length UPGRADE = 7"
  by (simp_all add: const_string_defs)

lemma names_differ [simp]:
  "PROXY_CONNECTION \<noteq> CONNECTION" "PROXY_CONNECTION \<noteq> CONTENT_LENGTH"
  "TRANSFER_ENCODING \<noteq> CONNECTION" "TRANSFER_ENCODING \<noteq> CONTENT_LENGTH"
  "UPGRADE \<noteq> CONNECTION" "UPGRADE \<noteq> CONTENT_LENGTH"
  by (auto dest!: arg_cong [where f = length] simp: name_lengths)

lemma known_length: "W \<in> set known_names \<Longrightarrow> 5 < length W"
  by (auto simp: known_names_def name_lengths)

lemma diverge_names:
  assumes W: "W \<in> set known_names" "W' \<in> set known_names" and ne: "W \<noteq> W'"
  shows "W ! diverge W W' \<noteq> W' ! diverge W W'" "diverge W W' < length W'"
    "diverge W W' \<noteq> 0 \<Longrightarrow> W = CONNECTION \<or> W = CONTENT_LENGTH" "diverge W W' \<le> 3"
proof -
  show "diverge W W' \<le> 3" by (simp add: diverge_def)
  with known_length [OF W(2)] show "diverge W W' < length W'" by simp
  have names: "V = CONNECTION \<or> V = PROXY_CONNECTION \<or> V = CONTENT_LENGTH \<or> V = TRANSFER_ENCODING \<or> V = UPGRADE"
    if "V \<in> set known_names" for V using that by (auto simp: known_names_def)
  show "W ! diverge W W' \<noteq> W' ! diverge W W'"
    using names [OF W(1)] names [OF W(2)] ne by (elim disjE; simp add: diverge_def name_letters)
  show "W = CONNECTION \<or> W = CONTENT_LENGTH" if "diverge W W' \<noteq> 0"
    using that names [OF W(1)] names [OF W(2)] ne
    by (elim disjE; simp add: diverge_def name_letters)
qed

lemma other_name:
  assumes "W \<in> set known_names" "W' \<in> set known_names" "W \<noteq> W'"
    and "i < length W" "W = CONNECTION \<or> W = CONTENT_LENGTH \<Longrightarrow> 3 \<le> i"
  shows "\<not> viable W' (take (Suc i) W @ xs)"
proof
  assume v: "viable W' (take (Suc i) W @ xs)"
  let ?k = "diverge W W'"
  have k: "?k \<le> i" using diverge_names [OF assms(1-3)] assms(5) by (cases "?k = 0") auto
  with viable_nth [OF v diverge_names(2) [OF assms(1-3)]] assms(4)
  have "W ! ?k = W' ! ?k" by (simp add: nth_append)
  with diverge_names(1) [OF assms(1-3)] show False by simp
qed

lemma name_general:
  assumes "W \<in> set known_names" "cs = take (Suc i) W" "Suc i < length W" "c \<noteq> W ! Suc i"
    and "W = CONNECTION \<or> W = CONTENT_LENGTH \<Longrightarrow> 3 \<le> i"
  shows "name_read (cs @ [c]) h_general j"
proof -
  have "\<not> viable W (take (Suc i) W @ [c])"
    using viable_nth [of W "take (Suc i) W @ [c]" "Suc i"] assms(3,4) by (auto simp: nth_append)
  with other_name [OF assms(1) _ _ _ assms(5), of _ "[c]"] assms(2,3) show ?thesis
    by (auto simp: name_read_def)
qed

lemma name_ends:
  assumes "W \<in> set known_names" "cs = W @ replicate j SP" "c \<noteq> SP"
  shows "name_read (cs @ [c]) h_general i"
proof -
  have "\<not> viable W (W @ replicate j SP @ [c])" using assms(3) by (simp add: viable_def)
  moreover have "take (Suc (length W - 1)) W = W" using known_length [OF assms(1)] by simp
  then have "\<not> viable W' (W @ replicate j SP @ [c])" if "W' \<in> set known_names" "W \<noteq> W'" for W'
    using other_name [OF assms(1) that, of "length W - 1" "replicate j SP @ [c]"] known_length [OF assms(1)]
    by simp
  ultimately show ?thesis using assms(2) by (auto simp: name_read_def)
qed

text \<open>One letter compared.\<close>

lemma match_next_step:
  assumes "cs = take (Suc (index l)) W" "Suc (index l) < length W"
  shows "match_next W f c l =
    Break (l\<lparr>header_state := (if c \<noteq> W ! Suc (index l) then h_general
                             else if Suc (Suc (index l)) = length W then f else header_state l),
            index := Suc (index l)\<rparr>)"
  using assms by (auto simp: match_next_def cstr_at_def Let_def)

lemma names_known [simp]:
  "CONNECTION \<in> set known_names" "PROXY_CONNECTION \<in> set known_names" "CONTENT_LENGTH \<in> set known_names"
  "TRANSFER_ENCODING \<in> set known_names" "UPGRADE \<in> set known_names"
  by (simp_all add: known_names_def)

lemma name_matches:
  assumes W: "W \<in> set known_names" and cs: "cs = take (Suc (index l)) W" "Suc (index l) < length W"
    and three: "W = CONNECTION \<or> W = CONTENT_LENGTH \<Longrightarrow> 3 \<le> index l"
    and final: "name_read W f (Suc (index l))"
    and more: "Suc (Suc (index l)) < length W \<Longrightarrow>
      name_read (take (Suc (Suc (index l))) W) (header_state l) (Suc (index l))"
  shows "\<exists>hs i. match_next W f c l = Break (l\<lparr>header_state := hs, index := i\<rparr>) \<and> name_read (cs @ [c]) hs i"
proof -
  have whole: "take (Suc (Suc (index l))) W = cs @ [W ! Suc (index l)]"
    using cs by (simp add: take_Suc_conv_app_nth)
  have "name_read (cs @ [c]) (if c \<noteq> W ! Suc (index l) then h_general
      else if Suc (Suc (index l)) = length W then f else header_state l) (Suc (index l))"
    using name_general [OF W cs _ three] final more whole cs(2) by auto
  with match_next_step [OF cs] show ?thesis by blast
qed

text \<open>The states of a name that is complete.\<close>

lemma complete_read:
  "name_read (CONNECTION @ replicate j SP) h_connection i"
  "name_read (PROXY_CONNECTION @ replicate j SP) h_connection i"
  "name_read (CONTENT_LENGTH @ replicate j SP) h_content_length i"
  "name_read (TRANSFER_ENCODING @ replicate j SP) h_transfer_encoding i"
  "name_read (UPGRADE @ replicate j SP) h_upgrade i"
  by (auto simp: name_read_def)

lemma complete_step:
  assumes "W \<in> set known_names" "cs = W @ replicate j SP" "ch = SP \<longleftrightarrow> c = SP"
    and "name_read (W @ replicate (Suc j) SP) (header_state l) (index l)"
    and "header_field_token ch c l = Break (if ch \<noteq> SP then l\<lparr>header_state := h_general\<rparr> else l)"
  shows "\<exists>hs i. header_field_token ch c l = Break (l\<lparr>header_state := hs, index := i\<rparr>) \<and>
           name_read (cs @ [c]) hs i"
proof (cases "ch = SP")
  case True
  with assms have "name_read (cs @ [c]) (header_state l) (index l)"
    by (simp add: replicate_append_same)
  with True assms(5) show ?thesis
    by (intro exI [of _ "header_state l"] exI [of _ "index l"]) simp
next
  case False
  with name_ends [OF assms(1,2)] assms(3) have "name_read (cs @ [c]) h_general (index l)" by simp
  with False assms(5) show ?thesis
    by (intro exI [of _ h_general] exI [of _ "index l"]) simp
qed

text \<open>The first letters of \<open>connection\<close> and \<open>content-length\<close> are compared one by one.\<close>

lemma con_letters:
  "c \<noteq> 111 \<Longrightarrow> name_read ([99, c]) h_general i"
  "c \<noteq> 110 \<Longrightarrow> name_read ([99, 111, c]) h_general i"
  "c \<noteq> 110 \<Longrightarrow> c \<noteq> 116 \<Longrightarrow> name_read ([99, 111, 110, c]) h_general i"
  by (simp_all add: name_read_def known_names_def viable_def const_string_defs)

lemma con_read:
  "name_read cs h_C i \<longleftrightarrow> cs = [99] \<and> i = 0" "name_read cs h_CO i \<longleftrightarrow> cs = [99, 111] \<and> i = 1"
  "name_read cs h_CON i \<longleftrightarrow> cs = [99, 111, 110] \<and> i = 2"
  "name_read [99, 111, 110, 110] h_matching_connection 3"
  "name_read [99, 111, 110, 116] h_matching_content_length 3"
  by (simp_all add: name_read_def const_string_defs)

lemma name_step:
  assumes read: "name_read cs (header_state l) (index l)" and c: "c = TOKEN ch"
  shows "\<exists>hs i. header_field_token ch c l = Break (l\<lparr>header_state := hs, index := i\<rparr>) \<and>
           name_read (cs @ [c]) hs i"
proof -
  have sp: "ch = SP \<longleftrightarrow> c = SP" using TOKEN_SP c by simp
  note step = header_field_token_def
  show ?thesis
  proof (cases "header_state l")
    case h_general
    with read viable_append have "name_read (cs @ [c]) h_general (index l)"
      by (auto simp: name_read_def)
    with h_general show ?thesis
      by (intro exI [of _ h_general] exI [of _ "index l"]) (simp add: step)
  next
    case h_C
    with read con_letters(1) [of c 1] show ?thesis
      by (intro exI [of _ "if c = 111 then h_CO else h_general"] exI [of _ 1])
        (auto simp: step con_read)
  next
    case h_CO
    with read con_letters(2) [of c 2] show ?thesis
      by (intro exI [of _ "if c = 110 then h_CON else h_general"] exI [of _ 2])
        (auto simp: step con_read)
  next
    case h_CON
    with read con_letters(3) [of c 3] con_read(4,5) show ?thesis
      by (intro exI [of _ "if c = 110 then h_matching_connection
            else if c = 116 then h_matching_content_length else h_general"] exI [of _ 3])
        (auto simp: step con_read)
  next
    case h_connection
    then obtain W j where "W \<in> {CONNECTION, PROXY_CONNECTION}" "cs = W @ replicate j SP"
      using read by (auto simp: name_read_def)
    with h_connection sp show ?thesis
      by (intro complete_step [of W cs j]) (auto simp: step complete_read simp del: replicate_Suc)
  next
    case h_content_length
    then obtain j where "cs = CONTENT_LENGTH @ replicate j SP" using read by (auto simp: name_read_def)
    with h_content_length sp show ?thesis
      by (intro complete_step [of CONTENT_LENGTH cs j])
        (auto simp: step complete_read simp del: replicate_Suc)
  next
    case h_transfer_encoding
    then obtain j where "cs = TRANSFER_ENCODING @ replicate j SP" using read by (auto simp: name_read_def)
    with h_transfer_encoding sp show ?thesis
      by (intro complete_step [of TRANSFER_ENCODING cs j])
        (auto simp: step complete_read simp del: replicate_Suc)
  next
    case h_upgrade
    then obtain j where "cs = UPGRADE @ replicate j SP" using read by (auto simp: name_read_def)
    with h_upgrade sp show ?thesis
      by (intro complete_step [of UPGRADE cs j]) (auto simp: step complete_read simp del: replicate_Suc)
  next
    case h_matching_connection
    with read show ?thesis
      by (simp add: step) (rule name_matches [of CONNECTION];
        use complete_read(1) [of 0] in \<open>simp add: name_read_def name_lengths\<close>)
  next
    case h_matching_proxy_connection
    with read show ?thesis
      by (simp add: step) (rule name_matches [of PROXY_CONNECTION];
        use complete_read(2) [of 0] in \<open>simp add: name_read_def name_lengths\<close>)
  next
    case h_matching_content_length
    with read show ?thesis
      by (simp add: step) (rule name_matches [of CONTENT_LENGTH];
        use complete_read(3) [of 0] in \<open>simp add: name_read_def name_lengths\<close>)
  next
    case h_matching_transfer_encoding
    with read show ?thesis
      by (simp add: step) (rule name_matches [of TRANSFER_ENCODING];
        use complete_read(4) [of 0] in \<open>simp add: name_read_def name_lengths\<close>)
  next
    case h_matching_upgrade
    with read show ?thesis
      by (simp add: step) (rule name_matches [of UPGRADE];
        use complete_read(5) [of 0] in \<open>simp add: name_read_def name_lengths\<close>)
  qed (use read in \<open>simp_all add: name_read_def\<close>)
qed

lemma name_first: "name_read [c] (first_header_state c) 0"
  by (simp add: first_header_state_def name_read_def known_names_def viable_def const_string_defs)

section \<open>The whole name\<close>

lemma name_loop:
  assumes "drop (pos l) (data C) = name" "pos l \<le> length (data C)" "state l = s_header_field" "\<forall>ch \<in> set name. TOKEN ch \<noteq> 0"
    and "nread l + length name \<le> HTTP_MAX_HEADER_SIZE" "name_read cs (header_state l) (index l)"
  shows "\<exists>hs i. execute_loop C l = end_of_data C (l\<lparr>header_state := hs, index := i,
             nread := nread l + length name, pos := pos l + length name\<rparr>) \<and>
           name_read (cs @ map TOKEN name) hs i"
  using assms
proof (induction name arbitrary: l cs)
  case Nil
  then have "pos l = length (data C)" by simp
  from loop_end [OF this] Nil.prems show ?case
    by (intro exI [of _ "header_state l"] exI [of _ "index l"]) simp
next
  case (Cons ch name)
  let ?l = "count_header_byte l"
  have c: "?l = l\<lparr>nread := Suc (nread l)\<rparr>"
    using Cons.prems(3) by (simp add: count_header_byte_def PARSING_HEADER_iff)
  from name_step [of cs ?l "TOKEN ch" ch] Cons.prems(6) obtain hs i where
    step: "header_field_token ch (TOKEN ch) ?l = Break (?l\<lparr>header_state := hs, index := i\<rparr>)"
    and read: "name_read (cs @ [TOKEN ch]) hs i"
    by auto
  let ?l' = "l\<lparr>nread := Suc (nread l), header_state := hs, index := i, pos := Suc (pos l)\<rparr>"
  have "execute_loop C l = execute_loop C ?l'"
    using loop_byte [OF Cons.prems(1), of "?l\<lparr>header_state := hs, index := i\<rparr>"] step Cons.prems c
    by (simp add: do_header_field_def)
  moreover have "\<exists>hs' i'. execute_loop C ?l' = end_of_data C (?l'\<lparr>header_state := hs', index := i',
        nread := nread ?l' + length name, pos := pos ?l' + length name\<rparr>) \<and>
      name_read ((cs @ [TOKEN ch]) @ map TOKEN name) hs' i'"
    by (rule Cons.IH) (use Cons.prems read drop_next [OF Cons.prems(1)] in \<open>auto simp: Suc_le_eq less_le\<close>)
  ultimately show ?case by auto
qed

text \<open>A complete name is in the state of its name.\<close>

definition name_state :: "byte list \<Rightarrow> header_states" where
  "name_state W = (if W = CONTENT_LENGTH then h_content_length
                   else if W = TRANSFER_ENCODING then h_transfer_encoding
                   else if W = UPGRADE then h_upgrade else h_connection)"

lemma names_differ' [simp]: "CONNECTION \<noteq> TRANSFER_ENCODING" "CONNECTION \<noteq> UPGRADE" "CONNECTION \<noteq> CONTENT_LENGTH"
  "PROXY_CONNECTION \<noteq> TRANSFER_ENCODING" "PROXY_CONNECTION \<noteq> UPGRADE" "TRANSFER_ENCODING \<noteq> UPGRADE"
  "UPGRADE \<noteq> TRANSFER_ENCODING"
  by (auto dest!: arg_cong [where f = length] simp: name_lengths)

lemmas names_differ_sym [simp] = names_differ [symmetric] names_differ' [symmetric]

lemma viable_take: "viable W (take n W)"
  by (simp add: viable_def)

lemma name_unique:
  assumes "W \<in> set known_names" "W' \<in> set known_names" "viable W' (W @ replicate j SP)"
  shows "W' = W"
proof (rule ccontr)
  assume "W' \<noteq> W"
  moreover have "length W - 1 < length W" "3 \<le> length W - 1" "Suc (length W - 1) = length W"
    using known_length [OF assms(1)] by simp_all
  ultimately show False
    using other_name [OF assms(1,2), of "length W - 1" "replicate j SP"] assms(3) by auto
qed

lemma read_complete:
  assumes W: "W \<in> set known_names" and read: "name_read (W @ replicate j SP) hs i"
  shows "hs = name_state W"
proof -
  have partial: "W @ replicate j SP \<noteq> take n W'" if "W' \<in> set known_names" "n < length W'" for W' n
  proof
    assume eq: "W @ replicate j SP = take n W'"
    then have "W' = W" using name_unique [OF W that(1), of j] viable_take [of W' n] by simp
    with that(2) arg_cong [OF eq, of length] show False by (simp add: min_def)
  qed
  have complete: "W = W'" if "W' \<in> set known_names" "W @ replicate j SP = W' @ replicate k SP" for W' k
    using name_unique [OF W that(1), of j] viable_spaces [of W' k] that(2) by simp
  show ?thesis
  proof (cases hs)
    case h_general
    with read W viable_spaces [of W j] show ?thesis by (auto simp: name_read_def)
  next
    case h_connection
    then obtain W' k where "W' \<in> {CONNECTION, PROXY_CONNECTION}" "W @ replicate j SP = W' @ replicate k SP"
      using read by (auto simp: name_read_def)
    with complete [of W' k] h_connection show ?thesis by (auto simp: name_state_def)
  next
    case h_content_length
    with read complete [OF names_known(3)] show ?thesis by (auto simp: name_read_def name_state_def)
  next
    case h_transfer_encoding
    with read complete [OF names_known(4)] show ?thesis by (auto simp: name_read_def name_state_def)
  next
    case h_upgrade
    with read complete [OF names_known(5)] show ?thesis by (auto simp: name_read_def name_state_def)
  qed (use read in \<open>auto simp: name_read_def partial name_lengths\<close>)
qed

section \<open>Property\<close>

text \<open>
  C32: field names are classified as the reference does.  On a parser at the start of a
  header line, whose client accepts field names, a name of token characters is consumed
  whole, and the header state says whether it is, in any case and with spaces after it,
  one of the names the parser acts on.
\<close>

theorem field_name_classified:
  assumes P: "parser_ok P" "hp_state P = s_header_field_start"
    and name: "name \<noteq> []" "\<forall>ch \<in> set name. TOKEN ch \<noteq> 0"
    and len: "unat (hp_nread P) + length name \<le> HTTP_MAX_HEADER_SIZE"
    and cb: "\<And>P bs v. fst (run_data_cb (on_header_field S) P bs v) = 0"
  shows "\<exists>P' v'. http_parser_execute st P S name v = Returned (length name) P' v' \<and>
    hp_http_errno P' = HPE_OK \<and> hp_state P' = s_header_field \<and>
    (let cs = map TOKEN name; hs = hp_header_state P' in
       (hs = h_connection \<longleftrightarrow> (\<exists>j. cs = CONNECTION @ replicate j SP \<or> cs = PROXY_CONNECTION @ replicate j SP)) \<and>
       (hs = h_content_length \<longleftrightarrow> (\<exists>j. cs = CONTENT_LENGTH @ replicate j SP)) \<and>
       (hs = h_transfer_encoding \<longleftrightarrow> (\<exists>j. cs = TRANSFER_ENCODING @ replicate j SP)) \<and>
       (hs = h_upgrade \<longleftrightarrow> (\<exists>j. cs = UPGRADE @ replicate j SP)))"
proof -
  let ?C = "\<lparr>strict = st, settings = S, data = name\<rparr>"
  let ?l = "load_locals P v"
  obtain ch ns where ch: "name = ch # ns" "TOKEN ch \<noteq> 0" using name by (cases name) auto
  let ?l1 = "?l\<lparr>header_field_mark := Some 0, index := 0, state := s_header_field,
      header_state := first_header_state (TOKEN ch), nread := Suc (nread ?l), pos := 1\<rparr>"
  have l: "state ?l = s_header_field_start" "nread ?l = unat (hp_nread P)" "pos ?l = 0"
    "header_value_mark ?l = None" "url_mark ?l = None" "parser ?l = P"
    using P(2) by (simp_all add: load_locals_def url_states_def)
  have "TOKEN CR = 0" "TOKEN LF = 0"
    by (simp_all add: TOKEN_def tokens_def table256_def tokens_init_def)
  with ch l have "do_header_field_start ?C ch (count_header_byte ?l) =
      Break (?l1\<lparr>pos := 0\<rparr>)"
    by (auto simp: do_header_field_start_def count_header_byte_def PARSING_HEADER_iff)
  with ch l len have "execute_loop ?C ?l = execute_loop ?C ?l1"
    using loop_byte [of ?l ?C ch ns "?l1\<lparr>pos := 0\<rparr>"] by simp
  moreover obtain hs i where "execute_loop ?C ?l1 = end_of_data ?C (?l1\<lparr>header_state := hs, index := i,
        nread := nread ?l1 + length ns, pos := pos ?l1 + length ns\<rparr>)"
    and read: "name_read (map TOKEN name) hs i"
    using name_loop [of ?l1 ?C ns "[TOKEN ch]"] name_first ch name len l by auto
  ultimately have loop: "execute_loop ?C ?l = end_of_data ?C (?l1\<lparr>header_state := hs, index := i,
        nread := nread ?l + length name, pos := length name\<rparr>)"
    using ch by simp
  obtain v' where run: "run_data_cb (on_header_field S) P name v = (0, v')"
    using cb [of P name v] by (metis prod.collapse)
  have "env ?l = v" by (simp add: load_locals_def)
  moreover have exec: "http_parser_execute st P S name v = result_of (execute_loop ?C ?l)"
    by (rule execute_parser_ok [OF P(1) name(1)])
  ultimately have "\<exists>P' v'. http_parser_execute st P S name v = Returned (length name) P' v' \<and>
      hp_http_errno P' = HPE_OK \<and> hp_state P' = s_header_field \<and> hp_header_state P' = hs"
    using P(1) loop run l ch unfolding exec
    by (simp add: end_of_data_def CALLBACK_header_field_def
        CALLBACK_header_value_def CALLBACK_url_def no_mark CALLBACK_run segment_def store_locals_def
        parser_ok_def)
  moreover have "(hs = h_connection \<longleftrightarrow> (\<exists>j. map TOKEN name = CONNECTION @ replicate j SP \<or>
        map TOKEN name = PROXY_CONNECTION @ replicate j SP)) \<and>
      (hs = h_content_length \<longleftrightarrow> (\<exists>j. map TOKEN name = CONTENT_LENGTH @ replicate j SP)) \<and>
      (hs = h_transfer_encoding \<longleftrightarrow> (\<exists>j. map TOKEN name = TRANSFER_ENCODING @ replicate j SP)) \<and>
      (hs = h_upgrade \<longleftrightarrow> (\<exists>j. map TOKEN name = UPGRADE @ replicate j SP))"
    (is "?conn \<and> ?cl \<and> ?te \<and> ?up")
  proof (intro conjI)
    have complete: "hs = name_state W" if "W \<in> set known_names" "map TOKEN name = W @ replicate j SP" for W j
      using read_complete [OF that(1), of j hs i] read that(2) by simp
    show ?conn
      using read complete [OF names_known(1)] complete [OF names_known(2)]
      by (auto simp: name_read_def name_state_def)
    show ?cl using read complete [OF names_known(3)] by (auto simp: name_read_def name_state_def)
    show ?te using read complete [OF names_known(4)] by (auto simp: name_read_def name_state_def)
    show ?up using read complete [OF names_known(5)] by (auto simp: name_read_def name_state_def)
  qed
  ultimately show ?thesis by (auto simp: Let_def)
qed

lemma field_name_classified_witness:
  "\<exists>P' v'. http_parser_execute True (http_parser_init blank_parser HTTP_REQUEST\<lparr>hp_state := s_header_field_start\<rparr>)
      no_settings (bytes ''UPGRADE'') () = Returned 7 P' v' \<and> hp_header_state P' = h_upgrade"
proof -
  let ?P = "http_parser_init blank_parser HTTP_REQUEST\<lparr>hp_state := s_header_field_start\<rparr>"
  have "parser_ok ?P"
    by (simp add: parser_ok_def http_parser_init_def blank_parser_def HTTP_MAX_HEADER_SIZE_def)
  moreover have tokens: "map TOKEN (bytes ''UPGRADE'') = UPGRADE"
    by (simp add: TOKEN_def tokens_def table256_def tokens_init_def UPGRADE_def)
  ultimately have "\<exists>P' v'. http_parser_execute True ?P no_settings (bytes ''UPGRADE'') () =
      Returned (length (bytes ''UPGRADE'')) P' v' \<and> hp_http_errno P' = HPE_OK \<and>
      hp_state P' = s_header_field \<and>
      (let cs = map TOKEN (bytes ''UPGRADE''); hs = hp_header_state P' in
       (hs = h_connection \<longleftrightarrow> (\<exists>j. cs = CONNECTION @ replicate j SP \<or> cs = PROXY_CONNECTION @ replicate j SP)) \<and>
       (hs = h_content_length \<longleftrightarrow> (\<exists>j. cs = CONTENT_LENGTH @ replicate j SP)) \<and>
       (hs = h_transfer_encoding \<longleftrightarrow> (\<exists>j. cs = TRANSFER_ENCODING @ replicate j SP)) \<and>
       (hs = h_upgrade \<longleftrightarrow> (\<exists>j. cs = UPGRADE @ replicate j SP)))"
    by (intro field_name_classified)
      (simp_all add: http_parser_init_def blank_parser_def HTTP_MAX_HEADER_SIZE_def no_settings_def
        run_data_cb_def TOKEN_def tokens_def table256_def tokens_init_def)
  then obtain P' v' where "http_parser_execute True ?P no_settings (bytes ''UPGRADE'') () =
      Returned (length (bytes ''UPGRADE'')) P' v'"
    "hp_header_state P' = h_upgrade \<longleftrightarrow> (\<exists>j. UPGRADE = UPGRADE @ replicate j SP)"
    unfolding tokens Let_def by blast
  then show ?thesis by (intro exI [of _ P'] exI [of _ v']) simp
qed

end
