(* ===== verification/Http_Bodies.thy ===== *)
theory Http_Bodies
  imports Http_Fields
begin

text \<open>
  How much body a message has and where it ends: the decimal number of a Content-Length
  header, the hexadecimal number of a chunk, and the chunked coding as a whole, for which
  decoding undoes encoding.
\<close>

section \<open>Decimal numbers\<close>

definition decimal :: "byte list \<Rightarrow> nat" where
  "decimal ds = foldl (\<lambda>n d. n * 10 + (unat d - 48)) 0 ds"

definition push_digit :: "64 word \<Rightarrow> byte \<Rightarrow> 64 word" where
  "push_digit n d = n * 10 + (ucast d - 48)"

lemma digit_value: "IS_NUM d \<Longrightarrow> ucast d - 48 = (of_nat (unat d - 48) :: 64 word)"
proof -
  assume "IS_NUM d"
  then have "48 \<le> unat d" by (simp add: IS_NUM_def word_le_nat_alt)
  moreover have "ucast d = (of_nat (unat d) :: 64 word)" by simp
  ultimately show ?thesis by (simp add: of_nat_diff)
qed

lemma push_digits:
  "\<forall>d \<in> set ds. IS_NUM d \<Longrightarrow>
   foldl push_digit (of_nat n) ds = of_nat (foldl (\<lambda>n d. n * 10 + (unat d - 48)) n ds)"
proof (induction ds arbitrary: n)
  case (Cons d ds)
  have "push_digit (of_nat n) d = of_nat (n * 10 + (unat d - 48))"
    using Cons.prems by (simp add: push_digit_def digit_value)
  with Cons show ?case by (simp del: of_nat_add of_nat_mult)
qed simp

lemma digits_loop:
  assumes "drop (pos l) (data C) = ds" "pos l \<le> length (data C)" "state l = s_header_value"
    and "header_state l = h_content_length" "\<forall>d \<in> set ds. IS_NUM d"
    and "nread l + length ds \<le> HTTP_MAX_HEADER_SIZE"
  shows "execute_loop C l = end_of_data C (l\<lparr>nread := nread l + length ds,
      parser := parser l\<lparr>hp_content_length := foldl push_digit (hp_content_length (parser l)) ds\<rparr>, pos := pos l + length ds\<rparr>)"
  using assms
proof (induction ds arbitrary: l)
  case Nil
  then have "pos l = length (data C)" by simp
  from loop_end [OF this] show ?case by simp
next
  case (Cons d ds)
  let ?l' = "set_parser (\<lambda>P. P\<lparr>hp_content_length := push_digit (hp_content_length P) d\<rparr>)
    (l\<lparr>nread := Suc (nread l)\<rparr>)"
  have d: "IS_NUM d" "d \<noteq> CR" "d \<noteq> LF" "d \<noteq> SP" using Cons.prems(5) by (auto simp: IS_NUM_def)
  then have "handler_of (state l) C d (count_header_byte l) = Break ?l'"
    using Cons.prems(3,4)
    by (simp add: count_header_byte_def PARSING_HEADER_iff do_header_value_def header_value_char_def
        push_digit_def)
  then have "execute_loop C l = execute_loop C (?l'\<lparr>pos := Suc (pos ?l')\<rparr>)"
    using Cons.prems by (intro loop_byte) simp_all
  also have "\<dots> = end_of_data C (l\<lparr>nread := nread l + length (d # ds),
      parser := parser l\<lparr>hp_content_length := foldl push_digit (hp_content_length (parser l)) (d # ds)\<rparr>,
      pos := pos l + length (d # ds)\<rparr>)"
    using Cons.prems drop_next [OF Cons.prems(1)]
    by (subst Cons.IH) (auto simp: Suc_le_eq less_le)
  finally show ?case .
qed

lemma sint_of_nat_iff: "sint (of_nat n :: 64 word) = int n \<longleftrightarrow> n < 2 ^ 63"
proof -
  have "sint (of_nat n :: 64 word) = signed_take_bit 63 (int n)"
    by transfer simp
  also have "\<dots> = int n \<longleftrightarrow> - (2 ^ 63) \<le> int n \<and> int n < 2 ^ 63"
    by (rule signed_take_bit_int_eq_self_iff)
  finally show ?thesis by simp
qed

text \<open>
  C33: a Content-Length is read into an \<^verbatim>\<open>int64_t\<close> without a check: on a parser before the value
  of a Content-Length header, whose client accepts header values, any digits are consumed and
  handed over as the value.  The length is the decimal number exactly when it is below $2^{63}$;
  from there on the signed number has overflown, and with the wrap-around of the machine it has the
  bits of the decimal number, so that $2^{64} - 1$ becomes -1, which stands for no length at all.
\<close>

theorem content_length_decimal:
  assumes P: "parser_ok P" "hp_state P = s_header_value_start" "hp_header_state P = h_content_length"
    and ds: "ds \<noteq> []" "\<forall>d \<in> set ds. IS_NUM d"
    and len: "unat (hp_nread P) + length ds \<le> HTTP_MAX_HEADER_SIZE"
    and cb: "\<And>P bs v. run_data_cb (on_header_value S) P bs v = (0, val bs v)"
  shows "\<exists>P'. http_parser_execute st P S ds v = Returned (length ds) P' (val ds v) \<and>
    hp_http_errno P' = HPE_OK \<and> hp_content_length P' = of_nat (decimal ds) \<and>
    (sint (hp_content_length P') = int (decimal ds) \<longleftrightarrow> decimal ds < 2 ^ 63)"
proof -
  let ?C = "\<lparr>strict = st, settings = S, data = ds\<rparr>"
  let ?l = "load_locals P v"
  obtain d ds' where d0: "ds = d # ds'" "IS_NUM d" using ds by (cases ds) auto
  then have d: "ds = d # ds'" "IS_NUM d" "d \<noteq> CR" "d \<noteq> LF" "d \<noteq> SP" "d \<noteq> TAB"
    by (auto simp: IS_NUM_def)
  let ?l1 = "?l\<lparr>header_value_mark := Some 0, state := s_header_value, index := 0,
      nread := Suc (nread ?l), parser := P\<lparr>hp_content_length := ucast d - 48\<rparr>, pos := 1\<rparr>"
  have l: "state ?l = s_header_value_start" "nread ?l = unat (hp_nread P)" "pos ?l = 0"
    "header_field_mark ?l = None" "url_mark ?l = None" "parser ?l = P" "env ?l = v"
    "header_state ?l = h_content_length"
    using P(2,3) by (simp_all add: load_locals_def url_states_def)
  have "do_header_value_start ?C d (count_header_byte ?l) = Break (?l1\<lparr>pos := 0\<rparr>)"
    using d l by (simp add: do_header_value_start_def header_value_first_def count_header_byte_def
        PARSING_HEADER_iff Let_def)
  with d l len have "execute_loop ?C ?l = execute_loop ?C ?l1"
    using loop_byte [of ?l ?C d ds' "?l1\<lparr>pos := 0\<rparr>"] by simp
  also have "\<dots> = end_of_data ?C (?l1\<lparr>nread := nread ?l1 + length ds',
      parser := parser ?l1\<lparr>hp_content_length := foldl push_digit (hp_content_length (parser ?l1)) ds'\<rparr>,
      pos := pos ?l1 + length ds'\<rparr>)"
    using digits_loop [of ?l1 ?C ds'] d ds len l by simp
  finally have loop: "execute_loop ?C ?l = end_of_data ?C (?l1\<lparr>nread := nread ?l + length ds,
      parser := P\<lparr>hp_content_length := foldl push_digit (ucast d - 48) ds'\<rparr>, pos := length ds\<rparr>)"
    using d by simp
  have value_eq: "foldl push_digit (ucast d - 48) ds' = (of_nat (decimal ds) :: 64 word)"
    using push_digits [of ds' "unat d - 48"] d ds by (simp add: digit_value decimal_def)
  have exec: "http_parser_execute st P S ds v = result_of (execute_loop ?C ?l)"
    by (rule execute_parser_ok [OF P(1) ds(1)])
  show ?thesis
    using P(1) loop l d cb unfolding exec value_eq
    by (simp add: end_of_data_def CALLBACK_header_field_def CALLBACK_header_value_def CALLBACK_url_def
        no_mark CALLBACK_run segment_def store_locals_def parser_ok_def sint_of_nat_iff)
qed

lemma content_length_decimal_witness:
  "\<exists>P'. http_parser_execute True
      (http_parser_init blank_parser HTTP_REQUEST\<lparr>hp_state := s_header_value_start,
         hp_header_state := h_content_length\<rparr>) no_settings (bytes ''18446744073709551615'') () =
      Returned (length (bytes ''18446744073709551615'')) P' () \<and> hp_content_length P' = -1"
proof -
  let ?P = "http_parser_init blank_parser HTTP_REQUEST\<lparr>hp_state := s_header_value_start,
         hp_header_state := h_content_length\<rparr>" and ?ds = "bytes ''18446744073709551615''"
  have "\<exists>P'. http_parser_execute True ?P no_settings ?ds () = Returned (length ?ds) P' () \<and>
      hp_http_errno P' = HPE_OK \<and> hp_content_length P' = of_nat (decimal ?ds) \<and>
      (sint (hp_content_length P') = int (decimal ?ds) \<longleftrightarrow> decimal ?ds < 2 ^ 63)"
    by (rule content_length_decimal)
      (simp_all add: parser_ok_def http_parser_init_def blank_parser_def HTTP_MAX_HEADER_SIZE_def
        IS_NUM_def no_settings_def run_data_cb_def)
  then show ?thesis by (auto simp: decimal_def)
qed

section \<open>The chunked coding\<close>

definition encode_chunk :: "byte list \<Rightarrow> byte list" where
  "encode_chunk c = hex (length c) @ [CR, LF] @ c @ [CR, LF]"

definition encode_chunks :: "byte list list \<Rightarrow> byte list" where
  "encode_chunks cs = concat (map encode_chunk cs) @ [48, CR, LF, CR, LF]"

definition push_hex :: "64 word \<Rightarrow> byte \<Rightarrow> 64 word" where
  "push_hex n h = n * 16 + word_of_int (unhex h)"

lemma unhex_hex_digit: "k < 16 \<Longrightarrow> unhex (hex_digit k) = int k"
proof -
  have "list_all (\<lambda>k. unhex (hex_digit k) = int k) [0..<16]"
    by (simp add: upt_rec unhex_def table256_def hex_digit_def unhex_init_def)
  then show "k < 16 \<Longrightarrow> unhex (hex_digit k) = int k" by (simp add: list_all_iff)
qed

lemma push_hex_value: "foldl push_hex 0 (hex n) = of_nat n"
proof (induction n rule: hex.induct)
  case (1 n)
  have digit: "push_hex w (hex_digit k) = w * 16 + of_nat k" if "k < 16" for w k
    using that by (simp add: push_hex_def unhex_hex_digit)
  show ?case
  proof (cases "n < 16")
    case True
    with digit [of n 0] show ?thesis by (subst hex.simps) simp
  next
    case False
    have "n div 16 * 16 + n mod 16 = n" by simp
    then have "(of_nat (n div 16) * 16 + of_nat (n mod 16) :: 64 word) = of_nat n"
      by (metis of_nat_add of_nat_mult of_nat_numeral)
    with "1.IH" [OF False] False digit [of "n mod 16" "of_nat (n div 16)"] show ?thesis
      by (subst hex.simps) simp
  qed
qed

text \<open>The digits of a chunk size after the first.\<close>

lemma hex_loop:
  assumes "drop (pos l) (data C) = hs @ rest" "state l = s_chunk_size"
    and "has_flag (parser l) F_CHUNKED" "\<forall>h \<in> set hs. unhex h \<noteq> -1"
    and "nread l + length hs \<le> HTTP_MAX_HEADER_SIZE"
  shows "execute_loop C l = execute_loop C (l\<lparr>nread := nread l + length hs,
      parser := parser l\<lparr>hp_content_length := foldl push_hex (hp_content_length (parser l)) hs\<rparr>, pos := pos l + length hs\<rparr>)"
  using assms
proof (induction hs arbitrary: l)
  case Nil
  then show ?case by simp
next
  case (Cons h hs)
  let ?l' = "set_parser (\<lambda>P. P\<lparr>hp_content_length := push_hex (hp_content_length P) h\<rparr>)
    (l\<lparr>nread := Suc (nread l)\<rparr>)"
  have "unhex CR = -1" by (simp add: unhex_def table256_def unhex_init_def)
  with Cons.prems(4) have h: "unhex h \<noteq> -1" "h \<noteq> CR" by auto
  with Cons.prems(2,3) have "handler_of (state l) C h (count_header_byte l) = Break ?l'"
    by (simp add: count_header_byte_def PARSING_HEADER_iff do_chunk_size_def assert_that_def push_hex_def)
  then have "execute_loop C l = execute_loop C (?l'\<lparr>pos := Suc (pos ?l')\<rparr>)"
    using Cons.prems by (intro loop_byte) simp_all
  also have "\<dots> = execute_loop C (l\<lparr>nread := nread l + length (h # hs),
      parser := parser l\<lparr>hp_content_length := foldl push_hex (hp_content_length (parser l)) (h # hs)\<rparr>,
      pos := pos l + length (h # hs)\<rparr>)"
    using Cons.prems drop_next [of "pos l" "data C" h "hs @ rest"]
    by (subst Cons.IH) simp_all
  finally show ?case .
qed

text \<open>A whole chunk size, up to the data.\<close>

definition at_chunk :: "nat \<Rightarrow> state \<Rightarrow> 'e locals \<Rightarrow> bool" where
  "at_chunk n s l \<longleftrightarrow> nread l = n \<and> state l = s \<and> has_flag (parser l) F_CHUNKED"

lemma size_loop:
  assumes "drop (pos l) (data C) = h # hs @ CR # rest" "at_chunk 0 s_chunk_size_start l"
    and "\<forall>h \<in> set (h # hs). unhex h \<noteq> -1" "length hs \<le> 16"
  shows "execute_loop C l = execute_loop C (l\<lparr>state := s_chunk_size_almost_done, nread := length hs + 2,
           parser := parser l\<lparr>hp_content_length := foldl push_hex 0 (h # hs)\<rparr>,
           pos := pos l + length hs + 2\<rparr>)"
proof -
  have l: "nread l = 0" "state l = s_chunk_size_start" "has_flag (parser l) F_CHUNKED"
    using assms(2) by (simp_all add: at_chunk_def)
  let ?l1 = "l\<lparr>state := s_chunk_size, nread := 1,
      parser := parser l\<lparr>hp_content_length := push_hex 0 h\<rparr>, pos := Suc (pos l)\<rparr>"
  let ?l2 = "l\<lparr>state := s_chunk_size, nread := Suc (length hs),
      parser := parser l\<lparr>hp_content_length := foldl push_hex 0 (h # hs)\<rparr>, pos := Suc (pos l) + length hs\<rparr>"
  have "handler_of (state l) C h (count_header_byte l) = Break (?l1\<lparr>pos := pos l\<rparr>)"
    using l assms(3)
    by (simp add: count_header_byte_def PARSING_HEADER_iff do_chunk_size_start_def assert_that_def
        push_hex_def)
  with assms(1) l have "execute_loop C l = execute_loop C ?l1"
    using loop_byte [of l C h "hs @ CR # rest" "?l1\<lparr>pos := pos l\<rparr>"]
    by (simp add: HTTP_MAX_HEADER_SIZE_def)
  also have "\<dots> = execute_loop C ?l2"
    using hex_loop [of ?l1 C hs "CR # rest"] drop_next [OF assms(1)] assms(3,4) l
    by (simp add: HTTP_MAX_HEADER_SIZE_def)
  also have "drop (pos ?l2) (data C) = CR # rest"
    using drop_more [of "pos l" "data C" "h # hs"] assms(1) by simp
  then have "execute_loop C ?l2 = execute_loop C (l\<lparr>state := s_chunk_size_almost_done,
      nread := length hs + 2, parser := parser l\<lparr>hp_content_length := foldl push_hex 0 (h # hs)\<rparr>,
      pos := pos l + length hs + 2\<rparr>)"
    using l assms(4)
    by (subst loop_byte [of ?l2 C CR rest "l\<lparr>state := s_chunk_size_almost_done,
        nread := length hs + 2, parser := parser l\<lparr>hp_content_length := foldl push_hex 0 (h # hs)\<rparr>,
        pos := pos l + length hs + 1\<rparr>"]; cases l)
      (simp_all add: count_header_byte_def PARSING_HEADER_iff do_chunk_size_def assert_that_def
        HTTP_MAX_HEADER_SIZE_def)
  finally show ?thesis .
qed

context string_settings
begin

text \<open>One chunk: the client gets its data, and the parser stands before the next chunk.\<close>

lemma chunk_data_step:
  assumes d: "drop (pos l) bs = c @ rest" "c \<noteq> []" and l: "at_chunk 0 s_chunk_data l"
    and n: "hp_content_length (parser l) = of_nat (length c)" "length c < 2 ^ 63"
  shows "execute_loop (call_on st S bs) l = execute_loop (call_on st S bs)
    (l\<lparr>env := body c (env l), state := s_chunk_data_almost_done,
       parser := parser l\<lparr>hp_content_length := 0\<rparr>, pos := pos l + length c\<rparr>)"
proof -
  let ?C = "call_on st S bs"
  have len: "length bs - pos l = length c + length rest"
    using arg_cong [OF d(1), of length] by simp
  have c: "c = hd c # tl c" "0 < length c" using d(2) by simp_all
  with len have ilen: "int (length bs) - int (pos l) = int (length c) + int (length rest)" by linarith
  have "sint (of_nat (length c) :: 64 word) = int (length c)"
    using n(2) by (simp add: signed_of_nat signed_take_bit_int_eq_self)
  with n ilen c(2) have r: "body_to_read ?C l = int (length c)" "sint (hp_content_length (parser l)) = int (length c)"
    by (auto simp: body_to_read_def)
  have "segment (pos l) (pos l + length c) bs = c" using d(1) by (simp add: segment_def)
  moreover have "pos l + nat (int (length c) - 1) = pos l + length c - 1"
    using c(2) by (cases "length c") simp_all
  ultimately have "handler_of (state l) ?C (hd c) (count_header_byte l) =
      Break (l\<lparr>env := body c (env l), state := s_chunk_data_almost_done,
        parser := parser l\<lparr>hp_content_length := 0\<rparr>, pos := pos l + length c - 1\<rparr>)"
    using r c(2) l n
    by (cases l) (simp add: at_chunk_def count_header_byte_def PARSING_HEADER_iff do_chunk_data_def
        assert_that_def call_on_body_run body_cb advance_def Let_def)
  moreover have "drop (pos l) bs = hd c # tl c @ rest" using d by (cases c) simp_all
  ultimately show ?thesis
    using loop_byte [of l ?C "hd c" "tl c @ rest"] c l by (simp add: at_chunk_def PARSING_HEADER_iff)
qed

lemma chunk_loop:
  assumes "drop (pos l) bs = encode_chunk c @ rest" "at_chunk 0 s_chunk_size_start l"
    and c: "c \<noteq> []" "length c < 2 ^ 63"
  shows "execute_loop (call_on st S bs) l = execute_loop (call_on st S bs)
    (l\<lparr>env := body c (env l), parser := parser l\<lparr>hp_content_length := 0\<rparr>,
       pos := pos l + length (encode_chunk c)\<rparr>)"
proof -
  let ?C = "call_on st S bs" and ?n = "length c"
  obtain h hs where hex: "hex ?n = h # hs" using hex_nonempty by (cases "hex ?n") auto
  have hs: "length (h # hs) \<le> 16" using hex_length [of 16 ?n] c(2) hex by simp
  have digits: "\<forall>h \<in> set (h # hs). unhex h \<noteq> -1"
    using hex_digits [of ?n] unfolding hex by (auto simp: unhex_hex_digit)
  have value_eq: "foldl push_hex 0 (h # hs) = of_nat ?n" using push_hex_value [of ?n] unfolding hex .
  have l: "nread l = 0" "state l = s_chunk_size_start" "has_flag (parser l) F_CHUNKED"
    using assms(2) by (simp_all add: at_chunk_def)
  let ?P = "parser l\<lparr>hp_content_length := of_nat ?n\<rparr>" and ?P' = "parser l\<lparr>hp_content_length := 0\<rparr>"
  let ?p = "pos l + length hs + 2"
  let ?l1 = "l\<lparr>state := s_chunk_size_almost_done, nread := length hs + 2, parser := ?P, pos := ?p\<rparr>"
  let ?l2 = "l\<lparr>state := s_chunk_data, nread := 0, parser := ?P, pos := ?p + 1\<rparr>"
  let ?l3 = "l\<lparr>env := body c (env l), state := s_chunk_data_almost_done, parser := ?P', pos := ?p + 1 + ?n\<rparr>"
  let ?l4 = "l\<lparr>env := body c (env l), state := s_chunk_data_done, parser := ?P', pos := ?p + 2 + ?n\<rparr>"
  let ?l5 = "l\<lparr>env := body c (env l), parser := ?P', pos := ?p + 3 + ?n\<rparr>"
  have d0: "drop (pos l) bs = h # hs @ CR # LF # c @ CR # LF # rest"
    using assms(1) by (simp add: encode_chunk_def hex)
  have d1: "drop ?p bs = LF # c @ CR # LF # rest"
    using drop_more [of "pos l" bs "h # hs @ [CR]" "LF # c @ CR # LF # rest"] d0 by simp
  have d2: "drop (?p + 1) bs = c @ CR # LF # rest" using drop_next [OF d1] by simp
  have d3: "drop (?p + 1 + ?n) bs = CR # LF # rest" using drop_more [OF d2] by simp
  have d4: "drop (?p + 2 + ?n) bs = LF # rest" using drop_next [OF d3] by simp
  have nz: "(of_nat ?n :: 64 word) \<noteq> 0"
    using c by (simp add: word_of_nat_eq_0_iff) (auto dest: nat_dvd_not_less)
  have "execute_loop ?C l = execute_loop ?C ?l1"
    using size_loop [of l ?C h hs "LF # c @ CR # LF # rest"] d0 assms(2) digits hs value_eq by simp
  also have "\<dots> = execute_loop ?C ?l2"
    using d1 l hs nz
    by (subst loop_byte [of ?l1 ?C LF "c @ CR # LF # rest" "?l2\<lparr>pos := ?p\<rparr>"])
      (simp_all add: count_header_byte_def PARSING_HEADER_iff do_chunk_size_almost_done_def assert_that_def
        STRICT_CHECK_def Let_def HTTP_MAX_HEADER_SIZE_def)
  also have "\<dots> = execute_loop ?C ?l3"
    using chunk_data_step [of ?l2 bs c "CR # LF # rest" st] d2 c l by (cases l) (simp add: at_chunk_def)
  also have "\<dots> = execute_loop ?C ?l4"
    using d3 l
    by (subst loop_byte [of ?l3 ?C CR "LF # rest" "?l4\<lparr>pos := ?p + 1 + ?n\<rparr>"])
      (simp_all add: count_header_byte_def PARSING_HEADER_iff do_chunk_data_almost_done_def
        assert_that_def STRICT_CHECK_def)
  also have "\<dots> = execute_loop ?C ?l5"
    using d4 l
    by (subst loop_byte [of ?l4 ?C LF rest "?l5\<lparr>pos := ?p + 2 + ?n\<rparr>"])
      (simp_all add: count_header_byte_def PARSING_HEADER_iff do_chunk_data_done_def
        assert_that_def STRICT_CHECK_def eval_nat_numeral)
  finally show ?thesis by (simp add: encode_chunk_def hex algebra_simps eval_nat_numeral)
qed

definition bodies :: "byte list list \<Rightarrow> 'e \<Rightarrow> 'e" where
  "bodies cs v = fold body cs v"

lemma bodies_Cons: "bodies (c # cs) v = bodies cs (body c v)"
  by (simp add: bodies_def)

lemma chunks_loop:
  assumes "drop (pos l) bs = concat (map encode_chunk cs) @ rest" "at_chunk 0 s_chunk_size_start l"
    and "\<forall>c \<in> set cs. c \<noteq> [] \<and> length c < 2 ^ 63"
  shows "\<exists>n. execute_loop (call_on st S bs) l = execute_loop (call_on st S bs)
    (l\<lparr>env := bodies cs (env l), parser := parser l\<lparr>hp_content_length := n\<rparr>,
       pos := pos l + length (concat (map encode_chunk cs))\<rparr>)"
  using assms
proof (induction cs arbitrary: l)
  case Nil
  show ?case by (intro exI [of _ "hp_content_length (parser l)"]) (simp add: bodies_def)
next
  case (Cons c cs)
  let ?l = "l\<lparr>env := body c (env l), parser := parser l\<lparr>hp_content_length := 0\<rparr>,
       pos := pos l + length (encode_chunk c)\<rparr>"
  have d: "drop (pos l) bs = encode_chunk c @ concat (map encode_chunk cs) @ rest"
    using Cons.prems(1) by simp
  have "execute_loop (call_on st S bs) l = execute_loop (call_on st S bs) ?l"
    using Cons.prems by (intro chunk_loop [OF d]) simp_all
  moreover obtain n where "execute_loop (call_on st S bs) ?l = execute_loop (call_on st S bs)
    (?l\<lparr>env := bodies cs (env ?l), parser := parser ?l\<lparr>hp_content_length := n\<rparr>,
       pos := pos ?l + length (concat (map encode_chunk cs))\<rparr>)"
    using Cons.IH [of ?l] Cons.prems drop_more [OF d] by (auto simp: at_chunk_def)
  ultimately show ?case by (intro exI [of _ n]) (simp add: bodies_Cons add.assoc)
qed

text \<open>The last chunk and the empty line after it.\<close>

lemma last_chunk_loop:
  assumes d: "drop (pos l) bs = [48, CR, LF, CR, LF]" and l0: "at_chunk 0 s_chunk_size_start l"
    and marks: "header_field_mark l = None" "header_value_mark l = None" "url_mark l = None"
    and complete: "\<And>P v. fst (run_cb (on_message_complete S) P v) = 0"
  shows "\<exists>P' n. execute_loop (call_on st S bs) l = Done (length bs) n \<and> parser n = P' \<and>
    env n = snd (run_cb (on_message_complete S) P' (env l)) \<and>
    hp_http_errno P' = hp_http_errno (parser l) \<and> hp_state P' = NEW_MESSAGE (call_on st S bs) P'"
proof -
  let ?C = "call_on st S bs" and ?P = "parser l\<lparr>hp_content_length := 0\<rparr>"
  let ?T = "?P\<lparr>hp_flags := hp_flags (parser l) OR F_TRAILING\<rparr>"
  have l: "nread l = 0" "state l = s_chunk_size_start" "has_flag (parser l) F_CHUNKED"
    using l0 by (simp_all add: at_chunk_def)
  let ?l1 = "l\<lparr>state := s_chunk_size_almost_done, nread := 2, parser := ?P, pos := Suc (Suc (pos l))\<rparr>"
  let ?l2 = "l\<lparr>state := s_header_field_start, nread := 0, parser := ?T, pos := Suc (Suc (Suc (pos l)))\<rparr>"
  let ?l3 = "l\<lparr>state := s_headers_almost_done, nread := 1, parser := ?T, pos := Suc (Suc (Suc (Suc (pos l))))\<rparr>"
  obtain v where run: "run_cb (on_message_complete S) ?T (env l) = (0, v)"
    using complete [of ?T "env l"] by (metis prod.collapse)
  let ?s = "NEW_MESSAGE ?C ?T"
  let ?l4 = "l\<lparr>env := v, state := ?s, nread := 2, parser := ?T, pos := Suc (Suc (Suc (Suc (Suc (pos l)))))\<rparr>"
  have unhex: "unhex 48 = 0" by (simp add: unhex_def table256_def unhex_init_def)
  have zero: "foldl push_hex 0 [48] = 0" by (simp add: push_hex_def unhex)
  have d1: "drop (Suc (Suc (pos l))) bs = [LF, CR, LF]" and d2: "drop (Suc (Suc (Suc (pos l)))) bs = [CR, LF]"
    and d3: "drop (Suc (Suc (Suc (Suc (pos l))))) bs = [LF]"
    using drop_more [of "pos l" bs "[48, CR]"] drop_more [of "pos l" bs "[48, CR, LF]"]
      drop_more [of "pos l" bs "[48, CR, LF, CR]"] d by (simp_all add: eval_nat_numeral)
  have len: "length bs = Suc (Suc (Suc (Suc (Suc (pos l)))))" using arg_cong [OF d, of length] by simp
  have s: "?s \<in> {s_start_req, s_start_res, s_dead}" by (simp add: NEW_MESSAGE_def start_state_def)
  have "execute_loop ?C l = execute_loop ?C ?l1"
    using size_loop [of l ?C 48 "[]" "[LF, CR, LF]"] d l0 unhex zero by (simp add: eval_nat_numeral)
  also have "\<dots> = execute_loop ?C ?l2"
    using d1 l
    by (subst loop_byte [of ?l1 ?C LF "[CR, LF]" "?l2\<lparr>pos := Suc (Suc (pos l))\<rparr>"]; cases l)
      (simp_all add: count_header_byte_def PARSING_HEADER_iff do_chunk_size_almost_done_def assert_that_def
        STRICT_CHECK_def Let_def HTTP_MAX_HEADER_SIZE_def)
  also have "\<dots> = execute_loop ?C ?l3"
    using d2 l
    by (subst loop_byte [of ?l2 ?C CR "[LF]" "?l3\<lparr>pos := Suc (Suc (Suc (pos l)))\<rparr>"]; cases l)
      (simp_all add: count_header_byte_def PARSING_HEADER_iff do_header_field_start_def
        HTTP_MAX_HEADER_SIZE_def)
  also have "\<dots> = execute_loop ?C ?l4"
    using d3 l run
    by (subst loop_byte [of ?l3 ?C LF "[]" "?l4\<lparr>pos := Suc (Suc (Suc (Suc (pos l))))\<rparr>"]; cases l)
      (simp_all add: count_header_byte_def PARSING_HEADER_iff do_headers_almost_done_def
        HTTP_MAX_HEADER_SIZE_def STRICT_CHECK_def CALLBACK2_message_complete_def CALLBACK2_run
        Let_def NEW_MESSAGE_state_def)
  also have "\<dots> = store_locals ?C ?l4"
    using len marks by (simp add: loop_end end_of_data_def CALLBACK_header_field_def
        CALLBACK_header_value_def CALLBACK_url_def no_mark)
  finally have "execute_loop ?C l = store_locals ?C ?l4" .
  moreover have "snd (run_cb (on_message_complete S) Q (env l)) = v" if "public Q = public ?T" for Q
    using that run by (metis complete_public snd_conv)
  ultimately show ?thesis
    by (simp add: store_locals_def public_def NEW_MESSAGE_def start_state_def http_should_keep_alive_def
        has_flag_def)
qed

lemma chunked_decode:
  assumes P: "parser_ok P" "hp_state P = s_chunk_size_start"
    and cs: "\<forall>c \<in> set cs. c \<noteq> [] \<and> length c < 2 ^ 63"
    and complete: "\<And>P v. fst (run_cb (on_message_complete S) P v) = 0"
  shows "\<exists>P'. http_parser_execute st P S (encode_chunks cs) v =
      Returned (length (encode_chunks cs)) P' (snd (run_cb (on_message_complete S) P' (bodies cs v))) \<and>
    hp_http_errno P' = HPE_OK"
proof -
  let ?bs = "encode_chunks cs" and ?l = "load_locals P v"
  let ?C = "call_on st S ?bs"
  have l: "at_chunk 0 s_chunk_size_start ?l" "header_field_mark ?l = None" "header_value_mark ?l = None"
    "url_mark ?l = None" "pos ?l = 0" "env ?l = v" "parser ?l = P" "hp_http_errno P = HPE_OK"
    using P by (simp_all add: at_chunk_def load_locals_def parser_ok_def control_ok_def chunk_states_def
        url_states_def)
  obtain n where n: "execute_loop ?C ?l = execute_loop ?C
      (?l\<lparr>env := bodies cs v, parser := P\<lparr>hp_content_length := n\<rparr>,
         pos := length (concat (map encode_chunk cs))\<rparr>)"
    using chunks_loop [of ?l ?bs cs "[48, CR, LF, CR, LF]" st] l cs by (auto simp: encode_chunks_def)
  obtain P' m where "execute_loop ?C (?l\<lparr>env := bodies cs v, parser := P\<lparr>hp_content_length := n\<rparr>,
         pos := length (concat (map encode_chunk cs))\<rparr>) = Done (length ?bs) m"
    "parser m = P'" "env m = snd (run_cb (on_message_complete S) P' (bodies cs v))" "hp_http_errno P' = HPE_OK"
    using last_chunk_loop [of "?l\<lparr>env := bodies cs v, parser := P\<lparr>hp_content_length := n\<rparr>,
         pos := length (concat (map encode_chunk cs))\<rparr>" ?bs st] l complete
    by (auto simp: encode_chunks_def at_chunk_def)
  with n show ?thesis
    by (simp add: execute_parser_ok [OF P(1)] encode_chunks_def)
qed

end

lemma node_message_complete:
  assumes "\<And>j. \<not> fst (call_complete J j)"
  shows "fst (run_cb (on_message_complete (node_settings J)) P v) = 0"
  using assms
  by (cases v) (auto simp: node_settings_def run_cb_def node_on_message_complete_def Let_def split_beta)

definition js_bodies :: "'j js \<Rightarrow> byte list list \<Rightarrow> 'j \<Rightarrow> 'j" where
  "js_bodies J cs j = fold (\<lambda>c j. snd (call_body J c j)) cs j"

lemma node_bodies:
  "\<exists>e. node.bodies J cs (Some p) = Some (p\<lparr>np_js := js_bodies J cs (np_js p), np_got_exception := e\<rparr>)"
proof (induction cs arbitrary: p)
  case Nil
  show ?case by (intro exI [of _ "np_got_exception p"]) (simp add: node.bodies_def js_bodies_def)
next
  case (Cons c cs)
  let ?p = "p\<lparr>np_js := snd (call_body J c (np_js p)),
    np_got_exception := np_got_exception p \<or> fst (call_body J c (np_js p))\<rparr>"
  have "node.bodies J (c # cs) (Some p) = node.bodies J cs (Some ?p)"
    by (simp add: node.bodies_def node_on_body_def split_beta)
  with Cons.IH [of ?p] show ?case by (auto simp: js_bodies_def)
qed

lemma js_bodies_concat:
  "cs \<noteq> [] \<Longrightarrow> js_streams J \<Longrightarrow> js_bodies J cs j = snd (call_body J (concat cs) j)"
proof (induction cs arbitrary: j rule: list_nonempty_induct)
  case (cons c cs)
  then show ?case by (simp add: js_bodies_def js_streams_def split_beta)
qed (simp add: js_bodies_def)

text \<open>
  C11: the chunked coding is decoded: on a parser before the first chunk, whose client's
  JavaScript does not throw at the end of the message, the encoding of any chunks is
  consumed whole, without an error.  JavaScript gets each chunk in turn as a slice of the body,
  then the end of the message, and nothing else; if it does not care how a body is cut, that is
  the chunks put together.
\<close>

theorem chunked_roundtrip:
  assumes "parser_ok P" "hp_state P = s_chunk_size_start"
    and "\<forall>c \<in> set cs. c \<noteq> [] \<and> length c < 2 ^ 63"
    and "\<And>j. \<not> fst (call_complete J j)"
    and "np_num_fields p = 0"
  shows "\<exists>P' p'. http_parser_execute st P (node_settings J) (encode_chunks cs) (Some p) =
           Returned (length (encode_chunks cs)) P' (Some p') \<and> hp_http_errno P' = HPE_OK \<and>
         np_js p' = snd (call_complete J (js_bodies J cs (np_js p))) \<and>
         (js_streams J \<and> cs \<noteq> [] \<longrightarrow> js_bodies J cs (np_js p) = snd (call_body J (concat cs) (np_js p)))"
proof -
  obtain e where "node.bodies J cs (Some p) = Some (p\<lparr>np_js := js_bodies J cs (np_js p), np_got_exception := e\<rparr>)"
    using node_bodies by blast
  with node.chunked_decode [of P cs J st "Some p", OF assms(1-3) node_message_complete [OF assms(4)]] assms(4,5)
  show ?thesis
    by (auto simp: js_bodies_concat node_settings_def run_cb_def node_on_message_complete_def Let_def split_beta)
qed

lemma chunked_roundtrip_witness:
  "\<exists>P' p'. http_parser_execute True
      (http_parser_init blank_parser HTTP_RESPONSE
         \<lparr>hp_state := s_chunk_size_start, hp_flags := F_CHUNKED\<rparr>)
      (node_settings collecting_js) (encode_chunks [[1, 2], [3]]) (Some (node_init [])) =
        Returned (length (encode_chunks [[1, 2], [3 :: byte]])) P' (Some p') \<and>
      hp_http_errno P' = HPE_OK \<and> np_js p' = [OnBody [1, 2, 3], OnMessageComplete]"
proof -
  have "call_complete collecting_js j = (False, j @ [OnMessageComplete])" for j
    by (simp add: call_complete_def collecting_js_def)
  moreover have "js_bodies collecting_js [[1, 2], [3]] [] = [OnBody [1, 2, 3]]"
    by (simp add: js_bodies_def call_body_def collecting_js_def log_body_def)
  ultimately show ?thesis
    using chunked_roundtrip [where cs = "[[1, 2], [3]]" and st = True and J = collecting_js and p = "node_init []" and
        P = "http_parser_init blank_parser HTTP_RESPONSE
           \<lparr>hp_state := s_chunk_size_start, hp_flags := F_CHUNKED\<rparr>"]
    by (fastforce simp: parser_ok_def control_ok_def http_parser_init_def blank_parser_def has_flag_def
        F_CHUNKED_def HTTP_MAX_HEADER_SIZE_def node_init_def)
qed

end
