(* ===== verification/Ares_Records.thy ===== *)
theory Ares_Records
  imports Ares_Reply
begin

text \<open>
  Replies that become lists of records: \<^verbatim>\<open>ares_parse_mx_reply.c\<close>, \<^verbatim>\<open>ares_parse_srv_reply.c\<close>
  and \<^verbatim>\<open>ares_parse_txt_reply.c\<close>.  The three files have the same code around the part that reads
  the data of a record; it is modelled once.  None of them checks that the data of a record
  ends inside the reply before it goes on to the next one.
\<close>

section \<open>State\<close>

record 'r rec_locals =
  rl_aptr :: nat
  rl_list :: "'r list"

record mx_reply =
  mx_host :: "byte list option"
  mx_priority :: nat

record srv_reply =
  srv_host :: "byte list option"
  srv_priority :: nat
  srv_weight :: nat
  srv_port :: nat

record txt_reply =
  txt_txt :: "byte list option"
  txt_length :: nat

type_synonym 'r record_data =
  "(alloc \<Rightarrow> bool) \<Rightarrow> buffer \<Rightarrow> nat \<Rightarrow> rr \<Rightarrow> 'r rec_locals \<Rightarrow> 'r rec_locals pass option"

section \<open>The data of a record\<close>

definition mx_data :: "mx_reply record_data" where
  "mx_data mem abuf i r l =
     (if rr_len r < 2 then Some (Stop ARES_EBADRESP l)
      else if \<not> mem (M_item i) then Some (Stop ARES_ENOMEM l)
      else do {
        priority \<leftarrow> DNS__16BIT abuf (rl_aptr l);
        let item = \<lparr>mx_host = None, mx_priority = priority\<rparr>;
        or_stop (ares_expand_name (mem (M_rr_data i)) abuf (rl_aptr l + 2))
          (l\<lparr>rl_list := rl_list l @ [item]\<rparr>)
          (\<lambda>(host, len). Some (Next (l\<lparr>rl_list := rl_list l @ [item\<lparr>mx_host := Some host\<rparr>]\<rparr>)))
      })"

definition srv_data :: "srv_reply record_data" where
  "srv_data mem abuf i r l =
     (if rr_len r < 6 then Some (Stop ARES_EBADRESP l)
      else if \<not> mem (M_item i) then Some (Stop ARES_ENOMEM l)
      else do {
        priority \<leftarrow> DNS__16BIT abuf (rl_aptr l);
        weight \<leftarrow> DNS__16BIT abuf (rl_aptr l + 2);
        port \<leftarrow> DNS__16BIT abuf (rl_aptr l + 4);
        let item = \<lparr>srv_host = None, srv_priority = priority, srv_weight = weight, srv_port = port\<rparr>;
        or_stop (ares_expand_name (mem (M_rr_data i)) abuf (rl_aptr l + 6))
          (l\<lparr>rl_list := rl_list l @ [item]\<rparr>)
          (\<lambda>(host, len). Some (Next (l\<lparr>rl_list := rl_list l @ [item\<lparr>srv_host := Some host\<rparr>]\<rparr>)))
      })"

text \<open>The two loops over the substrings of a TXT record: the first adds up their lengths, the
  second copies them into a buffer of that size.\<close>

function txt_total :: "buffer \<Rightarrow> nat \<Rightarrow> nat \<Rightarrow> nat \<Rightarrow> nat option" where
  "txt_total abuf strptr stop n =
     (if strptr < stop
      then case rd abuf strptr of
             None \<Rightarrow> None
           | Some b \<Rightarrow> txt_total abuf (strptr + unat b + 1) stop (n + unat b)
      else Some n)"
  by pat_completeness auto
termination by (relation "measure (\<lambda>(abuf, strptr, stop, n). stop - strptr)") auto

function txt_copy :: "buffer \<Rightarrow> nat \<Rightarrow> nat \<Rightarrow> nat \<Rightarrow> byte list \<Rightarrow> byte list option" where
  "txt_copy abuf cap strptr stop txt =
     (if strptr < stop
      then case rd abuf strptr of
             None \<Rightarrow> None
           | Some b \<Rightarrow>
               let substr_len = unat b; strptr = strptr + 1
               in if strptr + substr_len \<le> length abuf \<and> length txt + substr_len \<le> cap
                  then txt_copy abuf cap (strptr + substr_len) stop
                         (txt @ segment strptr (strptr + substr_len) abuf)
                  else None
      else Some txt)"
  by pat_completeness auto
termination by (relation "measure (\<lambda>(abuf, cap, strptr, stop, txt). stop - strptr)") auto

declare txt_total.simps [simp del] txt_copy.simps [simp del]

definition txt_data :: "txt_reply record_data" where
  "txt_data mem abuf i r l =
     (if \<not> mem (M_item i) then Some (Stop ARES_ENOMEM l)
      else
        let stop = rl_aptr l + rr_len r
        in do {
          n \<leftarrow> txt_total abuf (rl_aptr l) stop 0;
          let item = \<lparr>txt_txt = None, txt_length = n\<rparr>;
          if \<not> mem (M_rr_data i)
          then Some (Stop ARES_ENOMEM (l\<lparr>rl_list := rl_list l @ [item]\<rparr>))
          else do {
            txt \<leftarrow> txt_copy abuf (n + 1) (rl_aptr l) stop [];
            Some (Next (l\<lparr>rl_list := rl_list l @ [item\<lparr>txt_txt := Some txt\<rparr>]\<rparr>))
          }
        })"

section \<open>The reply\<close>

definition record_answer ::
    "nat \<Rightarrow> 'r record_data \<Rightarrow> (alloc \<Rightarrow> bool) \<Rightarrow> buffer \<Rightarrow> nat \<Rightarrow> 'r rec_locals \<Rightarrow>
     'r rec_locals pass option" where
  "record_answer T read_data mem abuf i l =
     or_stop (decode_rr ares_expand_name (mem (M_rr_name i)) abuf (rl_aptr l)) l
       (\<lambda>(r, aptr).
         then_pass
           (if rr_class r = C_IN \<and> rr_type r = T then read_data mem abuf i r (l\<lparr>rl_aptr := aptr\<rparr>)
            else Some (Next (l\<lparr>rl_aptr := aptr\<rparr>)))
           (\<lambda>l. Some (Next (l\<lparr>rl_aptr := rl_aptr l + rr_len r\<rparr>))))"

definition record_reply ::
    "nat \<Rightarrow> 'r record_data \<Rightarrow> (alloc \<Rightarrow> bool) \<Rightarrow> buffer \<Rightarrow> (ares_status \<times> 'r list) option" where
  "record_reply T read_data mem abuf =
     (case reply_question ares_expand_name True mem abuf of
        None \<Rightarrow> None
      | Some (Inl st) \<Rightarrow> Some (st, [])
      | Some (Inr (hostname, aptr, ancount)) \<Rightarrow> do {
          (st, l) \<leftarrow> for_answers (record_answer T read_data mem abuf) 0 ancount
            \<lparr>rl_aptr = aptr, rl_list = []\<rparr>;
          if st \<noteq> ARES_SUCCESS then Some (st, []) else Some (ARES_SUCCESS, rl_list l)
        })"

definition ares_parse_mx_reply ::
    "(alloc \<Rightarrow> bool) \<Rightarrow> buffer \<Rightarrow> (ares_status \<times> mx_reply list) option" where
  "ares_parse_mx_reply = record_reply T_MX mx_data"

definition ares_parse_srv_reply ::
    "(alloc \<Rightarrow> bool) \<Rightarrow> buffer \<Rightarrow> (ares_status \<times> srv_reply list) option" where
  "ares_parse_srv_reply = record_reply T_SRV srv_data"

definition ares_parse_txt_reply ::
    "(alloc \<Rightarrow> bool) \<Rightarrow> buffer \<Rightarrow> (ares_status \<times> txt_reply list) option" where
  "ares_parse_txt_reply = record_reply T_TXT txt_data"

section \<open>Decoding\<close>

text \<open>A record of such a reply: its data, if it is of the type looked for, or any bytes.\<close>

datatype 'x entry =
    Wanted "byte list list" "32 word" 'x
  | Unwanted "byte list list" nat nat "32 word" "byte list"

fun encode_entry :: "nat \<Rightarrow> ('x \<Rightarrow> byte list) \<Rightarrow> 'x entry \<Rightarrow> byte list" where
  "encode_entry T encode (Wanted ls ttl x) = encode_name ls @ rr_fixed T C_IN ttl (length (encode x)) @ encode x"
| "encode_entry T encode (Unwanted ls type class ttl d) = encode_name ls @ rr_fixed type class ttl (length d) @ d"

fun entry_ok :: "nat \<Rightarrow> ('x \<Rightarrow> bool) \<Rightarrow> 'x entry \<Rightarrow> bool" where
  "entry_ok T valid (Wanted ls ttl x) \<longleftrightarrow> (\<forall>l \<in> set ls. label_ok l) \<and> valid x"
| "entry_ok T valid (Unwanted ls type class ttl d) \<longleftrightarrow>
     (\<forall>l \<in> set ls. label_ok l) \<and> type < 2 ^ 16 \<and> class < 2 ^ 16 \<and> length d < 2 ^ 16 \<and>
     \<not> (class = C_IN \<and> type = T)"

fun entry_items :: "('x \<Rightarrow> 'r) \<Rightarrow> 'x entry \<Rightarrow> 'r list" where
  "entry_items item (Wanted ls ttl x) = [item x]"
| "entry_items item (Unwanted ls type class ttl d) = []"

locale record_parser =
  fixes T :: nat and read_data :: "'r record_data"
    and encode :: "'x \<Rightarrow> byte list" and valid :: "'x \<Rightarrow> bool" and item :: "'x \<Rightarrow> 'r"
  assumes T_small: "T < 2 ^ 16"
    and valid_length: "valid x \<Longrightarrow> length (encode x) < 2 ^ 16"
    and read_encoded: "valid x \<Longrightarrow> drop (rl_aptr l) abuf = encode x @ rest \<Longrightarrow> rr_len r = length (encode x) \<Longrightarrow>
      read_data (\<lambda>_. True) abuf i r l = Some (Next (l\<lparr>rl_list := rl_list l @ [item x]\<rparr>))"
begin

lemma entry_encoded:
  assumes d: "drop p abuf = encode_entry T encode e @ rest" and ok: "entry_ok T valid e"
  shows "record_answer T read_data (\<lambda>_. True) abuf i \<lparr>rl_aptr = p, rl_list = ys\<rparr> =
      Some (Next \<lparr>rl_aptr = p + length (encode_entry T encode e), rl_list = ys @ entry_items item e\<rparr>)"
    and "drop (p + length (encode_entry T encode e)) abuf = rest"
proof -
  show "drop (p + length (encode_entry T encode e)) abuf = rest"
    using arg_cong [OF d, of "drop (length (encode_entry T encode e))"] by (simp add: add.commute)
  have C: "C_IN < 2 ^ 16" by (simp add: C_IN_def)
  show "record_answer T read_data (\<lambda>_. True) abuf i \<lparr>rl_aptr = p, rl_list = ys\<rparr> =
      Some (Next \<lparr>rl_aptr = p + length (encode_entry T encode e), rl_list = ys @ entry_items item e\<rparr>)"
  proof (cases e)
    case (Wanted ls ttl x)
    then have x: "drop p abuf = encode_name ls @ rr_fixed T C_IN ttl (length (encode x)) @ encode x @ rest"
      "\<forall>l \<in> set ls. label_ok l" "valid x" using d ok by simp_all
    note r = plain_name.decode_rr_encoded [OF x(1,2) T_small C valid_length [OF x(3)]]
    show ?thesis
      using r read_encoded [OF x(3), of "\<lparr>rl_aptr = p + length (encode_name ls) + RRFIXEDSZ, rl_list = ys\<rparr>" abuf rest]
      by (simp add: record_answer_def Wanted rr_fixed_def RRFIXEDSZ_def)
  next
    case (Unwanted ls ty cls ttl b)
    then have x: "drop p abuf = encode_name ls @ rr_fixed ty cls ttl (length b) @ b @ rest"
      "\<forall>l \<in> set ls. label_ok l" "ty < 2 ^ 16" "cls < 2 ^ 16" "length b < 2 ^ 16"
      "\<not> (cls = C_IN \<and> ty = T)" using d ok by simp_all
    from plain_name.decode_rr_encoded [OF x(1-5)] x(6) show ?thesis
      by (auto simp: record_answer_def Unwanted rr_fixed_def RRFIXEDSZ_def)
  qed
qed

lemma entries_encoded:
  assumes "drop p abuf = concat (map (encode_entry T encode) es) @ rest" "\<forall>e \<in> set es. entry_ok T valid e"
  shows "\<exists>q. for_answers (record_answer T read_data (\<lambda>_. True) abuf) i (length es)
      \<lparr>rl_aptr = p, rl_list = ys\<rparr> =
    Some (ARES_SUCCESS, \<lparr>rl_aptr = q, rl_list = ys @ concat (map (entry_items item) es)\<rparr>)"
  using assms
proof (induction es arbitrary: p ys i)
  case Nil
  then show ?case by simp
next
  case (Cons e es)
  then have "drop p abuf = encode_entry T encode e @ concat (map (encode_entry T encode) es) @ rest" "entry_ok T valid e" by simp_all
  note e = entry_encoded [OF this]
  from e(1) Cons.IH [OF e(2), of "Suc i" "ys @ entry_items item e"] Cons.prems(2) show ?case by simp
qed

lemma record_reply_encoded:
  assumes "length ids = 4" "length nums = 4" "\<forall>l \<in> set q. label_ok l"
    and "\<forall>e \<in> set es. entry_ok T valid e" "length es < 2 ^ 16" "es \<noteq> []"
  shows "record_reply T read_data (\<lambda>_. True)
      (encode_reply ids nums q qtype qclass (length es) (concat (map (encode_entry T encode) es))) =
    Some (ARES_SUCCESS, concat (map (entry_items item) es))"
proof -
  let ?abuf = "encode_reply ids nums q qtype qclass (length es) (concat (map (encode_entry T encode) es))"
  have "True \<Longrightarrow> length es \<noteq> 0" using assms(6) by simp
  from plain_name.reply_question_encoded [OF assms(1-3,5) this, of True qtype qclass]
  obtain aptr where a: "reply_question ares_expand_name True (\<lambda>_. True) ?abuf =
      ret (dotted q, aptr, length es)" "drop aptr ?abuf = concat (map (encode_entry T encode) es)" by auto
  obtain p where "for_answers (record_answer T read_data (\<lambda>_. True) ?abuf) 0 (length es)
      \<lparr>rl_aptr = aptr, rl_list = []\<rparr> =
      Some (ARES_SUCCESS, \<lparr>rl_aptr = p, rl_list = concat (map (entry_items item) es)\<rparr>)"
    using entries_encoded [of aptr ?abuf es "[]" 0 "[]"] a(2) assms(4) by auto
  with a(1) show ?thesis by (simp add: record_reply_def ret_def)
qed

end

section \<open>The three types of data\<close>

definition encode_mx :: "nat \<times> byte list list \<Rightarrow> byte list" where
  "encode_mx x = word16 (int (fst x)) @ encode_name (snd x)"

definition mx_ok :: "nat \<times> byte list list \<Rightarrow> bool" where
  "mx_ok x \<longleftrightarrow> fst x < 2 ^ 16 \<and> (\<forall>l \<in> set (snd x). label_ok l) \<and> length (encode_mx x) < 2 ^ 16"

definition mx_item :: "nat \<times> byte list list \<Rightarrow> mx_reply" where
  "mx_item x = \<lparr>mx_host = Some (dotted (snd x)), mx_priority = fst x\<rparr>"

definition encode_srv :: "(nat \<times> nat \<times> nat) \<times> byte list list \<Rightarrow> byte list" where
  "encode_srv x = (case x of ((p, w, port), target) \<Rightarrow>
     word16 (int p) @ word16 (int w) @ word16 (int port) @ encode_name target)"

definition srv_ok :: "(nat \<times> nat \<times> nat) \<times> byte list list \<Rightarrow> bool" where
  "srv_ok x \<longleftrightarrow> (case x of ((p, w, port), target) \<Rightarrow>
     p < 2 ^ 16 \<and> w < 2 ^ 16 \<and> port < 2 ^ 16 \<and> (\<forall>l \<in> set target. label_ok l) \<and>
     length (encode_srv x) < 2 ^ 16)"

definition srv_item :: "(nat \<times> nat \<times> nat) \<times> byte list list \<Rightarrow> srv_reply" where
  "srv_item x = (case x of ((p, w, port), target) \<Rightarrow>
     \<lparr>srv_host = Some (dotted target), srv_priority = p, srv_weight = w, srv_port = port\<rparr>)"

definition encode_txt :: "byte list list \<Rightarrow> byte list" where
  "encode_txt ss = concat (map (\<lambda>s. of_nat (length s) # s) ss)"

definition txt_ok :: "byte list list \<Rightarrow> bool" where
  "txt_ok ss \<longleftrightarrow> (\<forall>s \<in> set ss. length s < 256) \<and> length (encode_txt ss) < 2 ^ 16"

definition txt_item :: "byte list list \<Rightarrow> txt_reply" where
  "txt_item ss = \<lparr>txt_txt = Some (concat ss), txt_length = length (concat ss)\<rparr>"

lemma read_mx:
  assumes "mx_ok x" "drop (rl_aptr l) abuf = encode_mx x @ rest" "rr_len r = length (encode_mx x)"
  shows "mx_data (\<lambda>_. True) abuf i r l = Some (Next (l\<lparr>rl_list := rl_list l @ [mx_item x]\<rparr>))"
proof -
  have x: "fst x < 2 ^ 16" "\<forall>l \<in> set (snd x). label_ok l" using assms(1) by (simp_all add: mx_ok_def)
  have d: "drop (rl_aptr l) abuf = word16 (int (fst x)) @ encode_name (snd x) @ rest"
    using assms(2) by (simp add: encode_mx_def)
  then have "drop (rl_aptr l + 2) abuf = encode_name (snd x) @ rest"
    using drop_more [OF d] by simp
  from read_word16 [OF d x(1)] expand_encoded [OF this x(2)] show ?thesis
    using assms(3) by (simp add: mx_data_def mx_item_def encode_mx_def)
qed

lemma read_srv:
  assumes "srv_ok x" "drop (rl_aptr l) abuf = encode_srv x @ rest" "rr_len r = length (encode_srv x)"
  shows "srv_data (\<lambda>_. True) abuf i r l = Some (Next (l\<lparr>rl_list := rl_list l @ [srv_item x]\<rparr>))"
proof -
  obtain p w port target where x: "x = ((p, w, port), target)" by (cases x) auto
  have ok: "p < 2 ^ 16" "w < 2 ^ 16" "port < 2 ^ 16" "\<forall>l \<in> set target. label_ok l"
    using assms(1) by (simp_all add: srv_ok_def x)
  have d: "drop (rl_aptr l) abuf = word16 (int p) @ word16 (int w) @ word16 (int port) @ encode_name target @ rest"
    using assms(2) by (simp add: encode_srv_def x)
  have d2: "drop (rl_aptr l + 2) abuf = word16 (int w) @ word16 (int port) @ encode_name target @ rest"
    and d4: "drop (rl_aptr l + 4) abuf = word16 (int port) @ encode_name target @ rest"
    and d6: "drop (rl_aptr l + 6) abuf = encode_name target @ rest"
    using drop_more [OF d] drop_more [of "rl_aptr l" abuf "word16 (int p) @ word16 (int w)"]
      drop_more [of "rl_aptr l" abuf "word16 (int p) @ word16 (int w) @ word16 (int port)"] d
    by simp_all
  from read_word16 [OF d ok(1)] read_word16 [OF d2 ok(2)] read_word16 [OF d4 ok(3)]
    expand_encoded [OF d6 ok(4)] show ?thesis
    using assms(3) by (simp add: srv_data_def srv_item_def encode_srv_def x)
qed

lemma encode_txt_Cons: "encode_txt (s # ss) = of_nat (length s) # s @ encode_txt ss"
  by (simp add: encode_txt_def)

lemma read_txt:
  assumes "drop p abuf = encode_txt ss @ rest" "\<forall>s \<in> set ss. length s < 256"
  shows "txt_total abuf p (p + length (encode_txt ss)) n = Some (n + length (concat ss))"
    and "length (xs @ concat ss) \<le> cap \<Longrightarrow>
      txt_copy abuf cap p (p + length (encode_txt ss)) xs = Some (xs @ concat ss)"
  using assms
proof (induction ss arbitrary: p n xs)
  case Nil
  {
    case 1
    show ?case by (simp add: encode_txt_def txt_total.simps)
  next
    case 2
    show ?case by (simp add: encode_txt_def txt_copy.simps)
  }
next
  case (Cons s ss)
  have b: "p < length abuf" "unat (abuf ! p) = length s" "p + 1 + length s \<le> length abuf"
    "segment (p + 1) (p + 1 + length s) abuf = s" "drop (p + 1 + length s) abuf = encode_txt ss @ rest"
    if d: "drop p abuf = encode_txt (s # ss) @ rest" and s: "length s < 256" for p
  proof -
    have d0: "drop p abuf = of_nat (length s) # s @ encode_txt ss @ rest"
      using d by (simp add: encode_txt_Cons)
    then show p: "p < length abuf" by (metis drop_eq_Nil leI list.distinct(1))
    have "abuf ! p = of_nat (length s)" using d0 by (rule nth_via_drop)
    then show "unat (abuf ! p) = length s" using s by (simp add: unat_of_nat_small)
    have d1: "drop (p + 1) abuf = s @ encode_txt ss @ rest"
      using d0 by (metis Suc_eq_plus1 drop_Suc list.sel(3) tl_drop)
    then show "segment (p + 1) (p + 1 + length s) abuf = s" by (simp add: segment_def)
    show "drop (p + 1 + length s) abuf = encode_txt ss @ rest"
      using arg_cong [OF d1, of "drop (length s)"] by (simp add: add_ac)
    show "p + 1 + length s \<le> length abuf"
      using arg_cong [OF d1, of length] p by simp
  qed
  {
    case 1
    then have s: "length s < 256" by simp
    note b = b [OF 1(1) s]
    show ?case
      using b Cons.IH(1) [OF b(5), of "n + length s"] 1(2)
      by (subst txt_total.simps) (simp add: encode_txt_Cons add.assoc)
  next
    case 2
    then have s: "length s < 256" by simp
    note b = b [OF 2(2) s]
    show ?case
      using b Cons.IH(2) [OF _ b(5), of "xs @ s"] 2(1,3)
      by (subst txt_copy.simps) (simp add: encode_txt_Cons Let_def add.assoc)
  }
qed

interpretation mx_list: record_parser T_MX mx_data encode_mx mx_ok mx_item
  by unfold_locales (auto simp: T_MX_def mx_ok_def intro: read_mx [unfolded mx_ok_def])

interpretation srv_list: record_parser T_SRV srv_data encode_srv srv_ok srv_item
  by unfold_locales (auto simp: T_SRV_def srv_ok_def intro: read_srv)

interpretation txt_list: record_parser T_TXT txt_data encode_txt txt_ok txt_item
  by unfold_locales (auto simp: T_TXT_def txt_ok_def txt_data_def txt_item_def read_txt Let_def)

section \<open>Data that ends outside the reply\<close>

lemma past_the_end:
  assumes "length abuf < p"
  shows "record_answer T read_data mem abuf i \<lparr>rl_aptr = p, rl_list = ys\<rparr> = None"
  using assms
  by (simp add: record_answer_def decode_rr_def ares_expand_name_def name_length_def
      name_length_loop.simps rd_def)

lemma overrun:
  assumes "length ids = 4" "length nums = 4" "\<forall>l \<in> set q. label_ok l" "\<forall>l \<in> set ls. label_ok l"
    and "Suc (Suc n) < 2 ^ 16" "type < 2 ^ 16" "class < 2 ^ 16" "len < 2 ^ 16" "type \<noteq> T" "length d < len"
  shows "record_reply T read_data (\<lambda>_. True)
    (encode_reply ids nums q qtype qclass (Suc (Suc n)) (encode_name ls @ rr_fixed type class ttl len @ d)) = None"
proof -
  let ?abuf = "encode_reply ids nums q qtype qclass (Suc (Suc n)) (encode_name ls @ rr_fixed type class ttl len @ d)"
  have "True \<Longrightarrow> Suc (Suc n) \<noteq> 0" by simp
  from plain_name.reply_question_encoded [OF assms(1-3,5) this, of True qtype qclass]
  obtain aptr where a: "reply_question ares_expand_name True (\<lambda>_. True) ?abuf =
      ret (dotted q, aptr, Suc (Suc n))" "drop aptr ?abuf = encode_name ls @ rr_fixed type class ttl len @ d"
    by auto
  let ?p = "aptr + length (encode_name ls) + RRFIXEDSZ"
  note r = plain_name.decode_rr_encoded [OF a(2) assms(4,6-8)]
  from arg_cong [OF r(2), of length] r(3) have "length ?abuf = ?p + length d" by simp
  with assms(10) have "length ?abuf < ?p + len" by simp
  from past_the_end [OF this, of T read_data "\<lambda>_. True" 1 "[]"]
  have "record_answer T read_data (\<lambda>_. True) ?abuf 1 \<lparr>rl_aptr = ?p + len, rl_list = []\<rparr> = None" .
  moreover have "record_answer T read_data (\<lambda>_. True) ?abuf 0 \<lparr>rl_aptr = aptr, rl_list = []\<rparr> =
      Some (Next \<lparr>rl_aptr = ?p + len, rl_list = []\<rparr>)"
    using r(1) assms(9) by (simp add: record_answer_def)
  ultimately show ?thesis using a(1) by (simp add: record_reply_def ret_def)
qed

section \<open>Properties\<close>

text \<open>
  An MX reply gives the mail exchangers among its answers, in order, with their
  priorities.
\<close>

lemma mx_reply_list:
  assumes "length ids = 4" "length nums = 4" "\<forall>l \<in> set q. label_ok l"
    and "\<forall>e \<in> set es. entry_ok T_MX mx_ok e" "length es < 2 ^ 16" "es \<noteq> []"
  shows "ares_parse_mx_reply (\<lambda>_. True)
      (encode_reply ids nums q qtype qclass (length es) (concat (map (encode_entry T_MX encode_mx) es))) =
    Some (ARES_SUCCESS, concat (map (entry_items mx_item) es))"
  unfolding ares_parse_mx_reply_def by (rule mx_list.record_reply_encoded [OF assms])

text \<open>
  An SRV reply gives the services among its answers, in order, with their priorities,
  weights and ports.
\<close>

lemma srv_reply_list:
  assumes "length ids = 4" "length nums = 4" "\<forall>l \<in> set q. label_ok l"
    and "\<forall>e \<in> set es. entry_ok T_SRV srv_ok e" "length es < 2 ^ 16" "es \<noteq> []"
  shows "ares_parse_srv_reply (\<lambda>_. True)
      (encode_reply ids nums q qtype qclass (length es) (concat (map (encode_entry T_SRV encode_srv) es))) =
    Some (ARES_SUCCESS, concat (map (entry_items srv_item) es))"
  unfolding ares_parse_srv_reply_def by (rule srv_list.record_reply_encoded [OF assms])

text \<open>
  A TXT reply gives the texts among its answers, in order, each with its substrings put
  together, in a buffer of exactly their size.
\<close>

lemma txt_reply_list:
  assumes "length ids = 4" "length nums = 4" "\<forall>l \<in> set q. label_ok l"
    and "\<forall>e \<in> set es. entry_ok T_TXT txt_ok e" "length es < 2 ^ 16" "es \<noteq> []"
  shows "ares_parse_txt_reply (\<lambda>_. True)
      (encode_reply ids nums q qtype qclass (length es) (concat (map (encode_entry T_TXT encode_txt) es))) =
    Some (ARES_SUCCESS, concat (map (entry_items txt_item) es))"
  unfolding ares_parse_txt_reply_def by (rule txt_list.record_reply_encoded [OF assms])

text \<open>
  C37: an MX, SRV or TXT reply means its answers: whatever else is among them, the parsers give
  the mail exchangers with their priorities, the services with their priorities, weights and
  ports, and the texts, each with its substrings put together, all in order.
\<close>

theorem record_replies_list:
  assumes "length ids = 4" "length nums = 4" "\<forall>l \<in> set q. label_ok l"
    and "length ms < 2 ^ 16" "ms \<noteq> []" "length ss < 2 ^ 16" "ss \<noteq> []" "length ts < 2 ^ 16" "ts \<noteq> []"
    and "\<forall>e \<in> set ms. entry_ok T_MX mx_ok e" "\<forall>e \<in> set ss. entry_ok T_SRV srv_ok e"
      "\<forall>e \<in> set ts. entry_ok T_TXT txt_ok e"
  shows "ares_parse_mx_reply (\<lambda>_. True)
      (encode_reply ids nums q qtype qclass (length ms) (concat (map (encode_entry T_MX encode_mx) ms))) =
      Some (ARES_SUCCESS, concat (map (entry_items mx_item) ms)) \<and>
    ares_parse_srv_reply (\<lambda>_. True)
      (encode_reply ids nums q qtype qclass (length ss) (concat (map (encode_entry T_SRV encode_srv) ss))) =
      Some (ARES_SUCCESS, concat (map (entry_items srv_item) ss)) \<and>
    ares_parse_txt_reply (\<lambda>_. True)
      (encode_reply ids nums q qtype qclass (length ts) (concat (map (encode_entry T_TXT encode_txt) ts))) =
      Some (ARES_SUCCESS, concat (map (entry_items txt_item) ts))"
  using assms by (intro conjI mx_reply_list srv_reply_list txt_reply_list)

lemma record_replies_list_witness:
  "ares_parse_mx_reply (\<lambda>_. True)
     (encode_reply [0, 7, 0x81, 0x80] [0, 0, 0, 0] [[97]] 15 1 (Suc 0)
        (encode_entry T_MX encode_mx (Wanted [[97]] 9 (10, [[98]])))) =
     Some (ARES_SUCCESS, [\<lparr>mx_host = Some [98], mx_priority = 10\<rparr>]) \<and>
   ares_parse_srv_reply (\<lambda>_. True)
     (encode_reply [0, 7, 0x81, 0x80] [0, 0, 0, 0] [[97]] 15 1 (Suc 0)
        (encode_entry T_SRV encode_srv (Wanted [[97]] 9 ((1, 2, 5060), [[98]])))) =
     Some (ARES_SUCCESS, [\<lparr>srv_host = Some [98], srv_priority = 1, srv_weight = 2, srv_port = 5060\<rparr>]) \<and>
   ares_parse_txt_reply (\<lambda>_. True)
     (encode_reply [0, 7, 0x81, 0x80] [0, 0, 0, 0] [[97]] 15 1 (Suc 0)
        (encode_entry T_TXT encode_txt (Wanted [[97]] 9 [[104, 105], [33]]))) =
     Some (ARES_SUCCESS, [\<lparr>txt_txt = Some [104, 105, 33], txt_length = 3\<rparr>])"
  using record_replies_list [of "[0, 7, 0x81, 0x80]" "[0, 0, 0, 0]" "[[97]]" "[Wanted [[97]] 9 (10, [[98]])]"
      "[Wanted [[97]] 9 ((1, 2, 5060), [[98]])]" "[Wanted [[97]] 9 [[104, 105], [33]]]" 15 1]
  by (simp add: label_ok_def MAXLABEL_def mx_ok_def mx_item_def encode_mx_def srv_ok_def srv_item_def
      encode_srv_def txt_ok_def txt_item_def encode_txt_def dotted_def dots_def escaped_def)

text \<open>
  C39: nothing stops the three parsers at the end of the reply: a record of another type whose
  data is said to be longer than what is left, with at least one more record announced, makes
  each of them read outside the reply.
\<close>

theorem record_reply_overrun:
  assumes "length ids = 4" "length nums = 4" "\<forall>l \<in> set q. label_ok l" "\<forall>l \<in> set ls. label_ok l"
    and "Suc (Suc n) < 2 ^ 16" "type < 2 ^ 16" "class < 2 ^ 16" "len < 2 ^ 16" "length d < len"
    and "type \<notin> {T_MX, T_SRV, T_TXT}"
  shows "let abuf = encode_reply ids nums q qtype qclass (Suc (Suc n))
             (encode_name ls @ rr_fixed type class ttl len @ d)
         in ares_parse_mx_reply (\<lambda>_. True) abuf = None \<and>
            ares_parse_srv_reply (\<lambda>_. True) abuf = None \<and>
            ares_parse_txt_reply (\<lambda>_. True) abuf = None"
  unfolding ares_parse_mx_reply_def ares_parse_srv_reply_def ares_parse_txt_reply_def Let_def
  by (intro conjI overrun assms(1-9)) (use assms(10) in auto)

lemma record_reply_overrun_witness:
  "let abuf = encode_reply [0, 7, 0x81, 0x80] [0, 0, 0, 0] [[97]] 15 1 (Suc (Suc 0))
             (encode_name [[97]] @ rr_fixed T_A C_IN 9 400 @ [1])
   in ares_parse_mx_reply (\<lambda>_. True) abuf = None \<and> ares_parse_srv_reply (\<lambda>_. True) abuf = None \<and>
      ares_parse_txt_reply (\<lambda>_. True) abuf = None"
  by (rule record_reply_overrun)
    (simp_all add: label_ok_def MAXLABEL_def T_A_def T_MX_def T_SRV_def T_TXT_def C_IN_def)

end
