(* ===== verification/Spec2Isabelle.thy ===== *)
theory Spec2Isabelle
  imports Zlib_Combine Zlib_Adler Ares_Nameinfo Ares_Waiting Ares_Llist
    Http_Bodies Http_Fields Http_Method Http_Session
    Ares_Query Ares_Address Ares_Hosts Ares_Records Ares_Text
begin

text \<open>
  The repository is globalsjs, a JavaScript wrapper around the Globals database, together with
  the node.js 0.6.19 that it runs on, under \<^verbatim>\<open>src/node_v0.6.19/node\<close>.  The development models
  the C code of node that reads bytes from the network: the HTTP parser with node's binding to
  it, the resolver c-ares with its DNS messages, addresses and channels of queries, and the
  checksums of zlib.

  \<^bold>\<open>Conventions.\<close>  C integers that can wrap are words of their width (\<^verbatim>\<open>int64_t\<close> lengths,
  \<^verbatim>\<open>unsigned short\<close> versions); counters that cannot are numbers.  A pointer into a buffer is an
  offset.  What C leaves undefined is a value of its own: \<open>Crash\<close> in the HTTP parser (a failed
  assertion, a read outside a table or a method name), \<open>None\<close> in c-ares (an access outside the
  buffer it belongs to).  So a theorem that gives another result says that none of it happens.
  Errors are values: \<^verbatim>\<open>http_errno\<close> in the parser's state, the left summand of an \<open>ares\<close> or
  \<open>inet\<close> result.  Callbacks, allocations and fresh memory are parameters.  All definitions are
  total functions but for loops that need not end: \<open>expand_loop\<close> in \<open>Ares_Name\<close>, which follows
  compression pointers, \<open>combine_loop\<close> in \<open>Zlib_Crc\<close> (crc32_combine_ends), and in the channels
  \<open>next_server\<close>, \<open>resend_stolen\<close>, \<open>read_packets\<close> and \<open>timeouts_in\<close>.  They are partial functions, for
  which not to return is \<open>None\<close>, like an error, so that the safety theorems show them to return; so
  are the loops over the file of hosts, which hosts_file_lookup shows to return.
  \<open>generate_unique_id\<close> is one, too, and may really run on, when all identifiers are in use; what is
  proved of \<open>ares_query\<close> is for the calls that return.

  \<^bold>\<open>HTTP parser\<close>, \<^verbatim>\<open>deps/http_parser/http_parser.[ch]\<close>.
  \<^item> \<open>Http_Types\<close>, \<open>Http_Tables\<close>: enumerations, \<^verbatim>\<open>struct http_parser\<close> as a record, the character
    tables and the names of methods and errors.
  \<^item> \<open>Http_Core\<close>: the local variables of \<^verbatim>\<open>http_parser_execute\<close>, the ways in which a handler ends
    (\<open>Break\<close>, \<open>Reexec\<close> for \<^verbatim>\<open>goto reexecute_byte\<close>, \<open>Done\<close>, \<open>Crash\<close>), the callback and error macros.
  \<^item> \<open>Http_Startline\<close>, \<open>Http_Headers\<close>, \<open>Http_Body\<close>: one definition \<open>do_x\<close> per case \<^verbatim>\<open>s_x\<close> of the
    switch, in the order of the code.
  \<^item> \<open>Http_Execute\<close>: the switch, the loop over the bytes (its measure is the number of bytes left),
    the end of a call, \<^verbatim>\<open>http_parser_init\<close> and \<^verbatim>\<open>http_should_keep_alive\<close>.
  \<^item> \<open>Http_Safety\<close>: the invariant of the parser between bytes, and that every handler keeps it.
  \<^item> \<open>Http_Stream\<close>, \<open>Http_Resume\<close>, \<open>Http_Split\<close>: a call on a stream is a call on its first part
    followed by one on the rest, for clients for which pieces of data add up (a locale).
  \<^item> \<open>Node_Parser\<close>: class \<^verbatim>\<open>Parser\<close> of \<^verbatim>\<open>src/node_http_parser.cc\<close>, its callbacks and what it hands to
    JavaScript; an instance of that locale for a JavaScript for which pieces of a body add up
    (\<open>js_streams\<close>).
  \<^item> \<open>Http_Protocol\<close>: the automaton of callbacks, as a client that only watches.
  \<^item> \<open>Http_Session\<close>: sessions as an inductive relation, and the theorems about them: no call
    crashes (session_safe), pieces do not matter (node_stream_cuts), callbacks come in order
    (callbacks_in_order), node's assertions hold (node_never_aborts).
  \<^item> \<open>Http_Method\<close>, \<open>Http_Fields\<close>, \<open>Http_Bodies\<close>: what is recognised against reference
    definitions: methods, header names, decimal lengths and the chunked coding.
  \<^item> A handler is run on one byte; \<open>execute_loop\<close> stops by itself, so no fuel is needed.

  \<^bold>\<open>c-ares\<close>, \<^verbatim>\<open>deps/uv/src/ares\<close>.
  \<^item> \<open>Ares_Base\<close>: status codes, results, the macros of \<^verbatim>\<open>ares_dns.h\<close>, \<^verbatim>\<open>ares_strcasecmp\<close>, and the loop
    over the answers of a reply with its contract (the locale \<open>answer_loop\<close>).
  \<^item> \<open>Ares_Name\<close>: \<^verbatim>\<open>ares_expand_name.c\<close> and \<^verbatim>\<open>ares_expand_string.c\<close>; on any message expansion ends and
    stays in bounds, on an encoded name it gives the name back.
  \<^item> \<open>Ares_Query\<close>: \<^verbatim>\<open>ares_mkquery.c\<close>; exactly which names make it write outside its buffer, and that
    the name is read back otherwise.
  \<^item> \<open>Ares_Reply\<close>, \<open>Ares_Address\<close>, \<open>Ares_Hosts\<close>, \<open>Ares_Records\<close>: the parsers of replies.  The code of
    the seven functions is much the same; what they share is a definition with parameters.  For each
    there is its behaviour on any bytes, and what it returns for a reply that
    encodes given answers without compressed names, against a specification over the answers
    (\<open>resolve\<close>, \<open>server_names\<close>, \<open>names_of\<close>, \<open>entry_items\<close>).  In \<open>resolve\<close> and \<open>names_of\<close> every alias counts,
    as in the code; \<open>follow\<close> and \<open>names_for\<close> take only the aliases of the name in force, and agree with them
    on replies in which there are no others (\<open>chained\<close>).
  \<^item> \<open>Ares_Ntop\<close>, \<open>Ares_Pton\<close>, \<open>Ares_Text\<close>: \<^verbatim>\<open>inet_ntop.c\<close> and \<^verbatim>\<open>inet_net_pton.c\<close>: bounds, and that reading
    inverts printing for both address families.

  \<^item> \<open>Ares_Match\<close>: \<^verbatim>\<open>same_questions\<close> and \<^verbatim>\<open>same_address\<close>, which decide what is an answer.
  \<^item> \<open>Ares_Channel\<close>, \<open>Ares_Process\<close>: channels, from \<^verbatim>\<open>ares_process.c\<close>, \<^verbatim>\<open>ares_send.c\<close>,
    \<^verbatim>\<open>ares__close_sockets.c\<close> and \<^verbatim>\<open>ares_cancel.c\<close>.  The state is the record \<open>channel\<close>, after
    \<^verbatim>\<open>struct ares_channeldata\<close>; queries are objects on its heap, at addresses that are not used
    again, and a list that is linked through queries is a list of addresses.  A function of C is a
    function of the channel with the same name; loop bodies and parts that are long have names of
    their own.  What the system answers (allocation, sockets, \<^verbatim>\<open>rand\<close>) is the record \<open>world\<close>, functions
    of the number of questions asked before; packets that arrive are a field of the channel.
  \<^item> \<open>Ares_Invariant\<close>: the invariant \<open>chan_ok X\<close>, in which the queries of \<open>X\<close> may be away from their
    lists while they are worked on.  \<open>Ares_Sending\<close>, \<open>Ares_Running\<close>: every operation keeps it and
    returns, and what becomes of a query that had its time.
  \<^item> \<open>Ares_Session\<close>: the calls of a client as an inductive relation, and the theorems: no call
    crashes (channel_safe), queries are on their lists and have one callback (query_once), they end
    (query_ends), and what answers do (answer_only_matching, answer_delivered).
  \<^item> \<open>Ares_Llist\<close>: \<^verbatim>\<open>ares_llist.c\<close> on a heap of nodes; that it refines lists (linked_lists_refine) is why
    the lists of the channels are lists here.
  \<^item> \<open>Ares_Ident\<close>: \<^verbatim>\<open>ares_query.c\<close> and the key in \<^verbatim>\<open>ares_init.c\<close>; a query by name is the composition of
    \<^verbatim>\<open>ares_mkquery\<close> and \<^verbatim>\<open>ares_send\<close>, and its replies are recognised (query_recognised).
  \<^item> \<open>Ares_Waiting\<close>: \<^verbatim>\<open>ares_timeout.c\<close>, \<^verbatim>\<open>ares_getsock.c\<close>, \<^verbatim>\<open>ares_fds.c\<close>: how long and for what a client waits.
  \<^item> \<open>Ares_Search\<close>: \<^verbatim>\<open>ares_search.c\<close>; the answers to queries are a parameter, and the names are asked for
    in the order of \<open>candidates\<close> (search_order).
  \<^item> \<open>Ares_Hostfile\<close>: \<^verbatim>\<open>ares__read_line.c\<close>, \<^verbatim>\<open>ares__get_hostent.c\<close> and looking for a host in the file
    of hosts, against its lines and their words (hosts_file_lookup).
  \<^item> \<open>Ares_Lookup\<close>: \<^verbatim>\<open>ares_gethostbyname.c\<close>, \<^verbatim>\<open>ares_gethostbyaddr.c\<close>, \<^verbatim>\<open>bitncmp.c\<close>; a lookup composes the
    search, the parsers of replies and the insertion sort of addresses, which is a stable sort by
    the place of the first matching pattern (host_lookup, for either family and for both).
  \<^item> \<open>Ares_Nameinfo\<close>: \<^verbatim>\<open>ares_getnameinfo.c\<close>.

  \<^bold>\<open>zlib\<close>, \<^verbatim>\<open>deps/zlib\<close>.
  \<^item> \<open>Zlib_Tables\<close>: the numbers of \<^verbatim>\<open>crc32.h\<close>.
  \<^item> \<open>Zlib_Register\<close>: \<^verbatim>\<open>make_crc_table\<close> as a shift register, which is linear over exclusive-or; so a
    table follows from eight of its entries, and the numbers are shown to be right.
  \<^item> \<open>Zlib_Crc\<close>: \<^verbatim>\<open>crc32\<close> for both byte orders, with the loops over 32, 4 and single bytes, and
    \<^verbatim>\<open>crc32_combine\<close> with its matrices as arrays of 32 numbers.
  \<^item> \<open>Zlib_Crc_Spec\<close>: the checksum fed bit by bit, and that the loops compute it: what they need of
    the steps is the locale \<open>word_steps\<close>, with an instance for each byte order.
  \<^item> \<open>Zlib_Combine\<close>: the matrices are powers of the step for a zero bit.
  \<^item> \<open>Zlib_Adler\<close>: \<^verbatim>\<open>adler32.c\<close>, for words of any width from 32 bits on; the sums as numbers, which the
    words are shown not to exceed, and the combination with its two wrong values.

  \<^bold>\<open>What went wrong.\<close>  Modelling showed a one-byte overflow in \<^verbatim>\<open>ares_mkquery\<close> (mkquery_bounds),
  reads past the end in three reply parsers (record_reply_overrun), a use of freed memory after
  \<^verbatim>\<open>ares_cancel\<close> (cancel_dangling), identifiers that are looked for with their bytes swapped and drawn
  from a spoilt generator (id_in_use, init_key_state), the text of fresh memory for an address in
  \<^verbatim>\<open>ares_getnameinfo\<close> (nameinfo_address), sums of a combined Adler-32 that are the modulus
  (adler32_combine_correct), a success without a result
  in \<^verbatim>\<open>ares_inet_pton\<close> (inet_pton_overlong), aliases of other names that are followed
  (address_replies_resolve, name_replies_resolve), and lengths from $2^{63}$ on that overflow a signed
  number and come out negative (content_length_decimal).

  \<^bold>\<open>Bounds.\<close>  The allocator's answers are a function from the place of the call, so that every
  failure path is reachable.  Messages may be any list of bytes; the theorems that describe
  encoded replies assume labels of 1 to 63 bytes, and counts below $2^{16}$ as the header has
  them.  The code is taken as on Linux: 64-bit \<^verbatim>\<open>size_t\<close>, \<^verbatim>\<open>AF_INET6\<close> 10, \<^verbatim>\<open>HTTP_PARSER_DEBUG\<close> off;
  \<^verbatim>\<open>HTTP_PARSER_STRICT\<close> is a parameter.  Channels have a configuration for which waiting times and the
  number of servers times that of tries fit into an \<^verbatim>\<open>int\<close> (\<open>config_fits\<close>), clients have a clock that does
  not go back, and a callback does not call the channel again.  Three overflows are not \<open>None\<close> or \<open>Crash\<close>
  although C leaves them undefined: \<^verbatim>\<open>content_length\<close> of the HTTP parser and the counter of TCP connections
  of a channel wrap around, as words of 64 and 32 bits, and seconds are numbers without bounds.

  \<^bold>\<open>Not modelled.\<close>  How c-ares reads its configuration; libuv, which is system calls for the most part; zlib's compression; V8
  and OpenSSL; the bindings of node other than the HTTP parser.  JavaScript is whatever answers the
  calls of the HTTP binding: an arbitrary state machine (\<open>js\<close>), whose functions may be missing or throw.
\<close>

section \<open>Properties that span components\<close>

text \<open>
  C35: the parsers of replies that give a host entry stay in bounds.  On any bytes, with any
  answers of the allocator, and an array as large as the caller says, the parsers of A, AAAA, NS
  and PTR replies read inside the reply, write inside their arrays, those that are doubled
  included, and return; only a success has a host entry, and the NS and PTR parsers give one
  exactly on success.
\<close>

theorem host_replies_safe:
  assumes "\<And>xs n. addrttls = Some xs \<Longrightarrow> naddrttls = Some n \<Longrightarrow> n \<le> int (length xs)"
  shows "(\<exists>r. ares_parse_a_reply mem abuf host addrttls naddrttls = Some r \<and>
           (ar_status r \<noteq> ARES_SUCCESS \<longrightarrow> ar_host r = None)) \<and>
         (\<exists>r. ares_parse_aaaa_reply mem abuf host addrttls naddrttls = Some r \<and>
           (ar_status r \<noteq> ARES_SUCCESS \<longrightarrow> ar_host r = None)) \<and>
         (\<exists>st h. ares_parse_ns_reply mem abuf = Some (st, h) \<and> (h \<noteq> None \<longleftrightarrow> st = ARES_SUCCESS)) \<and>
         (\<exists>st h. ares_parse_ptr_reply mem abuf addr family = Some (st, h) \<and>
           (h \<noteq> None \<longleftrightarrow> st = ARES_SUCCESS))"
  using address_reply_safe [OF assms, where mem = mem and abuf = abuf and host = host]
    host_reply_safe [where mem = mem and abuf = abuf and addr = addr and family = family] by blast

lemma host_replies_safe_witness:
  "(\<exists>r. ares_parse_a_reply (\<lambda>_. True) [1, 2, 3] True (Some [([], 0)]) (Some 1) = Some r \<and>
      (ar_status r \<noteq> ARES_SUCCESS \<longrightarrow> ar_host r = None)) \<and>
   (\<exists>r. ares_parse_aaaa_reply (\<lambda>_. True) [1, 2, 3] True (Some [([], 0)]) (Some 1) = Some r \<and>
      (ar_status r \<noteq> ARES_SUCCESS \<longrightarrow> ar_host r = None)) \<and>
   (\<exists>st h. ares_parse_ns_reply (\<lambda>_. True) [1, 2, 3] = Some (st, h) \<and> (h \<noteq> None \<longleftrightarrow> st = ARES_SUCCESS)) \<and>
   (\<exists>st h. ares_parse_ptr_reply (\<lambda>_. True) [1, 2, 3] [127, 0, 0, 1] AF_INET = Some (st, h) \<and>
      (h \<noteq> None \<longleftrightarrow> st = ARES_SUCCESS))"
  by (rule host_replies_safe) auto

end
